(* ===== verification/Prelude.thy ===== *)
theory Prelude
  imports "HOL-Library.Word"
begin

text \<open>
  What the components share: the machine integers of the C code as words, the faults a C
  statement can run into as values, and the generic facts on words, lists and options that the
  component proofs use.

  A C statement that dereferences NULL, fails an \<open>assert\<close>, calls \<open>abort\<close> or reads outside an
  array has no value. An operation that can reach such a statement returns a \<open>res\<close>: the
  value, or the fault it stopped at. Operations that cannot fault return their value directly.
\<close>

unbundle bit_operations_syntax

section \<open>Machine integers\<close>

type_synonym u8 = "8 word"
type_synonym u16 = "16 word"
type_synonym u32 = "32 word"
type_synonym u64 = "64 word"

text \<open>\<open>UINT64_MAX\<close>.\<close>

abbreviation UINT64_MAX :: u64 where
  "UINT64_MAX \<equiv> 0xFFFFFFFFFFFFFFFF"

section \<open>Faults\<close>

datatype fault = NullDeref | AssertFailed | Aborted | OutOfBounds | BadConversion | DivideByZero

datatype 'a res = Ok 'a | Fault fault

fun res_bind :: "'a res \<Rightarrow> ('a \<Rightarrow> 'b res) \<Rightarrow> 'b res" where
  "res_bind (Ok x) f = f x"
| "res_bind (Fault e) f = Fault e"

lemma res_bind_Ok_iff: "res_bind m f = Ok y \<longleftrightarrow> (\<exists>x. m = Ok x \<and> f x = Ok y)"
  by (cases m) auto

lemma res_bind_Ok_right [simp]: "res_bind m Ok = m"
  by (cases m) auto

lemma res_bind_assoc: "res_bind (res_bind m f) g = res_bind m (\<lambda>x. res_bind (f x) g)"
  by (cases m) auto

section \<open>Collections of facts\<close>

text \<open>
  \<open>byte_simps\<close>: how bytes are cut out of a word and put together again.
  \<open>abs_simps\<close>: how an operation on a detailed state acts on its abstraction.
\<close>

named_theorems byte_simps
named_theorems abs_simps

section \<open>Words\<close>

lemma shift_add_byte_or: "push_bit 8 (v::u64) + ucast (b::u8) = push_bit 8 v OR ucast b"
proof (rule disjunctive_add)
  fix n
  show "\<not> bit (push_bit 8 v) n \<or> \<not> bit (ucast b :: u64) n"
    using bit_imp_le_length [of b n] by (auto simp: bit_simps)
qed

text \<open>Appending the next lower byte of \<open>n\<close> to what is above it gives \<open>n\<close> down to that byte.\<close>

lemma byte_step: "push_bit 8 (drop_bit (k + 8) n) + ucast (ucast (drop_bit k n) :: u8) = drop_bit k (n::u64)"
  unfolding shift_add_byte_or
  by (rule bit_word_eqI) (auto simp: bit_simps add.assoc not_less)

lemma byte_steps [byte_simps]:
  "push_bit 8 (drop_bit 56 n) + ucast (ucast (drop_bit 48 n) :: u8) = drop_bit 48 (n::u64)"
  "push_bit 8 (drop_bit 48 n) + ucast (ucast (drop_bit 40 n) :: u8) = drop_bit 40 n"
  "push_bit 8 (drop_bit 40 n) + ucast (ucast (drop_bit 32 n) :: u8) = drop_bit 32 n"
  "push_bit 8 (drop_bit 32 n) + ucast (ucast (drop_bit 24 n) :: u8) = drop_bit 24 n"
  "push_bit 8 (drop_bit 24 n) + ucast (ucast (drop_bit 16 n) :: u8) = drop_bit 16 n"
  "push_bit 8 (drop_bit 16 n) + ucast (ucast (drop_bit 8 n) :: u8) = drop_bit 8 n"
  "push_bit 8 (drop_bit 8 n) + ucast (ucast n :: u8) = n"
  using byte_step [of 48 n] byte_step [of 40 n] byte_step [of 32 n] byte_step [of 24 n]
    byte_step [of 16 n] byte_step [of 8 n] byte_step [of 0 n] by simp_all

lemma top_byte [byte_simps]: "ucast (ucast (drop_bit 56 n) :: u8) = drop_bit 56 (n::u64)"
  by (rule bit_word_eqI) (auto simp: bit_simps dest: bit_imp_le_length)

end
