(* ===== verification/IntFormat.thy ===== *)
theory IntFormat
  imports Prelude
begin

text \<open>
  \<open>picoquic/intformat.c\<close>: fixed-width big-endian integers and the QUIC variable-length
  integers. A buffer that the C code writes through a pointer is the list of the bytes
  written; a buffer it reads, given as a pointer and a size, is the list of the bytes that may
  be read. The \<open>PICOPARSE_*\<close> macros of \<open>picoquic_internal.h\<close> are the readers that match.
\<close>

section \<open>Fixed-width integers\<close>

definition picoformat_16 :: "u16 \<Rightarrow> u8 list" where
  "picoformat_16 n16 = [ucast (drop_bit 8 n16), ucast n16]"

definition picoformat_24 :: "u32 \<Rightarrow> u8 list" where
  "picoformat_24 n24 = [ucast (drop_bit 16 n24), ucast (drop_bit 8 n24), ucast n24]"

definition picoformat_32 :: "u32 \<Rightarrow> u8 list" where
  "picoformat_32 n32 =
     [ucast (drop_bit 24 n32), ucast (drop_bit 16 n32), ucast (drop_bit 8 n32), ucast n32]"

definition picoformat_64 :: "u64 \<Rightarrow> u8 list" where
  "picoformat_64 n64 =
     [ucast (drop_bit 56 n64), ucast (drop_bit 48 n64), ucast (drop_bit 40 n64),
      ucast (drop_bit 32 n64), ucast (drop_bit 24 n64), ucast (drop_bit 16 n64),
      ucast (drop_bit 8 n64), ucast n64]"

definition picoparse_16 :: "u8 list \<Rightarrow> u16" where
  "picoparse_16 b = push_bit 8 (ucast (b ! 0)) OR ucast (b ! 1)"

definition picoparse_24 :: "u8 list \<Rightarrow> u32" where
  "picoparse_24 b = push_bit 8 (ucast (picoparse_16 b)) OR ucast (b ! 2)"

definition picoparse_32 :: "u8 list \<Rightarrow> u32" where
  "picoparse_32 b = push_bit 16 (ucast (picoparse_16 b)) OR ucast (picoparse_16 (drop 2 b))"

definition picoparse_64 :: "u8 list \<Rightarrow> u64" where
  "picoparse_64 b = push_bit 32 (ucast (picoparse_32 b)) OR ucast (picoparse_32 (drop 4 b))"

section \<open>Variable-length integers\<close>

definition picoquic_encode_varint_length :: "u64 \<Rightarrow> nat" where
  "picoquic_encode_varint_length n64 =
     (if n64 < 16384 then (if n64 < 64 then 1 else 2)
      else (if n64 < 1073741824 then 4 else 8))"

definition picoquic_decode_varint_length :: "u8 \<Rightarrow> nat" where
  "picoquic_decode_varint_length byte = push_bit (unat (drop_bit 6 (byte AND 0xC0))) 1"

text \<open>
  The encoder writes nothing and returns 0 when the encoding does not fit in \<open>max_bytes\<close>; the
  value returned by the C function is the length of the list.
\<close>

definition picoquic_varint_encode :: "nat \<Rightarrow> u64 \<Rightarrow> u8 list" where
  "picoquic_varint_encode max_bytes n64 =
     (if n64 < 16384 then
        if n64 < 64 then
          if max_bytes > 0 then [ucast n64] else []
        else
          if max_bytes \<ge> 2 then [ucast (drop_bit 8 n64 OR 0x40), ucast n64] else []
      else if n64 < 1073741824 then
        if max_bytes \<ge> 4 then
          [ucast (drop_bit 24 n64 OR 0x80), ucast (drop_bit 16 n64), ucast (drop_bit 8 n64),
           ucast n64]
        else []
      else
        if max_bytes \<ge> 8 then
          [ucast (drop_bit 56 n64 OR 0xC0), ucast (drop_bit 48 n64), ucast (drop_bit 40 n64),
           ucast (drop_bit 32 n64), ucast (drop_bit 24 n64), ucast (drop_bit 16 n64),
           ucast (drop_bit 8 n64), ucast n64]
        else [])"

definition picoquic_varint_encode_16 :: "u16 \<Rightarrow> u8 list" where
  "picoquic_varint_encode_16 n16 =
     [ucast ((drop_bit 8 n16 OR 0x40) AND 0x7F), ucast n16]"

text \<open>The loop of the decoder: one more byte at the low end of \<open>v\<close>.\<close>

fun varint_loop :: "u64 \<Rightarrow> u8 list \<Rightarrow> u64" where
  "varint_loop v [] = v"
| "varint_loop v (b # bs) = varint_loop (push_bit 8 v + ucast b) bs"

text \<open>The decoder returns the number of bytes consumed (0 on error) and the value stored.\<close>

definition picoquic_varint_decode :: "u8 list \<Rightarrow> nat \<times> u64" where
  "picoquic_varint_decode bytes =
     (case bytes of
        [] \<Rightarrow> (0, 0)
      | b0 # bs \<Rightarrow>
          let len = push_bit (unat (drop_bit 6 (b0 AND 0xC0))) (1::nat) in
          if len > length bytes then (0, 0)
          else (len, varint_loop (ucast b0 AND 0x3F) (take (len - 1) bs)))"

definition picoquic_varint_skip :: "u8 list \<Rightarrow> nat" where
  "picoquic_varint_skip bytes = picoquic_decode_varint_length (bytes ! 0)"

section \<open>Facts\<close>

lemma drop_six_less: "unat (drop_bit 6 (b::u8)) < 4"
  using unsigned_less [of b, where 'a = nat]
  by (simp add: unat_drop_bit_eq drop_bit_eq_div [where 'a = nat] less_mult_imp_div_less)

lemmas varint_prefix_less = drop_six_less [of "b AND 0xC0" for b]

lemma decode_varint_length_range: "picoquic_decode_varint_length b \<in> {1, 2, 4, 8}"
proof -
  have "unat (drop_bit 6 (b AND 0xC0)) \<in> {0, 1, 2, 3}"
    using varint_prefix_less [of b] by auto
  then show ?thesis by (auto simp: picoquic_decode_varint_length_def push_bit_eq_mult)
qed

lemma length_varint_encode:
  "length (picoquic_varint_encode m n) =
     (if picoquic_encode_varint_length n \<le> m then picoquic_encode_varint_length n else 0)"
  by (auto simp: picoquic_varint_encode_def picoquic_encode_varint_length_def)

text \<open>The two length bits and the six value bits of a first byte.\<close>

lemma low_six: "(0x3F::u8) = mask 6" and high_two: "(0xC0::u8) = push_bit 6 (mask 2)"
  by (simp_all add: mask_eq_exp_minus_1)

lemma prefix_value:
  fixes x t :: u8
  assumes "take_bit 6 x = x"
  shows "(x OR push_bit 6 t) AND 0x3F = x"
  unfolding low_six by (subst (1 2) assms [symmetric]) (rule bit_word_eqI, auto simp: bit_simps)

lemma prefix_tag:
  fixes x t :: u8
  assumes "take_bit 6 x = x"
  shows "drop_bit 6 ((x OR push_bit 6 t) AND 0xC0) = take_bit 2 t"
  unfolding high_two by (subst assms [symmetric]) (rule bit_word_eqI, auto simp: bit_simps)

lemma tag_words: "(0x40::u8) = push_bit 6 1" "(0x80::u8) = push_bit 6 2" "(0xC0::u8) = push_bit 6 3"
  by simp_all

lemma word_less_take_bit: "n < 2 ^ k \<Longrightarrow> take_bit k (n::u64) = n"
  by (simp add: take_bit_eq_mod mod_word_less)

lemma high_byte:
  fixes n :: u64
  assumes "n < 2 ^ (k + 6)"
  shows "ucast (ucast (drop_bit k n) :: u8) = drop_bit k n" (is ?a)
    and "take_bit 6 (ucast (drop_bit k n) :: u8) = ucast (drop_bit k n)" (is ?b)
proof -
  have n: "n = take_bit (k + 6) n" by (simp add: word_less_take_bit assms)
  show ?a by (subst (1 2) n) (rule bit_word_eqI, auto simp: bit_simps)
  show ?b by (subst (1 2) n) (rule bit_word_eqI, auto simp: bit_simps)
qed

lemma byte_of_take_bit:
  "k + 8 \<le> m \<Longrightarrow> (ucast (drop_bit k (take_bit m n)) :: u8) = ucast (drop_bit k (n::u64))"
  by (rule bit_word_eqI) (auto simp: bit_simps)

lemma high_byte_62:
  "ucast (take_bit 6 (ucast (drop_bit 56 n) :: u8)) = drop_bit 56 (take_bit 62 (n::u64))"
  by (rule bit_word_eqI) (auto simp: bit_simps)

lemma tagged_high_byte:
  fixes x t :: u8
  shows "(x OR push_bit 6 t) AND 0x3F = take_bit 6 x"
    and "(x OR 0xC0) AND 0x3F = take_bit 6 x"
    and "(x OR 0xC0) AND 0xC0 = 0xC0"
  unfolding low_six high_two by (rule bit_word_eqI, auto simp: bit_simps)+

lemma varint_decode_Cons:
  "picoquic_varint_decode (b # bs) =
     (let len = picoquic_decode_varint_length b in
      if length bs + 1 < len then (0, 0)
      else (len, varint_loop (ucast (b AND 0x3F)) (take (len - 1) bs)))"
  by (simp add: picoquic_varint_decode_def picoquic_decode_varint_length_def Let_def
      unsigned_and_eq)

lemma low_byte_of_take_bit: "8 \<le> m \<Longrightarrow> (ucast (take_bit m n) :: u8) = ucast (n::u64)"
  using byte_of_take_bit [of 0 m n] by simp

lemma varint_loop_bytes:
  "varint_loop (drop_bit 56 n)
     [ucast (drop_bit 48 n), ucast (drop_bit 40 n), ucast (drop_bit 32 n), ucast (drop_bit 24 n),
      ucast (drop_bit 16 n), ucast (drop_bit 8 n), ucast n] = n"
  "varint_loop (drop_bit 24 n) [ucast (drop_bit 16 n), ucast (drop_bit 8 n), ucast n] = n"
  "varint_loop (drop_bit 8 n) [ucast n] = n"
  by (simp_all add: byte_simps)

lemma decode_encode_8:
  assumes "\<not> n < 1073741824" "8 \<le> m"
  shows "picoquic_varint_decode (picoquic_varint_encode m n @ rest) = (8, take_bit 62 n)"
proof -
  have "\<not> n < 16384" using assms(1) less_trans [of n 16384 1073741824] by auto
  then show ?thesis
    using assms varint_loop_bytes(1) [of "take_bit 62 n"]
    by (simp add: picoquic_varint_encode_def varint_decode_Cons picoquic_decode_varint_length_def
          unsigned_or_eq tagged_high_byte
          high_byte_62 byte_of_take_bit low_byte_of_take_bit del: varint_loop.simps)
qed

lemma decode_encode_4:
  assumes "n < 1073741824" "\<not> n < 16384" "4 \<le> m"
  shows "picoquic_varint_decode (picoquic_varint_encode m n @ rest) = (4, n)"
  using assms varint_loop_bytes(2) [of n] high_byte [of n 24]
    prefix_value [of "ucast (drop_bit 24 n)" 2] prefix_tag [of "ucast (drop_bit 24 n)" 2]
  by (simp add: picoquic_varint_encode_def varint_decode_Cons picoquic_decode_varint_length_def
        unsigned_or_eq del: varint_loop.simps)

lemma decode_encode_2:
  assumes "n < 16384" "\<not> n < 64" "2 \<le> m"
  shows "picoquic_varint_decode (picoquic_varint_encode m n @ rest) = (2, n)"
  using assms varint_loop_bytes(3) [of n] high_byte [of n 8]
    prefix_value [of "ucast (drop_bit 8 n)" 1] prefix_tag [of "ucast (drop_bit 8 n)" 1]
  by (simp add: picoquic_varint_encode_def varint_decode_Cons picoquic_decode_varint_length_def
        unsigned_or_eq del: varint_loop.simps)

lemma decode_encode_1:
  assumes "n < 64" "1 \<le> m"
  shows "picoquic_varint_decode (picoquic_varint_encode m n @ rest) = (1, n)"
  using assms high_byte [of n 0] less_trans [of n 64 16384]
    prefix_value [of "ucast n" 0] prefix_tag [of "ucast n" 0]
  by (simp add: picoquic_varint_encode_def varint_decode_Cons picoquic_decode_varint_length_def)

lemma varint_decode_encode:
  assumes "picoquic_encode_varint_length n \<le> m"
  shows "picoquic_varint_decode (picoquic_varint_encode m n @ rest)
           = (length (picoquic_varint_encode m n), take_bit 62 n)"
proof (cases "n < 1073741824")
  case True
  then have "take_bit 62 n = n"
    using less_trans [of n 1073741824 "2 ^ 62"] by (simp add: word_less_take_bit)
  with True assms show ?thesis
    using decode_encode_4 decode_encode_2 decode_encode_1
    by (cases "n < 64"; cases "n < 16384")
      (simp_all add: length_varint_encode picoquic_encode_varint_length_def)
next
  case False
  with assms less_trans [of n 16384 1073741824] show ?thesis
    by (auto simp: length_varint_encode picoquic_encode_varint_length_def decode_encode_8)
qed

lemma decode_nonempty_length:
  assumes "picoquic_encode_varint_length n \<le> m"
  shows "\<exists>b bs. picoquic_varint_encode m n = b # bs
           \<and> picoquic_decode_varint_length b = picoquic_encode_varint_length n"
proof -
  obtain b bs where e: "picoquic_varint_encode m n = b # bs"
    using assms length_varint_encode [of m n]
    by (cases "picoquic_varint_encode m n")
      (auto simp: picoquic_encode_varint_length_def split: if_splits)
  have "fst (picoquic_varint_decode (b # bs)) = picoquic_encode_varint_length n"
    using decode_encode_1 [of n m "[]"] decode_encode_2 [of n m "[]"]
      decode_encode_4 [of n m "[]"] decode_encode_8 [of n m "[]"] assms
    by (auto simp: e picoquic_encode_varint_length_def split: if_splits)
  then show ?thesis
    using e decode_varint_length_range [of b]
    by (auto simp: varint_decode_Cons Let_def picoquic_encode_varint_length_def split: if_splits)
qed

lemma picoparse_format_16: "picoparse_16 (picoformat_16 n @ rest) = n"
  unfolding picoparse_16_def picoformat_16_def
  by (simp, rule bit_word_eqI, auto simp: bit_simps)

lemma picoparse_format_24: "picoparse_24 (picoformat_24 n @ rest) = take_bit 24 n"
  unfolding picoparse_24_def picoparse_16_def picoformat_24_def
  by (simp, rule bit_word_eqI, auto simp: bit_simps not_less)

lemma picoformat_32_halves:
  "picoformat_32 n = picoformat_16 (ucast (drop_bit 16 n)) @ picoformat_16 (ucast n)"
  unfolding picoformat_32_def picoformat_16_def
  by (simp, intro conjI; rule bit_word_eqI, auto simp: bit_simps)

lemma picoformat_64_halves:
  "picoformat_64 n = picoformat_32 (ucast (drop_bit 32 n)) @ picoformat_32 (ucast n)"
  unfolding picoformat_64_def picoformat_32_def
  by (simp, intro conjI; rule bit_word_eqI, auto simp: bit_simps)

lemma length_picoformat [simp]:
  "length (picoformat_16 a) = 2" "length (picoformat_24 b) = 3"
  "length (picoformat_32 c) = 4" "length (picoformat_64 d) = 8"
  by (simp_all add: picoformat_16_def picoformat_24_def picoformat_32_def picoformat_64_def)

lemma picoparse_format_32: "picoparse_32 (picoformat_32 n @ rest) = n"
  unfolding picoparse_32_def picoformat_32_halves
  by (simp add: picoparse_format_16, rule bit_word_eqI, auto simp: bit_simps)

lemma picoparse_format_64: "picoparse_64 (picoformat_64 n @ rest) = n"
  unfolding picoparse_64_def picoformat_64_halves
  by (simp add: picoparse_format_32, rule bit_word_eqI, auto simp: bit_simps)

lemma picoparse_16_snoc: "picoparse_16 [a, b] = push_bit 8 (ucast a) OR ucast b"
  by (simp add: picoparse_16_def)

section \<open>Properties\<close>

text \<open>
  C25: decoding what the encoder wrote returns the number of bytes written and the value, whatever
  bytes follow; a value of more than 62 bits comes back without its two top bits, because the
  length tag is written over them.
\<close>

theorem varint_roundtrip:
  assumes "picoquic_encode_varint_length n \<le> m"
  shows "picoquic_varint_decode (picoquic_varint_encode m n @ rest)
           = (length (picoquic_varint_encode m n), take_bit 62 n)"
  using assms by (rule varint_decode_encode)

theorem varint_roundtrip_witness:
  "picoquic_varint_decode (picoquic_varint_encode 8 494878333 @ [7]) = (4, 494878333)"
  using varint_roundtrip [of 494878333 8 "[7]"]
  by (simp add: picoquic_encode_varint_length_def length_varint_encode)

text \<open>
  Also: each fixed-width writer is undone by the macro that reads the same width, with any bytes
  after it (the 24-bit writer keeps the low 24 bits of its 32-bit argument).
\<close>

theorem fixed_width_roundtrip:
  "picoparse_16 (picoformat_16 a @ rest) = a \<and>
   picoparse_24 (picoformat_24 b @ rest) = take_bit 24 b \<and>
   picoparse_32 (picoformat_32 c @ rest) = c \<and>
   picoparse_64 (picoformat_64 d @ rest) = d"
  by (simp add: picoparse_format_16 picoparse_format_24 picoparse_format_32 picoparse_format_64)

lemma take_bit_bitE:
  assumes "take_bit k v = (v::u64)" "bit v i"
  shows "i < k"
  using assms by (metis bit_take_bit_iff)

lemma take_bit_next_byte:
  "take_bit k (v::u64) = v \<Longrightarrow> take_bit (k + 8) (push_bit 8 v + ucast (b::u8)) = push_bit 8 v + ucast b"
  unfolding shift_add_byte_or
  by (rule bit_word_eqI) (auto simp: bit_simps dest: bit_imp_le_length take_bit_bitE)

lemma take_bit_varint_loop:
  "take_bit k v = v \<Longrightarrow> take_bit (k + 8 * length bs) (varint_loop v bs) = varint_loop v bs"
proof (induction bs arbitrary: v k)
  case (Cons b bs)
  from Cons.IH [OF take_bit_next_byte [OF Cons.prems]] show ?case by (simp add: algebra_simps)
qed simp

lemma varint_decode_bound:
  "fst (picoquic_varint_decode bs) \<le> length bs \<and>
   (fst (picoquic_varint_decode bs) = 0 \<longleftrightarrow>
      bs = [] \<or> length bs < picoquic_decode_varint_length (hd bs)) \<and>
   (fst (picoquic_varint_decode bs) = 0 \<longleftrightarrow> picoquic_varint_decode bs = (0, 0)) \<and>
   snd (picoquic_varint_decode bs) < 2 ^ 62"
proof (cases bs)
  case Nil
  then show ?thesis by (simp add: picoquic_varint_decode_def)
next
  case (Cons b rest)
  define len where "len = picoquic_decode_varint_length b"
  have len: "len \<in> {1, 2, 4, 8}" unfolding len_def by (rule decode_varint_length_range)
  define v where "v = varint_loop (ucast (b AND 0x3F)) (take (len - 1) rest)"
  have "take_bit 6 (ucast (b AND 0x3F)) = (ucast (b AND 0x3F) :: u64)"
    unfolding low_six by (rule bit_word_eqI) (auto simp: bit_simps)
  then have v: "take_bit (6 + 8 * length (take (len - 1) rest)) v = v"
    unfolding v_def by (rule take_bit_varint_loop)
  have "min 62 (6 + 8 * length (take (len - 1) rest)) = 6 + 8 * length (take (len - 1) rest)"
    using len by auto
  then have "take_bit 62 v = v"
    using take_bit_take_bit [of 62 "6 + 8 * length (take (len - 1) rest)" v] v by (simp only:)
  then have "v < 2 ^ 62"
    using word_mod_less_divisor [of "2 ^ 62" v] by (simp add: take_bit_eq_mod)
  moreover have "picoquic_varint_decode bs = (if length bs < len then (0, 0) else (len, v))"
    by (simp add: Cons varint_decode_Cons Let_def v_def len_def)
  moreover have "0 < len" using len by auto
  ultimately show ?thesis using Cons by (simp add: len_def [symmetric])
qed

text \<open>
  Also: the decoder is safe on every input. It consumes at most the buffer, it reports an error
  (0 bytes, value 0) exactly when the buffer is shorter than the length that its first byte
  announces, and the value it stores has at most 62 bits.
\<close>

theorem varint_decode_safe:
  "fst (picoquic_varint_decode bs) \<le> length bs \<and>
   (fst (picoquic_varint_decode bs) = 0 \<longleftrightarrow>
      bs = [] \<or> length bs < picoquic_decode_varint_length (hd bs)) \<and>
   (fst (picoquic_varint_decode bs) = 0 \<longleftrightarrow> picoquic_varint_decode bs = (0, 0)) \<and>
   snd (picoquic_varint_decode bs) < 2 ^ 62"
  by (rule varint_decode_bound)

end
