(* ===== verification/FrameCodec.thy ===== *)
theory FrameCodec
  imports IntFormat "HOL-Library.Sublist"
begin

text \<open>
  The buffer primitives of \<open>picoquic/util.c\<close> on which every frame and header parser is built.
  A pair of pointers \<open>(bytes, bytes_max)\<close> into a packet is the list of the bytes from
  \<open>bytes\<close> up to \<open>bytes_max\<close>. A decoder returns NULL, here \<open>None\<close>, or the pointer after the
  field, here the list of the bytes that remain; a value it stores through a pointer is returned
  beside it. An encoder is given the room that is left, and returns NULL or the bytes written.
\<close>

section \<open>Connection identifiers\<close>

text \<open>\<open>picoquic_connection_id_t\<close>: an array of 20 bytes and the number of them in use.\<close>

record connection_id =
  cid_id :: "u8 list"
  cid_len :: u8

abbreviation PICOQUIC_CONNECTION_ID_MAX_SIZE :: nat where
  "PICOQUIC_CONNECTION_ID_MAX_SIZE \<equiv> 20"

definition picoquic_null_connection_id :: connection_id where
  "picoquic_null_connection_id = \<lparr>cid_id = replicate 20 0, cid_len = 0\<rparr>"

section \<open>Skip and decode\<close>

definition picoquic_frames_fixed_skip :: "u8 list \<Rightarrow> u64 \<Rightarrow> u8 list option" where
  "picoquic_frames_fixed_skip bytes n =
     (if unat n \<le> length bytes then Some (drop (unat n) bytes) else None)"

text \<open>The macro \<open>VARINT_LEN\<close>.\<close>

definition VARINT_LEN :: "u8 list \<Rightarrow> nat" where
  "VARINT_LEN bytes = push_bit (unat (drop_bit 6 (bytes ! 0) AND 3)) 1"

definition picoquic_frames_varint_skip :: "u8 list \<Rightarrow> u8 list option" where
  "picoquic_frames_varint_skip bytes =
     (if bytes \<noteq> [] then picoquic_frames_fixed_skip bytes (of_nat (VARINT_LEN bytes)) else None)"

definition picoquic_frames_varint_decode :: "u8 list \<Rightarrow> (u64 \<times> u8 list) option" where
  "picoquic_frames_varint_decode bytes =
     (if bytes \<noteq> [] \<and> VARINT_LEN bytes \<le> length bytes then
        let len = VARINT_LEN bytes in
        Some (varint_loop (ucast (hd bytes) AND 0x3F) (take (len - 1) (tl bytes)), drop len bytes)
      else None)"

text \<open>\<open>size_t\<close> has 64 bits, so the narrowing test of the C function always succeeds.\<close>

definition picoquic_frames_varlen_decode :: "u8 list \<Rightarrow> (u64 \<times> u8 list) option" where
  "picoquic_frames_varlen_decode bytes =
     (case picoquic_frames_varint_decode bytes of
        None \<Rightarrow> None
      | Some (len, rest) \<Rightarrow> if (ucast len :: u64) = len then Some (ucast len, rest) else None)"

definition picoquic_frames_uint8_decode :: "u8 list \<Rightarrow> (u8 \<times> u8 list) option" where
  "picoquic_frames_uint8_decode bytes =
     (case bytes of [] \<Rightarrow> None | b # rest \<Rightarrow> Some (b, rest))"

definition picoquic_frames_uint16_decode :: "u8 list \<Rightarrow> (u16 \<times> u8 list) option" where
  "picoquic_frames_uint16_decode bytes =
     (if 2 \<le> length bytes then Some (picoparse_16 bytes, drop 2 bytes) else None)"

definition picoquic_frames_uint32_decode :: "u8 list \<Rightarrow> (u32 \<times> u8 list) option" where
  "picoquic_frames_uint32_decode bytes =
     (if 4 \<le> length bytes then Some (picoparse_32 bytes, drop 4 bytes) else None)"

definition picoquic_frames_uint64_decode :: "u8 list \<Rightarrow> (u64 \<times> u8 list) option" where
  "picoquic_frames_uint64_decode bytes =
     (if 8 \<le> length bytes then Some (picoparse_64 bytes, drop 8 bytes) else None)"

definition picoquic_frames_length_data_skip :: "u8 list \<Rightarrow> u8 list option" where
  "picoquic_frames_length_data_skip bytes =
     (case picoquic_frames_varint_decode bytes of
        None \<Rightarrow> None
      | Some (len, rest) \<Rightarrow> picoquic_frames_fixed_skip rest len)"

text \<open>
  The C function does not test the result of \<open>picoquic_frames_uint8_decode\<close>. When the buffer is
  empty, \<open>bytes\<close> is NULL and \<open>cid->id_len\<close> still holds what the caller had there: a value above
  20 gives NULL, any other value makes \<open>bytes + cid->id_len > bytes_max\<close> false (NULL is below
  every address of the buffer) and the copy reads \<open>id_len\<close> bytes at NULL, which faults unless
  \<open>id_len\<close> is 0. The result is the value of the function (\<open>None\<close> for NULL) and the identifier.
\<close>

definition picoquic_frames_cid_decode ::
    "u8 list \<Rightarrow> connection_id \<Rightarrow> (u8 list option \<times> connection_id) res" where
  "picoquic_frames_cid_decode bytes cid =
     (case picoquic_frames_uint8_decode bytes of
        None \<Rightarrow>
          if unat (cid_len cid) > PICOQUIC_CONNECTION_ID_MAX_SIZE then Ok (None, cid)
          else if cid_len cid = 0 then Ok (None, cid\<lparr>cid_id := replicate 20 0\<rparr>)
          else Fault NullDeref
      | Some (n, rest) \<Rightarrow>
          let cid = cid\<lparr>cid_len := n\<rparr> in
          if unat n > PICOQUIC_CONNECTION_ID_MAX_SIZE \<or> unat n > length rest then Ok (None, cid)
          else Ok (Some (drop (unat n) rest),
                   cid\<lparr>cid_id := take (unat n) rest @ replicate (20 - unat n) 0\<rparr>))"

section \<open>Encode\<close>

definition picoquic_frames_varint_encode :: "nat \<Rightarrow> u64 \<Rightarrow> u8 list option" where
  "picoquic_frames_varint_encode room n64 =
     (if n64 < 16384 then
        if n64 < 64 then
          if 1 \<le> room then Some [ucast n64] else None
        else
          if 2 \<le> room then Some [ucast (drop_bit 8 n64 OR 0x40), ucast n64] else None
      else if n64 < 1073741824 then
        if 4 \<le> room then
          Some [ucast (drop_bit 24 n64 OR 0x80), ucast (drop_bit 16 n64),
                ucast (drop_bit 8 n64), ucast n64]
        else None
      else
        if 8 \<le> room then
          Some [ucast (drop_bit 56 n64 OR 0xC0), ucast (drop_bit 48 n64),
                ucast (drop_bit 40 n64), ucast (drop_bit 32 n64), ucast (drop_bit 24 n64),
                ucast (drop_bit 16 n64), ucast (drop_bit 8 n64), ucast n64]
        else None)"

definition picoquic_frames_varlen_encode :: "nat \<Rightarrow> u64 \<Rightarrow> u8 list option" where
  "picoquic_frames_varlen_encode room n = picoquic_frames_varint_encode room n"

definition picoquic_frames_uint8_encode :: "nat \<Rightarrow> u8 \<Rightarrow> u8 list option" where
  "picoquic_frames_uint8_encode room n = (if 1 > room then None else Some [n])"

definition picoquic_frames_uint16_encode :: "nat \<Rightarrow> u16 \<Rightarrow> u8 list option" where
  "picoquic_frames_uint16_encode room n =
     (if 2 > room then None else Some [ucast (drop_bit 8 n), ucast n])"

definition picoquic_frames_uint24_encode :: "nat \<Rightarrow> u32 \<Rightarrow> u8 list option" where
  "picoquic_frames_uint24_encode room n =
     (if 3 > room then None
      else Some [ucast (drop_bit 16 n), ucast (drop_bit 8 n), ucast n])"

definition picoquic_frames_uint32_encode :: "nat \<Rightarrow> u32 \<Rightarrow> u8 list option" where
  "picoquic_frames_uint32_encode room n =
     (if 4 > room then None
      else Some [ucast (drop_bit 24 n), ucast (drop_bit 16 n), ucast (drop_bit 8 n), ucast n])"

definition picoquic_frames_uint64_encode :: "nat \<Rightarrow> u64 \<Rightarrow> u8 list option" where
  "picoquic_frames_uint64_encode room n =
     (if 8 > room then None
      else Some [ucast (drop_bit 56 n), ucast (drop_bit 48 n), ucast (drop_bit 40 n),
                 ucast (drop_bit 32 n), ucast (drop_bit 24 n), ucast (drop_bit 16 n),
                 ucast (drop_bit 8 n), ucast n])"

text \<open>\<open>v\<close> is the memory that the source pointer designates; \<open>l\<close> bytes of it are copied.\<close>

definition picoquic_frames_length_data_encode :: "nat \<Rightarrow> nat \<Rightarrow> u8 list \<Rightarrow> u8 list option" where
  "picoquic_frames_length_data_encode room l v =
     (case picoquic_frames_varlen_encode room (of_nat l) of
        None \<Rightarrow> None
      | Some h \<Rightarrow> if length h + l \<le> room then Some (h @ take l v) else None)"

definition picoquic_frames_cid_encode :: "nat \<Rightarrow> connection_id \<Rightarrow> u8 list option" where
  "picoquic_frames_cid_encode room cid =
     picoquic_frames_length_data_encode room (unat (cid_len cid)) (cid_id cid)"

text \<open>A C string is the list of its bytes before the terminating zero; NULL is \<open>None\<close>.\<close>

definition picoquic_frames_charz_encode :: "nat \<Rightarrow> u8 list option \<Rightarrow> u8 list option" where
  "picoquic_frames_charz_encode room s =
     (case s of
        None \<Rightarrow> picoquic_frames_varlen_encode room 0
      | Some cs \<Rightarrow> picoquic_frames_length_data_encode room (length cs) cs)"

section \<open>Comparison in constant time\<close>

text \<open>The loop adds the exclusive or of the bytes; the sum is compared to 0 at the end.\<close>

fun memcmp_loop :: "u64 \<Rightarrow> u8 list \<Rightarrow> u8 list \<Rightarrow> nat \<Rightarrow> u64" where
  "memcmp_loop ret x y 0 = ret"
| "memcmp_loop ret x y (Suc l) = memcmp_loop (ret + ucast (hd x XOR hd y)) (tl x) (tl y) l"

definition picoquic_constant_time_memcmp :: "u8 list \<Rightarrow> u8 list \<Rightarrow> nat \<Rightarrow> int" where
  "picoquic_constant_time_memcmp x y l = (if memcmp_loop 0 x y l = 0 then 0 else -1)"

section \<open>Facts\<close>

lemma VARINT_LEN_Cons: "VARINT_LEN (b # bs) = picoquic_decode_varint_length b"
proof -
  have "drop_bit 6 b AND 3 = drop_bit 6 (b AND 0xC0)"
    by simp
  then show ?thesis by (simp add: VARINT_LEN_def picoquic_decode_varint_length_def)
qed

lemma frames_varint_decode_eq:
  "picoquic_frames_varint_decode bs =
     (let (len, v) = picoquic_varint_decode bs in if len = 0 then None else Some (v, drop len bs))"
proof (cases bs)
  case (Cons b rest)
  then show ?thesis
    using decode_varint_length_range [of b]
    by (auto simp: picoquic_frames_varint_decode_def varint_decode_Cons VARINT_LEN_Cons Let_def
        unsigned_and_eq)
qed (simp add: picoquic_frames_varint_decode_def picoquic_varint_decode_def)

lemma frames_varint_encode_eq:
  "picoquic_frames_varint_encode m n =
     (if picoquic_encode_varint_length n \<le> m then Some (picoquic_varint_encode m n) else None)"
  by (simp add: picoquic_frames_varint_encode_def picoquic_varint_encode_def
      picoquic_encode_varint_length_def)

lemma frames_varint_roundtrip:
  assumes "picoquic_frames_varint_encode m n = Some bs"
  shows "picoquic_frames_varint_decode (bs @ rest) = Some (take_bit 62 n, rest)"
proof -
  have l: "picoquic_encode_varint_length n \<le> m" and bs: "bs = picoquic_varint_encode m n"
    using assms by (auto simp: frames_varint_encode_eq split: if_splits)
  show ?thesis
    using varint_decode_encode [OF l, of rest] decode_nonempty_length [OF l]
    by (auto simp: frames_varint_decode_eq bs)
qed

lemma frames_varint_encode_length:
  "picoquic_frames_varint_encode m n = Some bs \<Longrightarrow>
     length bs = picoquic_encode_varint_length n \<and> length bs \<le> m \<and> bs \<noteq> []"
  by (auto simp: frames_varint_encode_eq length_varint_encode picoquic_encode_varint_length_def
      split: if_splits dest: arg_cong [of _ "[]" length])

text \<open>What a decoder leaves is a proper suffix of what it was given, for a skipper a suffix.\<close>

lemma fixed_skip_suffix: "picoquic_frames_fixed_skip bs n = Some r \<Longrightarrow> suffix r bs"
  by (auto simp: picoquic_frames_fixed_skip_def suffix_drop split: if_splits)

lemma strict_suffix_drop: "0 < n \<Longrightarrow> bs \<noteq> [] \<Longrightarrow> strict_suffix (drop n bs) bs"
  by (metis diff_less length_drop length_greater_0_conv nat_neq_iff strict_suffix_def suffix_drop)

lemma VARINT_LEN_range: "bs \<noteq> [] \<Longrightarrow> VARINT_LEN bs \<in> {1, 2, 4, 8}"
  using decode_varint_length_range by (cases bs) (auto simp: VARINT_LEN_Cons)

lemma unat_of_VARINT_LEN: "bs \<noteq> [] \<Longrightarrow> unat (of_nat (VARINT_LEN bs) :: u64) = VARINT_LEN bs"
  by (drule VARINT_LEN_range) (elim insertE, simp_all)

lemma varint_decode_suffix:
  "picoquic_frames_varint_decode bs = Some (v, r) \<Longrightarrow> strict_suffix r bs"
  using VARINT_LEN_range [of bs]
  by (auto simp: picoquic_frames_varint_decode_def Let_def split: if_splits
      intro!: strict_suffix_drop)

lemma varint_skip_decode:
  "picoquic_frames_varint_skip bs = map_option snd (picoquic_frames_varint_decode bs)"
  by (auto simp: picoquic_frames_varint_skip_def picoquic_frames_varint_decode_def
      picoquic_frames_fixed_skip_def Let_def unat_of_VARINT_LEN)

lemma varint_skip_suffix: "picoquic_frames_varint_skip bs = Some r \<Longrightarrow> strict_suffix r bs"
  by (auto simp: varint_skip_decode dest: varint_decode_suffix)

lemma length_data_skip_suffix:
  "picoquic_frames_length_data_skip bs = Some r \<Longrightarrow> strict_suffix r bs"
  by (auto simp: picoquic_frames_length_data_skip_def split: option.splits
      dest!: varint_decode_suffix fixed_skip_suffix intro: suffix_order.le_less_trans)

lemmas decode_suffix = fixed_skip_suffix varint_decode_suffix varint_skip_suffix
  length_data_skip_suffix

lemma length_data_encode_Some:
  assumes "picoquic_frames_length_data_encode m l v = Some bs"
  shows "\<exists>h. picoquic_frames_varint_encode m (of_nat l) = Some h \<and> bs = h @ take l v
           \<and> length h + l \<le> m"
  using assms
  by (auto simp: picoquic_frames_length_data_encode_def picoquic_frames_varlen_encode_def
      split: option.splits if_splits)

lemma unat_of_nat_self: "of_nat (unat w) = (w::u64)"
  by simp

lemma of_nat_take_bit_62: "l < 2 ^ 62 \<Longrightarrow> unat (take_bit 62 (of_nat l :: u64)) = l"
  by (simp add: unsigned_take_bit_eq unsigned_of_nat take_bit_nat_eq_self)

lemma length_data_roundtrip:
  assumes "picoquic_frames_length_data_encode m l v = Some bs" "l \<le> length v" "l < 2 ^ 62"
  shows "picoquic_frames_varint_decode (bs @ rest) = Some (of_nat l, take l v @ rest)"
    and "picoquic_frames_length_data_skip (bs @ rest) = Some rest"
proof -
  obtain h where h: "picoquic_frames_varint_encode m (of_nat l) = Some h" "bs = h @ take l v"
    using length_data_encode_Some [OF assms(1)] by auto
  have n: "unat (take_bit 62 (of_nat l :: u64)) = l"
    by (rule of_nat_take_bit_62 [OF assms(3)])
  then have n': "take_bit 62 (of_nat l :: u64) = of_nat l"
    by (metis unat_of_nat_self)
  show "picoquic_frames_varint_decode (bs @ rest) = Some (of_nat l, take l v @ rest)"
    using frames_varint_roundtrip [OF h(1), of "take l v @ rest"] n' by (simp add: h(2))
  then show "picoquic_frames_length_data_skip (bs @ rest) = Some rest"
    using assms(2) n n'
    by (simp add: picoquic_frames_length_data_skip_def picoquic_frames_fixed_skip_def)
qed

lemma fixed_decode_encode:
  "picoquic_frames_uint8_encode m a = Some bs \<Longrightarrow> picoquic_frames_uint8_decode (bs @ rest) = Some (a, rest)"
  "picoquic_frames_uint16_encode m b = Some bs \<Longrightarrow> picoquic_frames_uint16_decode (bs @ rest) = Some (b, rest)"
  "picoquic_frames_uint32_encode m c = Some bs \<Longrightarrow> picoquic_frames_uint32_decode (bs @ rest) = Some (c, rest)"
  "picoquic_frames_uint64_encode m d = Some bs \<Longrightarrow> picoquic_frames_uint64_decode (bs @ rest) = Some (d, rest)"
  using picoparse_format_16 [of b rest] picoparse_format_32 [of c rest] picoparse_format_64 [of d rest]
  by (auto simp: picoquic_frames_uint8_encode_def picoquic_frames_uint8_decode_def
      picoquic_frames_uint16_encode_def picoquic_frames_uint16_decode_def
      picoquic_frames_uint32_encode_def picoquic_frames_uint32_decode_def
      picoquic_frames_uint64_encode_def picoquic_frames_uint64_decode_def
      picoformat_16_def picoformat_32_def picoformat_64_def split: if_splits)

text \<open>A connection identifier as the code keeps it: at most 20 bytes, the unused ones 0.\<close>

definition cid_ok :: "connection_id \<Rightarrow> bool" where
  "cid_ok c \<longleftrightarrow> unat (cid_len c) \<le> 20 \<and> length (cid_id c) = 20
     \<and> drop (unat (cid_len c)) (cid_id c) = replicate (20 - unat (cid_len c)) 0"

lemma cid_ok_null: "cid_ok picoquic_null_connection_id"
  by (simp add: cid_ok_def picoquic_null_connection_id_def)

lemma cid_decode_ok:
  "picoquic_frames_cid_decode bs c = Ok (Some r, c') \<Longrightarrow> cid_ok c'"
  by (auto simp: picoquic_frames_cid_decode_def cid_ok_def Let_def
      split: option.splits if_splits prod.splits)

text \<open>
  Also: whatever the encoder of length-prefixed data produced within its room is skipped exactly
  by the frame skipper, and read back by the length decoder, whatever follows in the packet.
\<close>

theorem length_data_encode_skip:
  assumes "picoquic_frames_length_data_encode m (length v) v = Some bs" "length v < 2 ^ 62"
  shows "length bs \<le> m \<and> picoquic_frames_length_data_skip (bs @ rest) = Some rest \<and>
         picoquic_frames_varint_decode (bs @ rest) = Some (of_nat (length v), v @ rest)"
  using length_data_roundtrip [OF assms(1) _ assms(2), of rest] length_data_encode_Some [OF assms(1)]
  by auto

theorem length_data_encode_skip_witness:
  "picoquic_frames_length_data_skip ([3, 9, 8, 7] @ [5]) = Some [5]"
  using length_data_encode_skip [of 10 "[9, 8, 7]" "[3, 9, 8, 7]" "[5]"]
  by (simp add: picoquic_frames_length_data_encode_def picoquic_frames_varlen_encode_def
      picoquic_frames_varint_encode_def)

lemma memcmp_loop_value:
  "length x = l \<Longrightarrow> length y = l \<Longrightarrow> unat ret + 255 * l < 2 ^ 64 \<Longrightarrow>
     unat ret \<le> unat (memcmp_loop ret x y l) \<and>
     (unat (memcmp_loop ret x y l) = unat ret \<longleftrightarrow> x = y)"
proof (induction ret x y l rule: memcmp_loop.induct)
  case (2 ret x y l)
  then obtain a xs b ys where xy: "x = a # xs" "y = b # ys" by (cases x; cases y) auto
  have d: "unat (a XOR b) \<le> 255" using unsigned_less [of "a XOR b", where 'a = nat] by simp
  have z: "unat (a XOR b) = 0 \<longleftrightarrow> a = b"
    by (metis unat_0_iff xor_self_eq word_bw_assocs(3) xor.right_neutral)
  have s: "unat (ret + ucast (a XOR b)) = unat ret + unat (a XOR b)"
    using "2.prems"(3) d by (simp add: unat_word_ariths unsigned_ucast_eq take_bit_nat_eq_self)
  from "2.IH" "2.prems" d show ?case
    by (auto simp: xy s z)
qed auto

text \<open>
  Also: the constant-time comparison returns 0 exactly when the first \<open>l\<close> bytes agree; the sum of
  the differences cannot wrap around to 0 below \<open>2 ^ 56\<close> bytes.
\<close>

theorem constant_time_memcmp_correct:
  assumes "length x = l" "length y = l" "l < 2 ^ 56"
  shows "picoquic_constant_time_memcmp x y l = 0 \<longleftrightarrow> x = y"
  using memcmp_loop_value [OF assms(1,2), of 0] assms(3)
  by (auto simp: picoquic_constant_time_memcmp_def unat_eq_0)

theorem constant_time_memcmp_correct_witness:
  "picoquic_constant_time_memcmp [1, 2, 3] [1, 2, 4] 3 = -1"
  using constant_time_memcmp_correct [of "[1, 2, 3]" 3 "[1, 2, 4]"]
  by (auto simp: picoquic_constant_time_memcmp_def)

end
