(* ===== verification/FrameSkip.thy ===== *)
theory FrameSkip
  imports FrameCodec
begin

text \<open>
  The frame skippers of \<open>picoquic/frames.c\<close>, which find the end of a frame without processing
  it, the header parser of STREAM frames and the dispatcher \<open>picoquic_skip_frame\<close>. Pointers are
  modelled as in \<open>FrameCodec\<close>. The skippers are called on a frame of at least one byte, so
  \<open>bytes + 1\<close> is the tail of the list; the entry point \<open>picoquic_skip_frame\<close> reads the first
  byte itself and faults on an empty buffer.
\<close>

section \<open>Skipping one frame\<close>

definition picoquic_skip_stream_frame :: "u8 list \<Rightarrow> u8 list option" where
  "picoquic_skip_stream_frame bytes =
     (let len = hd bytes AND 2; off = hd bytes AND 4 in
      case picoquic_frames_varint_skip (tl bytes) of
        None \<Rightarrow> None
      | Some bytes1 \<Rightarrow>
          (case (if off = 0 then Some bytes1 else picoquic_frames_varint_skip bytes1) of
             None \<Rightarrow> None
           | Some bytes2 \<Rightarrow>
               if len = 0 then Some [] else picoquic_frames_length_data_skip bytes2))"

definition picoquic_skip_crypto_hs_frame :: "u8 list \<Rightarrow> u8 list option" where
  "picoquic_skip_crypto_hs_frame bytes =
     Option.bind (picoquic_frames_varint_skip (tl bytes)) picoquic_frames_length_data_skip"

definition picoquic_skip_connection_close_frame :: "u8 list \<Rightarrow> u8 list option" where
  "picoquic_skip_connection_close_frame bytes =
     Option.bind (picoquic_frames_varint_skip (tl bytes)) (\<lambda>bytes.
     Option.bind (picoquic_frames_varint_skip bytes) picoquic_frames_length_data_skip)"

definition picoquic_skip_application_close_frame :: "u8 list \<Rightarrow> u8 list option" where
  "picoquic_skip_application_close_frame bytes =
     Option.bind (picoquic_frames_varint_skip (tl bytes)) picoquic_frames_length_data_skip"

text \<open>The loop over the additional ACK ranges, and the one over the three ECN counts.\<close>

fun skip_ack_blocks :: "nat \<Rightarrow> u8 list \<Rightarrow> u8 list option" where
  "skip_ack_blocks 0 bytes = Some bytes"
| "skip_ack_blocks (Suc nb_blocks) bytes =
     (case picoquic_frames_varint_skip bytes of
        None \<Rightarrow> None
      | Some bytes \<Rightarrow>
          (case picoquic_frames_varint_skip bytes of
             None \<Rightarrow> None
           | Some bytes \<Rightarrow> skip_ack_blocks nb_blocks bytes))"

definition picoquic_skip_ack_frame_maybe_ecn :: "u8 list \<Rightarrow> bool \<Rightarrow> bool \<Rightarrow> u8 list option" where
  "picoquic_skip_ack_frame_maybe_ecn bytes is_ecn has_path =
     Option.bind
       (Option.bind (picoquic_frames_varint_skip bytes) (\<lambda>bytes.
        Option.bind (picoquic_frames_varint_skip bytes) (\<lambda>bytes.
        Option.bind (if has_path then picoquic_frames_varint_skip bytes else Some bytes) (\<lambda>bytes.
        Option.bind (picoquic_frames_varint_skip bytes) (\<lambda>bytes.
        Option.bind (picoquic_frames_varint_decode bytes) (\<lambda>(nb_blocks, bytes).
        Option.bind (picoquic_frames_varint_skip bytes) (\<lambda>bytes.
        skip_ack_blocks (unat nb_blocks) bytes)))))))
       (\<lambda>bytes.
          if is_ecn then
            Option.bind (picoquic_frames_varint_skip bytes) (\<lambda>bytes.
            Option.bind (picoquic_frames_varint_skip bytes) picoquic_frames_varint_skip)
          else Some bytes)"

definition picoquic_skip_ack_frame :: "u8 list \<Rightarrow> u8 list option" where
  "picoquic_skip_ack_frame bytes = picoquic_skip_ack_frame_maybe_ecn bytes False False"

definition picoquic_skip_ack_ecn_frame :: "u8 list \<Rightarrow> u8 list option" where
  "picoquic_skip_ack_ecn_frame bytes = picoquic_skip_ack_frame_maybe_ecn bytes True False"

definition picoquic_skip_stream_reset_frame :: "u8 list \<Rightarrow> u8 list option" where
  "picoquic_skip_stream_reset_frame bytes =
     Option.bind (picoquic_frames_varint_skip (tl bytes)) (\<lambda>bytes.
     Option.bind (picoquic_frames_varint_skip bytes) picoquic_frames_varint_skip)"

definition picoquic_skip_max_stream_data_frame :: "u8 list \<Rightarrow> u8 list option" where
  "picoquic_skip_max_stream_data_frame bytes =
     Option.bind (picoquic_frames_varint_skip (tl bytes)) picoquic_frames_varint_skip"

definition picoquic_skip_stream_blocked_frame :: "u8 list \<Rightarrow> u8 list option" where
  "picoquic_skip_stream_blocked_frame bytes =
     Option.bind (picoquic_frames_varint_skip (tl bytes)) picoquic_frames_varint_skip"

text \<open>\<open>PICOQUIC_RESET_SECRET_SIZE\<close> is 16.\<close>

definition picoquic_skip_new_connection_id_frame :: "u8 list \<Rightarrow> u8 list option" where
  "picoquic_skip_new_connection_id_frame bytes =
     Option.bind (picoquic_frames_varint_skip bytes) (\<lambda>bytes.
     Option.bind (picoquic_frames_varint_skip bytes) (\<lambda>bytes.
     Option.bind (picoquic_frames_varint_skip bytes) (\<lambda>bytes.
     Option.bind (picoquic_frames_uint8_decode bytes) (\<lambda>(cid_length, bytes).
     picoquic_frames_fixed_skip bytes (ucast cid_length + 16)))))"

definition picoquic_skip_retire_connection_id_frame :: "u8 list \<Rightarrow> u8 list option" where
  "picoquic_skip_retire_connection_id_frame bytes = picoquic_frames_varint_skip (tl bytes)"

definition picoquic_skip_new_token_frame :: "u8 list \<Rightarrow> u8 list option" where
  "picoquic_skip_new_token_frame bytes = picoquic_frames_length_data_skip (tl bytes)"

definition picoquic_skip_stop_sending_frame :: "u8 list \<Rightarrow> u8 list option" where
  "picoquic_skip_stop_sending_frame bytes =
     Option.bind (picoquic_frames_varint_skip (tl bytes)) picoquic_frames_varint_skip"

text \<open>A run of padding (or ping) bytes: the first byte and all equal bytes that follow it.\<close>

definition picoquic_skip_0len_frame :: "u8 list \<Rightarrow> u8 list option" where
  "picoquic_skip_0len_frame bytes = Some (dropWhile (\<lambda>b. b = hd bytes) (tl bytes))"

definition picoquic_skip_datagram_frame :: "u8 list \<Rightarrow> u8 list option" where
  "picoquic_skip_datagram_frame bytes =
     (let frame_id = hd bytes; bytes = tl bytes in
      case (if frame_id AND 1 \<noteq> 0 then picoquic_frames_varint_decode bytes
            else Some (of_nat (length bytes), bytes)) of
        None \<Rightarrow> None
      | Some (len, bytes) \<Rightarrow> if unat len > length bytes then None else Some (drop (unat len) bytes))"

definition picoquic_skip_ack_frequency_frame :: "u8 list \<Rightarrow> u8 list option" where
  "picoquic_skip_ack_frequency_frame bytes =
     Option.bind (picoquic_frames_varint_skip bytes) (\<lambda>bytes.
     Option.bind (picoquic_frames_varint_skip bytes) (\<lambda>bytes.
     Option.bind (picoquic_frames_varint_skip bytes) (\<lambda>bytes.
     picoquic_frames_fixed_skip bytes 1)))"

definition picoquic_parse_ack_frequency_frame ::
    "u8 list \<Rightarrow> ((u64 \<times> u64 \<times> u64 \<times> u8) \<times> u8 list) option" where
  "picoquic_parse_ack_frequency_frame bytes =
     Option.bind (picoquic_frames_varint_decode bytes) (\<lambda>(seq, bytes).
     Option.bind (picoquic_frames_varint_decode bytes) (\<lambda>(packets, bytes).
     Option.bind (picoquic_frames_varint_decode bytes) (\<lambda>(microsec, bytes).
     Option.bind (picoquic_frames_uint8_decode bytes) (\<lambda>(ignore_order, bytes).
     Some ((seq, packets, microsec, ignore_order), bytes)))))"

definition picoquic_skip_time_stamp_frame :: "u8 list \<Rightarrow> u8 list option" where
  "picoquic_skip_time_stamp_frame bytes = picoquic_frames_varint_skip bytes"

definition picoquic_parse_time_stamp_frame :: "u8 list \<Rightarrow> (u64 \<times> u8 list) option" where
  "picoquic_parse_time_stamp_frame bytes = picoquic_frames_varint_decode bytes"

definition picoquic_parse_path_identifier :: "u8 list \<Rightarrow> ((u64 \<times> u64) \<times> u8 list) option" where
  "picoquic_parse_path_identifier bytes =
     Option.bind (picoquic_frames_varint_decode bytes) (\<lambda>(path_id_type, bytes).
     if path_id_type = 0 \<or> path_id_type = 1 then
       Option.bind (picoquic_frames_varint_decode bytes) (\<lambda>(path_id_value, bytes).
       Some ((path_id_type, path_id_value), bytes))
     else if path_id_type = 2 then Some ((path_id_type, 0), bytes)
     else None)"

definition picoquic_skip_path_identifier :: "u8 list \<Rightarrow> u8 list option" where
  "picoquic_skip_path_identifier bytes = map_option snd (picoquic_parse_path_identifier bytes)"

definition picoquic_encode_path_identifier :: "nat \<Rightarrow> u64 \<Rightarrow> u64 \<Rightarrow> u8 list option" where
  "picoquic_encode_path_identifier room path_id_type path_id_value =
     Option.bind (picoquic_frames_varint_encode room path_id_type) (\<lambda>ty.
     if path_id_type = 0 \<or> path_id_type = 1 then
       Option.bind (picoquic_frames_varint_encode (room - length ty) path_id_value) (\<lambda>v.
       Some (ty @ v))
     else if path_id_type = 2 then Some ty
     else None)"

definition picoquic_skip_path_abandon_frame :: "u8 list \<Rightarrow> u8 list option" where
  "picoquic_skip_path_abandon_frame bytes =
     Option.bind (picoquic_skip_path_identifier bytes) (\<lambda>bytes.
     Option.bind (picoquic_frames_varint_skip bytes) picoquic_frames_length_data_skip)"

definition picoquic_parse_path_abandon_frame ::
    "u8 list \<Rightarrow> ((u64 \<times> u64 \<times> u64) \<times> u8 list) option" where
  "picoquic_parse_path_abandon_frame bytes =
     Option.bind (picoquic_parse_path_identifier bytes) (\<lambda>((path_id_type, path_id_value), bytes).
     Option.bind (picoquic_frames_varint_decode bytes) (\<lambda>(reason, bytes).
     Option.bind (picoquic_frames_length_data_skip bytes) (\<lambda>bytes.
     Some ((path_id_type, path_id_value, reason), bytes))))"

definition picoquic_skip_bdp_frame :: "u8 list \<Rightarrow> u8 list option" where
  "picoquic_skip_bdp_frame bytes =
     Option.bind (picoquic_frames_varint_skip bytes) (\<lambda>bytes.
     Option.bind (picoquic_frames_varint_skip bytes) (\<lambda>bytes.
     Option.bind (picoquic_frames_varint_skip bytes) picoquic_frames_length_data_skip))"

definition picoquic_parse_bdp_frame ::
    "u8 list \<Rightarrow> ((u64 \<times> u64 \<times> u64 \<times> u8 list) \<times> u8 list) option" where
  "picoquic_parse_bdp_frame bytes =
     Option.bind (picoquic_frames_varint_decode bytes) (\<lambda>(lifetime, bytes).
     Option.bind (picoquic_frames_varint_decode bytes) (\<lambda>(recon_bytes_in_flight, bytes).
     Option.bind (picoquic_frames_varint_decode bytes) (\<lambda>(recon_min_rtt, bytes).
     Option.bind (picoquic_frames_varint_decode bytes) (\<lambda>(saved_ip_length, bytes).
     if saved_ip_length \<noteq> 4 \<and> saved_ip_length \<noteq> 16 then None
     else Option.bind (picoquic_frames_fixed_skip bytes saved_ip_length) (\<lambda>rest.
       Some ((lifetime, recon_bytes_in_flight, recon_min_rtt,
              take (unat saved_ip_length) bytes), rest))))))"

section \<open>STREAM frame headers\<close>

text \<open>The macros \<open>PICOQUIC_IN_RANGE\<close> and \<open>PICOQUIC_BITS_CLEAR_IN_RANGE\<close>.\<close>

definition PICOQUIC_IN_RANGE :: "u8 \<Rightarrow> u8 \<Rightarrow> u8 \<Rightarrow> bool" where
  "PICOQUIC_IN_RANGE v mn mx \<longleftrightarrow> (v AND NOT (mn XOR mx)) = mn"

definition PICOQUIC_BITS_CLEAR_IN_RANGE :: "u8 \<Rightarrow> u8 \<Rightarrow> u8 \<Rightarrow> u8 \<Rightarrow> bool" where
  "PICOQUIC_BITS_CLEAR_IN_RANGE v mn mx bits \<longleftrightarrow> (v AND NOT ((mn XOR mx) XOR bits)) = mn"

definition picoquic_is_stream_frame_unlimited :: "u8 list \<Rightarrow> bool" where
  "picoquic_is_stream_frame_unlimited bytes = PICOQUIC_BITS_CLEAR_IN_RANGE (hd bytes) 0x08 0x0f 0x02"

text \<open>
  The values that \<open>picoquic_parse_stream_header\<close> stores through its pointer arguments. A field
  that the function leaves alone keeps the caller's value.
\<close>

record stream_header =
  sh_stream_id :: u64
  sh_offset :: u64
  sh_data_length :: nat
  sh_fin :: bool
  sh_consumed :: nat

definition picoquic_parse_stream_header :: "u8 list \<Rightarrow> stream_header \<Rightarrow> int \<times> stream_header" where
  "picoquic_parse_stream_header bytes h =
     (let bytes_max = length bytes;
          len = hd bytes AND 2;
          off = hd bytes AND 4;
          h = h\<lparr>sh_fin := (hd bytes AND 1 \<noteq> 0)\<rparr>;
          (l_stream, h) =
            (if bytes_max > 1 then
               let (l, v) = picoquic_varint_decode (drop 1 bytes) in (l, h\<lparr>sh_stream_id := v\<rparr>)
             else (0, h));
          byte_index = 1 + l_stream;
          (l_off, h) =
            (if off = 0 then (0, h\<lparr>sh_offset := 0\<rparr>)
             else if bytes_max > byte_index then
               let (l, v) = picoquic_varint_decode (drop byte_index bytes) in (l, h\<lparr>sh_offset := v\<rparr>)
             else (0, h));
          byte_index = byte_index + l_off
      in
        if bytes_max < byte_index \<or> l_stream = 0 \<or> (off \<noteq> 0 \<and> l_off = 0) then
          (-1, h\<lparr>sh_data_length := 0, sh_consumed := bytes_max\<rparr>)
        else if len = 0 then
          (0, h\<lparr>sh_data_length := bytes_max - byte_index, sh_consumed := byte_index\<rparr>)
        else
          let (l_len, data_len, h) =
                (if bytes_max > byte_index then
                   let (l, v) = picoquic_varint_decode (drop byte_index bytes)
                   in (l, unat v, h\<lparr>sh_data_length := unat v\<rparr>)
                 else (0, 0, h));
              byte_index = byte_index + l_len
          in
            if l_len = 0 \<or> bytes_max < byte_index then (-1, h\<lparr>sh_consumed := bytes_max\<rparr>)
            else if byte_index + data_len > bytes_max then (-1, h\<lparr>sh_consumed := byte_index\<rparr>)
            else (0, h\<lparr>sh_consumed := byte_index\<rparr>))"

section \<open>The dispatcher\<close>

text \<open>
  \<open>picoquic_skip_frame\<close>: the remaining bytes (\<open>None\<close> for a format error) and the flag
  \<open>pure_ack\<close>. The type constants are those of \<open>picoquic_frame_type_enum_t\<close>; a challenge has
  8 bytes.
\<close>

definition skip_frame_switch :: "u8 list \<Rightarrow> u8 list option \<times> bool" where
  "skip_frame_switch bytes =
     (let first_byte = hd bytes in
      if PICOQUIC_IN_RANGE first_byte 0x08 0x0f then (picoquic_skip_stream_frame bytes, False)
      else if first_byte = 0x02 then (picoquic_skip_ack_frame bytes, True)
      else if first_byte = 0x03 then (picoquic_skip_ack_ecn_frame bytes, True)
      else if first_byte = 0x00 then (picoquic_skip_0len_frame bytes, True)
      else if first_byte = 0x04 then (picoquic_skip_stream_reset_frame bytes, False)
      else if first_byte = 0x1c then (picoquic_skip_connection_close_frame bytes, False)
      else if first_byte = 0x1d then (picoquic_skip_application_close_frame bytes, False)
      else if first_byte = 0x10 then (picoquic_frames_varint_skip (tl bytes), False)
      else if first_byte = 0x11 then (picoquic_skip_max_stream_data_frame bytes, False)
      else if first_byte = 0x12 \<or> first_byte = 0x13 then (picoquic_frames_varint_skip (tl bytes), False)
      else if first_byte = 0x01 then (picoquic_skip_0len_frame bytes, False)
      else if first_byte = 0x14 then (picoquic_frames_varint_skip (tl bytes), False)
      else if first_byte = 0x15 then (picoquic_skip_stream_blocked_frame bytes, False)
      else if first_byte = 0x16 \<or> first_byte = 0x17 then (picoquic_frames_varint_skip (tl bytes), False)
      else if first_byte = 0x18 then (picoquic_skip_new_connection_id_frame bytes, False)
      else if first_byte = 0x05 then (picoquic_skip_stop_sending_frame bytes, False)
      else if first_byte = 0x1a then (picoquic_frames_fixed_skip (tl bytes) 8, True)
      else if first_byte = 0x1b then (picoquic_frames_fixed_skip (tl bytes) 8, True)
      else if first_byte = 0x06 then (picoquic_skip_crypto_hs_frame bytes, False)
      else if first_byte = 0x07 then (picoquic_skip_new_token_frame bytes, False)
      else if first_byte = 0x19 then (picoquic_skip_retire_connection_id_frame bytes, False)
      else if first_byte = 0x1e then (Some (tl bytes), False)
      else if first_byte = 0x30 \<or> first_byte = 0x31 then (picoquic_skip_datagram_frame bytes, False)
      else
        (case picoquic_frames_varint_decode bytes of
           None \<Rightarrow> (None, True)
         | Some (frame_id64, rest) \<Rightarrow>
             if frame_id64 = 0xAF then (picoquic_skip_ack_frequency_frame rest, False)
             else if frame_id64 = 757 then (picoquic_skip_time_stamp_frame rest, True)
             else if frame_id64 = 0xbaba00 then (picoquic_skip_ack_frame_maybe_ecn bytes False True, True)
             else if frame_id64 = 0xbaba01 then (picoquic_skip_ack_frame_maybe_ecn bytes True True, True)
             else if frame_id64 = 0xbaba05 then (picoquic_skip_path_abandon_frame rest, False)
             else if frame_id64 = 0xebd9 then (picoquic_skip_bdp_frame rest, False)
             else (None, True)))"

text \<open>The result is \<open>(ret, consumed, pure_ack)\<close>; the first byte of an empty buffer is outside it.\<close>

definition picoquic_skip_frame :: "u8 list \<Rightarrow> (int \<times> nat \<times> bool) res" where
  "picoquic_skip_frame bytes =
     (if bytes = [] then Fault OutOfBounds
      else case skip_frame_switch bytes of
        (None, pure_ack) \<Rightarrow> Ok (1, length bytes, pure_ack)
      | (Some rest, pure_ack) \<Rightarrow> Ok (0, length bytes - length rest, pure_ack))"

section \<open>Facts\<close>

text \<open>
  A skipper \<open>advances\<close> when what it leaves is a proper suffix of what it was given; the
  combinators of the skippers keep this.
\<close>

definition advances :: "(u8 list \<Rightarrow> u8 list option) \<Rightarrow> bool" where
  "advances f \<longleftrightarrow> (\<forall>bs r. f bs = Some r \<longrightarrow> strict_suffix r bs)"

definition decodes :: "(u8 list \<Rightarrow> ('a \<times> u8 list) option) \<Rightarrow> bool" where
  "decodes f \<longleftrightarrow> (\<forall>bs v r. f bs = Some (v, r) \<longrightarrow> strict_suffix r bs)"

named_theorems advances_intros

lemma advancesD: "advances f \<Longrightarrow> f bs = Some r \<Longrightarrow> strict_suffix r bs"
  by (simp add: advances_def)

lemma advances_varint_skip [advances_intros]: "advances picoquic_frames_varint_skip"
  by (simp add: advances_def varint_skip_suffix)

lemma advances_length_data_skip [advances_intros]: "advances picoquic_frames_length_data_skip"
  by (simp add: advances_def length_data_skip_suffix)

lemma decodes_varint [advances_intros]: "decodes picoquic_frames_varint_decode"
  by (auto simp: decodes_def dest: varint_decode_suffix)

lemma decodes_uint8 [advances_intros]: "decodes picoquic_frames_uint8_decode"
  by (auto simp: decodes_def picoquic_frames_uint8_decode_def strict_suffix_def suffix_Cons
      split: list.splits)

lemma advances_bind:
  assumes "advances f" "\<And>bs r. g bs = Some r \<Longrightarrow> suffix r bs"
  shows "advances (\<lambda>bs. Option.bind (f bs) g)"
  using assms unfolding advances_def bind_eq_Some_conv
  by (meson suffix_order.le_less_trans)

lemma advances_bind2 [advances_intros]:
  "advances f \<Longrightarrow> advances g \<Longrightarrow> advances (\<lambda>bs. Option.bind (f bs) g)"
  by (rule advances_bind) (auto simp: advances_def strict_suffix_def)

lemma advances_decode [advances_intros]:
  assumes "decodes f" "\<And>v bs r. g v bs = Some r \<Longrightarrow> suffix r bs"
  shows "advances (\<lambda>bs. Option.bind (f bs) (\<lambda>(v, bs). g v bs))"
  using assms unfolding advances_def decodes_def bind_eq_Some_conv
  by (clarsimp) (meson suffix_order.le_less_trans)

lemma advances_tl [advances_intros]: "advances f \<Longrightarrow> advances (\<lambda>bs. f (tl bs))"
  unfolding advances_def by (meson suffix_order.less_le_trans suffix_tl)

lemma advances_suffix: "advances f \<Longrightarrow> f bs = Some r \<Longrightarrow> suffix r bs"
  by (simp add: advances_def strict_suffix_def)

lemma skip_ack_blocks_suffix: "skip_ack_blocks n bs = Some r \<Longrightarrow> suffix r bs"
proof (induction n bs rule: skip_ack_blocks.induct)
  case (2 n bs)
  then obtain b1 b2 where "picoquic_frames_varint_skip bs = Some b1"
    "picoquic_frames_varint_skip b1 = Some b2" "skip_ack_blocks n b2 = Some r"
    by (auto split: option.splits)
  then have "suffix b1 bs" "suffix b2 b1" "suffix r b2"
    using 2 by (auto dest: varint_skip_suffix simp: strict_suffix_def)
  then show ?case by (meson suffix_order.order_trans)
qed simp

lemma advances_simple_frames [advances_intros]:
  "advances picoquic_skip_crypto_hs_frame"
  "advances picoquic_skip_connection_close_frame"
  "advances picoquic_skip_application_close_frame"
  "advances picoquic_skip_stream_reset_frame"
  "advances picoquic_skip_max_stream_data_frame"
  "advances picoquic_skip_stream_blocked_frame"
  "advances picoquic_skip_retire_connection_id_frame"
  "advances picoquic_skip_new_token_frame"
  "advances picoquic_skip_stop_sending_frame"
  "advances picoquic_skip_time_stamp_frame"
  "advances picoquic_skip_bdp_frame"
  unfolding picoquic_skip_crypto_hs_frame_def [abs_def] picoquic_skip_connection_close_frame_def [abs_def]
    picoquic_skip_application_close_frame_def [abs_def] picoquic_skip_stream_reset_frame_def [abs_def]
    picoquic_skip_max_stream_data_frame_def [abs_def] picoquic_skip_stream_blocked_frame_def [abs_def]
    picoquic_skip_retire_connection_id_frame_def [abs_def] picoquic_skip_new_token_frame_def [abs_def]
    picoquic_skip_stop_sending_frame_def [abs_def] picoquic_skip_time_stamp_frame_def [abs_def]
    picoquic_skip_bdp_frame_def [abs_def]
  by (intro advances_intros)+

lemma fixed_skip_after: "picoquic_frames_fixed_skip bs n = Some r \<Longrightarrow> suffix r bs"
  by (rule fixed_skip_suffix)

lemma advances_counted_frames [advances_intros]:
  "advances picoquic_skip_new_connection_id_frame"
  "advances picoquic_skip_ack_frequency_frame"
proof -
  show "advances picoquic_skip_new_connection_id_frame"
    unfolding picoquic_skip_new_connection_id_frame_def [abs_def]
    by ((rule advances_bind2, rule advances_varint_skip)+, rule advances_decode, rule decodes_uint8,
        erule fixed_skip_suffix)
  show "advances picoquic_skip_ack_frequency_frame"
    unfolding picoquic_skip_ack_frequency_frame_def [abs_def]
    by (rule advances_bind2, rule advances_varint_skip, rule advances_bind2,
        rule advances_varint_skip, rule advances_bind, rule advances_varint_skip,
        erule fixed_skip_suffix)
qed

lemma advances_path_identifier [advances_intros]: "advances picoquic_skip_path_identifier"
  unfolding advances_def picoquic_skip_path_identifier_def picoquic_parse_path_identifier_def
  by (auto simp: bind_eq_Some_conv split: if_splits dest!: varint_decode_suffix)

lemma advances_path_abandon [advances_intros]: "advances picoquic_skip_path_abandon_frame"
  unfolding picoquic_skip_path_abandon_frame_def [abs_def] by (intro advances_intros)+

lemma advances_ack [advances_intros]:
  "advances (\<lambda>bs. picoquic_skip_ack_frame_maybe_ecn bs is_ecn has_path)"
proof -
  have blocks: "advances (\<lambda>bs. Option.bind (picoquic_frames_varint_skip bs) (\<lambda>bs.
      Option.bind (picoquic_frames_varint_decode bs) (\<lambda>(n, bs).
      Option.bind (picoquic_frames_varint_skip bs) (skip_ack_blocks (unat n)))))"
    by (rule advances_bind2, rule advances_varint_skip, rule advances_decode, rule decodes_varint,
        rule advances_suffix, rule advances_bind, rule advances_varint_skip,
        erule skip_ack_blocks_suffix)
  have path: "advances (\<lambda>bs. Option.bind (if has_path then picoquic_frames_varint_skip bs else Some bs)
      (\<lambda>bs. Option.bind (picoquic_frames_varint_skip bs) (\<lambda>bs.
      Option.bind (picoquic_frames_varint_decode bs) (\<lambda>(n, bs).
      Option.bind (picoquic_frames_varint_skip bs) (skip_ack_blocks (unat n))))))"
    using blocks by (cases has_path) (auto intro: advances_bind2 [OF advances_varint_skip blocks])
  have ecn: "(if is_ecn then Option.bind (picoquic_frames_varint_skip bs) (\<lambda>bs.
      Option.bind (picoquic_frames_varint_skip bs) picoquic_frames_varint_skip) else Some bs) = Some r
      \<Longrightarrow> suffix r bs" for bs r
    using advances_suffix [of "\<lambda>bs. Option.bind (picoquic_frames_varint_skip bs) (\<lambda>bs.
      Option.bind (picoquic_frames_varint_skip bs) picoquic_frames_varint_skip)" bs r]
    by (auto intro!: advances_intros split: if_splits)
  show ?thesis
    unfolding picoquic_skip_ack_frame_maybe_ecn_def
    by (rule advances_bind [OF _ ecn], (rule advances_bind2, rule advances_varint_skip)+, rule path)
qed

lemma strict_suffix_tl: "bs \<noteq> [] \<Longrightarrow> strict_suffix (tl bs) bs"
  by (cases bs) (auto simp: strict_suffix_def suffix_Cons)

text \<open>The frames whose skipper can stop right after the type byte.\<close>

lemma skip_type_frames_suffix:
  assumes "bs \<noteq> []"
  shows "picoquic_skip_stream_frame bs = Some r \<Longrightarrow> strict_suffix r bs"
    and "picoquic_skip_0len_frame bs = Some r \<Longrightarrow> strict_suffix r bs"
    and "picoquic_skip_datagram_frame bs = Some r \<Longrightarrow> strict_suffix r bs"
    and "picoquic_frames_fixed_skip (tl bs) n = Some r \<Longrightarrow> strict_suffix r bs"
proof -
  note t = strict_suffix_tl [OF assms]
  have below: "strict_suffix r bs" if "suffix r (tl bs)" for r
    using that t by (meson suffix_order.le_less_trans)
  show "strict_suffix r bs" if s: "picoquic_skip_stream_frame bs = Some r"
  proof (cases "hd bs AND 2 = 0")
    case True
    then have "r = []" using s
      by (auto simp: picoquic_skip_stream_frame_def Let_def split: option.splits if_splits)
    then show ?thesis using assms by (simp add: strict_suffix_def)
  next
    case False
    have "advances (\<lambda>bs. Option.bind (picoquic_frames_varint_skip bs) picoquic_frames_length_data_skip)"
      "advances (\<lambda>bs. Option.bind (picoquic_frames_varint_skip bs) (\<lambda>bs.
         Option.bind (picoquic_frames_varint_skip bs) picoquic_frames_length_data_skip))"
      by (intro advances_intros)+
    then have "suffix r (tl bs)" using s False
      by (auto simp: picoquic_skip_stream_frame_def Let_def advances_def strict_suffix_def
          bind_eq_Some_conv split: option.splits if_splits)
    then show ?thesis by (rule below)
  qed
  show "strict_suffix r bs" if "picoquic_skip_0len_frame bs = Some r"
    using that by (auto simp: picoquic_skip_0len_frame_def intro!: below suffix_dropWhile)
  show "strict_suffix r bs" if "picoquic_frames_fixed_skip (tl bs) n = Some r"
    using that by (auto intro!: below fixed_skip_suffix)
  show "strict_suffix r bs" if "picoquic_skip_datagram_frame bs = Some r"
    using that
    by (auto simp: picoquic_skip_datagram_frame_def Let_def split: option.splits if_splits
        intro!: below suffix_drop dest!: varint_decode_suffix)
      (meson suffix_drop suffix_order.le_less_trans suffix_order.less_imp_le)
qed

lemma skip_frame_switch_suffix:
  assumes "bs \<noteq> []" "skip_frame_switch bs = (Some r, p)"
  shows "strict_suffix r bs"
proof -
  have after: "strict_suffix r bs"
    if "picoquic_frames_varint_decode bs = Some (f, rest)" "advances g" "g rest = Some r" for f rest g
    using that by (meson advancesD varint_decode_suffix suffix_order.less_trans)
  show ?thesis
    using assms(2) unfolding skip_frame_switch_def Let_def picoquic_skip_ack_frame_def
        picoquic_skip_ack_ecn_frame_def
    by (auto split: if_split_asm option.split_asm prod.split_asm
        dest: advances_simple_frames [THEN advancesD] advances_counted_frames [THEN advancesD]
          advances_tl [OF advances_varint_skip, THEN advancesD] advances_ack [THEN advancesD]
          skip_type_frames_suffix [OF assms(1)]
          after [OF _ advances_counted_frames(2)] after [OF _ advances_simple_frames(10)]
          after [OF _ advances_path_abandon] after [OF _ advances_simple_frames(11)]
        intro: strict_suffix_tl [OF assms(1)])
qed

lemma varint_skip_eq:
  "picoquic_frames_varint_skip bs =
     (let l = fst (picoquic_varint_decode bs) in if l = 0 then None else Some (drop l bs))"
  by (simp add: varint_skip_decode frames_varint_decode_eq Let_def split: prod.splits)

lemma varint_decode_length: "fst (picoquic_varint_decode bs) \<le> length bs"
  using varint_decode_bound [of bs] by simp

lemma fixed_skip_one: "picoquic_frames_fixed_skip bs 1 = map_option snd (picoquic_frames_uint8_decode bs)"
  by (cases bs) (auto simp: picoquic_frames_fixed_skip_def picoquic_frames_uint8_decode_def)

lemma path_abandon_parse_skip:
  "map_option snd (picoquic_parse_path_abandon_frame bs) = picoquic_skip_path_abandon_frame bs"
  by (simp add: picoquic_parse_path_abandon_frame_def picoquic_skip_path_abandon_frame_def
      picoquic_skip_path_identifier_def varint_skip_decode split: option.splits bind_splits)

lemma ack_frequency_parse_skip:
  "map_option snd (picoquic_parse_ack_frequency_frame bs) = picoquic_skip_ack_frequency_frame bs"
  by (simp add: picoquic_parse_ack_frequency_frame_def picoquic_skip_ack_frequency_frame_def
      varint_skip_decode fixed_skip_one split: option.splits bind_splits)

lemma bdp_parse_skip:
  "picoquic_parse_bdp_frame bs = Some (v, r) \<Longrightarrow> picoquic_skip_bdp_frame bs = Some r"
  by (auto simp: picoquic_parse_bdp_frame_def picoquic_skip_bdp_frame_def varint_skip_decode
      picoquic_frames_length_data_skip_def bind_eq_Some_conv split: if_splits)

section \<open>Properties\<close>

text \<open>
  C26: on a non-empty packet the frame skipper does not fault, consumes at least one byte and at
  most what there is, and consumes everything when it reports a format error, so a loop over the
  frames of a packet always ends.
\<close>

theorem skip_frame_progress:
  assumes "bs \<noteq> []"
  shows "\<exists>ret n p. picoquic_skip_frame bs = Ok (ret, n, p) \<and> 0 < n \<and> n \<le> length bs \<and>
           (ret = 0 \<or> ret = 1 \<and> n = length bs)"
proof (cases "skip_frame_switch bs")
  case (Pair o' p)
  show ?thesis
  proof (cases o')
    case None
    with Pair assms show ?thesis by (simp add: picoquic_skip_frame_def)
  next
    case (Some r)
    with Pair have "strict_suffix r bs" using skip_frame_switch_suffix [OF assms] by simp
    then have "length r < length bs" by (auto simp: strict_suffix_def suffix_def)
    with Pair Some assms show ?thesis by (simp add: picoquic_skip_frame_def)
  qed
qed

theorem skip_frame_progress_witness:
  "\<exists>ret n p. picoquic_skip_frame [0x11, 4, 0x40, 0x20, 1] = Ok (ret, n, p) \<and> 0 < n \<and> n \<le> 5"
  using skip_frame_progress [of "[0x11, 4, 0x40, 0x20, 1]"] by auto

text \<open>
  Also: the two routines that find the end of a STREAM frame agree. The header parser succeeds
  exactly when the skipper does, and the data that the parser announces ends where the skipper
  stops.
\<close>

theorem stream_header_skip_agree:
  assumes "bs \<noteq> []" "picoquic_parse_stream_header bs h0 = (ret, h)"
  shows "picoquic_skip_stream_frame bs =
           (if ret = 0 then Some (drop (sh_consumed h + sh_data_length h) bs) else None)"
proof -
  obtain b t where bs: "bs = b # t" using assms(1) by (cases bs) auto
  obtain l1 v1 where d1: "picoquic_varint_decode t = (l1, v1)" by fastforce
  obtain l2 v2 where d2: "picoquic_varint_decode (drop l1 t) = (l2, v2)" by fastforce
  obtain l3 v3 where d3: "picoquic_varint_decode (drop (l1 + l2) t) = (l3, v3)" by fastforce
  have le: "l1 \<le> length t" "l2 \<le> length t - l1" "l3 \<le> length t - (l1 + l2)"
    using varint_decode_length [of t] varint_decode_length [of "drop l1 t"]
      varint_decode_length [of "drop (l1 + l2) t"] by (simp_all add: d1 d2 d3)
  have nil: "t = [] \<longrightarrow> l1 = 0" "l1 = length t \<longrightarrow> l2 = 0" "l1 + l2 = length t \<longrightarrow> l3 = 0"
    using le by auto
  note defs = picoquic_parse_stream_header_def picoquic_skip_stream_frame_def varint_skip_eq Let_def
    picoquic_frames_length_data_skip_def frames_varint_decode_eq picoquic_frames_fixed_skip_def
  consider (A) "b AND 4 = 0" "b AND 2 = 0" | (B) "b AND 4 \<noteq> 0" "b AND 2 = 0"
    | (C) "b AND 4 = 0" "b AND 2 \<noteq> 0" | (D) "b AND 4 \<noteq> 0" "b AND 2 \<noteq> 0" by blast
  then show ?thesis
  proof cases
    case A
    with assms(2) le nil show ?thesis by (auto simp: defs bs d1 split: if_splits)
  next
    case B
    with assms(2) le nil show ?thesis by (auto simp: defs bs d1 d2 split: if_splits)
  next
    case C
    with assms(2) le nil show ?thesis
      by (auto simp: defs bs d1 d2 add.commute split: if_splits)
  next
    case D
    with assms(2) le nil show ?thesis
      by (auto simp: defs bs d1 d2 d3 add.commute [of l2] add.commute split: if_splits)
  qed
qed

theorem stream_header_skip_agree_witness:
  "picoquic_skip_stream_frame [0x0e, 4, 5, 2, 7, 8, 1] = Some [1]"
  using stream_header_skip_agree [of "[0x0e, 4, 5, 2, 7, 8, 1]" "\<lparr>sh_stream_id = 0, sh_offset = 0,
      sh_data_length = 0, sh_fin = False, sh_consumed = 0\<rparr>" 0 "\<lparr>sh_stream_id = 4, sh_offset = 5,
      sh_data_length = 2, sh_fin = False, sh_consumed = 4\<rparr>"]
  by (simp add: picoquic_parse_stream_header_def picoquic_varint_decode_def)

text \<open>
  Also: each frame parser stops where the skipper of the same frame stops, and fails when it fails;
  only the BDP parser is stricter, it accepts saved addresses of 4 or 16 bytes alone.
\<close>

theorem parsers_agree_with_skippers:
  "map_option snd (picoquic_parse_ack_frequency_frame bs) = picoquic_skip_ack_frequency_frame bs \<and>
   map_option snd (picoquic_parse_time_stamp_frame bs) = picoquic_skip_time_stamp_frame bs \<and>
   map_option snd (picoquic_parse_path_abandon_frame bs) = picoquic_skip_path_abandon_frame bs \<and>
   (picoquic_parse_bdp_frame bs = None \<or>
    map_option snd (picoquic_parse_bdp_frame bs) = picoquic_skip_bdp_frame bs)"
  using bdp_parse_skip [of bs]
  by (cases "picoquic_parse_bdp_frame bs")
    (auto simp: ack_frequency_parse_skip path_abandon_parse_skip picoquic_parse_time_stamp_frame_def
      picoquic_skip_time_stamp_frame_def varint_skip_decode)

end
