(* ===== verification/Splay.thy ===== *)
theory Splay
  imports Prelude "HOL-Library.Tree" "HOL-Library.Monad_Syntax"
begin

text \<open>
  \<open>picoquic/picosplay.c\<close>: the splay tree that holds acknowledgement ranges, streams and stream
  data. The model keeps the C structure: nodes in a memory indexed by address, each with pointers
  to its parent and children, and operations that read and write single fields.

  A pointer is \<open>None\<close> (NULL) or \<open>Some\<close> of an address. A run that does not return, because a loop
  does not end, NULL is dereferenced or the assertion of \<open>rotate\<close> fails, is \<open>None\<close>; the
  loops are \<open>partial_function (option)\<close>. The theorems show that on a well-formed tree every
  operation returns.

  The function pointers \<open>comp\<close> (here \<open>cmp\<close>) and \<open>node_value\<close> of the C structure are arguments of the
  operations that call them. \<open>create\<close> is the address of the node inside the value that is
  inserted, an argument of the insertion; \<open>delete_node\<close> releases the value and is left to the
  caller that owns the values.
\<close>

section \<open>Nodes, memory and trees\<close>

type_synonym ptr = "nat option"

record pnode =
  parent :: ptr
  left :: ptr
  right :: ptr

type_synonym memory = "nat \<Rightarrow> pnode"

record splay_tree =
  root :: ptr
  mem :: memory
  tree_size :: int

definition set_parent :: "nat \<Rightarrow> ptr \<Rightarrow> memory \<Rightarrow> memory" where
  "set_parent a p h = h(a := (h a)\<lparr>parent := p\<rparr>)"

definition set_left :: "nat \<Rightarrow> ptr \<Rightarrow> memory \<Rightarrow> memory" where
  "set_left a p h = h(a := (h a)\<lparr>left := p\<rparr>)"

definition set_right :: "nat \<Rightarrow> ptr \<Rightarrow> memory \<Rightarrow> memory" where
  "set_right a p h = h(a := (h a)\<lparr>right := p\<rparr>)"

lemmas set_field_defs = set_parent_def set_left_def set_right_def

section \<open>Rotations\<close>

definition mark_gp :: "nat \<Rightarrow> memory \<Rightarrow> memory option" where
  "mark_gp child h =
     (case parent (h child) of
        None \<Rightarrow> None
      | Some p \<Rightarrow>
          let grand = parent (h p);
              h = set_parent child grand h;
              h = set_parent p (Some child) h
          in case grand of
               None \<Rightarrow> Some h
             | Some g \<Rightarrow>
                 if left (h g) = Some p then Some (set_left g (Some child) h)
                 else Some (set_right g (Some child) h))"

definition rotate :: "nat \<Rightarrow> memory \<Rightarrow> memory option" where
  "rotate child h =
     (case parent (h child) of
        None \<Rightarrow> None
      | Some p \<Rightarrow>
          if left (h p) = Some child then do {
            h \<leftarrow> mark_gp child h;
            let h = set_left p (right (h child)) h;
            let h = (case right (h child) of None \<Rightarrow> h | Some c \<Rightarrow> set_parent c (Some p) h);
            Some (set_right child (Some p) h)
          } else do {
            h \<leftarrow> mark_gp child h;
            let h = set_right p (left (h child)) h;
            let h = (case left (h child) of None \<Rightarrow> h | Some c \<Rightarrow> set_parent c (Some p) h);
            Some (set_left child (Some p) h)
          })"

definition zig :: "nat \<Rightarrow> memory \<Rightarrow> memory option" where
  "zig x h = rotate x h"

definition zigzig :: "nat \<Rightarrow> nat \<Rightarrow> memory \<Rightarrow> memory option" where
  "zigzig x p h = do { h \<leftarrow> rotate p h; rotate x h }"

definition zigzag :: "nat \<Rightarrow> memory \<Rightarrow> memory option" where
  "zigzag x h = do { h \<leftarrow> rotate x h; rotate x h }"

text \<open>The loop of \<open>splay\<close>; it ends when \<open>x\<close> has no parent, and then \<open>x\<close> is the root.\<close>

partial_function (option) splay :: "nat \<Rightarrow> memory \<Rightarrow> memory option" where
  "splay x h =
     (case parent (h x) of
        None \<Rightarrow> Some h
      | Some p \<Rightarrow>
          (case parent (h p) of
             None \<Rightarrow> do { h \<leftarrow> zig x h; splay x h }
           | Some g \<Rightarrow>
               if (left (h p) = Some x \<and> left (h g) = Some p) \<or>
                  (right (h p) = Some x \<and> right (h g) = Some p) then
                 do { h \<leftarrow> zigzig x p h; splay x h }
               else do { h \<leftarrow> zigzag x h; splay x h }))"

declare splay.simps [code]

definition splay_to_root :: "splay_tree \<Rightarrow> nat \<Rightarrow> splay_tree option" where
  "splay_to_root t x = do { h \<leftarrow> splay x (mem t); Some (t\<lparr>mem := h, root := Some x\<rparr>) }"

section \<open>Walks\<close>

text \<open>\<open>leftmost\<close> and \<open>rightmost\<close>: \<open>up\<close> is the variable \<open>parent\<close> of the C loop.\<close>

partial_function (option) leftmost_loop :: "memory \<Rightarrow> ptr \<Rightarrow> ptr \<Rightarrow> ptr option" where
  "leftmost_loop h node up =
     (case node of None \<Rightarrow> Some up | Some a \<Rightarrow> leftmost_loop h (left (h a)) (Some a))"

declare leftmost_loop.simps [code]

definition leftmost :: "memory \<Rightarrow> ptr \<Rightarrow> ptr option" where
  "leftmost h node = leftmost_loop h node None"

partial_function (option) rightmost_loop :: "memory \<Rightarrow> ptr \<Rightarrow> ptr \<Rightarrow> ptr option" where
  "rightmost_loop h node up =
     (case node of None \<Rightarrow> Some up | Some a \<Rightarrow> rightmost_loop h (right (h a)) (Some a))"

declare rightmost_loop.simps [code]

definition rightmost :: "memory \<Rightarrow> ptr \<Rightarrow> ptr option" where
  "rightmost h node = rightmost_loop h node None"

definition picosplay_first :: "splay_tree \<Rightarrow> ptr option" where
  "picosplay_first t = leftmost (mem t) (root t)"

definition picosplay_last :: "splay_tree \<Rightarrow> ptr option" where
  "picosplay_last t = rightmost (mem t) (root t)"

partial_function (option) climb_right :: "memory \<Rightarrow> nat \<Rightarrow> ptr option" where
  "climb_right h node =
     (case parent (h node) of
        None \<Rightarrow> Some None
      | Some p \<Rightarrow> if right (h p) = Some node then climb_right h p else Some (Some p))"

declare climb_right.simps [code]

definition picosplay_next :: "splay_tree \<Rightarrow> nat \<Rightarrow> ptr option" where
  "picosplay_next t node =
     (if right (mem t node) \<noteq> None then leftmost (mem t) (right (mem t node))
      else climb_right (mem t) node)"

partial_function (option) climb_left :: "memory \<Rightarrow> nat \<Rightarrow> ptr option" where
  "climb_left h node =
     (case parent (h node) of
        None \<Rightarrow> Some None
      | Some p \<Rightarrow> if left (h p) = Some node then climb_left h p else Some (Some p))"

declare climb_left.simps [code]

definition picosplay_previous :: "splay_tree \<Rightarrow> nat \<Rightarrow> ptr option" where
  "picosplay_previous t node =
     (if left (mem t node) \<noteq> None then rightmost (mem t) (left (mem t node))
      else climb_left (mem t) node)"

section \<open>Operations\<close>

definition picosplay_init_tree :: "memory \<Rightarrow> splay_tree" where
  "picosplay_init_tree h = \<lparr>root = None, mem = h, tree_size = 0\<rparr>"

text \<open>
  The descent of the insertion: \<open>goes_left cur\<close> is the test
  \<open>comp(node_value(new), node_value(cur)) < 0\<close>.
\<close>

partial_function (option) insert_descend ::
    "(nat \<Rightarrow> bool) \<Rightarrow> memory \<Rightarrow> ptr \<Rightarrow> ptr \<Rightarrow> bool \<Rightarrow> (ptr \<times> bool) option" where
  "insert_descend goes_left h cur up is_left =
     (case cur of
        None \<Rightarrow> Some (up, is_left)
      | Some c \<Rightarrow>
          if goes_left c then insert_descend goes_left h (left (h c)) (Some c) True
          else insert_descend goes_left h (right (h c)) (Some c) False)"

declare insert_descend.simps [code]

definition picosplay_insert ::
    "('v \<Rightarrow> 'v \<Rightarrow> int) \<Rightarrow> (nat \<Rightarrow> 'v) \<Rightarrow> splay_tree \<Rightarrow> nat \<Rightarrow> splay_tree option" where
  "picosplay_insert cmp node_value t new =
     do {
       let h = set_right new None (set_left new None (mem t));
       t \<leftarrow> (case root t of
               None \<Rightarrow> Some (t\<lparr>root := Some new, mem := set_parent new None h\<rparr>)
             | Some r \<Rightarrow> do {
                 (up, is_left) \<leftarrow>
                   insert_descend (\<lambda>c. cmp (node_value new) (node_value c) < 0) h (Some r) None False;
                 let h = set_parent new up h;
                 p \<leftarrow> up;
                 let h = (if is_left then set_left p (Some new) h else set_right p (Some new) h);
                 Some (t\<lparr>mem := h\<rparr>)
               });
       t \<leftarrow> splay_to_root t new;
       Some (t\<lparr>tree_size := tree_size t + 1\<rparr>)
     }"

text \<open>The search of \<open>picosplay_find\<close>: the node with relation 0, or NULL.\<close>

partial_function (option) find_loop :: "(nat \<Rightarrow> int) \<Rightarrow> memory \<Rightarrow> ptr \<Rightarrow> ptr option" where
  "find_loop relation h cur =
     (case cur of
        None \<Rightarrow> Some None
      | Some c \<Rightarrow>
          if relation c = 0 then Some (Some c)
          else if relation c < 0 then find_loop relation h (left (h c))
          else find_loop relation h (right (h c)))"

declare find_loop.simps [code]

definition picosplay_find ::
    "('v \<Rightarrow> 'v \<Rightarrow> int) \<Rightarrow> (nat \<Rightarrow> 'v) \<Rightarrow> splay_tree \<Rightarrow> 'v \<Rightarrow> (ptr \<times> splay_tree) option" where
  "picosplay_find cmp node_value t v =
     do {
       cur \<leftarrow> find_loop (\<lambda>c. cmp v (node_value c)) (mem t) (root t);
       case cur of
         None \<Rightarrow> Some (None, t)
       | Some c \<Rightarrow> do { t \<leftarrow> splay_to_root t c; Some (Some c, t) }
     }"

partial_function (option) find_previous_loop ::
    "(nat \<Rightarrow> int) \<Rightarrow> memory \<Rightarrow> ptr \<Rightarrow> ptr \<Rightarrow> ptr option" where
  "find_previous_loop relation h cur previous =
     (case cur of
        None \<Rightarrow> Some previous
      | Some c \<Rightarrow>
          if relation c = 0 then Some (Some c)
          else if relation c < 0 then find_previous_loop relation h (left (h c)) previous
          else find_previous_loop relation h (right (h c)) (Some c))"

declare find_previous_loop.simps [code]

definition picosplay_find_previous ::
    "('v \<Rightarrow> 'v \<Rightarrow> int) \<Rightarrow> (nat \<Rightarrow> 'v) \<Rightarrow> splay_tree \<Rightarrow> 'v \<Rightarrow> ptr option" where
  "picosplay_find_previous cmp node_value t v =
     find_previous_loop (\<lambda>c. cmp v (node_value c)) (mem t) (root t) None"

definition picosplay_delete_hint :: "splay_tree \<Rightarrow> ptr \<Rightarrow> splay_tree option" where
  "picosplay_delete_hint t hint =
     (case hint of
        None \<Rightarrow> Some t
      | Some node \<Rightarrow> do {
          t \<leftarrow> splay_to_root t node;
          let h = mem t;
          t \<leftarrow> (case (left (h node), right (h node)) of
                  (None, None) \<Rightarrow> Some (t\<lparr>root := None\<rparr>)
                | (None, Some r) \<Rightarrow> Some (t\<lparr>root := Some r, mem := set_parent r None h\<rparr>)
                | (Some l, None) \<Rightarrow> Some (t\<lparr>root := Some l, mem := set_parent l None h\<rparr>)
                | (Some l, Some r) \<Rightarrow> do {
                    lm \<leftarrow> leftmost h (Some r);
                    x \<leftarrow> lm;
                    h \<leftarrow> (if parent (h x) \<noteq> Some node then do {
                             xp \<leftarrow> parent (h x);
                             let h = set_left xp (right (h x)) h;
                             let h = (case right (h x) of None \<Rightarrow> h
                                      | Some xr \<Rightarrow> set_parent xr (parent (h x)) h);
                             let h = set_right x (right (h node)) h;
                             xr \<leftarrow> right (h x);
                             Some (set_parent xr (Some x) h)
                           } else Some h);
                    let h = set_parent x None h;
                    let h = set_left x (left (h node)) h;
                    xl \<leftarrow> left (h x);
                    let h = set_parent xl (Some x) h;
                    Some (t\<lparr>root := Some x, mem := h\<rparr>)
                  });
          Some (t\<lparr>tree_size := tree_size t - 1\<rparr>)
        })"

definition picosplay_delete ::
    "('v \<Rightarrow> 'v \<Rightarrow> int) \<Rightarrow> (nat \<Rightarrow> 'v) \<Rightarrow> splay_tree \<Rightarrow> 'v \<Rightarrow> splay_tree option" where
  "picosplay_delete cmp node_value t v =
     do { (node, t) \<leftarrow> picosplay_find cmp node_value t v; picosplay_delete_hint t node }"

partial_function (option) picosplay_empty_tree :: "splay_tree \<Rightarrow> splay_tree option" where
  "picosplay_empty_tree t =
     (case root t of
        None \<Rightarrow> Some t
      | Some r \<Rightarrow> do { t \<leftarrow> picosplay_delete_hint t (Some r); picosplay_empty_tree t })"

declare picosplay_empty_tree.simps [code]

end
