(* ===== verification/SplayShape.thy ===== *)
theory SplayShape
  imports Splay
begin

text \<open>
  What the pointer structure of \<open>Splay\<close> represents. \<open>tr\<close> says that a memory holds a binary tree
  of addresses, parent pointers included; \<open>focus\<close> says the same with one node \<open>x\<close> in focus, the
  part of the tree above \<open>x\<close> being a list of frames from \<open>x\<close> up to the root. A rotation changes
  the focus by one frame, and the sequence of nodes from left to right stays as it is.
\<close>

section \<open>Trees and contexts in memory\<close>

fun tr :: "memory \<Rightarrow> ptr \<Rightarrow> ptr \<Rightarrow> nat tree \<Rightarrow> bool" where
  "tr h up p Leaf \<longleftrightarrow> p = None"
| "tr h up p (Node l a r) \<longleftrightarrow> p = Some a \<and> parent (h a) = up \<and>
     tr h (Some a) (left (h a)) l \<and> tr h (Some a) (right (h a)) r"

text \<open>\<open>InLeft a r\<close>: the node below is the left child of \<open>a\<close>, whose right subtree is \<open>r\<close>.\<close>

datatype frame = InLeft nat "nat tree" | InRight "nat tree" nat

fun ctx :: "memory \<Rightarrow> nat \<Rightarrow> frame list \<Rightarrow> bool" where
  "ctx h x [] \<longleftrightarrow> parent (h x) = None"
| "ctx h x (InLeft a r # fs) \<longleftrightarrow> parent (h x) = Some a \<and> left (h a) = Some x \<and>
     tr h (Some a) (right (h a)) r \<and> ctx h a fs"
| "ctx h x (InRight l a # fs) \<longleftrightarrow> parent (h x) = Some a \<and> right (h a) = Some x \<and>
     tr h (Some a) (left (h a)) l \<and> ctx h a fs"

fun before :: "frame list \<Rightarrow> nat list" where
  "before [] = []"
| "before (InLeft a r # fs) = before fs"
| "before (InRight l a # fs) = before fs @ inorder l @ [a]"

fun after :: "frame list \<Rightarrow> nat list" where
  "after [] = []"
| "after (InLeft a r # fs) = a # inorder r @ after fs"
| "after (InRight l a # fs) = after fs"

fun plug :: "nat tree \<Rightarrow> frame list \<Rightarrow> nat tree" where
  "plug t [] = t"
| "plug t (InLeft a r # fs) = plug (Node t a r) fs"
| "plug t (InRight l a # fs) = plug (Node l a t) fs"

fun top_ptr :: "ptr \<Rightarrow> frame list \<Rightarrow> ptr" where
  "top_ptr q [] = q"
| "top_ptr q (InLeft a r # fs) = top_ptr (Some a) fs"
| "top_ptr q (InRight l a # fs) = top_ptr (Some a) fs"

definition focus :: "memory \<Rightarrow> nat tree \<Rightarrow> nat \<Rightarrow> nat tree \<Rightarrow> frame list \<Rightarrow> bool" where
  "focus h A x B fs \<longleftrightarrow> ctx h x fs \<and> tr h (Some x) (left (h x)) A \<and> tr h (Some x) (right (h x)) B \<and>
     distinct (before fs @ inorder A @ x # inorder B @ after fs)"

lemma inorder_plug: "inorder (plug t fs) = before fs @ inorder t @ after fs"
  by (induction t fs rule: plug.induct) auto

lemma field_simps_mem [simp]:
  "parent (set_parent a p h b) = (if b = a then p else parent (h b))"
  "left (set_parent a p h b) = left (h b)"
  "right (set_parent a p h b) = right (h b)"
  "parent (set_left a p h b) = parent (h b)"
  "left (set_left a p h b) = (if b = a then p else left (h b))"
  "right (set_left a p h b) = right (h b)"
  "parent (set_right a p h b) = parent (h b)"
  "left (set_right a p h b) = left (h b)"
  "right (set_right a p h b) = (if b = a then p else right (h b))"
  by (simp_all add: set_field_defs)

text \<open>A write outside the footprint of a tree or of a context leaves it as it is.\<close>

lemma tr_write [simp]:
  "a \<notin> set_tree t \<Longrightarrow> tr (set_parent a q h) up p t = tr h up p t"
  "a \<notin> set_tree t \<Longrightarrow> tr (set_left a q h) up p t = tr h up p t"
  "a \<notin> set_tree t \<Longrightarrow> tr (set_right a q h) up p t = tr h up p t"
  by (induction t arbitrary: up p) auto

lemma ctx_write_child [simp]:
  "a \<notin> set (before fs) \<Longrightarrow> a \<notin> set (after fs) \<Longrightarrow> ctx (set_left a q h) x fs = ctx h x fs"
  "a \<notin> set (before fs) \<Longrightarrow> a \<notin> set (after fs) \<Longrightarrow> ctx (set_right a q h) x fs = ctx h x fs"
  by (induction h x fs rule: ctx.induct) auto

lemma ctx_write_parent [simp]:
  "a \<notin> set (before fs) \<Longrightarrow> a \<notin> set (after fs) \<Longrightarrow> a \<noteq> x \<Longrightarrow>
     ctx (set_parent a q h) x fs = ctx h x fs"
  by (induction h x fs rule: ctx.induct) auto

lemma tr_root_mem: "tr h up (Some a) t \<Longrightarrow> a \<in> set_tree t"
  by (cases t) auto

lemma tr_parent: "tr h up (Some a) t \<Longrightarrow> parent (h a) = up"
  by (cases t) auto

lemma focus_up:
  "focus h A x B (InLeft p R # fs) = focus h (Node A x B) p R fs"
  "focus h A x B (InRight L p # fs) = focus h L p (Node A x B) fs"
  by (auto simp: focus_def)

text \<open>Giving a subtree another parent.\<close>

lemma tr_reparent:
  "tr h up (Some b) t \<Longrightarrow> distinct (inorder t) \<Longrightarrow> tr (set_parent b q h) q (Some b) t"
  by (cases t) auto

section \<open>Rotations\<close>

lemma rotate_left:
  assumes "focus h A x B (InLeft p R # fs)"
  shows "\<exists>h'. rotate x h = Some h' \<and> focus h' A x (Node B p R) fs"
proof -
  note z = assms [unfolded focus_def]
  have xp: "parent (h x) = Some p" "left (h p) = Some x" using z by auto
  show ?thesis
  proof (cases fs)
    case Nil
    then have g: "parent (h p) = None" using z by auto
    show ?thesis
      using z xp g Nil
      by (cases B) (auto simp: rotate_def mark_gp_def Let_def focus_def)
  next
    case (Cons f gs)
    show ?thesis
    proof (cases f)
      case (InLeft g G)
      then have g: "parent (h p) = Some g" "left (h g) = Some p" using z Cons by auto
      show ?thesis
        using z xp g Cons InLeft
        by (cases B) (auto simp: rotate_def mark_gp_def Let_def focus_def)
    next
      case (InRight L g)
      then have g: "parent (h p) = Some g" "right (h g) = Some p" using z Cons by auto
      have "left (h g) \<noteq> Some p" using z Cons InRight by (auto dest: tr_root_mem)
      then show ?thesis
        using z xp g Cons InRight
        by (cases B) (auto simp: rotate_def mark_gp_def Let_def focus_def)
    qed
  qed
qed

lemma rotate_right:
  assumes "focus h A x B (InRight L p # fs)"
  shows "\<exists>h'. rotate x h = Some h' \<and> focus h' (Node L p A) x B fs"
proof -
  note z = assms [unfolded focus_def]
  have xp: "parent (h x) = Some p" "right (h p) = Some x" using z by auto
  have lx: "left (h p) \<noteq> Some x" using z by (auto dest: tr_root_mem)
  show ?thesis
  proof (cases fs)
    case Nil
    then have g: "parent (h p) = None" using z by auto
    show ?thesis
      using z xp g lx Nil
      by (cases A) (auto simp: rotate_def mark_gp_def Let_def focus_def)
  next
    case (Cons f gs)
    show ?thesis
    proof (cases f)
      case (InLeft g G)
      then have g: "parent (h p) = Some g" "left (h g) = Some p" using z Cons by auto
      show ?thesis
        using z xp g lx Cons InLeft
        by (cases A) (auto simp: rotate_def mark_gp_def Let_def focus_def)
    next
      case (InRight G g)
      then have g: "parent (h p) = Some g" "right (h g) = Some p" using z Cons by auto
      have "left (h g) \<noteq> Some p" using z Cons InRight by (auto dest: tr_root_mem)
      then show ?thesis
        using z xp g lx Cons InRight
        by (cases A) (auto simp: rotate_def mark_gp_def Let_def focus_def)
    qed
  qed
qed

text \<open>One round of the loop of \<open>splay\<close> at depth two or more: zig-zig or zig-zag.\<close>

lemma zigzig_left:
  assumes "focus h A x B (InLeft p R # InLeft g G # fs)"
  shows "\<exists>h'. zigzig x p h = Some h' \<and> focus h' A x (Node B p (Node R g G)) fs"
proof -
  from assms have "focus h (Node A x B) p R (InLeft g G # fs)" by (simp add: focus_up)
  from rotate_left [OF this]
  obtain h1 where "rotate p h = Some h1" "focus h1 (Node A x B) p (Node R g G) fs" by blast
  then show ?thesis
    using rotate_left [of h1 A x B p "Node R g G" fs] by (auto simp: zigzig_def focus_up)
qed

lemma zigzig_right:
  assumes "focus h A x B (InRight L p # InRight G g # fs)"
  shows "\<exists>h'. zigzig x p h = Some h' \<and> focus h' (Node (Node G g L) p A) x B fs"
proof -
  from assms have "focus h L p (Node A x B) (InRight G g # fs)" by (simp add: focus_up)
  from rotate_right [OF this]
  obtain h1 where "rotate p h = Some h1" "focus h1 (Node G g L) p (Node A x B) fs" by blast
  then show ?thesis
    using rotate_right [of h1 A x B "Node G g L" p fs] by (auto simp: zigzig_def focus_up)
qed

lemma zigzag_left_right:
  assumes "focus h A x B (InLeft p R # InRight G g # fs)"
  shows "\<exists>h'. zigzag x h = Some h' \<and> focus h' (Node G g A) x (Node B p R) fs"
  using rotate_left [OF assms] rotate_right by (fastforce simp: zigzag_def)

lemma zigzag_right_left:
  assumes "focus h A x B (InRight L p # InLeft g G # fs)"
  shows "\<exists>h'. zigzag x h = Some h' \<and> focus h' (Node L p A) x (Node B g G) fs"
  using rotate_right [OF assms] rotate_left by (fastforce simp: zigzag_def)

lemma splay_round:
  assumes "focus h A x B (f # g # fs)"
  shows "\<exists>h' A' B'. splay x h = splay x h' \<and> focus h' A' x B' fs \<and>
           before fs @ inorder A' = before (f # g # fs) @ inorder A \<and>
           inorder B' @ after fs = inorder B @ after (f # g # fs)"
proof -
  note z = assms [unfolded focus_def]
  show ?thesis
  proof (cases f; cases g)
    fix p R q G assume fg: "f = InLeft p R" "g = InLeft q G"
    from z fg have p: "parent (h x) = Some p" "parent (h p) = Some q" "left (h p) = Some x" "left (h q) = Some p"
      by auto
    from zigzig_left assms fg obtain h' where "zigzig x p h = Some h'" "focus h' A x (Node B p (Node R q G)) fs"
      by blast
    moreover then have "splay x h = splay x h'" using p by (subst splay.simps) simp
    ultimately show ?thesis using fg by fastforce
  next
    fix p R q G assume fg: "f = InLeft p R" "g = InRight G q"
    from z fg have p: "parent (h x) = Some p" "parent (h p) = Some q" "left (h p) = Some x" "right (h q) = Some p"
      "left (h q) \<noteq> Some p" "right (h p) \<noteq> Some x" by (auto dest: tr_root_mem)
    from zigzag_left_right assms fg obtain h' where "zigzag x h = Some h'" "focus h' (Node G q A) x (Node B p R) fs"
      by blast
    moreover then have "splay x h = splay x h'" using p by (subst splay.simps) simp
    ultimately show ?thesis using fg by fastforce
  next
    fix p L q G assume fg: "f = InRight L p" "g = InLeft q G"
    from z fg have p: "parent (h x) = Some p" "parent (h p) = Some q" "right (h p) = Some x" "left (h q) = Some p"
      "right (h q) \<noteq> Some p" "left (h p) \<noteq> Some x" by (auto dest: tr_root_mem)
    from zigzag_right_left assms fg obtain h' where "zigzag x h = Some h'" "focus h' (Node L p A) x (Node B q G) fs"
      by blast
    moreover then have "splay x h = splay x h'" using p by (subst splay.simps) simp
    ultimately show ?thesis using fg by fastforce
  next
    fix p L q G assume fg: "f = InRight L p" "g = InRight G q"
    from z fg have p: "parent (h x) = Some p" "parent (h p) = Some q" "right (h p) = Some x" "right (h q) = Some p"
      by auto
    from zigzig_right assms fg obtain h' where "zigzig x p h = Some h'" "focus h' (Node (Node G q L) p A) x B fs"
      by blast
    moreover then have "splay x h = splay x h'" using p by (subst splay.simps) simp
    ultimately show ?thesis using fg by fastforce
  qed
qed

text \<open>
  The loop of \<open>splay\<close> ends: each round removes one or two frames. The nodes to the left and to the
  right of \<open>x\<close> stay what they were.
\<close>

lemma splay_focus:
  "focus h A x B fs \<Longrightarrow>
     \<exists>h' A' B'. splay x h = Some h' \<and> focus h' A' x B' [] \<and>
       inorder A' = before fs @ inorder A \<and> inorder B' = inorder B @ after fs"
proof (induction "length fs" arbitrary: h A B fs rule: less_induct)
  case less
  show ?case
  proof (cases fs)
    case Nil
    with less.prems have "parent (h x) = None" by (simp add: focus_def)
    then have "splay x h = Some h" by (simp add: splay.simps)
    with less.prems Nil show ?thesis by auto
  next
    case (Cons f gs)
    show ?thesis
    proof (cases gs)
      case Nil
      then obtain h1 A1 B1 where r: "rotate x h = Some h1" "focus h1 A1 x B1 []"
          "inorder A1 = before fs @ inorder A" "inorder B1 = inorder B @ after fs"
        using less.prems Cons rotate_left [of h A x B] rotate_right [of h A x B]
        by (cases f) fastforce+
      moreover have "\<exists>p. parent (h x) = Some p \<and> parent (h p) = None"
        using less.prems Cons Nil by (cases f) (auto simp: focus_def)
      ultimately have "splay x h = splay x h1"
        by (subst splay.simps) (auto simp: zig_def)
      moreover have "splay x h1 = Some h1" using r(2) by (simp add: splay.simps focus_def)
      ultimately show ?thesis using r by auto
    next
      case (Cons g ks)
      have lt: "length ks < length fs" using Cons \<open>fs = f # gs\<close> by simp
      obtain h2 A2 B2 where step: "splay x h = splay x h2" "focus h2 A2 x B2 ks"
          "before ks @ inorder A2 = before fs @ inorder A"
          "inorder B2 @ after ks = inorder B @ after fs"
        using splay_round [OF less.prems [unfolded \<open>fs = f # gs\<close> Cons]] \<open>fs = f # gs\<close> Cons
        by auto
      from less.hyps [OF lt step(2)] step show ?thesis by auto
    qed
  qed
qed

section \<open>Moving the focus\<close>

text \<open>
  \<open>hole h base q up fs\<close>: the frames \<open>fs\<close> surround a place whose pointer, read in its parent, is
  \<open>q\<close>; \<open>up\<close> is that parent and \<open>base\<close> the parent of the outermost frame.
\<close>

fun hole :: "memory \<Rightarrow> ptr \<Rightarrow> ptr \<Rightarrow> ptr \<Rightarrow> frame list \<Rightarrow> bool" where
  "hole h base q up [] \<longleftrightarrow> up = base"
| "hole h base q up (InLeft a r # fs) \<longleftrightarrow> up = Some a \<and> left (h a) = q \<and>
     tr h (Some a) (right (h a)) r \<and> hole h base (Some a) (parent (h a)) fs"
| "hole h base q up (InRight l a # fs) \<longleftrightarrow> up = Some a \<and> right (h a) = q \<and>
     tr h (Some a) (left (h a)) l \<and> hole h base (Some a) (parent (h a)) fs"

lemma hole_ctx: "hole h None (Some x) (parent (h x)) fs = ctx h x fs"
  by (induction h x fs rule: ctx.induct) auto

lemma tr_plug:
  "tr h base p (plug T fs) \<longleftrightarrow>
     (\<exists>q up. hole h base q up fs \<and> tr h up q T \<and> p = top_ptr q fs)"
proof (induction T fs rule: plug.induct)
  case (2 t a r fs)
  then show ?case by (auto simp: eq_commute [of _ "left _"])
next
  case (3 t l a fs)
  then show ?case by auto
qed simp

lemma hole_write [simp]:
  "a \<notin> set (before fs) \<Longrightarrow> a \<notin> set (after fs) \<Longrightarrow> hole (set_parent a n h) base q up fs = hole h base q up fs"
  "a \<notin> set (before fs) \<Longrightarrow> a \<notin> set (after fs) \<Longrightarrow> hole (set_left a n h) base q up fs = hole h base q up fs"
  "a \<notin> set (before fs) \<Longrightarrow> a \<notin> set (after fs) \<Longrightarrow> hole (set_right a n h) base q up fs = hole h base q up fs"
  by (induction h base q up fs rule: hole.induct) auto

lemma focus_root:
  "focus h A x B [] \<longleftrightarrow> tr h None (Some x) (Node A x B) \<and> distinct (inorder (Node A x B))"
  by (auto simp: focus_def)

lemma focus_down:
  "focus h A r B fs \<Longrightarrow> a \<in> set_tree (Node A r B) \<Longrightarrow>
     \<exists>A' B' fs'. focus h A' a B' fs' \<and> top_ptr (Some a) fs' = top_ptr (Some r) fs \<and>
       before fs' @ inorder A' @ a # inorder B' @ after fs' = before fs @ inorder A @ r # inorder B @ after fs"
proof (induction "size A + size B" arbitrary: A r B fs rule: less_induct)
  case less
  consider "a = r" | "a \<in> set_tree A" | "a \<in> set_tree B" using less.prems(2) by auto
  then show ?case
  proof cases
    case 1
    with less.prems(1) show ?thesis by blast
  next
    case 2
    then obtain A1 l A2 where A: "A = Node A1 l A2" by (cases A) auto
    have "focus h A1 l A2 (InLeft r B # fs)" using less.prems(1) A by (simp add: focus_up)
    from less.hyps [OF _ this] 2 A show ?thesis by auto
  next
    case 3
    then obtain B1 l B2 where B: "B = Node B1 l B2" by (cases B) auto
    have "focus h B1 l B2 (InRight A r # fs)" using less.prems(1) B by (simp add: focus_up)
    from less.hyps [OF _ this] 3 B show ?thesis by auto
  qed
qed

section \<open>The sequence that a tree represents\<close>

definition represents :: "splay_tree \<Rightarrow> nat list \<Rightarrow> bool" where
  "represents t xs \<longleftrightarrow>
     (\<exists>T. tr (mem t) None (root t) T \<and> inorder T = xs \<and> distinct xs \<and> tree_size t = int (length xs))"

lemma represents_focus:
  assumes "represents t xs" "x \<in> set xs"
  obtains A B fs where "focus (mem t) A x B fs" "root t = top_ptr (Some x) fs"
    "before fs @ inorder A @ x # inorder B @ after fs = xs"
proof -
  from assms obtain T where T: "tr (mem t) None (root t) T" "inorder T = xs" "distinct xs"
    by (auto simp: represents_def)
  with assms(2) obtain l r R where "T = Node l r R" by (cases T) auto
  with T assms(2) have f: "focus (mem t) l r R []" "x \<in> set_tree (Node l r R)" "root t = Some r"
    by (auto simp: focus_root)
  from focus_down [OF f(1,2)] f(3) T(2) \<open>T = Node l r R\<close> show thesis by (auto intro: that)
qed

lemma represents_root:
  "root t = None \<Longrightarrow> represents t xs \<longleftrightarrow> xs = [] \<and> tree_size t = 0"
proof -
  assume r: "root t = None"
  have "tr h up None T \<longleftrightarrow> T = Leaf" for h up T by (cases T) auto
  with r show ?thesis by (auto simp: represents_def)
qed

lemma represents_splay:
  assumes "represents t xs" "x \<in> set xs"
  obtains h A B where "splay_to_root t x = Some (t\<lparr>mem := h, root := Some x\<rparr>)"
    "focus h A x B []" "inorder A @ x # inorder B = xs"
proof -
  from assms obtain A B fs where f: "focus (mem t) A x B fs"
    "before fs @ inorder A @ x # inorder B @ after fs = xs" by (rule represents_focus)
  from splay_focus [OF f(1)] f(2) show thesis by (auto simp: splay_to_root_def intro: that)
qed

end
