(* ===== verification/SplayLaws.thy ===== *)
theory SplayLaws
  imports SplayShape
begin

text \<open>
  What each operation of \<open>Splay\<close> does to the represented sequence, and the interface that the
  users of the tree rely on. A search is described by the sign of its comparison on every node;
  along the sequence the sign must not increase, which is what a consistent comparison and sorted
  values give.
\<close>

section \<open>Walks\<close>

lemma distinct_split_unique:
  "distinct (us @ x # vs) \<Longrightarrow> us' @ x # vs' = us @ x # vs \<Longrightarrow> us' = us \<and> vs' = vs"
  using append_Cons_eq_iff [of x us' vs' us vs] by (metis distinct.simps(2) distinct_append disjoint_insert(1) list.simps(15))

lemma leftmost_loop_tr:
  "tr h up p T \<Longrightarrow> leftmost_loop h p u = Some (if T = Leaf then u else Some (hd (inorder T)))"
proof (induction T arbitrary: up p u)
  case Leaf
  then show ?case by (simp add: leftmost_loop.simps)
next
  case (Node l a r)
  then have "leftmost_loop h p u = leftmost_loop h (left (h a)) (Some a)"
    by (subst leftmost_loop.simps) simp
  with Node show ?case by auto
qed

lemma rightmost_loop_tr:
  "tr h up p T \<Longrightarrow> rightmost_loop h p u = Some (if T = Leaf then u else Some (List.last (inorder T)))"
proof (induction T arbitrary: up p u)
  case Leaf
  then show ?case by (simp add: rightmost_loop.simps)
next
  case (Node l a r)
  then have "rightmost_loop h p u = rightmost_loop h (right (h a)) (Some a)"
    by (subst rightmost_loop.simps) simp
  with Node show ?case by auto
qed

text \<open>The first and the last element of a sequence, as pointers.\<close>

definition hd_ptr :: "nat list \<Rightarrow> ptr" where
  "hd_ptr xs = (case xs of [] \<Rightarrow> None | a # _ \<Rightarrow> Some a)"

definition last_ptr :: "nat list \<Rightarrow> ptr" where
  "last_ptr xs = (if xs = [] then None else Some (List.last xs))"

lemma hd_ptr_simps [simp]:
  "hd_ptr [] = None" "hd_ptr (a # xs) = Some a" "xs \<noteq> [] \<Longrightarrow> hd_ptr (xs @ ys) = hd_ptr xs"
  by (cases xs; simp add: hd_ptr_def)+

lemma last_ptr_simps [simp]:
  "last_ptr [] = None" "last_ptr (xs @ [a]) = Some a" "ys \<noteq> [] \<Longrightarrow> last_ptr (xs @ ys) = last_ptr ys"
  "ys \<noteq> [] \<Longrightarrow> last_ptr (a # ys) = last_ptr ys" "last_ptr [a] = Some a"
  by (simp_all add: last_ptr_def)

lemma inorder_Nil_iff [simp]: "inorder T = [] \<longleftrightarrow> T = Leaf"
  by (cases T) auto

lemma leftmost_tr: "tr h up p T \<Longrightarrow> leftmost h p = Some (hd_ptr (inorder T))"
  using leftmost_loop_tr [of h up p T None]
  by (cases "inorder T") (auto simp: leftmost_def hd_ptr_def split: if_splits)

lemma rightmost_tr: "tr h up p T \<Longrightarrow> rightmost h p = Some (last_ptr (inorder T))"
  by (auto simp: rightmost_def rightmost_loop_tr last_ptr_def)

lemma picosplay_first_represents: "represents t xs \<Longrightarrow> picosplay_first t = Some (hd_ptr xs)"
  by (auto simp: represents_def picosplay_first_def leftmost_tr)

lemma picosplay_last_represents: "represents t xs \<Longrightarrow> picosplay_last t = Some (last_ptr xs)"
  by (auto simp: represents_def picosplay_last_def rightmost_tr)

lemma climb_right_ctx:
  "ctx h x fs \<Longrightarrow> x \<notin> set (after fs) \<Longrightarrow> distinct (before fs @ after fs) \<Longrightarrow>
     set (before fs) \<inter> set (after fs) = {} \<Longrightarrow> climb_right h x = Some (hd_ptr (after fs))"
proof (induction h x fs rule: ctx.induct)
  case (1 h x)
  then show ?case by (simp add: climb_right.simps)
next
  case (2 h x a r fs)
  then have "right (h a) \<noteq> Some x" by (auto dest: tr_root_mem)
  with 2 show ?case by (simp add: climb_right.simps)
next
  case (3 h x l a fs)
  then have "climb_right h x = climb_right h a" by (subst climb_right.simps) simp
  with 3 show ?case by auto
qed

lemma climb_left_ctx:
  "ctx h x fs \<Longrightarrow> x \<notin> set (before fs) \<Longrightarrow> distinct (before fs @ after fs) \<Longrightarrow>
     climb_left h x = Some (last_ptr (before fs))"
proof (induction h x fs rule: ctx.induct)
  case (1 h x)
  then show ?case by (simp add: climb_left.simps)
next
  case (3 h x l a fs)
  then have "left (h a) \<noteq> Some x" by (auto dest: tr_root_mem)
  with 3 show ?case by (simp add: climb_left.simps)
next
  case (2 h x a r fs)
  then have "climb_left h x = climb_left h a" by (subst climb_left.simps) simp
  with 2 show ?case by auto
qed

lemma picosplay_next_represents:
  assumes "represents t (us @ x # vs)"
  shows "picosplay_next t x = Some (hd_ptr vs)"
proof -
  from assms obtain A B fs where f: "focus (mem t) A x B fs"
    "before fs @ inorder A @ x # inorder B @ after fs = us @ x # vs"
    by (rule represents_focus) auto
  have "distinct (us @ x # vs)" using assms by (auto simp: represents_def)
  with f(2) have vs: "vs = inorder B @ after fs"
    using distinct_split_unique [of us x vs "before fs @ inorder A" "inorder B @ after fs"] by simp
  from f(1) have B: "tr (mem t) (Some x) (right (mem t x)) B" and c: "ctx (mem t) x fs"
    by (auto simp: focus_def)
  show ?thesis
  proof (cases B)
    case Leaf
    with B c f(1) vs show ?thesis
      by (auto simp: picosplay_next_def focus_def intro!: climb_right_ctx)
  next
    case (Node l b r)
    then have "B \<noteq> Leaf" "right (mem t x) \<noteq> None" using B by auto
    with vs leftmost_tr [OF B] show ?thesis by (simp add: picosplay_next_def)
  qed
qed

lemma picosplay_previous_represents:
  assumes "represents t (us @ x # vs)"
  shows "picosplay_previous t x = Some (last_ptr us)"
proof -
  from assms obtain A B fs where f: "focus (mem t) A x B fs"
    "before fs @ inorder A @ x # inorder B @ after fs = us @ x # vs"
    by (rule represents_focus) auto
  have "distinct (us @ x # vs)" using assms by (auto simp: represents_def)
  with f(2) have us: "us = before fs @ inorder A"
    using distinct_split_unique [of us x vs "before fs @ inorder A" "inorder B @ after fs"] by simp
  from f(1) have A: "tr (mem t) (Some x) (left (mem t x)) A" and c: "ctx (mem t) x fs"
    by (auto simp: focus_def)
  show ?thesis
  proof (cases A)
    case Leaf
    with A c f(1) us show ?thesis
      by (auto simp: picosplay_previous_def focus_def intro!: climb_left_ctx)
  next
    case (Node l b r)
    with A us rightmost_tr [OF A] show ?thesis by (simp add: picosplay_previous_def)
  qed
qed

section \<open>Searches\<close>

text \<open>The sign of the comparison does not increase from left to right.\<close>

definition descending :: "(nat \<Rightarrow> int) \<Rightarrow> nat list \<Rightarrow> bool" where
  "descending rel xs \<longleftrightarrow> sorted_wrt (\<lambda>a b. sgn (rel b) \<le> sgn (rel a)) xs"

lemma descending_append [simp]:
  "descending rel (xs @ ys) \<longleftrightarrow> descending rel xs \<and> descending rel ys \<and>
     (\<forall>a\<in>set xs. \<forall>b\<in>set ys. sgn (rel b) \<le> sgn (rel a))"
  by (auto simp: descending_def sorted_wrt_append)

lemma descending_Cons [simp]:
  "descending rel (x # ys) \<longleftrightarrow> descending rel ys \<and> (\<forall>b\<in>set ys. sgn (rel b) \<le> sgn (rel x))"
  by (auto simp: descending_def)

lemma descending_Nil [simp]: "descending rel []"
  by (simp add: descending_def)

lemma find_loop_tr:
  "tr h up p T \<Longrightarrow> descending rel (inorder T) \<Longrightarrow>
     (\<exists>c\<in>set_tree T. rel c = 0 \<and> find_loop rel h p = Some (Some c)) \<or>
     (\<forall>c\<in>set_tree T. rel c \<noteq> 0) \<and> find_loop rel h p = Some None"
proof (induction T arbitrary: up p)
  case Leaf
  then show ?case by (simp add: find_loop.simps)
next
  case (Node l a r)
  then have p: "p = Some a" and s: "descending rel (inorder l)" "descending rel (inorder r)"
    "\<forall>b\<in>set_tree l. sgn (rel a) \<le> sgn (rel b)" "\<forall>b\<in>set_tree r. sgn (rel b) \<le> sgn (rel a)"
    by auto
  consider "rel a = 0" | "rel a < 0" | "rel a > 0" by linarith
  then show ?case
  proof cases
    case 1
    with p show ?thesis by (simp add: find_loop.simps)
  next
    case 2
    have "\<forall>c\<in>set_tree r. rel c \<noteq> 0" using s(4) 2 by (fastforce simp: sgn_if split: if_splits)
    moreover have "find_loop rel h p = find_loop rel h (left (h a))"
      using 2 p by (subst find_loop.simps) simp
    moreover have "tr h (Some a) (left (h a)) l" using Node.prems by auto
    ultimately show ?thesis using Node.IH(1) [of "Some a" "left (h a)"] 2 s(1) by auto
  next
    case 3
    have "\<forall>c\<in>set_tree l. rel c \<noteq> 0" using s(3) 3 by (fastforce simp: sgn_if split: if_splits)
    moreover have "find_loop rel h p = find_loop rel h (right (h a))"
      using 3 p by (subst find_loop.simps) simp
    moreover have "tr h (Some a) (right (h a)) r" using Node.prems by auto
    ultimately show ?thesis using Node.IH(2) [of "Some a" "right (h a)"] 3 s(2) by auto
  qed
qed

text \<open>
  \<open>picosplay_find_previous\<close> gives a node that compares equal if there is one, and otherwise the
  last node before the value.
\<close>

lemma find_previous_loop_tr:
  "tr h up p T \<Longrightarrow> descending rel (inorder T) \<Longrightarrow>
     (\<exists>c\<in>set_tree T. rel c = 0 \<and> find_previous_loop rel h p prev = Some (Some c)) \<or>
     (\<forall>c\<in>set_tree T. rel c \<noteq> 0) \<and>
       find_previous_loop rel h p prev =
         Some (if \<exists>c\<in>set_tree T. 0 < rel c then last_ptr (filter (\<lambda>c. 0 < rel c) (inorder T)) else prev)"
proof (induction T arbitrary: up p prev)
  case Leaf
  then show ?case by (simp add: find_previous_loop.simps)
next
  case (Node l a r)
  then have p: "p = Some a" and s: "descending rel (inorder l)" "descending rel (inorder r)"
    "\<forall>b\<in>set_tree l. sgn (rel a) \<le> sgn (rel b)" "\<forall>b\<in>set_tree r. sgn (rel b) \<le> sgn (rel a)"
    by auto
  consider "rel a = 0" | "rel a < 0" | "rel a > 0" by linarith
  then show ?case
  proof cases
    case 1
    with p show ?thesis by (simp add: find_previous_loop.simps)
  next
    case 2
    have r: "\<forall>c\<in>set_tree r. rel c < 0" using s(4) 2 by (fastforce simp: sgn_if split: if_splits)
    then have "filter (\<lambda>c. 0 < rel c) (inorder r) = []" by (fastforce simp: filter_empty_conv)
    moreover have "find_previous_loop rel h p prev = find_previous_loop rel h (left (h a)) prev"
      using 2 p by (subst find_previous_loop.simps) simp
    moreover have "tr h (Some a) (left (h a)) l" using Node.prems by auto
    ultimately show ?thesis using Node.IH(1) [of "Some a" "left (h a)" prev] 2 s(1) r
      by (auto dest: bspec)
  next
    case 3
    have l: "\<forall>c\<in>set_tree l. 0 < rel c" using s(3) 3 by (fastforce simp: sgn_if split: if_splits)
    then have lf: "\<forall>c\<in>set_tree l. rel c \<noteq> 0" by auto
    have e: "find_previous_loop rel h p prev = find_previous_loop rel h (right (h a)) (Some a)"
      using 3 p by (subst find_previous_loop.simps) simp
    have "tr h (Some a) (right (h a)) r" using Node.prems by auto
    from Node.IH(2) [OF this s(2), of "Some a"] show ?thesis
    proof (elim disjE conjE bexE)
      fix c assume "c \<in> set_tree r" "rel c = 0" "find_previous_loop rel h (right (h a)) (Some a) = Some (Some c)"
      then show ?thesis using e by auto
    next
      assume n: "\<forall>c\<in>set_tree r. rel c \<noteq> 0"
        "find_previous_loop rel h (right (h a)) (Some a) =
           Some (if \<exists>c\<in>set_tree r. 0 < rel c then last_ptr (filter (\<lambda>c. 0 < rel c) (inorder r)) else Some a)"
      show ?thesis
      proof (cases "\<exists>c\<in>set_tree r. 0 < rel c")
        case True
        then have "filter (\<lambda>c. 0 < rel c) (inorder r) \<noteq> []" by (auto simp: filter_empty_conv)
        then show ?thesis using n lf e 3 True by auto
      next
        case False
        then have "filter (\<lambda>c. 0 < rel c) (inorder r) = []" by (auto simp: filter_empty_conv)
        then show ?thesis using n lf e 3 False by auto
      qed
    qed
  qed
qed

section \<open>Insertion\<close>

text \<open>
  \<open>goes_left c\<close> holds when the new value is smaller than the one at \<open>c\<close>; the new node goes before
  the first such node.
\<close>

definition insert_at :: "(nat \<Rightarrow> bool) \<Rightarrow> nat \<Rightarrow> nat list \<Rightarrow> nat list" where
  "insert_at goes_left new xs =
     takeWhile (\<lambda>c. \<not> goes_left c) xs @ new # dropWhile (\<lambda>c. \<not> goes_left c) xs"

definition is_InLeft :: "frame list \<Rightarrow> bool" where
  "is_InLeft fs \<longleftrightarrow> (case fs of InLeft p r # _ \<Rightarrow> True | _ \<Rightarrow> False)"

lemma takeWhile_dropWhile_up:
  assumes "sorted_wrt (\<lambda>a b. P a \<longrightarrow> P b) (xs @ a # ys)"
  shows "P a \<Longrightarrow> takeWhile (\<lambda>c. \<not> P c) (xs @ a # ys) = takeWhile (\<lambda>c. \<not> P c) xs"
    "P a \<Longrightarrow> dropWhile (\<lambda>c. \<not> P c) (xs @ a # ys) = dropWhile (\<lambda>c. \<not> P c) xs @ a # ys"
    "\<not> P a \<Longrightarrow> takeWhile (\<lambda>c. \<not> P c) (xs @ a # ys) = xs @ a # takeWhile (\<lambda>c. \<not> P c) ys"
    "\<not> P a \<Longrightarrow> dropWhile (\<lambda>c. \<not> P c) (xs @ a # ys) = dropWhile (\<lambda>c. \<not> P c) ys"
proof -
  show "P a \<Longrightarrow> takeWhile (\<lambda>c. \<not> P c) (xs @ a # ys) = takeWhile (\<lambda>c. \<not> P c) xs"
    "P a \<Longrightarrow> dropWhile (\<lambda>c. \<not> P c) (xs @ a # ys) = dropWhile (\<lambda>c. \<not> P c) xs @ a # ys"
    by (induction xs) auto
  have "\<not> P a \<Longrightarrow> \<forall>c\<in>set xs. \<not> P c" using assms by (auto simp: sorted_wrt_append)
  then show "\<not> P a \<Longrightarrow> takeWhile (\<lambda>c. \<not> P c) (xs @ a # ys) = xs @ a # takeWhile (\<lambda>c. \<not> P c) ys"
    "\<not> P a \<Longrightarrow> dropWhile (\<lambda>c. \<not> P c) (xs @ a # ys) = dropWhile (\<lambda>c. \<not> P c) ys"
    by (auto simp: takeWhile_append dropWhile_append)
qed

lemma insert_descend_hole:
  "hole h None cur up fs \<Longrightarrow> tr h up cur T \<Longrightarrow> sorted_wrt (\<lambda>a b. gl a \<longrightarrow> gl b) (inorder T) \<Longrightarrow>
     is_left = is_InLeft fs \<Longrightarrow>
     \<exists>fs' up'. insert_descend gl h cur up is_left = Some (up', is_InLeft fs') \<and> hole h None None up' fs' \<and>
       before fs' = before fs @ takeWhile (\<lambda>c. \<not> gl c) (inorder T) \<and>
       after fs' = dropWhile (\<lambda>c. \<not> gl c) (inorder T) @ after fs"
proof (induction T arbitrary: cur up fs is_left)
  case Leaf
  then show ?case by (intro exI [of _ fs] exI [of _ up]) (simp add: insert_descend.simps)
next
  case (Node l a r)
  then have cur: "cur = Some a" "parent (h a) = up" by auto
  have s0: "sorted_wrt (\<lambda>a b. gl a \<longrightarrow> gl b) (inorder l @ a # inorder r)" using Node.prems(3) by simp
  note s = takeWhile_dropWhile_up [OF s0]
  have sub: "sorted_wrt (\<lambda>a b. gl a \<longrightarrow> gl b) (inorder l)" "sorted_wrt (\<lambda>a b. gl a \<longrightarrow> gl b) (inorder r)"
    using s0 unfolding sorted_wrt_append sorted_wrt.simps by blast+
  show ?case
  proof (cases "gl a")
    case True
    have "hole h None (left (h a)) (Some a) (InLeft a r # fs)" "tr h (Some a) (left (h a)) l"
      using Node.prems cur by auto
    from Node.IH(1) [OF this sub(1), of True] obtain fs' up' where
      "insert_descend gl h (left (h a)) (Some a) True = Some (up', is_InLeft fs')" "hole h None None up' fs'"
      "before fs' = before (InLeft a r # fs) @ takeWhile (\<lambda>c. \<not> gl c) (inorder l)"
      "after fs' = dropWhile (\<lambda>c. \<not> gl c) (inorder l) @ after (InLeft a r # fs)"
      by (auto simp: is_InLeft_def)
    moreover have "insert_descend gl h cur up is_left = insert_descend gl h (left (h a)) (Some a) True"
      using True cur by (subst insert_descend.simps) simp
    ultimately show ?thesis using s(1,2) True by (intro exI [of _ fs'] exI [of _ up']) simp
  next
    case False
    have "hole h None (right (h a)) (Some a) (InRight l a # fs)" "tr h (Some a) (right (h a)) r"
      using Node.prems cur by auto
    from Node.IH(2) [OF this sub(2), of False] obtain fs' up' where
      "insert_descend gl h (right (h a)) (Some a) False = Some (up', is_InLeft fs')" "hole h None None up' fs'"
      "before fs' = before (InRight l a # fs) @ takeWhile (\<lambda>c. \<not> gl c) (inorder r)"
      "after fs' = dropWhile (\<lambda>c. \<not> gl c) (inorder r) @ after (InRight l a # fs)"
      by (auto simp: is_InLeft_def)
    moreover have "insert_descend gl h cur up is_left = insert_descend gl h (right (h a)) (Some a) False"
      using False cur by (subst insert_descend.simps) simp
    ultimately show ?thesis using s(3,4) False by (intro exI [of _ fs'] exI [of _ up']) simp
  qed
qed

lemma hole_attach:
  assumes "hole h None None up fs" "up = Some p" "new \<notin> set (before fs)" "new \<notin> set (after fs)"
    "distinct (before fs @ after fs)" "left (h new) = None" "right (h new) = None"
  shows "focus ((if is_InLeft fs then set_left p (Some new) else set_right p (Some new))
             (set_parent new (Some p) h)) Leaf new Leaf fs"
proof (cases fs)
  case Nil
  with assms show ?thesis by simp
next
  case (Cons f gs)
  show ?thesis
    unfolding focus_def hole_ctx [symmetric] using assms Cons
    by (cases f) (auto simp: is_InLeft_def)
qed

lemma picosplay_insert_represents:
  assumes r: "represents t xs" and n: "new \<notin> set xs"
    and s: "sorted_wrt (\<lambda>a b. cmp (val new) (val a) < 0 \<longrightarrow> cmp (val new) (val b) < 0) xs"
  shows "\<exists>t'. picosplay_insert cmp val t new = Some t' \<and>
           represents t' (insert_at (\<lambda>c. cmp (val new) (val c) < 0) new xs)"
proof -
  let ?gl = "\<lambda>c. cmp (val new) (val c) < (0::int)"
  let ?h = "set_right new None (set_left new None (mem t))"
  from r obtain T where T: "tr (mem t) None (root t) T" "inorder T = xs" "distinct xs"
    "tree_size t = int (length xs)" by (auto simp: represents_def)
  have "new \<notin> set_tree T" using T(2) n by (metis set_inorder)
  with T(1) have Th: "tr ?h None (root t) T" by simp
  have "\<exists>h fs. focus h Leaf new Leaf fs \<and> before fs = takeWhile (\<lambda>c. \<not> ?gl c) xs \<and>
          after fs = dropWhile (\<lambda>c. \<not> ?gl c) xs \<and>
          picosplay_insert cmp val t new =
            Option.bind (splay new h) (\<lambda>h. Some (t\<lparr>mem := h, root := Some new, tree_size := tree_size t + 1\<rparr>))"
  proof (cases "root t")
    case None
    with T have "xs = []" by (cases T) auto
    let ?h' = "set_parent new None ?h"
    have "focus ?h' Leaf new Leaf []" by (simp add: focus_def)
    with \<open>xs = []\<close> None show ?thesis
      by (intro exI [of _ ?h'] exI [of _ "[]"])
        (simp add: picosplay_insert_def splay_to_root_def Let_def bind_assoc)
  next
    case (Some q)
    from insert_descend_hole [OF _ Th, of "[]" ?gl False] s T(2)
    obtain fs up where i: "insert_descend ?gl ?h (Some q) None False = Some (up, is_InLeft fs)"
      "hole ?h None None up fs" "before fs = takeWhile (\<lambda>c. \<not> ?gl c) xs"
      "after fs = dropWhile (\<lambda>c. \<not> ?gl c) xs" by (auto simp: is_InLeft_def Some)
    have "before fs @ after fs = xs" using i by simp
    moreover have "xs \<noteq> []" using Some T by (cases T) auto
    ultimately obtain p where p: "up = Some p" using i(2) by (cases "(None::ptr, fs)" rule: prod.exhaust; cases fs rule: before.cases) auto
    have "focus ((if is_InLeft fs then set_left p (Some new) else set_right p (Some new))
            (set_parent new (Some p) ?h)) Leaf new Leaf fs"
      using \<open>before fs @ after fs = xs\<close> n T(3) p i(2) by (intro hole_attach) auto
    with i p Some show ?thesis
      by (intro exI conjI) (assumption | simp add: picosplay_insert_def splay_to_root_def Let_def bind_assoc)+
  qed
  then obtain h fs where f: "focus h Leaf new Leaf fs" "before fs = takeWhile (\<lambda>c. \<not> ?gl c) xs"
      "after fs = dropWhile (\<lambda>c. \<not> ?gl c) xs"
    and e: "picosplay_insert cmp val t new =
            Option.bind (splay new h) (\<lambda>h. Some (t\<lparr>mem := h, root := Some new, tree_size := tree_size t + 1\<rparr>))"
    by blast
  from splay_focus [OF f(1)] obtain h' A B where h': "splay new h = Some h'" "focus h' A new B []"
    "inorder A = before fs" "inorder B = after fs" by auto
  have l: "length (takeWhile (\<lambda>c. \<not> ?gl c) xs) + length (dropWhile (\<lambda>c. \<not> ?gl c) xs) = length xs"
    by (metis length_append takeWhile_dropWhile_id)
  from h' e f T(4) l show ?thesis
    unfolding represents_def focus_root insert_at_def
    by (auto intro!: exI [of _ "Node A new B"])
qed

section \<open>Deletion\<close>

lemma plug_snoc: "plug T (fs @ [InLeft a r]) = Node (plug T fs) a r"
  by (induction T fs rule: plug.induct) auto

lemma top_ptr_mem:
  "top_ptr (Some p) fs = Some q \<Longrightarrow> q = p \<or> q \<in> set (before fs) \<or> q \<in> set (after fs)"
  by (induction "Some p" fs arbitrary: p rule: top_ptr.induct) auto

text \<open>Hanging the tree around a hole below another node changes one parent pointer.\<close>

lemma hole_rebase:
  "hole h b0 (Some p) (parent (h p)) fs \<Longrightarrow> top_ptr (Some p) fs = Some q \<Longrightarrow>
     distinct (before fs @ p # after fs) \<Longrightarrow>
     hole (set_parent q b h) b (Some p) (parent (set_parent q b h p)) fs"
proof (induction fs arbitrary: p)
  case (Cons f fs)
  show ?case
  proof (cases f)
    case (InLeft a r)
    then have q: "q = a \<or> q \<in> set (before fs) \<or> q \<in> set (after fs)"
      using Cons.prems top_ptr_mem [of a fs q] by simp
    with Cons.prems InLeft have "q \<notin> set_tree r" "q \<noteq> p" by auto
    with Cons.IH [of a] Cons.prems InLeft show ?thesis
      by (auto simp: Int_Un_distrib split: if_splits)
  next
    case (InRight l a)
    then have q: "q = a \<or> q \<in> set (before fs) \<or> q \<in> set (after fs)"
      using Cons.prems top_ptr_mem [of a fs q] by simp
    with Cons.prems InRight have "q \<notin> set_tree l" "q \<noteq> p" by auto
    with Cons.IH [of a] Cons.prems InRight show ?thesis
      by (auto simp: Int_Un_distrib split: if_splits)
  qed
qed auto

lemma tr_leftmost_frame:
  "tr h base p T \<Longrightarrow> T \<noteq> Leaf \<Longrightarrow>
     \<exists>x C fs. T = plug (Node Leaf x C) fs \<and> before fs = [] \<and> (fs = [] \<or> is_InLeft fs)"
proof (induction T arbitrary: base p)
  case (Node l a r)
  show ?case
  proof (cases l)
    case Leaf
    then show ?thesis by (intro exI [of _ a] exI [of _ r] exI [of _ "[]"]) simp
  next
    case (Node l1 b l2)
    then obtain x C fs where l: "l = plug (Node Leaf x C) fs" "before fs = []" "fs = [] \<or> is_InLeft fs"
      using Node.IH(1) Node.prems by fastforce
    have "plug (Node Leaf x C) (fs @ [InLeft a r]) = Node l a r"
      by (simp add: l(1) plug_snoc)
    moreover have "before (fs @ [InLeft a r]) = []" using l(2) by (induction fs rule: before.induct) auto
    moreover have "is_InLeft (fs @ [InLeft a r])" using l(3) by (cases fs) (auto simp: is_InLeft_def split: frame.splits)
    ultimately show ?thesis by metis
  qed
qed simp

lemma picosplay_delete_hint_represents:
  assumes r: "represents t (us @ x # vs)"
  shows "\<exists>t'. picosplay_delete_hint t (Some x) = Some t' \<and> represents t' (us @ vs)"
proof -
  have d: "distinct (us @ x # vs)" and sz: "tree_size t = int (length (us @ x # vs))"
    using r by (auto simp: represents_def)
  from r obtain h A B where s: "splay_to_root t x = Some (t\<lparr>mem := h, root := Some x\<rparr>)"
    and f: "focus h A x B []" and e: "inorder A @ x # inorder B = us @ x # vs"
    by (rule represents_splay) auto
  have uv: "us = inorder A" "vs = inorder B" using distinct_split_unique [OF d e] by auto
  from f have trs: "parent (h x) = None" "tr h (Some x) (left (h x)) A" "tr h (Some x) (right (h x)) B"
    by (auto simp: focus_def)
  show ?thesis
  proof (cases "A = Leaf \<or> B = Leaf")
    case True
    then consider "A = Leaf" "B = Leaf" | "A = Leaf" "B \<noteq> Leaf" | "A \<noteq> Leaf" "B = Leaf" by blast
    then show ?thesis
    proof cases
      case 1
      with s trs sz uv show ?thesis by (auto simp: picosplay_delete_hint_def represents_def Let_def)
    next
      case 2
      with s trs sz uv d show ?thesis
        by (cases B) (auto simp: picosplay_delete_hint_def represents_def Let_def intro!: exI [of _ B])
    next
      case 3
      with s trs sz uv d show ?thesis
        by (cases A) (auto simp: picosplay_delete_hint_def represents_def Let_def intro!: exI [of _ A])
    qed
  next
    case False
    then obtain y C fs where B: "B = plug (Node Leaf y C) fs" "before fs = []" "fs = [] \<or> is_InLeft fs"
      using tr_leftmost_frame [OF trs(3)] by blast
    have iB: "inorder B = y # inorder C @ after fs" using B by (simp add: inorder_plug)
    obtain a A1 A2 where A: "A = Node A1 a A2" using False by (cases A) auto
    have lm: "leftmost h (right (h x)) = Some (Some y)" using leftmost_tr [OF trs(3)] iB by simp
    obtain q where q: "right (h x) = Some q" using False trs(3) by (cases B) auto
    have dd: "distinct (inorder A @ x # y # inorder C @ after fs)" using d e iB by simp
    show ?thesis
    proof (cases fs)
      case Nil
      with B trs(3) have "right (h x) = Some y" "parent (h y) = Some x" "left (h y) = None"
        "tr h (Some y) (right (h y)) C" by auto
      with s trs A lm dd sz show ?thesis
        unfolding uv iB Nil represents_def
        by (auto simp: picosplay_delete_hint_def Let_def intro!: exI [of _ "Node A y C"])
    next
      case (Cons g gs)
      with B(3) obtain p R where g: "g = InLeft p R" by (cases g) (auto simp: is_InLeft_def)
      from trs(3) have tp: "hole h (Some x) (Some p) (parent (h p)) gs" "left (h p) = Some y"
        "parent (h y) = Some p" "left (h y) = None" "tr h (Some p) (right (h p)) R"
        "tr h (Some y) (right (h y)) C" "top_ptr (Some p) gs = Some q"
        unfolding B(1) Cons g tr_plug by (auto simp: q)
      define h1 where "h1 = set_left p (right (h y)) h"
      define h2 where "h2 = (case right (h y) of None \<Rightarrow> h1 | Some c \<Rightarrow> set_parent c (Some p) h1)"
      define h3 where "h3 = set_right y (Some q) h2"
      define h4 where "h4 = set_parent q (Some y) h3"
      define h' where "h' = set_parent a (Some y) (set_left y (Some a) (set_parent y None h4))"
      have dg: "distinct (inorder A @ x # y # inorder C @ p # inorder R @ after gs)" "before gs = []"
        using dd B(2) by (simp_all add: Cons g)
      have mq: "q = p \<or> q \<in> set (after gs)" using top_ptr_mem [OF tp(7)] dg(2) by simp
      have ne: "y \<noteq> p" "y \<noteq> q" "y \<noteq> a" "y \<noteq> x" "x \<noteq> p" "x \<noteq> q" "x \<noteq> a" "a \<noteq> p" "a \<noteq> q"
        "q \<notin> set_tree C" "q \<notin> set_tree R" "q \<notin> set_tree A1" "q \<notin> set_tree A2"
        using dg(1) mq A by auto
      have run: "picosplay_delete_hint t (Some x) =
          Some (t\<lparr>root := Some y, mem := h', tree_size := tree_size t - 1\<rparr>)"
        using s trs A lm tp(3,4) q ne
        by (cases "right (h y)")
          (auto simp: picosplay_delete_hint_def Let_def h'_def h4_def h3_def h2_def h1_def)
      have "hole h3 (Some x) (Some p) (parent (h3 p)) gs"
        using tp(1,6) dg ne by (cases C) (auto simp: h3_def h2_def h1_def)
      then have "hole h4 (Some y) (Some p) (parent (h4 p)) gs"
        unfolding h4_def using tp(7) dg by (intro hole_rebase) auto
      then have "hole h' (Some y) (Some p) (parent (h' p)) gs"
        using dg A ne by (simp add: h'_def)
      moreover have "tr h' (parent (h' p)) (Some p) (Node C p R)"
        using tp(5,6) dg A ne by (cases C) (auto simp: h'_def h4_def h3_def h2_def h1_def)
      ultimately have "tr h' (Some y) (Some q) (plug (Node C p R) gs)"
        unfolding tr_plug using tp(7) by fastforce
      moreover have "tr h' (Some y) (Some a) A"
        using trs(2) tp(6) dg A ne by (cases C) (auto simp: h'_def h4_def h3_def h2_def h1_def)
      moreover have "parent (h' y) = None" "left (h' y) = Some a" "right (h' y) = Some q"
        using ne by (simp_all add: h'_def h4_def h3_def)
      ultimately have "tr h' None (Some y) (Node A y (plug (Node C p R) gs))" by simp
      moreover have "inorder (Node A y (plug (Node C p R) gs)) = us @ vs"
        using uv iB dg(2) by (simp add: inorder_plug Cons g)
      ultimately show ?thesis
        using run d sz by (auto simp: represents_def intro!: exI [of _ "Node A y (plug (Node C p R) gs)"])
    qed
  qed
qed

lemma picosplay_empty_tree_represents:
  "represents t xs \<Longrightarrow> \<exists>t'. picosplay_empty_tree t = Some t' \<and> represents t' []"
proof (induction "length xs" arbitrary: t xs rule: less_induct)
  case less
  show ?case
  proof (cases "root t")
    case None
    with less.prems show ?thesis by (simp add: picosplay_empty_tree.simps represents_root)
  next
    case (Some r)
    with less.prems have "r \<in> set xs" by (auto simp: represents_def dest: tr_root_mem)
    then obtain us vs where xs: "xs = us @ r # vs" by (auto simp: in_set_conv_decomp)
    with less.prems obtain t1 where t1: "picosplay_delete_hint t (Some r) = Some t1" "represents t1 (us @ vs)"
      using picosplay_delete_hint_represents by blast
    then have "picosplay_empty_tree t = picosplay_empty_tree t1"
      using Some by (subst picosplay_empty_tree.simps) simp
    with less.hyps [OF _ t1(2)] xs show ?thesis by simp
  qed
qed

section \<open>Searches on trees\<close>

lemma represents_init: "represents (picosplay_init_tree h) []"
  by (simp add: represents_def picosplay_init_tree_def)

lemma represents_distinct: "represents t xs \<Longrightarrow> distinct xs"
  by (auto simp: represents_def)

lemma splay_to_root_represents:
  assumes "represents t xs" "x \<in> set xs"
  shows "\<exists>t'. splay_to_root t x = Some t' \<and> represents t' xs \<and> root t' = Some x"
proof -
  from assms obtain h A B where s: "splay_to_root t x = Some (t\<lparr>mem := h, root := Some x\<rparr>)"
    "focus h A x B []" "inorder A @ x # inorder B = xs" by (rule represents_splay)
  then have "represents (t\<lparr>mem := h, root := Some x\<rparr>) xs"
    using assms(1) unfolding represents_def focus_root by (auto intro!: exI [of _ "Node A x B"])
  with s(1) show ?thesis by auto
qed

lemma picosplay_find_represents:
  assumes r: "represents t xs" and s: "descending (\<lambda>c. cmp v (val c)) xs"
  shows "\<exists>q t'. picosplay_find cmp val t v = Some (q, t') \<and> represents t' xs \<and>
           (case q of None \<Rightarrow> \<forall>c\<in>set xs. cmp v (val c) \<noteq> 0
                    | Some c \<Rightarrow> c \<in> set xs \<and> cmp v (val c) = 0)"
proof -
  from r obtain T where T: "tr (mem t) None (root t) T" "inorder T = xs" by (auto simp: represents_def)
  then have st: "set_tree T = set xs" by (metis set_inorder)
  have "descending (\<lambda>c. cmp v (val c)) (inorder T)" using s T(2) by simp
  from find_loop_tr [OF T(1) this] show ?thesis
  proof (elim disjE bexE conjE)
    fix c assume c: "c \<in> set_tree T" "cmp v (val c) = 0"
      "find_loop (\<lambda>c. cmp v (val c)) (mem t) (root t) = Some (Some c)"
    with splay_to_root_represents [OF r, of c] st show ?thesis by (auto simp: picosplay_find_def)
  next
    assume "\<forall>c\<in>set_tree T. cmp v (val c) \<noteq> 0"
      "find_loop (\<lambda>c. cmp v (val c)) (mem t) (root t) = Some None"
    with r st show ?thesis by (auto simp: picosplay_find_def)
  qed
qed

lemma picosplay_find_previous_represents:
  assumes r: "represents t xs" and s: "descending (\<lambda>c. cmp v (val c)) xs"
  shows "(\<exists>c\<in>set xs. cmp v (val c) = 0 \<and> picosplay_find_previous cmp val t v = Some (Some c)) \<or>
         (\<forall>c\<in>set xs. cmp v (val c) \<noteq> 0) \<and>
           picosplay_find_previous cmp val t v = Some (last_ptr (filter (\<lambda>c. 0 < cmp v (val c)) xs))"
proof -
  from r obtain T where T: "tr (mem t) None (root t) T" "inorder T = xs" by (auto simp: represents_def)
  then have st: "set_tree T = set xs" by (metis set_inorder)
  have "filter (\<lambda>c. 0 < cmp v (val c)) xs = []" if "\<not> (\<exists>c\<in>set xs. 0 < cmp v (val c))"
    using that by (auto simp: filter_empty_conv)
  with find_previous_loop_tr [OF T(1), of "\<lambda>c. cmp v (val c)" None] s T(2) st show ?thesis
    by (auto simp: picosplay_find_previous_def)
qed

lemma picosplay_delete_represents:
  assumes r: "represents t (us @ x # vs)" and s: "descending (\<lambda>c. cmp v (val c)) (us @ x # vs)"
    and x: "cmp v (val x) = 0" "\<forall>c\<in>set (us @ vs). cmp v (val c) \<noteq> 0"
  shows "\<exists>t'. picosplay_delete cmp val t v = Some t' \<and> represents t' (us @ vs)"
proof -
  from picosplay_find_represents [OF r, of cmp v val] s obtain q t1 where
    f: "picosplay_find cmp val t v = Some (q, t1)" "represents t1 (us @ x # vs)" and
    q: "case q of None \<Rightarrow> \<forall>c\<in>set (us @ x # vs). cmp v (val c) \<noteq> 0
                | Some c \<Rightarrow> c \<in> set (us @ x # vs) \<and> cmp v (val c) = 0" by auto
  from q x have "q = Some x" by (auto split: option.splits)
  with f picosplay_delete_hint_represents [OF f(2)] show ?thesis by (auto simp: picosplay_delete_def)
qed

lemma descending_upward:
  assumes "descending rel xs"
  shows "sorted_wrt (\<lambda>a b. rel a < 0 \<longrightarrow> rel b < 0) xs"
  by (rule sorted_wrt_mono_rel [OF _ assms [unfolded descending_def]]) (auto simp: sgn_if split: if_splits)

end
