(* ===== verification/SortedStore.thy ===== *)
theory SortedStore
  imports SplayLaws
begin

text \<open>
  The contract between the splay tree and its users: a store that represents a sequence of nodes
  sorted by a comparison. The locale names the operations that the users call and the laws they
  rely on; the interpretation discharges the laws with the pointer program of \<open>Splay\<close>.
\<close>

section \<open>The interface\<close>

text \<open>\<open>walk step n p\<close>: \<open>n\<close> times the successor (or predecessor) of the node \<open>p\<close>.\<close>

fun walk :: "(nat \<Rightarrow> ptr option) \<Rightarrow> nat \<Rightarrow> ptr \<Rightarrow> ptr option" where
  "walk step 0 p = Some p"
| "walk step (Suc n) p = (case p of None \<Rightarrow> None | Some a \<Rightarrow> Option.bind (step a) (walk step n))"

lemma walk_snoc:
  "walk step (Suc n) p = Option.bind (walk step n p) (\<lambda>q. Option.bind q step)"
proof (induction n arbitrary: p)
  case 0
  show ?case by (cases p; cases "step (the p)") auto
next
  case (Suc n)
  show ?case
  proof (cases p)
    case (Some a)
    show ?thesis
    proof (cases "step a")
      case (Some q)
      with Suc [of q] \<open>p = Some a\<close> have
        "walk step (Suc (Suc n)) p = walk step (Suc n) q" "walk step (Suc n) p = walk step n q" by simp_all
      with Suc [of q] show ?thesis by presburger
    qed (simp add: Some)
  qed simp
qed

lemma sorted_wrt_cong_on:
  "(\<And>a b. a \<in> set xs \<Longrightarrow> b \<in> set xs \<Longrightarrow> P a b = Q a b) \<Longrightarrow> sorted_wrt P xs = sorted_wrt Q xs"
  by (induction xs) auto

lemma descending_diff:
  assumes "sorted_wrt (\<lambda>a b. f a < f b) xs" "\<And>c. c \<in> set xs \<Longrightarrow> rel c = int n - int (f c)"
  shows "descending rel xs"
proof -
  have "sorted_wrt (\<lambda>a b. sgn (int n - int (f b)) \<le> sgn (int n - int (f a))) xs"
    by (rule sorted_wrt_mono_rel [OF _ assms(1)]) (auto simp: sgn_if)
  with assms(2) show ?thesis
    unfolding descending_def by (subst sorted_wrt_cong_on [of xs _ "\<lambda>a b. sgn (int n - int (f b)) \<le> sgn (int n - int (f a))"]) auto
qed

text \<open>The comparisons of the code subtract 64-bit keys; below \<open>2 ^ 62\<close> that is the difference.\<close>

lemma sint_diff_small:
  assumes "unat (x::u64) < 2 ^ 62" "unat y < 2 ^ 62"
  shows "sint (x - y) = int (unat x) - int (unat y)"
proof -
  have s: "sint w = int (unat w)" if "unat w < 2 ^ 62" for w :: u64
  proof -
    have "uint w < 2 ^ 62" using that by (metis of_nat_less_iff of_nat_numeral of_nat_power of_nat_unat)
    moreover have "- (2 ^ 63) \<le> uint w" by (rule order_trans [of _ 0]) simp_all
    ultimately have "signed_take_bit 63 (uint w) = uint w" by (intro signed_take_bit_int_eq_self) simp_all
    then show ?thesis by (simp add: sint_uint)
  qed
  show ?thesis
    unfolding sint_word_diff s [OF assms(1)] s [OF assms(2)]
    using assms by (intro signed_take_bit_int_eq_self) (simp_all del: of_nat_unat)
qed

locale sorted_store =
  fixes repr :: "'t \<Rightarrow> nat list \<Rightarrow> bool"
    and cmp :: "'v \<Rightarrow> 'v \<Rightarrow> int" and val :: "nat \<Rightarrow> 'v"
    and insert :: "'t \<Rightarrow> nat \<Rightarrow> 't option"
    and find :: "'t \<Rightarrow> 'v \<Rightarrow> (ptr \<times> 't) option"
    and find_previous :: "'t \<Rightarrow> 'v \<Rightarrow> ptr option"
    and first :: "'t \<Rightarrow> ptr option" and last :: "'t \<Rightarrow> ptr option"
    and successor :: "'t \<Rightarrow> nat \<Rightarrow> ptr option" and predecessor :: "'t \<Rightarrow> nat \<Rightarrow> ptr option"
    and delete :: "'t \<Rightarrow> nat \<Rightarrow> 't option"
  assumes repr_distinct: "repr t xs \<Longrightarrow> distinct xs"
    and insert_law: "repr t xs \<Longrightarrow> new \<notin> set xs \<Longrightarrow> descending (\<lambda>c. cmp (val new) (val c)) xs \<Longrightarrow>
          \<exists>t'. insert t new = Some t' \<and> repr t' (insert_at (\<lambda>c. cmp (val new) (val c) < 0) new xs)"
    and find_law: "repr t xs \<Longrightarrow> descending (\<lambda>c. cmp v (val c)) xs \<Longrightarrow>
          \<exists>q t'. find t v = Some (q, t') \<and> repr t' xs \<and>
            (case q of None \<Rightarrow> \<forall>c\<in>set xs. cmp v (val c) \<noteq> 0
                     | Some c \<Rightarrow> c \<in> set xs \<and> cmp v (val c) = 0)"
    and find_previous_law: "repr t xs \<Longrightarrow> descending (\<lambda>c. cmp v (val c)) xs \<Longrightarrow>
          (\<exists>c\<in>set xs. cmp v (val c) = 0 \<and> find_previous t v = Some (Some c)) \<or>
          (\<forall>c\<in>set xs. cmp v (val c) \<noteq> 0) \<and>
            find_previous t v = Some (last_ptr (filter (\<lambda>c. 0 < cmp v (val c)) xs))"
    and first_law: "repr t xs \<Longrightarrow> first t = Some (hd_ptr xs)"
    and last_law: "repr t xs \<Longrightarrow> last t = Some (last_ptr xs)"
    and next_law: "repr t (us @ x # vs) \<Longrightarrow> successor t x = Some (hd_ptr vs)"
    and previous_law: "repr t (us @ x # vs) \<Longrightarrow> predecessor t x = Some (last_ptr us)"
    and delete_law: "repr t (us @ x # vs) \<Longrightarrow> \<exists>t'. delete t x = Some t' \<and> repr t' (us @ vs)"
begin

lemma walk_next:
  assumes "repr t xs" "i < length xs"
  shows "walk (successor t) i (Some (hd xs)) = Some (Some (xs ! i))"
  using assms(2)
proof (induction i)
  case 0
  then show ?case by (simp add: hd_conv_nth)
next
  case (Suc i)
  then have "xs = take i xs @ xs ! i # xs ! Suc i # drop (Suc (Suc i)) xs"
    by (simp add: Cons_nth_drop_Suc id_take_nth_drop)
  with next_law assms(1) have "successor t (xs ! i) = Some (Some (xs ! Suc i))"
    by (metis hd_ptr_simps(2))
  with Suc show ?case unfolding walk_snoc by simp
qed

lemma walk_next_end:
  assumes "repr t xs" "xs \<noteq> []"
  shows "walk (successor t) (length xs) (Some (hd xs)) = Some None"
proof -
  obtain i where i: "length xs = Suc i" using assms(2) by (cases xs) auto
  then have "xs = take i xs @ xs ! i # []"
    by (metis Cons_nth_drop_Suc append_take_drop_id drop_all le_refl lessI)
  then have "successor t (xs ! i) = Some None" using next_law [of t "take i xs" "xs ! i" "[]"] assms(1) by simp
  with walk_next [OF assms(1), of i] i show ?thesis unfolding i walk_snoc by simp
qed

text \<open>A node that was inserted can be taken out again and leaves no trace.\<close>

lemma insert_delete:
  assumes "repr t xs" "new \<notin> set xs" "descending (\<lambda>c. cmp (val new) (val c)) xs"
  shows "\<exists>t1 t2. insert t new = Some t1 \<and> delete t1 new = Some t2 \<and> repr t2 xs"
  using insert_law [OF assms] delete_law unfolding insert_at_def
  by (metis takeWhile_dropWhile_id)

lemma find_previous_sorted:
  assumes "repr t (us @ vs)" "\<forall>c\<in>set us. 0 < cmp v (val c)" "\<forall>c\<in>set vs. cmp v (val c) < 0"
  shows "find_previous t v = Some (last_ptr us)"
proof -
  have "descending (\<lambda>c. cmp v (val c)) xs" if "\<forall>c\<in>set xs. 0 < cmp v (val c)" for xs
    using that by (induction xs) auto
  moreover have "descending (\<lambda>c. cmp v (val c)) xs" if "\<forall>c\<in>set xs. cmp v (val c) < 0" for xs
    using that by (induction xs) auto
  ultimately have "descending (\<lambda>c. cmp v (val c)) (us @ vs)" using assms(2,3) by auto
  moreover have "filter (\<lambda>c. 0 < cmp v (val c)) us = us" "filter (\<lambda>c. 0 < cmp v (val c)) vs = []"
    using assms(2,3) by (auto simp: filter_empty_conv filter_id_conv)
  ultimately show ?thesis using find_previous_law [OF assms(1), of v] assms(2,3) by auto
qed

text \<open>Nodes with a numeric key, compared by the difference of the keys.\<close>

lemma insert_keyed:
  assumes "repr t (us @ vs)" "new \<notin> set (us @ vs)" "sorted_wrt (\<lambda>a b. key a < key b) (us @ vs)"
    "\<forall>c\<in>set (us @ vs). cmp (val new) (val c) = int n - int (key c)"
    "\<forall>c\<in>set us. key c \<le> n" "\<forall>c\<in>set vs. n < key c"
  shows "\<exists>t'. insert t new = Some t' \<and> repr t' (us @ new # vs)"
proof -
  let ?P = "\<lambda>c. \<not> cmp (val new) (val c) < 0"
  have u: "takeWhile ?P us = us" "dropWhile ?P us = []" using assms(4,5) by (auto simp: takeWhile_eq_all_conv dropWhile_eq_Nil_conv)
  have v: "vs = y # ys \<Longrightarrow> \<not> ?P y" for y ys using assms(4,6) by simp
  have p: "\<forall>x\<in>set us. ?P x" using assms(4,5) by (auto simp: not_less)
  have "insert_at (\<lambda>c. cmp (val new) (val c) < 0) new (us @ vs) = us @ new # vs"
    using u v p unfolding insert_at_def by (cases vs) (simp_all add: takeWhile_append2 dropWhile_append2)
  then show ?thesis using insert_law [OF assms(1,2) descending_diff [OF assms(3)]] assms(4) by auto
qed

lemma find_previous_keyed:
  assumes "repr t xs" "sorted_wrt (\<lambda>a b. key a < key b) xs" "\<forall>c\<in>set xs. cmp v (val c) = int n - int (key c)"
  shows "find_previous t v = Some (last_ptr (takeWhile (\<lambda>a. key a \<le> n) xs))"
proof -
  have f: "filter (\<lambda>c. key c \<le> n) ys = takeWhile (\<lambda>a. key a \<le> n) ys"
    if "sorted_wrt (\<lambda>a b. key a < key b) ys" for ys
    using that
  proof (induction ys)
    case (Cons y ys)
    have "filter (\<lambda>c. key c \<le> n) ys = []" if "\<not> key y \<le> n" using that Cons.prems by (auto simp: filter_empty_conv)
    then show ?case using Cons by auto
  qed simp
  have d: "descending (\<lambda>c. cmp v (val c)) xs" using assms(2,3) by (intro descending_diff) auto
  from find_previous_law [OF assms(1) d] show ?thesis
  proof (elim disjE bexE conjE)
    fix e assume e: "e \<in> set xs" "cmp v (val e) = 0" "find_previous t v = Some (Some e)"
    then obtain us vs where x: "xs = us @ e # vs" by (auto simp: in_set_conv_decomp)
    moreover have k: "key e = n" using e assms(3) by fastforce
    ultimately have "takeWhile (\<lambda>a. key a \<le> n) xs = us @ [e]"
      using assms(2) by (cases vs) (auto simp: sorted_wrt_append takeWhile_append less_imp_le)
    then show ?thesis using e(3) by simp
  next
    assume e: "\<forall>c\<in>set xs. cmp v (val c) \<noteq> 0" "find_previous t v = Some (last_ptr (filter (\<lambda>c. 0 < cmp v (val c)) xs))"
    have "filter (\<lambda>c. 0 < cmp v (val c)) xs = filter (\<lambda>c. key c \<le> n) xs"
      using assms(3) e(1) by (intro filter_cong) (auto simp: le_less)
    with e(2) f [OF assms(2)] show ?thesis by simp
  qed
qed

end

lemma picosplay_insert_descending:
  assumes "represents t xs" "new \<notin> set xs" "descending (\<lambda>c. cmp (val new) (val c)) xs"
  shows "\<exists>t'. picosplay_insert cmp val t new = Some t' \<and>
           represents t' (insert_at (\<lambda>c. cmp (val new) (val c) < 0) new xs)"
  using assms(1,2) descending_upward [OF assms(3)] by (rule picosplay_insert_represents)

interpretation splay_store: sorted_store represents cmp val "picosplay_insert cmp val"
    "picosplay_find cmp val" "picosplay_find_previous cmp val" picosplay_first picosplay_last
    picosplay_next picosplay_previous "\<lambda>t x. picosplay_delete_hint t (Some x)" for cmp val
  by unfold_locales
    (erule represents_distinct | erule (2) picosplay_insert_descending | erule (1) picosplay_find_represents
      | erule (1) picosplay_find_previous_represents | erule picosplay_first_represents
      | erule picosplay_last_represents | erule picosplay_next_represents
      | erule picosplay_previous_represents | erule picosplay_delete_hint_represents)+

section \<open>Properties of the splay tree\<close>

text \<open>A tree of three nodes, for concrete runs: 2 is the root, 1 and 3 are its children.\<close>

definition example_tree :: splay_tree where
  "example_tree =
     \<lparr>root = Some 2,
      mem = (\<lambda>_. \<lparr>parent = None, left = None, right = None\<rparr>)
        (2 := \<lparr>parent = None, left = Some 1, right = Some 3\<rparr>,
         1 := \<lparr>parent = Some 2, left = None, right = None\<rparr>,
         3 := \<lparr>parent = Some 2, left = None, right = None\<rparr>),
      tree_size = 3\<rparr>"

lemma example_tree_represents: "represents example_tree [1, 2, 3]"
  unfolding represents_def example_tree_def
  by (rule exI [of _ "Node (Node Leaf 1 Leaf) 2 (Node Leaf 3 Leaf)"]) simp

text \<open>
  C21: inserting a node into a well-formed tree whose values are sorted returns, keeps the tree well
  formed, counts the node and puts it after every value that is not greater, before the rest.
\<close>

theorem picosplay_insert_correct:
  assumes "represents t xs" "new \<notin> set xs" "descending (\<lambda>c. cmp (val new) (val c)) xs"
  shows "\<exists>t'. picosplay_insert cmp val t new = Some t' \<and>
           represents t' (takeWhile (\<lambda>c. 0 \<le> cmp (val new) (val c)) xs @ new #
                          dropWhile (\<lambda>c. 0 \<le> cmp (val new) (val c)) xs) \<and>
           tree_size t' = tree_size t + 1"
proof -
  obtain t' where t': "picosplay_insert cmp val t new = Some t'"
    "represents t' (insert_at (\<lambda>c. cmp (val new) (val c) < 0) new xs)"
    using splay_store.insert_law [of t xs new cmp val] assms by blast
  have "length (insert_at (\<lambda>c. cmp (val new) (val c) < 0) new xs) = length xs + 1"
    using takeWhile_dropWhile_id [of "\<lambda>c. \<not> cmp (val new) (val c) < 0" xs]
    unfolding insert_at_def by (metis length_append length_Cons add_Suc_right Suc_eq_plus1)
  with t' assms(1) have "tree_size t' = tree_size t + 1" by (auto simp: represents_def)
  with t' show ?thesis by (auto simp: insert_at_def not_less)
qed

theorem picosplay_insert_correct_witness:
  "\<exists>t'. picosplay_insert (\<lambda>a b. a - b) (\<lambda>c. if c = 9 then 25 else 10 * int c) example_tree 9 = Some t' \<and>
     represents t' [1, 2, 9, 3]"
  using picosplay_insert_correct [OF example_tree_represents, of 9 "\<lambda>a b. a - b"
      "\<lambda>c. if c = 9 then 25 else 10 * int c"] by auto

text \<open>
  Also: the search for the last node at or before a value returns on every well-formed sorted tree.
  Where no value compares equal it returns exactly the last of the smaller ones, and NULL when
  there is none.
\<close>

theorem picosplay_find_previous_correct:
  assumes "represents t xs" "descending (\<lambda>c. cmp v (val c)) xs"
  shows "\<exists>q. picosplay_find_previous cmp val t v = Some q \<and>
           (if \<exists>c\<in>set xs. cmp v (val c) = 0 then \<exists>c\<in>set xs. q = Some c \<and> cmp v (val c) = 0
            else q = last_ptr (filter (\<lambda>c. 0 < cmp v (val c)) xs))"
  using splay_store.find_previous_law [of t xs cmp v val] assms by auto

theorem picosplay_find_previous_correct_witness:
  "\<exists>q. picosplay_find_previous (\<lambda>a b. a - b) (\<lambda>c. 10 * int c) example_tree 25 = Some q \<and> q = Some 2"
  using picosplay_find_previous_correct [OF example_tree_represents, of "\<lambda>a b. a - b" 25 "\<lambda>c. 10 * int c"]
  by (auto split: if_splits)

text \<open>
  Also: deleting a node of a well-formed tree returns, and the remaining nodes keep their order.
\<close>

theorem picosplay_delete_hint_correct:
  assumes "represents t (us @ x # vs)"
  shows "\<exists>t'. picosplay_delete_hint t (Some x) = Some t' \<and> represents t' (us @ vs) \<and>
           tree_size t' = tree_size t - 1"
  using splay_store.delete_law [OF assms] assms by (auto simp: represents_def)

theorem picosplay_delete_hint_correct_witness:
  "\<exists>t'. picosplay_delete_hint example_tree (Some 2) = Some t' \<and> represents t' [1, 3]"
  using picosplay_delete_hint_correct [of example_tree "[1]" 2 "[3]"] example_tree_represents by auto

text \<open>
  Also: a loop from the first node along \<open>picosplay_next\<close> meets every node once, in order, and then
  ends with NULL; the last node and the predecessor walk agree with that order.
\<close>

theorem picosplay_iteration:
  assumes "represents t xs"
  shows "picosplay_first t = Some (hd_ptr xs) \<and> picosplay_last t = Some (last_ptr xs) \<and>
         (\<forall>i<length xs. walk (picosplay_next t) i (hd_ptr xs) = Some (Some (xs ! i))) \<and>
         walk (picosplay_next t) (length xs) (hd_ptr xs) = Some None \<and>
         (\<forall>i<length xs. picosplay_previous t (xs ! i) = Some (if i = 0 then None else Some (xs ! (i - 1))))"
proof (intro conjI allI impI)
  have hd: "xs \<noteq> [] \<Longrightarrow> hd_ptr xs = Some (hd xs)" by (cases xs) auto
  show "picosplay_first t = Some (hd_ptr xs)" "picosplay_last t = Some (last_ptr xs)"
    using splay_store.first_law [OF assms] splay_store.last_law [OF assms] by auto
  show "walk (picosplay_next t) i (hd_ptr xs) = Some (Some (xs ! i))" if "i < length xs" for i
    using splay_store.walk_next [OF assms that] that hd by (cases xs) simp_all
  show "walk (picosplay_next t) (length xs) (hd_ptr xs) = Some None"
    using splay_store.walk_next_end [OF assms] hd by (cases "xs = []") auto
  fix i assume i: "i < length xs"
  then have "xs = take i xs @ xs ! i # drop (Suc i) xs" by (rule id_take_nth_drop)
  with assms have "picosplay_previous t (xs ! i) = Some (last_ptr (take i xs))"
    using splay_store.previous_law by metis
  moreover have "last_ptr (take i xs) = (if i = 0 then None else Some (xs ! (i - 1)))"
    using i by (cases i) (auto simp: last_ptr_def take_Suc_conv_app_nth)
  ultimately show "picosplay_previous t (xs ! i) = Some (if i = 0 then None else Some (xs ! (i - 1)))" by simp
qed

theorem picosplay_iteration_witness:
  "walk (picosplay_next example_tree) 2 (Some 1) = Some (Some 3)"
  using picosplay_iteration [OF example_tree_represents] by auto

text \<open>Also: emptying a well-formed tree ends, with an empty tree of size 0.\<close>

theorem picosplay_empty_tree_returns:
  assumes "represents t xs"
  shows "\<exists>t'. picosplay_empty_tree t = Some t' \<and> root t' = None \<and> tree_size t' = 0"
proof -
  obtain t' where t': "picosplay_empty_tree t = Some t'" "represents t' []"
    using picosplay_empty_tree_represents [OF assms] by blast
  then have "root t' = None" by (auto simp: represents_def)
  with t' show ?thesis by (simp add: represents_root)
qed

theorem picosplay_empty_tree_returns_witness:
  "\<exists>t'. picosplay_empty_tree example_tree = Some t' \<and> root t' = None"
  using picosplay_empty_tree_returns [OF example_tree_represents] by auto

end
