(* ===== verification/Sacks.thy ===== *)
theory Sacks
  imports SortedStore
begin

text \<open>
  \<open>picoquic/sacks.c\<close>: the ranges of packet numbers (or of stream offsets) received so far, kept in a
  splay tree and reported in ACK frames. An item is found at the address of its tree node;
  \<open>items\<close> maps the address to the fields of \<open>picoquic_sack_item_t\<close> other than the node. The
  two rows of \<open>range_counts\<close> count, for normal and for opportunistic ACKs, the items that
  were sent 0, 1, 2 and 3 times.

  Counters of type \<open>int\<close> are integers without a bound; times, packet numbers and horizons are 64-bit
  words. An operation that calls \<open>malloc\<close> takes the address that the allocator returns as an
  argument, \<open>None\<close> when it fails. A run that does not return is \<open>None\<close>, as in \<open>Splay\<close>.
\<close>

section \<open>Items and lists\<close>

abbreviation PICOQUIC_MAX_ACK_RANGE_REPEAT :: int where
  "PICOQUIC_MAX_ACK_RANGE_REPEAT \<equiv> 4"

record sack_item =
  start_of_sack_range :: u64
  end_of_sack_range :: u64
  time_created :: u64
  nb_times_sent :: "nat \<Rightarrow> int"

record sack_list =
  ack_tree :: splay_tree
  items :: "nat \<Rightarrow> sack_item"
  ack_horizon :: u64
  horizon_delay :: int
  range_counts :: "nat \<Rightarrow> int \<Rightarrow> int"

text \<open>The comparison subtracts as unsigned integers and reads the result as a signed one.\<close>

definition picoquic_sack_item_compare :: "sack_item \<Rightarrow> sack_item \<Rightarrow> int" where
  "picoquic_sack_item_compare l r = sint (start_of_sack_range l - start_of_sack_range r)"

definition add_count :: "nat \<Rightarrow> int \<Rightarrow> int \<Rightarrow> sack_list \<Rightarrow> sack_list" where
  "add_count r i d s =
     s\<lparr>range_counts := (range_counts s)(r := (range_counts s r)(i := range_counts s r i + d))\<rparr>"

definition upd_item :: "nat \<Rightarrow> (sack_item \<Rightarrow> sack_item) \<Rightarrow> sack_list \<Rightarrow> sack_list" where
  "upd_item a f s = s\<lparr>items := (items s)(a := f (items s a))\<rparr>"

definition set_times_sent :: "nat \<Rightarrow> nat \<Rightarrow> int \<Rightarrow> sack_list \<Rightarrow> sack_list" where
  "set_times_sent a r n = upd_item a (\<lambda>it. it\<lparr>nb_times_sent := (nb_times_sent it)(r := n)\<rparr>)"

section \<open>Access to the items\<close>

definition picoquic_sack_first_item :: "sack_list \<Rightarrow> ptr option" where
  "picoquic_sack_first_item s = picosplay_first (ack_tree s)"

definition picoquic_sack_last_item :: "sack_list \<Rightarrow> ptr option" where
  "picoquic_sack_last_item s = picosplay_last (ack_tree s)"

definition picoquic_sack_next_item :: "sack_list \<Rightarrow> nat \<Rightarrow> ptr option" where
  "picoquic_sack_next_item s a = picosplay_next (ack_tree s) a"

definition picoquic_sack_previous_item :: "sack_list \<Rightarrow> nat \<Rightarrow> ptr option" where
  "picoquic_sack_previous_item s a = picosplay_previous (ack_tree s) a"

definition picoquic_sack_insert_item ::
    "sack_list \<Rightarrow> ptr \<Rightarrow> u64 \<Rightarrow> u64 \<Rightarrow> u64 \<Rightarrow> (int \<times> sack_list) option" where
  "picoquic_sack_insert_item s sack_new range_min range_max current_time =
     (case sack_new of
        None \<Rightarrow> Some (-1, s)
      | Some a \<Rightarrow> do {
          let s = upd_item a (\<lambda>_. \<lparr>start_of_sack_range = range_min, end_of_sack_range = range_max,
                                   time_created = current_time, nb_times_sent = (\<lambda>_. 0)\<rparr>) s;
          let s = add_count 1 0 1 (add_count 0 0 1 s);
          t \<leftarrow> picosplay_insert picoquic_sack_item_compare (items s) (ack_tree s) a;
          Some (0, s\<lparr>ack_tree := t\<rparr>)
        })"

definition uncount :: "nat \<Rightarrow> nat \<Rightarrow> sack_list \<Rightarrow> sack_list" where
  "uncount a r s =
     (if nb_times_sent (items s a) r < PICOQUIC_MAX_ACK_RANGE_REPEAT
      then add_count r (nb_times_sent (items s a) r) (-1) s else s)"

definition picoquic_sack_delete_item :: "sack_list \<Rightarrow> nat \<Rightarrow> sack_list option" where
  "picoquic_sack_delete_item s a = do {
     let s = fold (uncount a) [0, 1] s;
     t \<leftarrow> picosplay_delete_hint (ack_tree s) (Some a);
     Some (s\<lparr>ack_tree := t\<rparr>)
   }"

definition picoquic_sack_list_is_empty :: "sack_list \<Rightarrow> bool" where
  "picoquic_sack_list_is_empty s \<longleftrightarrow> tree_size (ack_tree s) = 0"

definition picoquic_sack_find_range_below_number :: "sack_list \<Rightarrow> u64 \<Rightarrow> ptr option" where
  "picoquic_sack_find_range_below_number s pn64 =
     picosplay_find_previous picoquic_sack_item_compare (items s) (ack_tree s)
       \<lparr>start_of_sack_range = pn64, end_of_sack_range = pn64, time_created = 0, nb_times_sent = (\<lambda>_. 0)\<rparr>"

section \<open>Counting how often an item was sent\<close>

definition picoquic_sack_item_range_start :: "sack_item \<Rightarrow> u64" where
  "picoquic_sack_item_range_start it = start_of_sack_range it"

definition picoquic_sack_item_range_end :: "sack_item \<Rightarrow> u64" where
  "picoquic_sack_item_range_end it = end_of_sack_range it"

definition picoquic_sack_item_nb_times_sent :: "sack_item \<Rightarrow> nat \<Rightarrow> int" where
  "picoquic_sack_item_nb_times_sent it is_opportunistic = nb_times_sent it is_opportunistic"

definition picoquic_sack_item_record_sent :: "sack_list \<Rightarrow> nat \<Rightarrow> nat \<Rightarrow> sack_list" where
  "picoquic_sack_item_record_sent s a r =
     (let s = uncount a r s;
          s = set_times_sent a r (nb_times_sent (items s a) r + 1) s
      in if nb_times_sent (items s a) r < PICOQUIC_MAX_ACK_RANGE_REPEAT
         then add_count r (nb_times_sent (items s a) r) 1 s else s)"

definition picoquic_sack_item_record_reset :: "sack_list \<Rightarrow> nat \<Rightarrow> sack_list" where
  "picoquic_sack_item_record_reset s a =
     fold (\<lambda>r s. add_count r 0 1 (set_times_sent a r 0 (uncount a r s))) [0, 1] s"

section \<open>The horizon\<close>

partial_function (option) update_ack_horizon_loop :: "u64 \<Rightarrow> sack_list \<Rightarrow> ptr \<Rightarrow> sack_list option" where
  "update_ack_horizon_loop current_time s first_sack =
     (case first_sack of
        None \<Rightarrow> Some s
      | Some a \<Rightarrow>
          if nb_times_sent (items s a) 0 \<ge> PICOQUIC_MAX_ACK_RANGE_REPEAT then
            if sint (current_time - time_created (items s a)) > horizon_delay s then do {
              next_sack \<leftarrow> picoquic_sack_next_item s a;
              s \<leftarrow> (if next_sack \<noteq> None then
                       picoquic_sack_delete_item (s\<lparr>ack_horizon := end_of_sack_range (items s a) + 1\<rparr>) a
                     else Some s);
              update_ack_horizon_loop current_time s next_sack
            }
            else Some s
          else Some s)"

declare update_ack_horizon_loop.simps [code]

definition picoquic_update_ack_horizon :: "sack_list \<Rightarrow> u64 \<Rightarrow> sack_list option" where
  "picoquic_update_ack_horizon s current_time =
     do { first_sack \<leftarrow> picoquic_sack_first_item s; update_ack_horizon_loop current_time s first_sack }"

section \<open>Recording a range\<close>

text \<open>
  The second loop of \<open>picoquic_update_sack_list\<close>: \<open>previous\<close> absorbs the ranges that the new one
  reaches; \<open>ret\<close> is the return code so far.
\<close>

partial_function (option) update_sack_loop ::
    "u64 \<Rightarrow> u64 \<Rightarrow> sack_list \<Rightarrow> ptr \<Rightarrow> int \<Rightarrow> (int \<times> sack_list) option" where
  "update_sack_loop pn64_max current_time s previous ret =
     (case previous of
        None \<Rightarrow> Some (ret, s)
      | Some p \<Rightarrow>
          if end_of_sack_range (items s p) < pn64_max then do {
            nxt \<leftarrow> picoquic_sack_next_item s p;
            case nxt of
              None \<Rightarrow> do {
                let s = upd_item p (\<lambda>it. it\<lparr>end_of_sack_range := pn64_max\<rparr>) s;
                let s = picoquic_sack_item_record_reset s p;
                let s = upd_item p (\<lambda>it. it\<lparr>time_created := current_time\<rparr>) s;
                update_sack_loop pn64_max current_time s previous 0
              }
            | Some n \<Rightarrow>
                if start_of_sack_range (items s n) - 1 > pn64_max then do {
                  let s = upd_item p (\<lambda>it. it\<lparr>end_of_sack_range := pn64_max\<rparr>) s;
                  let s = picoquic_sack_item_record_reset s p;
                  let s = upd_item p (\<lambda>it. it\<lparr>time_created := current_time\<rparr>) s;
                  update_sack_loop pn64_max current_time s previous 0
                }
                else do {
                  let s = upd_item p (\<lambda>it. it\<lparr>end_of_sack_range := end_of_sack_range (items s n)\<rparr>) s;
                  let s = picoquic_sack_item_record_reset s p;
                  let s = (if time_created (items s n) > time_created (items s p)
                           then upd_item p (\<lambda>it. it\<lparr>time_created := time_created (items s n)\<rparr>) s else s);
                  s \<leftarrow> picoquic_sack_delete_item s n;
                  update_sack_loop pn64_max current_time s previous 0
                }
          }
          else Some (ret, s))"

declare update_sack_loop.simps [code]

text \<open>\<open>picoquic_update_sack_list\<close> up to its last statement, the update of the horizon.\<close>

definition update_ranges ::
    "sack_list \<Rightarrow> ptr \<Rightarrow> u64 \<Rightarrow> u64 \<Rightarrow> u64 \<Rightarrow> (int \<times> sack_list) option" where
  "update_ranges s sack_new pn64_min pn64_max current_time = do {
     previous \<leftarrow> picoquic_sack_find_range_below_number s pn64_min;
     (ret, s, previous) \<leftarrow>
       (if previous = None \<or> end_of_sack_range (items s (the previous)) + 1 < pn64_min then do {
          nxt \<leftarrow> (case previous of None \<Rightarrow> picoquic_sack_first_item s | Some p \<Rightarrow> picoquic_sack_next_item s p);
          if nxt = None \<or> start_of_sack_range (items s (the nxt)) - 1 > pn64_max then do {
            (ret, s) \<leftarrow> picoquic_sack_insert_item s sack_new pn64_min pn64_max current_time;
            Some (ret, s, None)
          }
          else do {
            let s = upd_item (the nxt) (\<lambda>it. it\<lparr>start_of_sack_range := pn64_min\<rparr>) s;
            let s = picoquic_sack_item_record_reset s (the nxt);
            let s = upd_item (the nxt) (\<lambda>it. it\<lparr>time_created := current_time\<rparr>) s;
            Some (0, s, nxt)
          }
        }
        else Some (1, s, previous));
     update_sack_loop pn64_max current_time s previous ret
   }"

definition picoquic_update_sack_list ::
    "sack_list \<Rightarrow> ptr \<Rightarrow> u64 \<Rightarrow> u64 \<Rightarrow> u64 \<Rightarrow> (int \<times> sack_list) option" where
  "picoquic_update_sack_list s sack_new pn64_min pn64_max current_time = do {
     (ret, s) \<leftarrow> update_ranges s sack_new pn64_min pn64_max current_time;
     s \<leftarrow> (if horizon_delay s > 0 then picoquic_update_ack_horizon s current_time else Some s);
     Some (ret, s)
   }"

section \<open>Queries and acknowledged acknowledgements\<close>

definition picoquic_check_sack_list :: "sack_list \<Rightarrow> u64 \<Rightarrow> u64 \<Rightarrow> int option" where
  "picoquic_check_sack_list s pn64_min pn64_max = do {
     sack \<leftarrow> picoquic_sack_find_range_below_number s pn64_min;
     Some (case sack of None \<Rightarrow> 0 | Some a \<Rightarrow> if pn64_max \<le> end_of_sack_range (items s a) then -1 else 0)
   }"

text \<open>
  The argument \<open>previous\<close> of the C function is overwritten before it is read. The item that is
  returned may have been released; the callers only pass it back.
\<close>

definition picoquic_process_ack_of_ack_range ::
    "sack_list \<Rightarrow> u64 \<Rightarrow> u64 \<Rightarrow> (ptr \<times> sack_list) option" where
  "picoquic_process_ack_of_ack_range s start_of_range end_of_range = do {
     previous \<leftarrow> picoquic_sack_find_range_below_number s start_of_range;
     s \<leftarrow> (case previous of
             None \<Rightarrow> Some s
           | Some p \<Rightarrow>
               if start_of_sack_range (items s p) = start_of_range then do {
                 nxt \<leftarrow> picoquic_sack_next_item s p;
                 if nxt = None then
                   (if end_of_range < end_of_sack_range (items s p)
                    then Some (upd_item p (\<lambda>it. it\<lparr>start_of_sack_range := end_of_range + 1\<rparr>) s)
                    else Some (upd_item p (\<lambda>it. it\<lparr>start_of_sack_range := end_of_sack_range it\<rparr>) s))
                 else if end_of_sack_range (items s p) = end_of_range then
                   (if horizon_delay s > 0 then
                      Some (fold (\<lambda>r s. if nb_times_sent (items s p) r < PICOQUIC_MAX_ACK_RANGE_REPEAT
                                        then set_times_sent p r PICOQUIC_MAX_ACK_RANGE_REPEAT (uncount p r s)
                                        else s) [0, 1] s)
                    else picoquic_sack_delete_item s p)
                 else Some s
               }
               else Some s);
     Some (previous, s)
   }"

text \<open>
  How many ranges an ACK frame may repeat: the loop over the rows of \<open>range_counts\<close>, from \<open>i\<close> on.
  The result is \<open>(nb_sent_max, nb_sent_max_skip)\<close>.
\<close>

fun select_ack_ranges_loop ::
    "sack_list \<Rightarrow> int \<Rightarrow> nat \<Rightarrow> int \<Rightarrow> int list \<Rightarrow> int \<Rightarrow> int \<times> int" where
  "select_ack_ranges_loop s max_ranges opp first_sack_count [] cumul_sent = (PICOQUIC_MAX_ACK_RANGE_REPEAT, 0)"
| "select_ack_ranges_loop s max_ranges opp first_sack_count (i # is) cumul_sent =
     (let cumul_sent = cumul_sent + range_counts s opp i;
          cumul_sent = (if i = first_sack_count then cumul_sent - 1 else cumul_sent)
      in if cumul_sent \<ge> max_ranges then (i, cumul_sent - max_ranges)
         else select_ack_ranges_loop s max_ranges opp first_sack_count is cumul_sent)"

definition picoquic_sack_select_ack_ranges ::
    "sack_list \<Rightarrow> ptr \<Rightarrow> int \<Rightarrow> nat \<Rightarrow> int \<times> int" where
  "picoquic_sack_select_ack_ranges s first_sack max_ranges is_opportunistic =
     (let first_sack_count =
            (case first_sack of None \<Rightarrow> PICOQUIC_MAX_ACK_RANGE_REPEAT
                              | Some a \<Rightarrow> nb_times_sent (items s a) is_opportunistic)
      in select_ack_ranges_loop s max_ranges is_opportunistic first_sack_count [0, 1, 2, 3] 0)"

definition picoquic_sack_list_first :: "sack_list \<Rightarrow> u64 option" where
  "picoquic_sack_list_first s = do {
     first \<leftarrow> picoquic_sack_first_item s;
     Some (case first of None \<Rightarrow> UINT64_MAX | Some a \<Rightarrow> start_of_sack_range (items s a))
   }"

definition picoquic_sack_list_last :: "sack_list \<Rightarrow> u64 option" where
  "picoquic_sack_list_last s = do {
     l \<leftarrow> picoquic_sack_last_item s;
     Some (case l of None \<Rightarrow> 0 | Some a \<Rightarrow> end_of_sack_range (items s a))
   }"

definition picoquic_sack_list_first_range :: "sack_list \<Rightarrow> ptr option" where
  "picoquic_sack_list_first_range s = do {
     first \<leftarrow> picoquic_sack_first_item s;
     case first of None \<Rightarrow> Some None | Some a \<Rightarrow> picosplay_next (ack_tree s) a
   }"

text \<open>\<open>memset\<close> clears every field; the fields of the nodes are whatever the memory holds.\<close>

definition picoquic_sack_list_init :: "memory \<Rightarrow> (nat \<Rightarrow> sack_item) \<Rightarrow> sack_list" where
  "picoquic_sack_list_init h its =
     \<lparr>ack_tree = picosplay_init_tree h, items = its, ack_horizon = 0, horizon_delay = 0,
      range_counts = (\<lambda>_ _. 0)\<rparr>"

definition picoquic_sack_list_free :: "sack_list \<Rightarrow> sack_list option" where
  "picoquic_sack_list_free s = do {
     t \<leftarrow> picosplay_empty_tree (ack_tree s);
     Some (s\<lparr>ack_tree := t, range_counts := (\<lambda>_ _. 0)\<rparr>)
   }"

definition picoquic_sack_list_reset ::
    "sack_list \<Rightarrow> ptr \<Rightarrow> u64 \<Rightarrow> u64 \<Rightarrow> u64 \<Rightarrow> (int \<times> sack_list) option" where
  "picoquic_sack_list_reset s sack_new range_min range_max current_time = do {
     s \<leftarrow> picoquic_sack_list_free s;
     picoquic_sack_insert_item s sack_new range_min range_max current_time
   }"

definition picoquic_sack_list_size :: "sack_list \<Rightarrow> int" where
  "picoquic_sack_list_size s = tree_size (ack_tree s)"

section \<open>The receive contexts of a connection\<close>

text \<open>
  The part of \<open>picoquic_cnx_t\<close> that records received packets: one acknowledgement context per
  packet context (0 application, 1 handshake, 2 initial) and one per local connection identifier,
  used when multipath is enabled. \<open>path0_cid\<close> is \<open>path[0]->p_local_cnxid\<close>.
\<close>

record ack_track =
  highest_ack_sent :: u64
  highest_ack_sent_time :: u64
  time_oldest_unack_packet_received :: u64
  ack_needed :: bool
  ack_after_fin :: bool
  out_of_order_received :: bool

record ack_context =
  ctx_sack_list :: sack_list
  time_stamp_largest_received :: u64
  act :: "nat \<Rightarrow> ack_track"

record receive_state =
  ack_ctx :: "nat \<Rightarrow> ack_context"
  cid_ack_ctx :: "nat \<Rightarrow> ack_context"
  path0_cid :: nat
  is_multipath_enabled :: bool

text \<open>The place of the list that is returned as a pointer.\<close>

datatype sack_ref = CnxCtx nat | CidCtx nat

definition picoquic_sack_list_from_cnx_context :: "receive_state \<Rightarrow> nat \<Rightarrow> nat option \<Rightarrow> sack_ref" where
  "picoquic_sack_list_from_cnx_context cnx pc l_cid =
     (if pc = 0 \<and> is_multipath_enabled cnx
      then (case l_cid of None \<Rightarrow> CidCtx (path0_cid cnx) | Some c \<Rightarrow> CidCtx c)
      else CnxCtx pc)"

fun get_sacks :: "receive_state \<Rightarrow> sack_ref \<Rightarrow> sack_list" where
  "get_sacks cnx (CnxCtx pc) = ctx_sack_list (ack_ctx cnx pc)"
| "get_sacks cnx (CidCtx c) = ctx_sack_list (cid_ack_ctx cnx c)"

fun put_sacks :: "receive_state \<Rightarrow> sack_ref \<Rightarrow> sack_list \<Rightarrow> receive_state" where
  "put_sacks cnx (CnxCtx pc) s =
     cnx\<lparr>ack_ctx := (ack_ctx cnx)(pc := (ack_ctx cnx pc)\<lparr>ctx_sack_list := s\<rparr>)\<rparr>"
| "put_sacks cnx (CidCtx c) s =
     cnx\<lparr>cid_ack_ctx := (cid_ack_ctx cnx)(c := (cid_ack_ctx cnx c)\<lparr>ctx_sack_list := s\<rparr>)\<rparr>"

definition picoquic_is_pn_already_received :: "receive_state \<Rightarrow> nat \<Rightarrow> nat option \<Rightarrow> u64 \<Rightarrow> bool option" where
  "picoquic_is_pn_already_received cnx pc l_cid pn64 =
     (let s = get_sacks cnx (picoquic_sack_list_from_cnx_context cnx pc l_cid)
      in if horizon_delay s > 0 \<and> pn64 < ack_horizon s then Some True
         else do {
           sack_found \<leftarrow> picoquic_sack_find_range_below_number s pn64;
           Some (case sack_found of None \<Rightarrow> False | Some a \<Rightarrow> pn64 \<le> end_of_sack_range (items s a))
         })"

definition upd_ctx :: "nat \<Rightarrow> (ack_context \<Rightarrow> ack_context) \<Rightarrow> receive_state \<Rightarrow> receive_state" where
  "upd_ctx pc f cnx = cnx\<lparr>ack_ctx := (ack_ctx cnx)(pc := f (ack_ctx cnx pc))\<rparr>"

definition mark_out_of_order :: "nat \<Rightarrow> ack_context \<Rightarrow> ack_context" where
  "mark_out_of_order i c = c\<lparr>act := (act c)(i := (act c i)\<lparr>out_of_order_received := True\<rparr>)\<rparr>"

definition picoquic_record_pn_received ::
    "receive_state \<Rightarrow> nat \<Rightarrow> nat option \<Rightarrow> ptr \<Rightarrow> u64 \<Rightarrow> u64 \<Rightarrow> (int \<times> receive_state) option" where
  "picoquic_record_pn_received cnx pc l_cid sack_new pn64 current_microsec = do {
     let ref = picoquic_sack_list_from_cnx_context cnx pc l_cid;
     cnx \<leftarrow> (if picoquic_sack_list_is_empty (get_sacks cnx ref)
             then Some (upd_ctx pc (\<lambda>c. c\<lparr>time_stamp_largest_received := current_microsec\<rparr>) cnx)
             else do {
               pn_last \<leftarrow> picoquic_sack_list_last (get_sacks cnx ref);
               if pn64 > pn_last then do {
                 let cnx = (if pn64 > pn_last + 1
                            then upd_ctx pc (mark_out_of_order 1 \<circ> mark_out_of_order 0) cnx else cnx);
                 Some (upd_ctx pc (\<lambda>c. c\<lparr>time_stamp_largest_received := current_microsec\<rparr>) cnx)
               }
               else do {
                 let late = (\<lambda>i c. if ack_needed (act c i) \<and> pn64 < highest_ack_sent (act c i)
                                  then mark_out_of_order i c else c);
                 Some (upd_ctx pc (late 1 \<circ> late 0) cnx)
               }
             });
     (ret, s) \<leftarrow> picoquic_update_sack_list (get_sacks cnx ref) sack_new pn64 pn64 current_microsec;
     Some (ret, put_sacks cnx ref s)
   }"

end
