(* ===== verification/SackFacts.thy ===== *)
theory SackFacts
  imports Sacks "HOL-Library.Multiset"
begin

text \<open>
  The invariant of an acknowledgement list and how the pieces of its operations act on it:
  \<open>sacks s xs\<close> says that the tree of \<open>s\<close> holds the nodes \<open>xs\<close>, that their ranges are sorted,
  disjoint and not adjacent, and that the counters agree with the items. \<open>covered\<close> is the set of
  numbers in the ranges.
\<close>

section \<open>The invariant\<close>

abbreviation lo :: "sack_list \<Rightarrow> nat \<Rightarrow> nat" where
  "lo s a \<equiv> unat (start_of_sack_range (items s a))"

abbreviation hi :: "sack_list \<Rightarrow> nat \<Rightarrow> nat" where
  "hi s a \<equiv> unat (end_of_sack_range (items s a))"

abbreviation sent :: "sack_list \<Rightarrow> nat \<Rightarrow> nat \<Rightarrow> int" where
  "sent s r a \<equiv> nb_times_sent (items s a) r"

definition ordered :: "sack_list \<Rightarrow> nat list \<Rightarrow> bool" where
  "ordered s xs \<longleftrightarrow>
     (\<forall>a\<in>set xs. lo s a \<le> hi s a \<and> hi s a < 2 ^ 62) \<and> sorted_wrt (\<lambda>a b. hi s a + 1 < lo s b) xs"

definition counts_ok :: "sack_list \<Rightarrow> nat list \<Rightarrow> bool" where
  "counts_ok s xs \<longleftrightarrow>
     (\<forall>r\<in>{0, 1}. (\<forall>a\<in>set xs. 0 \<le> sent s r a) \<and>
        (\<forall>i. 0 \<le> i \<and> i < 4 \<longrightarrow> range_counts s r i = int (length (filter (\<lambda>a. sent s r a = i) xs))))"

definition sacks :: "sack_list \<Rightarrow> nat list \<Rightarrow> bool" where
  "sacks s xs \<longleftrightarrow> represents (ack_tree s) xs \<and> ordered s xs \<and> counts_ok s xs"

definition covered :: "sack_list \<Rightarrow> nat list \<Rightarrow> nat set" where
  "covered s xs = (\<Union>a\<in>set xs. {lo s a..hi s a})"

lemma covered_simps [simp]:
  "covered s [] = {}" "covered s (a # xs) = {lo s a..hi s a} \<union> covered s xs"
  "covered s (xs @ ys) = covered s xs \<union> covered s ys"
  by (auto simp: covered_def)

lemma ordered_append:
  "ordered s (us @ vs) \<longleftrightarrow> ordered s us \<and> ordered s vs \<and> (\<forall>a\<in>set us. \<forall>b\<in>set vs. hi s a + 1 < lo s b)"
  by (auto simp: ordered_def sorted_wrt_append)

lemma ordered_Cons:
  "ordered s (a # vs) \<longleftrightarrow> ordered s vs \<and> lo s a \<le> hi s a \<and> hi s a < 2 ^ 62 \<and>
     (\<forall>b\<in>set vs. hi s a + 1 < lo s b)"
  by (auto simp: ordered_def)

lemma ordered_Nil [simp]: "ordered s []"
  by (simp add: ordered_def)

lemma ordered_cong:
  assumes "\<And>a. a \<in> set xs \<Longrightarrow> lo s' a = lo s a \<and> hi s' a = hi s a"
  shows "ordered s' xs = ordered s xs"
proof -
  have "sorted_wrt (\<lambda>a b. hi s' a + 1 < lo s' b) xs = sorted_wrt (\<lambda>a b. hi s a + 1 < lo s b) xs"
    using assms by (intro sorted_wrt_cong_on) simp
  with assms show ?thesis by (simp add: ordered_def)
qed

lemma covered_cong:
  "(\<And>a. a \<in> set xs \<Longrightarrow> lo s' a = lo s a \<and> hi s' a = hi s a) \<Longrightarrow> covered s' xs = covered s xs"
  by (simp add: covered_def)

section \<open>Numbers\<close>

text \<open>Ranges are reasoned about as natural numbers.\<close>


declare of_nat_unat [simp del]

lemma unat_plus_1: "unat (x::u64) < 2 ^ 62 \<Longrightarrow> unat (x + 1) = unat x + 1"
  by (simp add: unat_word_ariths)

lemma unat_minus_1: "0 < unat (x::u64) \<Longrightarrow> unat (x - 1) = unat x - 1"
  by (metis unat_minus_one unat_eq_zero less_numeral_extra(3))

lemmas u64_small = word_less_nat_alt word_le_nat_alt unat_plus_1 unat_minus_1

section \<open>Finding an item\<close>

lemma ordered_lo_split:
  assumes "ordered s xs"
  shows "\<forall>a\<in>set (dropWhile (\<lambda>a. lo s a \<le> n) xs). n < lo s a"
  using assms
proof (induction xs)
  case (Cons a xs)
  show ?case
  proof (cases "lo s a \<le> n")
    case True
    with Cons show ?thesis by (simp add: ordered_Cons)
  next
    case False
    have "\<forall>b\<in>set xs. lo s a < lo s b" using Cons.prems unfolding ordered_Cons by fastforce
    with False show ?thesis by fastforce
  qed
qed simp

lemma compare_lo:
  assumes "ordered s xs" "unat (start_of_sack_range v) < 2 ^ 62" "c \<in> set xs"
  shows "picoquic_sack_item_compare v (items s c) = int (unat (start_of_sack_range v)) - int (lo s c)"
  using assms unfolding picoquic_sack_item_compare_def
  by (intro sint_diff_small) (auto simp: ordered_def intro: le_less_trans)

lemma ordered_lo_less: "ordered s xs \<Longrightarrow> sorted_wrt (\<lambda>a b. lo s a < lo s b) xs"
  by (induction xs) (fastforce simp: ordered_Cons)+

lemma descending_lo:
  assumes "ordered s xs" "unat (start_of_sack_range v) < 2 ^ 62"
  shows "descending (\<lambda>c. picoquic_sack_item_compare v (items s c)) xs"
  using ordered_lo_less [OF assms(1)] compare_lo [OF assms] by (rule descending_diff)

text \<open>The search returns the last item that starts at or below the number.\<close>

lemma find_range_below:
  assumes "represents (ack_tree s) xs" "ordered s xs" "unat pn < 2 ^ 62"
  shows "picoquic_sack_find_range_below_number s pn =
           Some (last_ptr (takeWhile (\<lambda>a. lo s a \<le> unat pn) xs))"
proof -
  let ?v = "\<lparr>start_of_sack_range = pn, end_of_sack_range = pn, time_created = 0, nb_times_sent = (\<lambda>_. 0)\<rparr>"
  have c: "\<forall>c\<in>set xs. picoquic_sack_item_compare ?v (items s c) = int (unat pn) - int (lo s c)"
    using compare_lo [OF assms(2), of ?v] assms(3) by simp
  show ?thesis unfolding picoquic_sack_find_range_below_number_def
    by (rule splay_store.find_previous_keyed [where key = "lo s" and val = "items s" and cmp = picoquic_sack_item_compare and v = ?v, OF assms(1) ordered_lo_less [OF assms(2)] c])
qed

section \<open>Writes to items and counters\<close>

text \<open>What the small state changes leave alone.\<close>

lemma upd_item_simps [simp]:
  "ack_tree (upd_item a f s) = ack_tree s"
  "items (upd_item a f s) b = (if b = a then f (items s a) else items s b)"
  "ack_horizon (upd_item a f s) = ack_horizon s"
  "horizon_delay (upd_item a f s) = horizon_delay s"
  "range_counts (upd_item a f s) = range_counts s"
  by (simp_all add: upd_item_def)

lemma add_count_simps [simp]:
  "ack_tree (add_count r i d s) = ack_tree s"
  "items (add_count r i d s) = items s"
  "ack_horizon (add_count r i d s) = ack_horizon s"
  "horizon_delay (add_count r i d s) = horizon_delay s"
  "range_counts (add_count r i d s) r' j =
     (if r' = r \<and> j = i then range_counts s r i + d else range_counts s r' j)"
  by (simp_all add: add_count_def)

lemma uncount_simps [simp]:
  "ack_tree (uncount a r s) = ack_tree s"
  "items (uncount a r s) = items s"
  "ack_horizon (uncount a r s) = ack_horizon s"
  "horizon_delay (uncount a r s) = horizon_delay s"
  by (simp_all add: uncount_def)

lemma reset_simps [simp]:
  "ack_tree (picoquic_sack_item_record_reset s a) = ack_tree s"
  "ack_horizon (picoquic_sack_item_record_reset s a) = ack_horizon s"
  "horizon_delay (picoquic_sack_item_record_reset s a) = horizon_delay s"
  "start_of_sack_range (items (picoquic_sack_item_record_reset s a) b) = start_of_sack_range (items s b)"
  "end_of_sack_range (items (picoquic_sack_item_record_reset s a) b) = end_of_sack_range (items s b)"
  "time_created (items (picoquic_sack_item_record_reset s a) b) = time_created (items s b)"
  by (simp_all add: picoquic_sack_item_record_reset_def set_times_sent_def)

lemma sent_set_times_sent [simp]:
  "sent (set_times_sent a r n s) r' b = (if b = a \<and> r' = r then n else sent s r' b)"
  by (simp add: set_times_sent_def)

lemma set_times_sent_simps [simp]:
  "range_counts (set_times_sent a r n s) = range_counts s"
  "ack_tree (set_times_sent a r n s) = ack_tree s"
  "ack_horizon (set_times_sent a r n s) = ack_horizon s"
  "horizon_delay (set_times_sent a r n s) = horizon_delay s"
  "start_of_sack_range (items (set_times_sent a r n s) b) = start_of_sack_range (items s b)"
  "end_of_sack_range (items (set_times_sent a r n s) b) = end_of_sack_range (items s b)"
  "time_created (items (set_times_sent a r n s) b) = time_created (items s b)"
  by (simp_all add: set_times_sent_def)

text \<open>The counters of one row.\<close>

definition row_ok :: "sack_list \<Rightarrow> nat \<Rightarrow> nat list \<Rightarrow> bool" where
  "row_ok s r xs \<longleftrightarrow> (\<forall>a\<in>set xs. 0 \<le> sent s r a) \<and>
     (\<forall>i. 0 \<le> i \<and> i < 4 \<longrightarrow> range_counts s r i = int (length (filter (\<lambda>a. sent s r a = i) xs)))"

lemma counts_ok_rows: "counts_ok s xs \<longleftrightarrow> row_ok s 0 xs \<and> row_ok s 1 xs"
  by (auto simp: counts_ok_def row_ok_def)

lemma row_ok_cong:
  assumes "range_counts s' r = range_counts s r" "\<And>a. a \<in> set xs \<Longrightarrow> sent s' r a = sent s r a"
  shows "row_ok s' r xs = row_ok s r xs"
proof -
  have "filter (\<lambda>a. sent s' r a = i) xs = filter (\<lambda>a. sent s r a = i) xs" for i
    using assms(2) by (intro filter_cong) simp_all
  with assms show ?thesis by (simp add: row_ok_def)
qed

lemma row_ok_perm: "mset xs = mset ys \<Longrightarrow> row_ok s r xs = row_ok s r ys"
  unfolding row_ok_def by (metis mset_eq_setD mset_filter size_mset)

lemma row_ok_uncount:
  assumes "row_ok s r (us @ a # vs)"
  shows "row_ok (uncount a r s) r (us @ vs)"
  using assms by (auto simp: row_ok_def uncount_def)

lemma row_ok_count:
  assumes "row_ok s r (us @ vs)" "a \<notin> set (us @ vs)" "0 \<le> n"
  shows "row_ok (if n < 4 then add_count r n 1 (set_times_sent a r n s) else set_times_sent a r n s) r (us @ a # vs)"
proof -
  have "row_ok (set_times_sent a r n s) r (us @ vs)"
    by (subst row_ok_cong [of _ r s]) (use assms in auto)
  with assms(3) show ?thesis by (auto simp: row_ok_def)
qed

lemma row_ok_other:
  "r' \<noteq> r \<Longrightarrow> row_ok (uncount a r s) r' xs = row_ok s r' xs"
  "r' \<noteq> r \<Longrightarrow> row_ok (add_count r i d s) r' xs = row_ok s r' xs"
  "r' \<noteq> r \<Longrightarrow> row_ok (set_times_sent a r n s) r' xs = row_ok s r' xs"
  by (rule row_ok_cong; auto simp: uncount_def add_count_def fun_eq_iff)+

lemma row_ok_recount:
  assumes "row_ok s r (us @ a # vs)" "a \<notin> set (us @ vs)"  "0 \<le> n"
  shows "row_ok (if n < 4 then add_count r n 1 (set_times_sent a r n (uncount a r s))
                 else set_times_sent a r n (uncount a r s)) r (us @ a # vs)"
  using row_ok_count [OF row_ok_uncount [OF assms(1)] assms(2,3)] .

lemma counts_ok_reset:
  assumes "counts_ok s (us @ a # vs)" "a \<notin> set (us @ vs)"
  shows "counts_ok (picoquic_sack_item_record_reset s a) (us @ a # vs)"
  using row_ok_recount [of s 0 us a vs 0] row_ok_recount [of _ 1 us a vs 0] assms
  by (simp add: counts_ok_rows picoquic_sack_item_record_reset_def row_ok_other)

lemma counts_ok_record_sent:
  assumes "counts_ok s (us @ a # vs)" "a \<notin> set (us @ vs)" "r = 0 \<or> r = 1"
  shows "counts_ok (picoquic_sack_item_record_sent s a r) (us @ a # vs)"
proof -
  have "0 \<le> sent s r a" using assms by (auto simp: counts_ok_def)
  then show ?thesis
    using row_ok_recount [of s r us a vs "sent s r a + 1"] assms
    by (auto simp: counts_ok_rows picoquic_sack_item_record_sent_def row_ok_other Let_def split: if_splits)
qed

lemma counts_ok_upd:
  "(\<And>it. nb_times_sent (f it) = nb_times_sent it) \<Longrightarrow> counts_ok (upd_item a f s) xs = counts_ok s xs"
  unfolding counts_ok_rows by (subst (1 2) row_ok_cong [of _ _ s]) auto

section \<open>Deleting and inserting items\<close>

lemma sacks_distinct: "sacks s xs \<Longrightarrow> distinct xs"
  by (auto simp: sacks_def dest: represents_distinct)

lemma delete_item_sacks:
  assumes "represents (ack_tree s) (us @ x # vs)" "counts_ok s (us @ x # vs)"
  shows "\<exists>s'. picoquic_sack_delete_item s x = Some s' \<and> represents (ack_tree s') (us @ vs) \<and>
           counts_ok s' (us @ vs) \<and> items s' = items s \<and> ack_horizon s' = ack_horizon s \<and>
           horizon_delay s' = horizon_delay s"
proof -
  obtain t where t: "picosplay_delete_hint (ack_tree s) (Some x) = Some t" "represents t (us @ vs)"
    using splay_store.delete_law [OF assms(1)] by blast
  define s1 where "s1 = uncount x 1 (uncount x 0 s)"
  have "counts_ok s1 (us @ vs)"
    using row_ok_uncount [of s 0 us x vs] row_ok_uncount [of "uncount x 0 s" 1 us x vs] assms(2)
    by (simp add: s1_def counts_ok_rows row_ok_other)
  then have "counts_ok (s1\<lparr>ack_tree := t\<rparr>) (us @ vs)" by (simp add: counts_ok_def)
  moreover have "picoquic_sack_delete_item s x = Some (s1\<lparr>ack_tree := t\<rparr>)"
    using t(1) by (simp add: picoquic_sack_delete_item_def s1_def)
  ultimately show ?thesis using t(2) by (simp add: s1_def)
qed

lemma insert_item_sacks:
  assumes r: "represents (ack_tree s) (us @ vs)" and o: "ordered s (us @ vs)" and c: "counts_ok s (us @ vs)"
    and n: "a \<notin> set (us @ vs)" and b: "unat mn \<le> unat mx" "unat mx < 2 ^ 62"
    and l: "\<forall>x\<in>set us. hi s x + 1 < unat mn" and u: "\<forall>x\<in>set vs. unat mx + 1 < lo s x"
  shows "\<exists>s'. picoquic_sack_insert_item s (Some a) mn mx now = Some (0, s') \<and> sacks s' (us @ a # vs) \<and>
           covered s' (us @ a # vs) = covered s (us @ vs) \<union> {unat mn..unat mx} \<and>
           ack_horizon s' = ack_horizon s \<and> horizon_delay s' = horizon_delay s"
proof -
  define it where "it = \<lparr>start_of_sack_range = mn, end_of_sack_range = mx, time_created = now, nb_times_sent = (\<lambda>_. 0)\<rparr>"
  define s1 where "s1 = upd_item a (\<lambda>_. it) s"
  define s2 where "s2 = add_count 1 0 1 (add_count 0 0 1 s1)"
  have same: "items s1 x = items s x" if "x \<in> set (us @ vs)" for x using that n by (auto simp: s1_def)
  have it: "items s1 a = it" by (simp add: s1_def)
  have o1: "ordered s1 (us @ a # vs)"
  proof -
    have e: "ordered s1 us = ordered s us" "ordered s1 vs = ordered s vs"
      using same by (auto intro!: ordered_cong)
    have "\<forall>x\<in>set us. hi s1 x + 1 < unat mn" "\<forall>x\<in>set vs. unat mx + 1 < lo s1 x"
      "\<forall>x\<in>set us. \<forall>y\<in>set vs. hi s1 x + 1 < lo s1 y" using o l u same by (simp_all add: ordered_append)
    then show ?thesis using e o b it
      by (auto simp: ordered_append ordered_Cons it_def)
  qed
  have row: "row_ok s2 r (us @ a # vs)" if "r = 0 \<or> r = 1" for r
  proof -
    have "row_ok s1 r (us @ vs)"
      using c that n by (subst row_ok_cong [of _ r s]) (auto simp: counts_ok_rows s1_def)
    moreover have "sent s1 r a = 0" by (simp add: it it_def)
    ultimately show ?thesis using that by (auto simp: row_ok_def s2_def)
  qed
  have cmp: "\<forall>c\<in>set (us @ vs). picoquic_sack_item_compare (items s2 a) (items s2 c) = int (unat mn) - int (lo s c)"
  proof
    fix c assume c: "c \<in> set (us @ vs)"
    then have "picoquic_sack_item_compare it (items s1 c) = int (unat mn) - int (lo s1 c)"
      using compare_lo [OF o1, of it c] b by (auto simp: it_def)
    then show "picoquic_sack_item_compare (items s2 a) (items s2 c) = int (unat mn) - int (lo s c)"
      using same [OF c] it by (simp add: s2_def)
  qed
  have "\<forall>c\<in>set us. lo s c \<le> hi s c" using o by (auto simp: ordered_def)
  then have "\<forall>c\<in>set us. lo s c \<le> unat mn" "\<forall>c\<in>set vs. unat mn < lo s c"
    using l u b by fastforce+
  then obtain t where t: "picosplay_insert picoquic_sack_item_compare (items s2) (ack_tree s) a = Some t"
    "represents t (us @ a # vs)"
    using splay_store.insert_keyed [where key = "lo s" and val = "items s2" and cmp = picoquic_sack_item_compare, OF r n ordered_lo_less [OF o] cmp] by blast
  note t(2)
  moreover have "picoquic_sack_insert_item s (Some a) mn mx now = Some (0, s2\<lparr>ack_tree := t\<rparr>)"
    using t(1) by (simp add: picoquic_sack_insert_item_def s2_def s1_def it_def Let_def)
  moreover have "ordered (s2\<lparr>ack_tree := t\<rparr>) (us @ a # vs)" using o1 by (simp add: ordered_def s2_def)
  moreover have "counts_ok (s2\<lparr>ack_tree := t\<rparr>) (us @ a # vs)"
    using row [of 0] row [of 1] by (simp add: counts_ok_rows row_ok_def)
  moreover have "covered (s2\<lparr>ack_tree := t\<rparr>) (us @ a # vs) = covered s (us @ vs) \<union> {unat mn..unat mx}"
  proof -
    have "covered s1 us = covered s us" "covered s1 vs = covered s vs" using same by (auto intro!: covered_cong)
    then show ?thesis by (auto simp: covered_def s2_def it it_def)
  qed
  ultimately show ?thesis by (auto simp: sacks_def s2_def s1_def)
qed

end
