(* ===== verification/SackUpdate.thy ===== *)
theory SackUpdate
  imports SackFacts
begin

text \<open>
  Recording a range in an acknowledgement list: the loop that absorbs the ranges above, the horizon,
  and the whole of \<open>picoquic_update_sack_list\<close>.
\<close>

section \<open>Absorbing ranges\<close>

lemma join_intervals:
  "a \<le> b \<Longrightarrow> b < c \<Longrightarrow> c \<le> d \<Longrightarrow> {a..d} = {a..b} \<union> {c..d} \<union> {b..c}" for a :: nat
  by auto

lemma absorb_intervals:
  "b < c \<Longrightarrow> c \<le> d \<Longrightarrow> c \<le> m + 1 \<Longrightarrow> {c..d} \<union> {b..c} \<union> {d..m} = {c..d} \<union> {b..m}" for b :: nat
  by (rule set_eqI) (simp only: Un_iff atLeastAtMost_iff, arith)

lemma extend_intervals:
  "m < l \<Longrightarrow> l \<le> h \<Longrightarrow> l \<le> x + 1 \<Longrightarrow> {m..h} \<union> {h..x} = {l..h} \<union> {m..x}" for m :: nat
  by (rule set_eqI) (simp only: Un_iff atLeastAtMost_iff, arith)

lemma absorb_union: "N \<union> b \<union> c = N \<union> d \<Longrightarrow> U \<union> (P \<union> (N \<union> W)) \<union> b \<union> c = U \<union> (P \<union> (N \<union> W)) \<union> d"
  by blast

lemma extend_union: "A \<union> B = C \<union> D \<Longrightarrow> U \<union> A \<union> W \<union> B = U \<union> (C \<union> W) \<union> D"
  by blast

lemma touch_intervals:
  "l \<le> m \<Longrightarrow> m \<le> h + 1 \<Longrightarrow> l \<le> h \<Longrightarrow> m \<le> x \<Longrightarrow> {l..h} \<union> {h..x} = {l..h} \<union> {m..x}" for m :: nat
  by (rule set_eqI) (simp only: Un_iff atLeastAtMost_iff, arith)

lemma touch_union: "P \<union> B = P \<union> D \<Longrightarrow> U \<union> (P \<union> W) \<union> B = U \<union> (P \<union> W) \<union> D"
  by blast

lemma resized:
  assumes "ordered s (us @ p # vs)" "\<And>a. a \<in> set (us @ vs) \<Longrightarrow> lo s1 a = lo s a \<and> hi s1 a = hi s a"
    "lo s1 p \<le> hi s1 p" "hi s1 p < 2 ^ 62"
    "\<forall>a\<in>set us. hi s a + 1 < lo s1 p" "\<forall>b\<in>set vs. hi s1 p + 1 < lo s b"
  shows "ordered s1 (us @ p # vs)"
    "covered s1 (us @ p # vs) = covered s us \<union> {lo s1 p..hi s1 p} \<union> covered s vs"
proof -
  have e: "ordered s1 us = ordered s us" "ordered s1 vs = ordered s vs"
    "covered s1 us = covered s us" "covered s1 vs = covered s vs"
    using assms(2) by (auto intro!: ordered_cong covered_cong)
  show "covered s1 (us @ p # vs) = covered s us \<union> {lo s1 p..hi s1 p} \<union> covered s vs"
    by (simp add: e Un_assoc)
  show "ordered s1 (us @ p # vs)"
    using assms by (simp add: ordered_append ordered_Cons e)
qed

lemma sacks_resized:
  assumes "sacks s (us @ p # vs)" "represents (ack_tree s1) (us @ p # vs)" "counts_ok s1 (us @ p # vs)"
    "\<And>a. a \<in> set (us @ vs) \<Longrightarrow> lo s1 a = lo s a \<and> hi s1 a = hi s a"
    "lo s1 p \<le> hi s1 p" "hi s1 p < 2 ^ 62"
    "\<forall>a\<in>set us. hi s a + 1 < lo s1 p" "\<forall>b\<in>set vs. hi s1 p + 1 < lo s b"
  shows "sacks s1 (us @ p # vs)"
  using assms resized(1) [OF _ assms(4-8)] by (auto simp: sacks_def)

text \<open>Changing a range and resetting its counters keeps the counters right.\<close>

lemma counts_ok_change:
  assumes "sacks s (us @ p # vs)" "\<And>it. nb_times_sent (f it) = nb_times_sent it" "\<And>it. nb_times_sent (g it) = nb_times_sent it"
  shows "counts_ok (upd_item p g (picoquic_sack_item_record_reset (upd_item p f s) p)) (us @ p # vs)"
    "counts_ok (picoquic_sack_item_record_reset (upd_item p f s) p) (us @ p # vs)"
proof -
  have "p \<notin> set (us @ vs)" using sacks_distinct [OF assms(1)] by auto
  moreover have "counts_ok (upd_item p f s) (us @ p # vs)"
    using assms(1,2) by (simp add: sacks_def counts_ok_upd)
  ultimately show "counts_ok (picoquic_sack_item_record_reset (upd_item p f s) p) (us @ p # vs)"
    by (intro counts_ok_reset) auto
  then show "counts_ok (upd_item p g (picoquic_sack_item_record_reset (upd_item p f s) p)) (us @ p # vs)"
    using assms(3) by (simp add: counts_ok_upd)
qed

lemma next_item_sacks:
  "sacks s (us @ p # vs) \<Longrightarrow> picoquic_sack_next_item s p = Some (hd_ptr vs)"
  by (auto simp: sacks_def picoquic_sack_next_item_def intro: splay_store.next_law)

lemma update_sack_loop_done:
  "\<not> hi s p < unat mx \<Longrightarrow> update_sack_loop mx now s (Some p) ret = Some (ret, s)"
  by (subst update_sack_loop.simps) (simp add: u64_small)

text \<open>The last round: no range is in reach, \<open>p\<close> is extended to the maximum.\<close>

lemma update_sack_loop_extend:
  assumes s: "sacks s (us @ p # vs)" and b: "hi s p < unat mx" "unat mx < 2 ^ 62"
    and u: "\<forall>b\<in>set vs. unat mx + 1 < lo s b"
  shows "\<exists>s'. update_sack_loop mx now s (Some p) ret = Some (0, s') \<and> sacks s' (us @ p # vs) \<and>
           covered s' (us @ p # vs) = covered s (us @ p # vs) \<union> {hi s p..unat mx} \<and>
           ack_horizon s' = ack_horizon s \<and> horizon_delay s' = horizon_delay s"
proof -
  define s1 where "s1 = upd_item p (\<lambda>it. it\<lparr>time_created := now\<rparr>)
    (picoquic_sack_item_record_reset (upd_item p (\<lambda>it. it\<lparr>end_of_sack_range := mx\<rparr>) s) p)"
  have p: "p \<notin> set (us @ vs)" using sacks_distinct [OF s] by auto
  have o: "ordered s (us @ p # vs)" "represents (ack_tree s) (us @ p # vs)" using s by (auto simp: sacks_def)
  have same: "lo s1 a = lo s a \<and> hi s1 a = hi s a" if "a \<in> set (us @ vs)" for a
    using that p by (auto simp: s1_def)
  have new: "lo s1 p = lo s p" "hi s1 p = unat mx" by (simp_all add: s1_def)
  have side: "lo s1 p \<le> hi s1 p" "hi s1 p < 2 ^ 62" "\<forall>a\<in>set us. hi s a + 1 < lo s1 p"
      "\<forall>b\<in>set vs. hi s1 p + 1 < lo s b"
    using o(1) b u by (auto simp: new ordered_append ordered_Cons)
  have c: "counts_ok s1 (us @ p # vs)" unfolding s1_def by (rule counts_ok_change [OF s]) simp_all
  have "sacks s1 (us @ p # vs)"
    by (rule sacks_resized [OF s _ c same side]) (use o in \<open>auto simp: s1_def\<close>)
  moreover have "covered s1 (us @ p # vs) = covered s us \<union> {lo s1 p..hi s1 p} \<union> covered s vs"
    by (rule resized(2) [OF o(1) same side])
  then have "covered s1 (us @ p # vs) = covered s (us @ p # vs) \<union> {hi s p..unat mx}"
    using o(1) b unfolding new by (auto simp: ordered_append ordered_Cons)
  moreover have "update_sack_loop mx now s (Some p) ret = update_sack_loop mx now s1 (Some p) 0"
  proof (cases vs)
    case Nil
    then show ?thesis using b next_item_sacks [OF s]
      by (subst update_sack_loop.simps) (simp add: u64_small s1_def)
  next
    case (Cons n ws)
    have "unat mx < unat (start_of_sack_range (items s n) - 1)"
      using u Cons by (subst unat_minus_1) auto
    then show ?thesis using b next_item_sacks [OF s] Cons
      by (subst update_sack_loop.simps) (simp add: u64_small s1_def)
  qed
  moreover have "update_sack_loop mx now s1 (Some p) 0 = Some (0, s1)"
    by (rule update_sack_loop_done) (simp add: new)
  ultimately show ?thesis by (simp add: s1_def)
qed

text \<open>One round that absorbs the next range.\<close>

lemma update_sack_loop_absorb:
  assumes s: "sacks s (us @ p # n # vs)" and b: "hi s p < unat mx" "unat mx < 2 ^ 62"
    and u: "lo s n \<le> unat mx + 1"
  shows "\<exists>s'. update_sack_loop mx now s (Some p) ret = update_sack_loop mx now s' (Some p) 0 \<and>
           sacks s' (us @ p # vs) \<and> hi s' p = hi s n \<and>
           covered s' (us @ p # vs) = covered s (us @ p # n # vs) \<union> {hi s p..lo s n} \<and>
           ack_horizon s' = ack_horizon s \<and> horizon_delay s' = horizon_delay s \<and>
           (\<forall>a\<in>set (us @ vs). lo s' a = lo s a)"
proof -
  define s0 where "s0 = picoquic_sack_item_record_reset
    (upd_item p (\<lambda>it. it\<lparr>end_of_sack_range := end_of_sack_range (items s n)\<rparr>) s) p"
  define s1 where "s1 = (if time_created (items s0 n) > time_created (items s0 p)
    then upd_item p (\<lambda>it. it\<lparr>time_created := time_created (items s0 n)\<rparr>) s0 else s0)"
  have d: "p \<notin> set (us @ n # vs)" "n \<notin> set (us @ p # vs)" using sacks_distinct [OF s] by auto
  have o: "ordered s (us @ p # n # vs)" "represents (ack_tree s) (us @ p # n # vs)" using s by (auto simp: sacks_def)
  have lon: "hi s p + 1 < lo s n" "lo s n \<le> hi s n" "lo s p \<le> hi s p" "hi s n < 2 ^ 62"
    using o(1) by (auto simp: ordered_append ordered_Cons)
  have "counts_ok s0 (us @ p # n # vs)" unfolding s0_def by (rule counts_ok_change [OF s]) simp_all
  then have "counts_ok s1 ((us @ [p]) @ n # vs)" by (simp add: s1_def counts_ok_upd)
  moreover have "represents (ack_tree s1) ((us @ [p]) @ n # vs)" using o(2) by (simp add: s1_def s0_def)
  ultimately obtain s2 where s2: "picoquic_sack_delete_item s1 n = Some s2"
    "represents (ack_tree s2) ((us @ [p]) @ vs)" "counts_ok s2 ((us @ [p]) @ vs)" "items s2 = items s1"
    "ack_horizon s2 = ack_horizon s1" "horizon_delay s2 = horizon_delay s1"
    using delete_item_sacks by blast
  have same: "lo s2 a = lo s a \<and> hi s2 a = hi s a" if "a \<in> set (us @ vs)" for a
    using that d by (auto simp: s2 s1_def s0_def)
  have new: "lo s2 p = lo s p" "hi s2 p = hi s n" by (simp_all add: s2 s1_def s0_def)
  have side: "lo s2 p \<le> hi s2 p" "hi s2 p < 2 ^ 62" "\<forall>a\<in>set us. hi s a + 1 < lo s2 p"
      "\<forall>b\<in>set vs. hi s2 p + 1 < lo s b"
    using o(1) lon by (auto simp: new ordered_append ordered_Cons)
  have o': "ordered s (us @ p # vs)" using o(1) by (auto simp: ordered_append ordered_Cons)
  have "ordered s2 (us @ p # vs)" by (rule resized(1) [OF o' same side])
  then have "sacks s2 (us @ p # vs)" using s2 by (simp add: sacks_def)
  moreover have "covered s2 (us @ p # vs) = covered s us \<union> {lo s2 p..hi s2 p} \<union> covered s vs"
    by (rule resized(2) [OF o' same side])
  then have "covered s2 (us @ p # vs) = covered s (us @ p # n # vs) \<union> {hi s p..lo s n}"
    unfolding new using join_intervals [of "lo s p" "hi s p" "lo s n" "hi s n"] lon(1-3) by auto
  moreover have "update_sack_loop mx now s (Some p) ret = update_sack_loop mx now s2 (Some p) 0"
  proof -
    have "\<not> unat mx < unat (start_of_sack_range (items s n) - 1)"
      using u lon by (subst unat_minus_1) auto
    then have g: "(mx < start_of_sack_range (items s n) - 1) = False"
        "(end_of_sack_range (items s p) < mx) = True"
      using b by (simp_all add: word_less_nat_alt)
    have "update_sack_loop mx now s (Some p) ret =
        Option.bind (picoquic_sack_delete_item s1 n) (\<lambda>s. update_sack_loop mx now s (Some p) 0)"
      unfolding s1_def s0_def
      by (subst update_sack_loop.simps)
        (simp only: g next_item_sacks [OF s] hd_ptr_simps option.case if_True if_False Let_def Option.bind.simps)
    then show ?thesis by (simp add: s2(1))
  qed
  moreover have "ack_horizon s2 = ack_horizon s" "horizon_delay s2 = horizon_delay s"
    by (simp_all add: s2 s1_def s0_def)
  moreover have "\<forall>a\<in>set (us @ vs). lo s2 a = lo s a" using same by blast
  ultimately show ?thesis using new(2) by blast
qed

text \<open>The whole loop.\<close>

lemma update_sack_loop_sacks:
  assumes "sacks s (us @ p # vs)" "unat mx < 2 ^ 62"
  shows "\<exists>s' vs'. update_sack_loop mx now s (Some p) ret = Some (if hi s p < unat mx then 0 else ret, s') \<and>
           sacks s' (us @ p # vs') \<and> set vs' \<subseteq> set vs \<and>
           covered s' (us @ p # vs') = covered s (us @ p # vs) \<union> {hi s p..unat mx} \<and>
           ack_horizon s' = ack_horizon s \<and> horizon_delay s' = horizon_delay s"
  using assms(1)
proof (induction "length vs" arbitrary: s vs ret rule: less_induct)
  case less
  have o: "ordered s (us @ p # vs)" using less.prems by (simp add: sacks_def)
  show ?case
  proof (cases "hi s p < unat mx")
    case False
    then have "{hi s p..unat mx} \<subseteq> {lo s p..hi s p}" using o by (auto simp: ordered_append ordered_Cons)
    then have "covered s (us @ p # vs) = covered s (us @ p # vs) \<union> {hi s p..unat mx}" by auto
    with less.prems update_sack_loop_done [OF False] False show ?thesis by auto
  next
    case b: True
    show ?thesis
    proof (cases "\<forall>b\<in>set vs. unat mx + 1 < lo s b")
      case True
      from update_sack_loop_extend [OF less.prems b assms(2) this, of now ret]
      have "\<exists>s'. update_sack_loop mx now s (Some p) ret = Some (if hi s p < unat mx then 0 else ret, s') \<and>
         sacks s' (us @ p # vs) \<and> set vs \<subseteq> set vs \<and>
         covered s' (us @ p # vs) = covered s (us @ p # vs) \<union> {hi s p..unat mx} \<and>
         ack_horizon s' = ack_horizon s \<and> horizon_delay s' = horizon_delay s"
        using b by (simp only: if_True subset_refl simp_thms)
      then show ?thesis by blast
    next
      case False
      then obtain n ws where vs: "vs = n # ws" by (cases vs) auto
      have "lo s n \<le> unat mx + 1"
      proof (rule ccontr)
        assume "\<not> ?thesis"
        with False o vs show False by (auto simp: ordered_append ordered_Cons dest!: bspec)
      qed
      with update_sack_loop_absorb less.prems b assms(2) vs obtain s1 where s1:
        "update_sack_loop mx now s (Some p) ret = update_sack_loop mx now s1 (Some p) 0"
        "sacks s1 (us @ p # ws)" "hi s1 p = hi s n"
        "covered s1 (us @ p # ws) = covered s (us @ p # n # ws) \<union> {hi s p..lo s n}"
        "ack_horizon s1 = ack_horizon s" "horizon_delay s1 = horizon_delay s" by metis
      from less.hyps [OF _ s1(2), of 0] vs obtain s' vs' where r:
        "update_sack_loop mx now s1 (Some p) 0 = Some (0, s')" "sacks s' (us @ p # vs')" "set vs' \<subseteq> set ws"
        "covered s' (us @ p # vs') = covered s1 (us @ p # ws) \<union> {hi s1 p..unat mx}"
        "ack_horizon s' = ack_horizon s1" "horizon_delay s' = horizon_delay s1" by fastforce
      have "lo s n \<le> hi s n" "hi s p + 1 < lo s n" using o vs by (auto simp: ordered_append ordered_Cons)
      then have "{lo s n..hi s n} \<union> {hi s p..lo s n} \<union> {hi s n..unat mx} = {lo s n..hi s n} \<union> {hi s p..unat mx}"
        using \<open>lo s n \<le> unat mx + 1\<close> by (intro absorb_intervals) simp_all
      then have "covered s' (us @ p # vs') = covered s (us @ p # vs) \<union> {hi s p..unat mx}"
        unfolding r(4) unfolding s1(3,4) vs unfolding covered_simps by (rule absorb_union)
      moreover have "set vs' \<subseteq> set vs" using r(3) vs by auto
      moreover have "update_sack_loop mx now s (Some p) ret = Some (if hi s p < unat mx then 0 else ret, s')"
        using s1(1) r(1) b by simp
      moreover have "ack_horizon s' = ack_horizon s" "horizon_delay s' = horizon_delay s" using r s1 by simp_all
      ultimately show ?thesis using r(2) by blast
    qed
  qed
qed

section \<open>The horizon\<close>

text \<open>
  Only ranges that were sent often enough and are old enough go, from the lowest up; the highest
  range always stays, and the horizon ends above the last range that went.
\<close>

lemma update_ack_horizon_loop_sacks:
  "sacks s xs \<Longrightarrow>
     \<exists>s' us vs. update_ack_horizon_loop now s (hd_ptr xs) = Some s' \<and> xs = us @ vs \<and> sacks s' vs \<and>
       items s' = items s \<and> horizon_delay s' = horizon_delay s \<and> (xs \<noteq> [] \<longrightarrow> vs \<noteq> []) \<and>
       ack_horizon s' = (if us = [] then ack_horizon s else end_of_sack_range (items s (List.last us)) + 1) \<and>
       (\<forall>a\<in>set us. 4 \<le> sent s 0 a \<and> horizon_delay s < sint (now - time_created (items s a)))"
proof (induction xs arbitrary: s)
  case Nil
  then show ?case by (auto simp: update_ack_horizon_loop.simps)
next
  case (Cons a xs)
  have stop: ?case if "update_ack_horizon_loop now s (Some a) = Some s"
    using that Cons.prems by (intro exI [of _ s] exI [of _ "[]"] exI [of _ "a # xs"]) simp
  show ?case
  proof (cases "4 \<le> sent s 0 a \<and> horizon_delay s < sint (now - time_created (items s a)) \<and> xs \<noteq> []")
    case False
    have "update_ack_horizon_loop now s (Some a) = Some s"
      using False next_item_sacks [of s "[]" a xs] Cons.prems
      by (subst update_ack_horizon_loop.simps) (auto simp: update_ack_horizon_loop.simps [of _ _ None])
    then show ?thesis by (rule stop)
  next
    case True
    let ?s = "s\<lparr>ack_horizon := end_of_sack_range (items s a) + 1\<rparr>"
    have "represents (ack_tree ?s) ([] @ a # xs)" "counts_ok ?s ([] @ a # xs)" "ordered s xs"
      using Cons.prems by (auto simp: sacks_def counts_ok_def ordered_Cons)
    then obtain s1 where s1: "picoquic_sack_delete_item ?s a = Some s1" "represents (ack_tree s1) xs"
      "counts_ok s1 xs" "items s1 = items s" "ack_horizon s1 = end_of_sack_range (items s a) + 1"
      "horizon_delay s1 = horizon_delay s" using delete_item_sacks [of ?s "[]" a xs] by auto
    moreover have "ordered s1 xs" using \<open>ordered s xs\<close> s1(4) by (simp add: ordered_def)
    ultimately have "sacks s1 xs" by (simp add: sacks_def)
    from Cons.IH [OF this] obtain s' us vs where r: "update_ack_horizon_loop now s1 (hd_ptr xs) = Some s'"
      "xs = us @ vs" "sacks s' vs" "items s' = items s1" "horizon_delay s' = horizon_delay s1"
      "xs \<noteq> [] \<longrightarrow> vs \<noteq> []"
      "ack_horizon s' = (if us = [] then ack_horizon s1 else end_of_sack_range (items s1 (List.last us)) + 1)"
      "\<forall>a\<in>set us. 4 \<le> sent s1 0 a \<and> horizon_delay s1 < sint (now - time_created (items s1 a))" by blast
    have "hd_ptr xs \<noteq> None" using True by (cases xs) auto
    then have "update_ack_horizon_loop now s (hd_ptr (a # xs)) = Some s'"
      using True next_item_sacks [of s "[]" a xs] Cons.prems r(1) s1(1)
      by (subst update_ack_horizon_loop.simps) (simp only: hd_ptr_simps option.case, simp)
    with r s1 True show ?thesis
      by (intro exI [of _ s'] exI [of _ "a # us"] exI [of _ vs]) (simp add: s1)
  qed
qed

section \<open>Recording a range\<close>

text \<open>
  Everything before the horizon update: whatever case applies, the result is a well-formed list
  that covers exactly the old numbers and the new ones.
\<close>

lemma below_split:
  assumes "sacks s xs"
  obtains us vs where "xs = us @ vs" "\<forall>a\<in>set us. lo s a \<le> n" "\<forall>a\<in>set vs. n < lo s a"
  using that [of "takeWhile (\<lambda>a. lo s a \<le> n) xs" "dropWhile (\<lambda>a. lo s a \<le> n) xs"]
    ordered_lo_split [of s xs n] assms by (auto simp: sacks_def dest: set_takeWhileD)

lemma first_item_sacks: "sacks s xs \<Longrightarrow> picoquic_sack_first_item s = Some (hd_ptr xs)"
  by (auto simp: sacks_def picoquic_sack_first_item_def intro: splay_store.first_law)

text \<open>The new range touches no range below it.\<close>

lemma update_ranges_gap:
  assumes s: "sacks s (us @ vs)" and n: "a \<notin> set (us @ vs)" and b: "unat mn \<le> unat mx" "unat mx < 2 ^ 62"
    and us: "\<forall>x\<in>set us. hi s x + 1 < unat mn" and vs: "\<forall>x\<in>set vs. unat mn < lo s x"
  shows "\<exists>s' xs'. update_ranges s (Some a) mn mx now = Some (0, s') \<and> sacks s' xs' \<and>
           covered s' xs' = covered s (us @ vs) \<union> {unat mn..unat mx} \<and> set xs' \<subseteq> insert a (set (us @ vs)) \<and>
           ack_horizon s' = ack_horizon s \<and> horizon_delay s' = horizon_delay s"
proof -
  have o: "ordered s (us @ vs)" and r: "represents (ack_tree s) (us @ vs)" and c: "counts_ok s (us @ vs)"
    using s by (auto simp: sacks_def)
  have usl: "lo s x \<le> unat mn" if "x \<in> set us" for x
  proof -
    have "hi s x + 1 < unat mn" "lo s x \<le> hi s x" using that us o by (auto simp: ordered_def)
    then show ?thesis by simp
  qed
  have tw: "takeWhile (\<lambda>x. lo s x \<le> unat mn) (us @ vs) = us"
    using usl vs by (cases vs) (auto simp: takeWhile_append2)
  have f: "picoquic_sack_find_range_below_number s mn = Some (last_ptr us)"
    using find_range_below [OF r o, of mn] b tw by simp
  have nx: "(case last_ptr us of None \<Rightarrow> picoquic_sack_first_item s | Some p \<Rightarrow> picoquic_sack_next_item s p) = Some (hd_ptr vs)"
  proof (cases us rule: rev_cases)
    case Nil
    with first_item_sacks [OF s] show ?thesis by simp
  next
    case (snoc ws p)
    with next_item_sacks [of s ws p vs] s show ?thesis by simp
  qed
  have g: "last_ptr us = None \<or> end_of_sack_range (items s (the (last_ptr us))) + 1 < mn"
  proof (cases us rule: rev_cases)
    case (snoc ws p)
    moreover have "hi s p < 2 ^ 62" "hi s p + 1 < unat mn" using snoc us o by (auto simp: ordered_def)
    ultimately show ?thesis by (simp add: u64_small)
  qed simp
  show ?thesis
  proof (cases "\<forall>x\<in>set vs. unat mx + 1 < lo s x")
    case True
    have "hd_ptr vs = None \<or> mx < start_of_sack_range (items s (the (hd_ptr vs))) - 1"
      using True by (cases vs) (auto simp: word_less_nat_alt unat_minus_1)
    moreover obtain s' where "picoquic_sack_insert_item s (Some a) mn mx now = Some (0, s')" "sacks s' (us @ a # vs)"
      "covered s' (us @ a # vs) = covered s (us @ vs) \<union> {unat mn..unat mx}"
      "ack_horizon s' = ack_horizon s" "horizon_delay s' = horizon_delay s"
      using insert_item_sacks [OF r o c n b us True] by blast
    ultimately show ?thesis using f g nx
      by (intro exI [of _ s'] exI [of _ "us @ a # vs"])
        (auto simp: update_ranges_def update_sack_loop.simps [of _ _ _ None])
  next
    case False
    then obtain p ws where v: "vs = p # ws" by (cases vs) auto
    have p: "lo s p \<le> unat mx + 1"
    proof (rule ccontr)
      assume "\<not> ?thesis"
      with False o v show False by (auto simp: ordered_append ordered_Cons dest!: bspec)
    qed
    define s1 where "s1 = upd_item p (\<lambda>it. it\<lparr>time_created := now\<rparr>)
      (picoquic_sack_item_record_reset (upd_item p (\<lambda>it. it\<lparr>start_of_sack_range := mn\<rparr>) s) p)"
    have d: "p \<notin> set (us @ ws)" using sacks_distinct [OF s] v by auto
    have same: "lo s1 x = lo s x \<and> hi s1 x = hi s x" if "x \<in> set (us @ ws)" for x
      using that d by (auto simp: s1_def)
    have new: "lo s1 p = unat mn" "hi s1 p = hi s p" by (simp_all add: s1_def)
    have pp: "unat mn < lo s p" "lo s p \<le> hi s p" "hi s p < 2 ^ 62" "\<forall>b\<in>set ws. hi s p + 1 < lo s b"
      using o v vs by (auto simp: ordered_append ordered_Cons)
    have side: "lo s1 p \<le> hi s1 p" "hi s1 p < 2 ^ 62" "\<forall>x\<in>set us. hi s x + 1 < lo s1 p"
        "\<forall>b\<in>set ws. hi s1 p + 1 < lo s b" using pp us unfolding new by auto
    have "counts_ok s1 (us @ p # ws)" unfolding s1_def by (rule counts_ok_change) (use s v in simp_all)
    moreover have "represents (ack_tree s1) (us @ p # ws)" using r v by (simp add: s1_def)
    ultimately have s1: "sacks s1 (us @ p # ws)"
      using sacks_resized [OF s [unfolded v] _ _ same side] by blast
    have cov: "covered s1 (us @ p # ws) = covered s us \<union> {lo s1 p..hi s1 p} \<union> covered s ws"
      by (rule resized(2) [OF o [unfolded v] same side])
    from update_sack_loop_sacks [OF s1 b(2), of now 0] obtain s' vs' where l:
      "update_sack_loop mx now s1 (Some p) 0 = Some (0, s')" "sacks s' (us @ p # vs')" "set vs' \<subseteq> set ws"
      "covered s' (us @ p # vs') = covered s1 (us @ p # ws) \<union> {hi s1 p..unat mx}"
      "ack_horizon s' = ack_horizon s1" "horizon_delay s' = horizon_delay s1" by auto
    have "{unat mn..hi s p} \<union> {hi s p..unat mx} = {lo s p..hi s p} \<union> {unat mn..unat mx}"
      using pp p by (intro extend_intervals) simp_all
    then have "covered s' (us @ p # vs') = covered s (us @ vs) \<union> {unat mn..unat mx}"
      unfolding l(4) unfolding cov new v unfolding covered_simps by (rule extend_union)
    moreover have "\<not> mx < start_of_sack_range (items s p) - 1"
      using p pp by (simp add: word_less_nat_alt unat_minus_1)
    then have "update_ranges s (Some a) mn mx now = Some (0, s')"
      using f g nx l(1) v by (simp add: update_ranges_def Let_def s1_def)
    moreover have "set (us @ p # vs') \<subseteq> insert a (set (us @ vs))" using l(3) v by auto
    moreover have "ack_horizon s' = ack_horizon s" "horizon_delay s' = horizon_delay s"
      using l by (simp_all add: s1_def)
    ultimately show ?thesis using l(2) by blast
  qed
qed

text \<open>The new range starts inside a range of the list or right above it.\<close>

lemma update_ranges_touch:
  assumes s: "sacks s (us @ p # vs)" and b: "unat mn \<le> unat mx" "unat mx < 2 ^ 62"
    and p: "lo s p \<le> unat mn" "unat mn \<le> hi s p + 1" and vs: "\<forall>x\<in>set vs. unat mn < lo s x"
  shows "\<exists>s' vs'. update_ranges s new mn mx now = Some (if hi s p < unat mx then 0 else 1, s') \<and>
           sacks s' (us @ p # vs') \<and>
           covered s' (us @ p # vs') = covered s (us @ p # vs) \<union> {unat mn..unat mx} \<and> set vs' \<subseteq> set vs \<and>
           ack_horizon s' = ack_horizon s \<and> horizon_delay s' = horizon_delay s"
proof -
  have o: "ordered s (us @ p # vs)" and r: "represents (ack_tree s) (us @ p # vs)"
    using s by (auto simp: sacks_def)
  have pp: "lo s p \<le> hi s p" "hi s p < 2 ^ 62" using o by (auto simp: ordered_def)
  have usl: "lo s x \<le> unat mn" if "x \<in> set us" for x
  proof -
    have "hi s x + 1 < lo s p" using that o by (simp add: ordered_append)
    moreover have "lo s x \<le> hi s x" using that o by (simp add: ordered_def)
    ultimately show ?thesis using p by simp
  qed
  have tw: "takeWhile (\<lambda>x. lo s x \<le> unat mn) (us @ p # vs) = us @ [p]"
    using usl vs p by (cases vs) (auto simp: takeWhile_append2)
  have f: "picoquic_sack_find_range_below_number s mn = Some (Some p)"
    using find_range_below [OF r o, of mn] b tw by simp
  have g: "\<not> end_of_sack_range (items s p) + 1 < mn" using p pp by (simp add: u64_small)
  from update_sack_loop_sacks [OF s b(2), of now 1] obtain s' vs' where l:
    "update_sack_loop mx now s (Some p) 1 = Some (if hi s p < unat mx then 0 else 1, s')"
    "sacks s' (us @ p # vs')" "set vs' \<subseteq> set vs"
    "covered s' (us @ p # vs') = covered s (us @ p # vs) \<union> {hi s p..unat mx}"
    "ack_horizon s' = ack_horizon s" "horizon_delay s' = horizon_delay s" by blast
  have e: "update_ranges s new mn mx now = Some (if hi s p < unat mx then 0 else 1, s')"
    using f g l(1) by (simp add: update_ranges_def)
  have "{lo s p..hi s p} \<union> {hi s p..unat mx} = {lo s p..hi s p} \<union> {unat mn..unat mx}"
    using p pp(1) b(1) by (intro touch_intervals) simp_all
  then have "covered s' (us @ p # vs') = covered s (us @ p # vs) \<union> {unat mn..unat mx}"
    unfolding l(4) unfolding covered_simps by (rule touch_union)
  with e l show ?thesis by blast
qed

text \<open>All cases together.\<close>

lemma update_ranges_sacks:
  assumes s: "sacks s xs" and n: "a \<notin> set xs" and b: "unat mn \<le> unat mx" "unat mx < 2 ^ 62"
  shows "\<exists>ret s' xs'. update_ranges s (Some a) mn mx now = Some (ret, s') \<and> sacks s' xs' \<and>
           covered s' xs' = covered s xs \<union> {unat mn..unat mx} \<and>
           ret = (if {unat mn..unat mx} \<subseteq> covered s xs then 1 else 0) \<and> set xs' \<subseteq> insert a (set xs) \<and>
           ack_horizon s' = ack_horizon s \<and> horizon_delay s' = horizon_delay s"
proof -
  obtain us vs where xs: "xs = us @ vs" and us: "\<forall>x\<in>set us. lo s x \<le> unat mn" and vs: "\<forall>x\<in>set vs. unat mn < lo s x"
    by (rule below_split [OF s, of "unat mn"])
  have o: "ordered s (us @ vs)" using s xs by (simp add: sacks_def)
  consider "\<forall>x\<in>set us. hi s x + 1 < unat mn" | ws p where "us = ws @ [p]" "unat mn \<le> hi s p + 1"
  proof (cases us rule: rev_cases)
    case (snoc ws p)
    have lower: "\<forall>x\<in>set ws. hi s x + 1 < lo s p" using o snoc by (simp add: ordered_append)
    show ?thesis
    proof (cases "unat mn \<le> hi s p + 1")
      case False
      then have "\<forall>x\<in>set us. hi s x + 1 < unat mn"
        using lower snoc us by fastforce
      then show ?thesis by (rule that)
    qed (use snoc that(2) in blast)
  qed (use that(1) in simp)
  then show ?thesis
  proof cases
    case 1
    have "unat mn \<notin> covered s xs" using 1 vs unfolding xs covered_def by fastforce
    then have "\<not> {unat mn..unat mx} \<subseteq> covered s xs" using b by auto
    moreover obtain s' xs' where "update_ranges s (Some a) mn mx now = Some (0, s')" "sacks s' xs'"
      "covered s' xs' = covered s xs \<union> {unat mn..unat mx}" "set xs' \<subseteq> insert a (set xs)"
      "ack_horizon s' = ack_horizon s" "horizon_delay s' = horizon_delay s"
      using update_ranges_gap [OF s [unfolded xs] n [unfolded xs] b 1 vs, of now] xs by blast
    ultimately show ?thesis by (intro exI [of _ 0] exI [of _ s'] exI [of _ xs']) simp
  next
    case 2
    then have xs': "xs = ws @ p # vs" using xs by simp
    have lp: "lo s p \<le> unat mn" using us 2 by simp
    obtain s' vs' where r: "update_ranges s (Some a) mn mx now = Some (if hi s p < unat mx then 0 else 1, s')"
      "sacks s' (ws @ p # vs')" "covered s' (ws @ p # vs') = covered s xs \<union> {unat mn..unat mx}" "set vs' \<subseteq> set vs"
      "ack_horizon s' = ack_horizon s" "horizon_delay s' = horizon_delay s"
      using update_ranges_touch [OF s [unfolded xs'] b lp 2(2) vs, of "Some a" now] xs' by blast
    have "{unat mn..unat mx} \<subseteq> covered s xs \<longleftrightarrow> \<not> hi s p < unat mx"
    proof
      assume "\<not> hi s p < unat mx"
      with lp have "{unat mn..unat mx} \<subseteq> {lo s p..hi s p}" by auto
      then show "{unat mn..unat mx} \<subseteq> covered s xs" unfolding xs' covered_simps by blast
    next
      assume c: "{unat mn..unat mx} \<subseteq> covered s xs"
      show "\<not> hi s p < unat mx"
      proof
        assume "hi s p < unat mx"
        with 2(2) c have "hi s p + 1 \<in> covered s xs" by auto
        moreover have "\<forall>x\<in>set ws. hi s x + 1 < lo s p" "lo s p \<le> hi s p" "\<forall>x\<in>set vs. hi s p + 1 < lo s x"
          using o xs xs' by (auto simp: ordered_append ordered_Cons)
        ultimately show False unfolding xs' covered_def by fastforce
      qed
    qed
    moreover have "set (ws @ p # vs') \<subseteq> insert a (set xs)" using r(4) xs' by auto
    ultimately show ?thesis using r by (intro exI [of _ "if hi s p < unat mx then 0 else 1"] exI [of _ s'] exI [of _ "ws @ p # vs'"]) simp
  qed
qed

end
