(* ===== verification/SackProps.thy ===== *)
theory SackProps
  imports SackUpdate
begin

text \<open>
  The correctness of the acknowledgement lists: what recording, checking and forgetting a range
  does to the set of received numbers, the counters that choose the ranges of an ACK frame, and
  the detection of duplicate packets.
\<close>

section \<open>Membership\<close>

lemma covered_below:
  assumes "sacks s (us @ vs)" "\<forall>a\<in>set us. lo s a \<le> n" "\<forall>a\<in>set vs. n < lo s a"
  shows "n \<in> covered s (us @ vs) \<longleftrightarrow> (case last_ptr us of None \<Rightarrow> False | Some p \<Rightarrow> n \<le> hi s p)"
proof (cases us rule: rev_cases)
  case Nil
  with assms(3) show ?thesis by (fastforce simp: covered_def)
next
  case (snoc ws p)
  have "\<forall>x\<in>set ws. hi s x < lo s p" using assms(1) snoc by (fastforce simp: sacks_def ordered_append)
  moreover have "lo s p \<le> n" using snoc assms(2) by simp
  ultimately have "\<forall>x\<in>set ws. hi s x < n" by fastforce
  then show ?thesis using snoc assms(3) \<open>lo s p \<le> n\<close> by (fastforce simp: covered_def)
qed

lemma find_below_split:
  assumes "sacks s (us @ vs)" "unat n < 2 ^ 62" "\<forall>a\<in>set us. lo s a \<le> unat n" "\<forall>a\<in>set vs. unat n < lo s a"
  shows "picoquic_sack_find_range_below_number s n = Some (last_ptr us)"
proof -
  have "takeWhile (\<lambda>a. lo s a \<le> unat n) (us @ vs) = us"
    using assms(3,4) by (cases vs) (auto simp: takeWhile_append2)
  with find_range_below [of s "us @ vs" n] assms(1,2) show ?thesis by (simp add: sacks_def)
qed

lemma interval_covered:
  assumes s: "sacks s (us @ vs)" and us: "\<forall>a\<in>set us. lo s a \<le> m" and vs: "\<forall>a\<in>set vs. m < lo s a"
    and b: "m \<le> x"
  shows "{m..x} \<subseteq> covered s (us @ vs) \<longleftrightarrow> (case last_ptr us of None \<Rightarrow> False | Some p \<Rightarrow> x \<le> hi s p)"
proof (cases us rule: rev_cases)
  case Nil
  have "m \<notin> covered s (us @ vs)" using covered_below [OF s us vs] Nil by simp
  with Nil b show ?thesis by auto
next
  case (snoc ws p)
  have o: "ordered s (ws @ p # vs)" using s snoc by (simp add: sacks_def)
  show ?thesis
  proof (cases "x \<le> hi s p")
    case True
    with us snoc have "{m..x} \<subseteq> {lo s p..hi s p}" by auto
    with True snoc show ?thesis by auto
  next
    case False
    have "{m..x} \<subseteq> covered s (us @ vs) \<Longrightarrow> False"
    proof -
      assume c: "{m..x} \<subseteq> covered s (us @ vs)"
      with b have "m \<in> covered s (us @ vs)" by auto
      then have "m \<le> hi s p" using covered_below [OF s us vs] snoc by simp
      with False have "hi s p + 1 \<in> {m..x}" by simp
      with c have "hi s p + 1 \<in> covered s (us @ vs)" by (rule subsetD)
      moreover have "\<forall>y\<in>set ws. hi s y + 1 < lo s p" "lo s p \<le> hi s p" "\<forall>y\<in>set vs. hi s p + 1 < lo s y"
        using o by (simp_all add: ordered_append ordered_Cons)
      ultimately show False unfolding snoc covered_def by fastforce
    qed
    with False snoc show ?thesis by auto
  qed
qed

lemma check_sack_list_sacks:
  assumes "sacks s xs" "unat mn \<le> unat mx" "unat mx < 2 ^ 62"
  shows "picoquic_check_sack_list s mn mx = Some (if {unat mn..unat mx} \<subseteq> covered s xs then -1 else 0)"
proof -
  obtain us vs where xs: "xs = us @ vs" "\<forall>a\<in>set us. lo s a \<le> unat mn" "\<forall>a\<in>set vs. unat mn < lo s a"
    by (rule below_split [OF assms(1)])
  have f: "picoquic_sack_find_range_below_number s mn = Some (last_ptr us)"
    by (rule find_below_split) (use assms xs in auto)
  have "{unat mn..unat mx} \<subseteq> covered s xs \<longleftrightarrow> (case last_ptr us of None \<Rightarrow> False | Some p \<Rightarrow> unat mx \<le> hi s p)"
    unfolding xs(1) by (rule interval_covered) (use assms xs in auto)
  with f show ?thesis by (cases "last_ptr us") (simp_all add: picoquic_check_sack_list_def word_le_nat_alt)
qed

section \<open>The numbers that count as received\<close>

text \<open>With a horizon, everything below it counts as received.\<close>

definition received :: "sack_list \<Rightarrow> nat list \<Rightarrow> nat set" where
  "received s xs = covered s xs \<union> (if horizon_delay s > 0 then {..<unat (ack_horizon s)} else {})"

lemma is_pn_already_received_sacks:
  assumes "sacks (get_sacks cnx (picoquic_sack_list_from_cnx_context cnx pc l_cid)) xs" "unat pn < 2 ^ 62"
  shows "picoquic_is_pn_already_received cnx pc l_cid pn =
           Some (unat pn \<in> received (get_sacks cnx (picoquic_sack_list_from_cnx_context cnx pc l_cid)) xs)"
proof -
  define s where "s = get_sacks cnx (picoquic_sack_list_from_cnx_context cnx pc l_cid)"
  have s: "sacks s xs" using assms(1) by (simp add: s_def)
  obtain us vs where xs: "xs = us @ vs" "\<forall>a\<in>set us. lo s a \<le> unat pn" "\<forall>a\<in>set vs. unat pn < lo s a"
    by (rule below_split [OF s])
  have f: "picoquic_sack_find_range_below_number s pn = Some (last_ptr us)"
    by (rule find_below_split) (use s assms xs in auto)
  have c: "unat pn \<in> covered s xs \<longleftrightarrow> (case last_ptr us of None \<Rightarrow> False | Some p \<Rightarrow> unat pn \<le> hi s p)"
    unfolding xs(1) by (rule covered_below) (use s xs in auto)
  show ?thesis
    unfolding picoquic_is_pn_already_received_def s_def [symmetric] Let_def using f c
    by (cases "last_ptr us") (auto simp: received_def word_less_nat_alt word_le_nat_alt)
qed

lemma update_ack_horizon_sacks:
  assumes s: "sacks s xs" and h: "horizon_delay s > 0"
  shows "\<exists>s' us vs. picoquic_update_ack_horizon s now = Some s' \<and> xs = us @ vs \<and> sacks s' vs \<and>
           items s' = items s \<and> horizon_delay s' = horizon_delay s \<and> (xs \<noteq> [] \<longrightarrow> vs \<noteq> []) \<and>
           covered s xs \<subseteq> received s' vs \<and> covered s' vs \<subseteq> covered s xs"
proof -
  obtain s' us vs where u: "update_ack_horizon_loop now s (hd_ptr xs) = Some s'" "xs = us @ vs"
      "sacks s' vs" "items s' = items s" "horizon_delay s' = horizon_delay s" "xs \<noteq> [] \<longrightarrow> vs \<noteq> []"
      "ack_horizon s' = (if us = [] then ack_horizon s else end_of_sack_range (items s (List.last us)) + 1)"
    using update_ack_horizon_loop_sacks [OF s, of now] by blast
  have e: "picoquic_update_ack_horizon s now = Some s'"
    using u(1) first_item_sacks [OF s] by (simp add: picoquic_update_ack_horizon_def)
  have cov: "covered s' zs = covered s zs" for zs using u(4) by (simp add: covered_def)
  have "covered s us \<subseteq> {..<unat (ack_horizon s')}"
  proof (cases us rule: rev_cases)
    case (snoc ws p)
    have o: "ordered s (ws @ p # vs)" using s u(2) snoc by (simp add: sacks_def)
    then have "unat (ack_horizon s') = hi s p + 1"
      using u(7) snoc by (simp add: unat_plus_1 ordered_append ordered_Cons)
    moreover have "\<forall>y\<in>set ws. hi s y + 1 < lo s p" "lo s p \<le> hi s p"
      using o by (simp_all add: ordered_append ordered_Cons)
    ultimately show ?thesis unfolding snoc covered_def by fastforce
  qed simp
  then have "covered s xs \<subseteq> received s' vs"
    using u(5) h by (auto simp: received_def cov u(2))
  moreover have "covered s' vs \<subseteq> covered s xs" by (simp add: cov u(2))
  ultimately show ?thesis using e u by blast
qed

section \<open>Properties\<close>

text \<open>
  A concrete list for the witnesses: the ranges 3..5 (at address 1, sent twice) and 9..9 (at
  address 2, never sent).
\<close>

definition example_sacks :: sack_list where
  "example_sacks =
     \<lparr>ack_tree =
        \<lparr>root = Some 1,
         mem = (\<lambda>_. \<lparr>parent = None, left = None, right = None\<rparr>)
           (1 := \<lparr>parent = None, left = None, right = Some 2\<rparr>,
            2 := \<lparr>parent = Some 1, left = None, right = None\<rparr>),
         tree_size = 2\<rparr>,
      items = (\<lambda>_. \<lparr>start_of_sack_range = 9, end_of_sack_range = 9, time_created = 70, nb_times_sent = (\<lambda>_. 0)\<rparr>)
        (1 := \<lparr>start_of_sack_range = 3, end_of_sack_range = 5, time_created = 50, nb_times_sent = (\<lambda>_. 2)\<rparr>),
      ack_horizon = 0, horizon_delay = 0,
      range_counts = (\<lambda>_ i. if i = 0 \<or> i = 2 then 1 else 0)\<rparr>"

lemma example_sacks_ok: "sacks example_sacks [1, 2]"
proof -
  have "represents (ack_tree example_sacks) [1, 2]"
    unfolding represents_def example_sacks_def
    by (rule exI [of _ "Node Leaf 1 (Node Leaf 2 Leaf)"]) simp
  moreover have "ordered example_sacks [1, 2]" by (simp add: ordered_def example_sacks_def)
  moreover have "counts_ok example_sacks [1, 2]" by (simp add: counts_ok_def example_sacks_def)
  ultimately show ?thesis by (simp add: sacks_def)
qed

lemma covered_example: "covered example_sacks [1, 2] = {3, 4, 5, 9}"
  by (auto simp: example_sacks_def)

text \<open>
  C20: recording a range in a well-formed list returns, keeps the ranges sorted, disjoint, not
  adjacent and the counters exact, adds exactly the numbers of the range, and reports a duplicate
  exactly when all of them were there. The allocator gives an unused address; no horizon is set.
\<close>

theorem picoquic_update_sack_list_correct:
  assumes "sacks s xs" "a \<notin> set xs" "unat mn \<le> unat mx" "unat mx < 2 ^ 62" "horizon_delay s \<le> 0"
  shows "\<exists>ret s' xs'. picoquic_update_sack_list s (Some a) mn mx now = Some (ret, s') \<and> sacks s' xs' \<and>
           covered s' xs' = covered s xs \<union> {unat mn..unat mx} \<and>
           ret = (if {unat mn..unat mx} \<subseteq> covered s xs then 1 else 0)"
proof -
  obtain ret s' xs' where "update_ranges s (Some a) mn mx now = Some (ret, s')" "sacks s' xs'"
    "covered s' xs' = covered s xs \<union> {unat mn..unat mx}"
    "ret = (if {unat mn..unat mx} \<subseteq> covered s xs then 1 else 0)" "horizon_delay s' = horizon_delay s"
    using update_ranges_sacks [OF assms(1-4), of now] by blast
  with assms(5) show ?thesis by (auto simp: picoquic_update_sack_list_def)
qed

theorem picoquic_update_sack_list_correct_witness:
  "\<exists>ret s' xs'. picoquic_update_sack_list example_sacks (Some 7) 5 8 100 = Some (ret, s') \<and>
     sacks s' xs' \<and> covered s' xs' = {3, 4, 5, 9} \<union> {5..8} \<and> ret = 0"
proof -
  have "(6::nat) \<in> {5..8}" "(6::nat) \<notin> {3, 4, 5, 9}" by simp_all
  then have n: "({5..8} \<subseteq> {3, 4, 5, 9::nat}) = False" by blast
  have u: "unat (5::u64) = 5" "unat (8::u64) = 8" by simp_all
  have h: "(7::nat) \<notin> set [1, 2]" "(5::nat) \<le> 8" "(8::nat) < 2 ^ 62" "horizon_delay example_sacks \<le> 0"
    by (simp_all add: example_sacks_def)
  from picoquic_update_sack_list_correct [of example_sacks "[1, 2]" 7 5 8 100,
      unfolded u covered_example n if_False, OF example_sacks_ok h] show ?thesis by blast
qed

text \<open>
  Also: with a horizon, recording a range returns, keeps the list well formed and not empty, and
  loses nothing: a number that was covered, or is new, is covered or lies below the horizon.
\<close>

theorem picoquic_update_sack_list_horizon:
  assumes "sacks s xs" "a \<notin> set xs" "unat mn \<le> unat mx" "unat mx < 2 ^ 62" "horizon_delay s > 0"
  shows "\<exists>ret s' xs'. picoquic_update_sack_list s (Some a) mn mx now = Some (ret, s') \<and> sacks s' xs' \<and>
           xs' \<noteq> [] \<and> covered s xs \<union> {unat mn..unat mx} \<subseteq> received s' xs' \<and>
           covered s' xs' \<subseteq> covered s xs \<union> {unat mn..unat mx} \<and>
           ret = (if {unat mn..unat mx} \<subseteq> covered s xs then 1 else 0)"
proof -
  obtain ret s1 ys where u: "update_ranges s (Some a) mn mx now = Some (ret, s1)" "sacks s1 ys"
    "covered s1 ys = covered s xs \<union> {unat mn..unat mx}"
    "ret = (if {unat mn..unat mx} \<subseteq> covered s xs then 1 else 0)" "horizon_delay s1 = horizon_delay s"
    using update_ranges_sacks [OF assms(1-4), of now] by blast
  obtain s' us vs where h: "picoquic_update_ack_horizon s1 now = Some s'" "ys = us @ vs" "sacks s' vs"
      "ys \<noteq> [] \<longrightarrow> vs \<noteq> []" "covered s1 ys \<subseteq> received s' vs" "covered s' vs \<subseteq> covered s1 ys"
    using update_ack_horizon_sacks [OF u(2) assms(5) [folded u(5)], of now] by blast
  have "unat mn \<in> covered s1 ys" using u(3) assms(3) by auto
  then have "ys \<noteq> []" by auto
  moreover have "picoquic_update_sack_list s (Some a) mn mx now = Some (ret, s')"
    using u(1,5) h(1) assms(5) by (simp add: picoquic_update_sack_list_def)
  ultimately show ?thesis using h u(3,4) by blast
qed

lemma sacks_horizon_delay: "sacks (s\<lparr>horizon_delay := d\<rparr>) xs = sacks s xs"
  by (simp add: sacks_def ordered_def counts_ok_def)

theorem picoquic_update_sack_list_horizon_witness:
  "\<exists>ret s' xs'. picoquic_update_sack_list (example_sacks\<lparr>horizon_delay := 10\<rparr>) (Some 7) 5 8 100 = Some (ret, s') \<and>
     sacks s' xs' \<and> {5..8} \<subseteq> received s' xs'"
  using picoquic_update_sack_list_horizon [of "example_sacks\<lparr>horizon_delay := 10\<rparr>" "[1, 2]" 7 5 8 100]
    example_sacks_ok by (auto simp: sacks_horizon_delay)

text \<open>
  Also: checking a range answers -1 exactly when every number of it is covered already, and 0
  when it fills a hole.
\<close>

theorem picoquic_check_sack_list_correct:
  assumes "sacks s xs" "unat mn \<le> unat mx" "unat mx < 2 ^ 62"
  shows "picoquic_check_sack_list s mn mx = Some (if {unat mn..unat mx} \<subseteq> covered s xs then -1 else 0)"
  using assms by (rule check_sack_list_sacks)

theorem picoquic_check_sack_list_correct_witness:
  "picoquic_check_sack_list example_sacks 4 5 = Some (-1)"
  using picoquic_check_sack_list_correct [OF example_sacks_ok, of 4 5, unfolded covered_example]
  by (simp add: atLeastAtMost_upt upt_rec)

text \<open>A receive state whose application context holds the example list.\<close>

definition example_receive :: receive_state where
  "example_receive =
     (let track = \<lparr>highest_ack_sent = 0, highest_ack_sent_time = 0, time_oldest_unack_packet_received = 0,
                   ack_needed = False, ack_after_fin = False, out_of_order_received = False\<rparr>;
          c = \<lparr>ctx_sack_list = example_sacks, time_stamp_largest_received = 0, act = (\<lambda>_. track)\<rparr>
      in \<lparr>ack_ctx = (\<lambda>_. c), cid_ack_ctx = (\<lambda>_. c), path0_cid = 0, is_multipath_enabled = False\<rparr>)"

lemma get_put_sacks [simp]: "get_sacks (put_sacks cnx r s) r = s"
  by (cases r) simp_all

lemma put_sacks_context [simp]:
  "picoquic_sack_list_from_cnx_context (put_sacks cnx r s) = picoquic_sack_list_from_cnx_context cnx"
  by (cases r) (simp_all add: picoquic_sack_list_from_cnx_context_def fun_eq_iff split: option.split)

lemma upd_ctx_context [simp]:
  "picoquic_sack_list_from_cnx_context (upd_ctx pc f cnx) = picoquic_sack_list_from_cnx_context cnx"
  by (simp add: picoquic_sack_list_from_cnx_context_def upd_ctx_def fun_eq_iff split: option.split)

lemma upd_ctx_sacks:
  "(\<And>c. ctx_sack_list (f c) = ctx_sack_list c) \<Longrightarrow> get_sacks (upd_ctx pc f cnx) r = get_sacks cnx r"
  by (cases r) (simp_all add: upd_ctx_def)

lemma mark_out_of_order_sacks [simp]: "ctx_sack_list (mark_out_of_order i c) = ctx_sack_list c"
  by (simp add: mark_out_of_order_def)

lemma list_last_sacks:
  "sacks s xs \<Longrightarrow> picoquic_sack_list_last s = Some (if xs = [] then 0 else end_of_sack_range (items s (List.last xs)))"
  by (cases xs rule: rev_cases)
    (auto simp: sacks_def picoquic_sack_list_last_def picoquic_sack_last_item_def dest: splay_store.last_law)

lemma update_sack_list_received:
  assumes "sacks s xs" "a \<notin> set xs" "unat mn \<le> unat mx" "unat mx < 2 ^ 62"
  shows "\<exists>ret s' xs'. picoquic_update_sack_list s (Some a) mn mx now = Some (ret, s') \<and> sacks s' xs' \<and>
           covered s xs \<union> {unat mn..unat mx} \<subseteq> received s' xs' \<and>
           ret = (if {unat mn..unat mx} \<subseteq> covered s xs then 1 else 0)"
proof -
  obtain ret s1 ys where u: "update_ranges s (Some a) mn mx now = Some (ret, s1)" "sacks s1 ys"
    "covered s1 ys = covered s xs \<union> {unat mn..unat mx}"
    "ret = (if {unat mn..unat mx} \<subseteq> covered s xs then 1 else 0)"
    using update_ranges_sacks [OF assms, of now] by blast
  show ?thesis
  proof (cases "horizon_delay s1 > 0")
    case True
    from update_ack_horizon_sacks [OF u(2) this, of now] obtain s' vs where
      "picoquic_update_ack_horizon s1 now = Some s'" "sacks s' vs" "covered s1 ys \<subseteq> received s' vs" by blast
    with u True show ?thesis by (auto simp: picoquic_update_sack_list_def)
  next
    case False
    with u show ?thesis by (auto simp: picoquic_update_sack_list_def received_def)
  qed
qed

text \<open>
  Also: once a packet number is recorded in a context, the duplicate test of the same context
  reports it as received, whatever the horizon; numbers covered before are still reported.
\<close>

theorem recorded_is_duplicate:
  assumes "sacks (get_sacks cnx (picoquic_sack_list_from_cnx_context cnx pc l_cid)) xs"
    "a \<notin> set xs" "unat pn < 2 ^ 62"
  shows "\<exists>ret cnx'. picoquic_record_pn_received cnx pc l_cid (Some a) pn now = Some (ret, cnx') \<and>
           (ret = 1 \<longleftrightarrow> unat pn \<in> covered (get_sacks cnx (picoquic_sack_list_from_cnx_context cnx pc l_cid)) xs) \<and>
           picoquic_is_pn_already_received cnx' pc l_cid pn = Some True \<and>
           (\<forall>q. unat q \<in> covered (get_sacks cnx (picoquic_sack_list_from_cnx_context cnx pc l_cid)) xs \<longrightarrow>
              picoquic_is_pn_already_received cnx' pc l_cid q = Some True)"
proof -
  define ref where "ref = picoquic_sack_list_from_cnx_context cnx pc l_cid"
  have s: "sacks (get_sacks cnx ref) xs" using assms(1) by (simp add: ref_def)
  obtain ret s' xs' where u: "picoquic_update_sack_list (get_sacks cnx ref) (Some a) pn pn now = Some (ret, s')"
    "sacks s' xs'" "covered (get_sacks cnx ref) xs \<union> {unat pn} \<subseteq> received s' xs'"
    "ret = (if unat pn \<in> covered (get_sacks cnx ref) xs then 1 else 0)"
    using update_sack_list_received [OF s assms(2) _ assms(3), of pn now] by auto
  have "\<exists>cnx1. picoquic_record_pn_received cnx pc l_cid (Some a) pn now = Some (ret, put_sacks cnx1 ref s') \<and>
          picoquic_sack_list_from_cnx_context cnx1 = picoquic_sack_list_from_cnx_context cnx"
    using u(1) list_last_sacks [OF s]
    by (auto simp: picoquic_record_pn_received_def ref_def [symmetric] Let_def upd_ctx_sacks)
  then obtain cnx1 where c: "picoquic_record_pn_received cnx pc l_cid (Some a) pn now = Some (ret, put_sacks cnx1 ref s')"
    "picoquic_sack_list_from_cnx_context cnx1 pc l_cid = ref" by (auto simp: ref_def)
  have dup: "picoquic_is_pn_already_received (put_sacks cnx1 ref s') pc l_cid q = Some True"
    if "unat q \<in> received s' xs'" "unat q < 2 ^ 62" for q
    using is_pn_already_received_sacks [of "put_sacks cnx1 ref s'" pc l_cid xs' q] u(2) c(2) that by simp
  have bound: "unat q < 2 ^ 62" if "unat q \<in> covered (get_sacks cnx ref) xs" for q :: u64
    using that s by (auto simp: covered_def sacks_def ordered_def)
  from c(1) u(3,4) dup assms(3) bound show ?thesis by (auto simp: ref_def [symmetric])
qed

theorem recorded_is_duplicate_witness:
  "\<exists>ret cnx'. picoquic_record_pn_received example_receive 0 None (Some 7) 12 100 = Some (ret, cnx') \<and>
     picoquic_is_pn_already_received cnx' 0 None 12 = Some True"
proof -
  have "get_sacks example_receive (picoquic_sack_list_from_cnx_context example_receive 0 None) = example_sacks"
    by (simp add: example_receive_def picoquic_sack_list_from_cnx_context_def Let_def)
  with recorded_is_duplicate [of example_receive 0 None "[1, 2]" 7 12 100] example_sacks_ok
  show ?thesis by auto
qed

text \<open>
  Also: the last packet number of a well-formed list is the largest one covered; for an empty list
  it is 0. It is never \<open>UINT64_MAX\<close>, the value that the comment above
  \<open>picoquic_sack_list_last\<close> promises for an empty list and two callers test for.
\<close>

theorem picoquic_sack_list_last_value:
  assumes "sacks s xs"
  shows "\<exists>n. picoquic_sack_list_last s = Some n \<and> n \<noteq> UINT64_MAX \<and>
           (if xs = [] then n = 0 else unat n \<in> covered s xs \<and> (\<forall>m\<in>covered s xs. m \<le> unat n))"
proof (cases xs rule: rev_cases)
  case Nil
  then show ?thesis using list_last_sacks [OF assms] by simp
next
  case (snoc ws p)
  have o: "ordered s (ws @ [p])" using assms snoc by (simp add: sacks_def)
  then have p: "lo s p \<le> hi s p" "hi s p < 2 ^ 62" by (simp_all add: ordered_append ordered_Cons)
  have "m \<le> hi s p" if m: "m \<in> covered s xs" for m
  proof -
    from m obtain x where x: "x \<in> set xs" "m \<le> hi s x" by (auto simp: covered_def)
    show ?thesis
    proof (cases "x = p")
      case False
      then have "hi s x + 1 < lo s p" using x snoc o by (auto simp: ordered_append)
      with x p show ?thesis by simp
    qed (use x in simp)
  qed
  moreover have "hi s p \<in> covered s xs" using p snoc by simp
  moreover have "end_of_sack_range (items s p) \<noteq> UINT64_MAX" using p(2) by auto
  ultimately show ?thesis using list_last_sacks [OF assms] snoc by (auto simp del: covered_simps)
qed

theorem picoquic_sack_list_last_value_witness:
  "\<exists>n. picoquic_sack_list_last example_sacks = Some n \<and> unat n \<in> {3, 4, 5, 9} \<and> 9 \<le> unat n"
  using picoquic_sack_list_last_value [OF example_sacks_ok, unfolded covered_example] by auto

section \<open>Acknowledged acknowledgements\<close>

lemma counts_ok_retire:
  assumes "counts_ok s (us @ p # vs)" "p \<notin> set (us @ vs)"
  defines "f \<equiv> \<lambda>r s. if sent s r p < 4 then set_times_sent p r 4 (uncount p r s) else s"
  shows "counts_ok (fold f [0, 1] s) (us @ p # vs)"
proof -
  have row: "row_ok (f r s) r (us @ p # vs)" if "row_ok s r (us @ p # vs)" for r s
    using row_ok_recount [OF that assms(2), of 4] that by (simp add: f_def)
  have other: "row_ok (f r s) r' (us @ p # vs) = row_ok s r' (us @ p # vs)" if "r' \<noteq> r" for r r' s
    using that by (simp add: f_def row_ok_other)
  show ?thesis using assms(1) row [of s 0] row [of "f 0 s" 1] other by (simp add: counts_ok_rows)
qed

lemma ack_of_ack_last:
  assumes s: "sacks s (us @ [p])" and m: "unat m \<le> hi s p" and l: "lo s p \<le> unat m"
  defines "s1 \<equiv> upd_item p (\<lambda>it. it\<lparr>start_of_sack_range := m\<rparr>) s"
  shows "sacks s1 (us @ [p])" "covered s1 (us @ [p]) = covered s us \<union> {unat m..hi s p}"
proof -
  have o: "ordered s (us @ p # [])" and r: "represents (ack_tree s) (us @ p # [])" and c: "counts_ok s (us @ p # [])"
    using s by (auto simp: sacks_def)
  have d: "p \<notin> set us" using sacks_distinct [OF s] by simp
  have same: "lo s1 x = lo s x \<and> hi s1 x = hi s x" if "x \<in> set (us @ [])" for x
    using that d by (auto simp: s1_def)
  have new: "lo s1 p = unat m" "hi s1 p = hi s p" by (simp_all add: s1_def)
  have us: "\<forall>x\<in>set us. hi s x + 1 < lo s p" "hi s p < 2 ^ 62" using o by (simp_all add: ordered_append ordered_Cons)
  have side: "lo s1 p \<le> hi s1 p" "hi s1 p < 2 ^ 62" "\<forall>x\<in>set us. hi s x + 1 < lo s1 p"
      "\<forall>b\<in>set []. hi s1 p + 1 < lo s b" using us m l unfolding new by fastforce+
  have "counts_ok s1 (us @ p # [])" using c by (simp add: s1_def counts_ok_upd)
  then have "sacks s1 (us @ p # [])"
    by (intro sacks_resized [OF s _ _ same side]) (use r in \<open>auto simp: s1_def\<close>)
  then show "sacks s1 (us @ [p])" .
  have "covered s1 (us @ p # []) = covered s us \<union> {lo s1 p..hi s1 p} \<union> covered s []"
    by (rule resized(2) [OF o same side])
  then show "covered s1 (us @ [p]) = covered s us \<union> {unat m..hi s p}" unfolding new by simp
qed

text \<open>
  Also: forgetting a range that the peer knows to be acknowledged returns and keeps the list well
  formed. Only numbers of that range disappear, none appears, and the largest number stays.
\<close>

theorem picoquic_process_ack_of_ack_range_correct:
  assumes s: "sacks s xs" and b: "unat mn \<le> unat mx" "unat mx < 2 ^ 62"
  shows "\<exists>q s' xs'. picoquic_process_ack_of_ack_range s mn mx = Some (q, s') \<and> sacks s' xs' \<and>
           covered s' xs' \<subseteq> covered s xs \<and> covered s xs - {unat mn..unat mx} \<subseteq> covered s' xs' \<and>
           (xs \<noteq> [] \<longrightarrow> xs' \<noteq> [] \<and> hi s' (List.last xs') = hi s (List.last xs))"
proof -
  obtain us vs where xs: "xs = us @ vs" "\<forall>a\<in>set us. lo s a \<le> unat mn" "\<forall>a\<in>set vs. unat mn < lo s a"
    by (rule below_split [OF s])
  have f: "picoquic_sack_find_range_below_number s mn = Some (last_ptr us)"
    by (rule find_below_split) (use s b xs in auto)
  have stay: ?thesis if "picoquic_process_ack_of_ack_range s mn mx = Some (last_ptr us, s)"
    using that s by blast
  show ?thesis
  proof (cases us rule: rev_cases)
    case Nil
    with f stay show ?thesis by (simp add: picoquic_process_ack_of_ack_range_def)
  next
    case (snoc ws p)
    have s': "sacks s (ws @ p # vs)" using s xs snoc by simp
    have o: "ordered s (ws @ p # vs)" using s' by (simp add: sacks_def)
    then have pp: "lo s p \<le> hi s p" "hi s p < 2 ^ 62" by (simp_all add: ordered_append ordered_Cons)
    note run = picoquic_process_ack_of_ack_range_def f snoc next_item_sacks [OF s']
    consider (miss) "start_of_sack_range (items s p) \<noteq> mn \<or> vs \<noteq> [] \<and> end_of_sack_range (items s p) \<noteq> mx"
      | (top_cut) "start_of_sack_range (items s p) = mn" "vs = []" "mx < end_of_sack_range (items s p)"
      | (top_all) "start_of_sack_range (items s p) = mn" "vs = []" "\<not> mx < end_of_sack_range (items s p)"
      | (horizon) "start_of_sack_range (items s p) = mn" "vs \<noteq> []" "end_of_sack_range (items s p) = mx" "horizon_delay s > 0"
      | (delete) "start_of_sack_range (items s p) = mn" "vs \<noteq> []" "end_of_sack_range (items s p) = mx" "\<not> horizon_delay s > 0"
      by blast
    then show ?thesis
    proof cases
      case miss
      then have "picoquic_process_ack_of_ack_range s mn mx = Some (last_ptr us, s)"
        by (cases vs) (auto simp: run)
      then show ?thesis by (rule stay)
    next
      case top_cut
      have s'': "sacks s (ws @ [p])" using s' top_cut by simp
      have m: "unat (mx + 1) = unat mx + 1" "unat mx < hi s p"
        using b top_cut by (simp_all add: unat_plus_1 word_less_nat_alt)
      have l: "lo s p \<le> unat (mx + 1)" "unat (mx + 1) \<le> hi s p" using m b top_cut by simp_all
      let ?s = "upd_item p (\<lambda>it. it\<lparr>start_of_sack_range := mx + 1\<rparr>) s"
      note k = ack_of_ack_last [OF s'' l(2,1)]
      have "picoquic_process_ack_of_ack_range s mn mx = Some (Some p, ?s)" using top_cut by (simp add: run)
      moreover have "covered s xs = covered s ws \<union> {unat mn..hi s p}" using top_cut xs snoc by auto
      ultimately show ?thesis using k m top_cut xs snoc b(1)
        by (intro exI [of _ "Some p"] exI [of _ ?s] exI [of _ "ws @ [p]"]) (auto simp del: covered_simps)
    next
      case top_all
      have s'': "sacks s (ws @ [p])" using s' top_all by simp
      have m: "hi s p \<le> unat mx" using top_all by (simp add: word_less_nat_alt)
      let ?s = "upd_item p (\<lambda>it. it\<lparr>start_of_sack_range := end_of_sack_range (items s p)\<rparr>) s"
      note k = ack_of_ack_last [OF s'' order_refl pp(1)]
      have "picoquic_process_ack_of_ack_range s mn mx = Some (Some p, ?s)" using top_all by (simp add: run upd_item_def)
      moreover have "covered s xs = covered s ws \<union> {unat mn..hi s p}" using top_all xs snoc by auto
      ultimately show ?thesis using k m top_all xs snoc pp(1)
        by (intro exI [of _ "Some p"] exI [of _ ?s] exI [of _ "ws @ [p]"]) (auto simp del: covered_simps)
    next
      case horizon
      let ?s = "fold (\<lambda>r s. if sent s r p < 4 then set_times_sent p r 4 (uncount p r s) else s) [0, 1] s"
      have d: "p \<notin> set (ws @ vs)" using sacks_distinct [OF s'] by auto
      have "picoquic_process_ack_of_ack_range s mn mx = Some (Some p, ?s)" using horizon by (cases vs) (simp_all add: run)
      moreover have "lo ?s x = lo s x" "hi ?s x = hi s x" for x by simp_all
      moreover from this have "ordered ?s xs" "covered ?s xs = covered s xs"
        using s by (auto simp: sacks_def cong: ordered_cong covered_cong)
      moreover have "represents (ack_tree ?s) xs" using s by (simp add: sacks_def)
      moreover have "counts_ok ?s xs" using counts_ok_retire [of s ws p vs] s' d xs snoc by (simp add: sacks_def)
      ultimately show ?thesis
        by (intro exI [of _ "Some p"] exI [of _ ?s] exI [of _ xs]) (simp add: sacks_def del: fold.simps fold_simps)
    next
      case delete
      obtain s1 where s1: "picoquic_sack_delete_item s p = Some s1" "represents (ack_tree s1) (ws @ vs)"
        "counts_ok s1 (ws @ vs)" "items s1 = items s"
        using delete_item_sacks [of s ws p vs] s' by (auto simp: sacks_def)
      have "ordered s1 (ws @ vs)" using o s1(4) by (simp add: ordered_append ordered_Cons) (simp add: ordered_def)
      moreover have "picoquic_process_ack_of_ack_range s mn mx = Some (Some p, s1)"
        using delete s1(1) by (cases vs) (simp_all add: run)
      moreover have "covered s1 (ws @ vs) = covered s ws \<union> covered s vs" using s1(4) by (simp add: covered_def)
      moreover have "covered s xs = covered s ws \<union> ({unat mn..unat mx} \<union> covered s vs)" using xs snoc delete by simp
      ultimately show ?thesis using s1 delete xs snoc
        by (intro exI [of _ "Some p"] exI [of _ s1] exI [of _ "ws @ vs"]) (auto simp: sacks_def simp del: covered_simps)
    qed
  qed
qed

theorem picoquic_process_ack_of_ack_range_correct_witness:
  "\<exists>q s' xs'. picoquic_process_ack_of_ack_range example_sacks 3 5 = Some (q, s') \<and> sacks s' xs' \<and>
     {3, 4, 5, 9} - {3..5} \<subseteq> covered s' xs'"
  using picoquic_process_ack_of_ack_range_correct [OF example_sacks_ok, of 3 5, unfolded covered_example] by auto

section \<open>Counters and the choice of ranges\<close>

text \<open>Items other than the first one of an ACK frame that were sent at most \<open>i\<close> times.\<close>

definition sent_at_most :: "sack_list \<Rightarrow> nat \<Rightarrow> ptr \<Rightarrow> nat list \<Rightarrow> int \<Rightarrow> int" where
  "sent_at_most s r first xs i = int (length (filter (\<lambda>a. Some a \<noteq> first \<and> sent s r a \<le> i) xs))"

lemma sent_at_most_step:
  "sent_at_most s r first xs i =
     sent_at_most s r first xs (i - 1) + int (length (filter (\<lambda>a. Some a \<noteq> first \<and> sent s r a = i) xs))"
  unfolding sent_at_most_def by (induction xs) auto

lemma sent_other:
  "distinct xs \<Longrightarrow> int (length (filter (\<lambda>a. Some a \<noteq> first \<and> sent s r a = i) xs)) =
     int (length (filter (\<lambda>a. sent s r a = i) xs)) -
     (case first of None \<Rightarrow> 0 | Some a \<Rightarrow> if a \<in> set xs \<and> sent s r a = i then 1 else 0)"
  by (induction xs) (auto split: option.splits)

lemma sent_at_most_count:
  assumes "sacks s xs" "r = 0 \<or> r = 1" "first = None \<or> (\<exists>a\<in>set xs. first = Some a)" "0 \<le> i" "i < 4"
  shows "sent_at_most s r first xs i = sent_at_most s r first xs (i - 1) + range_counts s r i -
           (if i = (case first of None \<Rightarrow> 4 | Some a \<Rightarrow> sent s r a) then 1 else 0)"
proof -
  have "range_counts s r i = int (length (filter (\<lambda>a. sent s r a = i) xs))"
    using assms by (auto simp: sacks_def counts_ok_def)
  then show ?thesis
    unfolding sent_at_most_step [of s r first xs i] sent_other [OF sacks_distinct [OF assms(1)]]
    using assms(3,5) by auto
qed

lemma sent_at_most_neg:
  assumes "sacks s xs" "r = 0 \<or> r = 1"
  shows "sent_at_most s r first xs (- 1) = 0"
proof -
  have "\<forall>a\<in>set xs. 0 \<le> sent s r a" using assms by (auto simp: sacks_def counts_ok_def)
  then show ?thesis by (auto simp: sent_at_most_def filter_empty_conv)
qed

lemma select_ack_ranges_loop_spec:
  assumes "\<And>i. i \<in> set is \<Longrightarrow> n i = n (i - 1) + range_counts s r i - (if i = fc then 1 else 0)"
    "is = map (\<lambda>j. b + int j) [0..<length is]" "b + int (length is) = 4"
  shows "case select_ack_ranges_loop s mr r fc is (n (b - 1)) of (m, skip) \<Rightarrow>
           (m = 4 \<and> skip = 0 \<or> m < 4 \<and> b \<le> m \<and> n m - skip = mr \<and> 0 \<le> skip) \<and>
           (\<forall>j. b \<le> j \<and> j < m \<longrightarrow> n j < mr)"
  using assms
proof (induction "is" arbitrary: b)
  case (Cons i "is")
  have i: "i = b" and rest: "is = map (\<lambda>j. (b + 1) + int j) [0..<length is]"
    using Cons.prems(2) by (simp_all add: upt_conv_Cons map_Suc_upt [symmetric] o_def add.commute add.left_commute del: upt_Suc)
  have n: "n (b - 1) + range_counts s r b - (if b = fc then 1 else 0) = n b"
    using Cons.prems(1) [of i] i by simp
  have "n (b - 1) + range_counts s r b = n b + (if b = fc then 1 else 0)" using n by simp
  moreover have "b < 4" using Cons.prems(3) by simp
  moreover have "case select_ack_ranges_loop s mr r fc is (n b) of (m, skip) \<Rightarrow>
           (m = 4 \<and> skip = 0 \<or> m < 4 \<and> b + 1 \<le> m \<and> n m - skip = mr \<and> 0 \<le> skip) \<and>
           (\<forall>j. b + 1 \<le> j \<and> j < m \<longrightarrow> n j < mr)"
    using Cons.IH [of "b + 1"] Cons.prems rest by simp
  moreover have "b \<le> j \<longleftrightarrow> j = b \<or> b + 1 \<le> j" for j :: int by auto
  ultimately show ?case by (auto simp: i Let_def split: prod.splits)
qed simp

text \<open>
  Also: the selection of the ranges of an ACK frame is exact: of the items other than the first,
  those sent at most \<open>nb_sent_max\<close> times, less \<open>nb_sent_max_skip\<close>, are as many as the frame has
  room for, and no smaller count would fill it; if all items sent less than 4 times fit, the
  limit is 4.
\<close>

theorem picoquic_sack_select_ack_ranges_correct:
  assumes "sacks s xs" "r = 0 \<or> r = 1" "first = None \<or> (\<exists>a\<in>set xs. first = Some a)"
    "picoquic_sack_select_ack_ranges s first max_ranges r = (m, skip)"
  shows "(m = 4 \<and> skip = 0 \<or> 0 \<le> m \<and> m < 4 \<and> sent_at_most s r first xs m - skip = max_ranges \<and> 0 \<le> skip) \<and>
         (\<forall>j. 0 \<le> j \<and> j < m \<longrightarrow> sent_at_most s r first xs j < max_ranges)"
proof -
  let ?fc = "case first of None \<Rightarrow> 4 | Some a \<Rightarrow> sent s r a"
  have "sent_at_most s r first xs i = sent_at_most s r first xs (i - 1) + range_counts s r i - (if i = ?fc then 1 else 0)"
    if "i \<in> set [0, 1, 2, 3]" for i
    by (rule sent_at_most_count [OF assms(1-3)]) (use that in auto)
  then have "case select_ack_ranges_loop s max_ranges r ?fc [0, 1, 2, 3] (sent_at_most s r first xs (0 - 1)) of (m, skip) \<Rightarrow>
      (m = 4 \<and> skip = 0 \<or> m < 4 \<and> 0 \<le> m \<and> sent_at_most s r first xs m - skip = max_ranges \<and> 0 \<le> skip) \<and>
      (\<forall>j. 0 \<le> j \<and> j < m \<longrightarrow> sent_at_most s r first xs j < max_ranges)"
    by (rule select_ack_ranges_loop_spec) (simp_all add: upt_rec)
  moreover have "select_ack_ranges_loop s max_ranges r ?fc [0, 1, 2, 3] (sent_at_most s r first xs (0 - 1)) = (m, skip)"
    using assms(4) sent_at_most_neg [OF assms(1,2)]
    by (simp add: picoquic_sack_select_ack_ranges_def Let_def del: select_ack_ranges_loop.simps)
  ultimately show ?thesis by auto
qed

theorem picoquic_sack_select_ack_ranges_correct_witness:
  "picoquic_sack_select_ack_ranges example_sacks (Some 2) 1 0 = (2, 0) \<and>
   sent_at_most example_sacks 0 (Some 2) [1, 2] 2 = 1"
proof -
  have "picoquic_sack_select_ack_ranges example_sacks (Some 2) 1 0 = (2, 0)"
    by (simp add: picoquic_sack_select_ack_ranges_def example_sacks_def)
  with picoquic_sack_select_ack_ranges_correct [OF example_sacks_ok, of 0 "Some 2" 1 2 0] show ?thesis by simp
qed

text \<open>
  Also: marking an item as sent keeps the ranges and the exactness of the counters.
\<close>

theorem picoquic_sack_item_record_sent_correct:
  assumes "sacks s xs" "a \<in> set xs" "r = 0 \<or> r = 1"
  shows "sacks (picoquic_sack_item_record_sent s a r) xs \<and>
         covered (picoquic_sack_item_record_sent s a r) xs = covered s xs \<and>
         sent (picoquic_sack_item_record_sent s a r) r a = sent s r a + 1"
proof -
  obtain us vs where xs: "xs = us @ a # vs" using assms(2) by (auto simp: in_set_conv_decomp)
  have d: "a \<notin> set (us @ vs)" using sacks_distinct [OF assms(1)] xs by auto
  have f: "ack_tree (picoquic_sack_item_record_sent s a r) = ack_tree s"
    "lo (picoquic_sack_item_record_sent s a r) b = lo s b" "hi (picoquic_sack_item_record_sent s a r) b = hi s b"
    "sent (picoquic_sack_item_record_sent s a r) r a = sent s r a + 1" for b
    by (simp_all add: picoquic_sack_item_record_sent_def Let_def)
  have "counts_ok (picoquic_sack_item_record_sent s a r) xs"
    using counts_ok_record_sent [of s us a vs r] assms d xs by (simp add: sacks_def)
  then show ?thesis using assms(1) f by (auto simp: sacks_def cong: ordered_cong covered_cong)
qed

theorem picoquic_sack_item_record_sent_correct_witness:
  "sacks (picoquic_sack_item_record_sent example_sacks 1 1) [1, 2]"
  using picoquic_sack_item_record_sent_correct [OF example_sacks_ok, of 1 1] by simp

lemma list_free_sacks:
  "sacks s xs \<Longrightarrow> \<exists>s'. picoquic_sack_list_free s = Some s' \<and> sacks s' [] \<and> horizon_delay s' = horizon_delay s"
  using picosplay_empty_tree_represents [of "ack_tree s" xs]
  by (auto simp: sacks_def picoquic_sack_list_free_def counts_ok_def)

lemma list_init_sacks: "sacks (picoquic_sack_list_init h its) []"
  by (simp add: sacks_def picoquic_sack_list_init_def counts_ok_def represents_init)

text \<open>Also: resetting a list to one range ends, and leaves that range alone in a well-formed list.\<close>

theorem picoquic_sack_list_reset_correct:
  assumes "sacks s xs" "unat mn \<le> unat mx" "unat mx < 2 ^ 62"
  shows "\<exists>s'. picoquic_sack_list_reset s (Some a) mn mx now = Some (0, s') \<and> sacks s' [a] \<and>
           covered s' [a] = {unat mn..unat mx} \<and> picoquic_sack_list_first s' = Some mn \<and>
           picoquic_sack_list_last s' = Some mx \<and> picoquic_sack_list_size s' = 1"
proof -
  obtain s1 where s1: "picoquic_sack_list_free s = Some s1" "sacks s1 []" using list_free_sacks [OF assms(1)] by blast
  then obtain s' where i: "picoquic_sack_insert_item s1 (Some a) mn mx now = Some (0, s')" "sacks s' [a]"
    "covered s' [a] = {unat mn..unat mx}"
    using insert_item_sacks [of s1 "[]" "[]" a mn mx now] assms(2,3) by (auto simp: sacks_def)
  have c: "{lo s' a..hi s' a} = {unat mn..unat mx}" using i(3) by simp
  then have "lo s' a = unat mn \<and> hi s' a = unat mx" using assms(2) by (simp add: Icc_eq_Icc)
  then have "start_of_sack_range (items s' a) = mn" "end_of_sack_range (items s' a) = mx" by (simp_all add: word_unat_eq_iff)
  moreover have "picoquic_sack_list_size s' = 1" using i(2) by (auto simp: sacks_def picoquic_sack_list_size_def represents_def)
  ultimately show ?thesis
    using s1 i list_last_sacks [OF i(2)] first_item_sacks [OF i(2)]
    by (simp add: picoquic_sack_list_reset_def picoquic_sack_list_first_def)
qed

theorem picoquic_sack_list_reset_correct_witness:
  "\<exists>s'. picoquic_sack_list_reset example_sacks (Some 5) 10 20 100 = Some (0, s') \<and>
     picoquic_sack_list_first s' = Some 10"
  using picoquic_sack_list_reset_correct [OF example_sacks_ok, of 10 20 5 100] by auto

end
