(* ===== verification/Doubles.thy ===== *)
theory Doubles
  imports Prelude "HOL-Library.Log_Nat"
begin

text \<open>
  The type \<open>double\<close> of the C code: IEEE 754 binary64 with rounding to nearest, ties to even. A finite
  double is the rational number it stands for, so every operation is the exact one followed by
  the rounding \<open>fl\<close>. The two zeros are one value; the code never looks at the sign of a zero and
  never divides by a negative one.

  Converting a double to an unsigned integer is undefined in C when the truncated value does not
  fit; that is the fault \<open>BadConversion\<close>.
\<close>

section \<open>Rounding\<close>

text \<open>\<open>ilog2 x\<close> is the \<open>e\<close> with \<open>2 ^ e \<le> x < 2 ^ (e + 1)\<close>, for positive \<open>x\<close>.\<close>

definition ilog2 :: "rat \<Rightarrow> int" where
  "ilog2 x =
     (let (n, d) = quotient_of x;
          k = int (floorlog 2 (nat n)) - int (floorlog 2 (nat d))
      in if 2 powi k \<le> x then k else k - 1)"

definition round_even :: "rat \<Rightarrow> int" where
  "round_even x =
     (let f = \<lfloor>x\<rfloor>; r = x - of_int f
      in if r < 1 / 2 then f else if 1 / 2 < r then f + 1 else if even f then f else f + 1)"

text \<open>The distance of the doubles around \<open>x\<close>; 53 digits, and \<open>2 ^ -1074\<close> for subnormal numbers.\<close>

definition ulp :: "rat \<Rightarrow> rat" where
  "ulp x = 2 powi (max (ilog2 \<bar>x\<bar> - 52) (- 1074))"

definition fl :: "rat \<Rightarrow> rat" where
  "fl x = (if x = 0 then 0 else of_int (round_even (x / ulp x)) * ulp x)"

section \<open>Doubles and their operations\<close>

datatype double = Fin rat | PInf | MInf | NaN

definition rnd :: "rat \<Rightarrow> double" where
  "rnd x = (if 2 ^ 1024 \<le> fl x then PInf else if fl x \<le> - (2 ^ 1024) then MInf else Fin (fl x))"

fun dneg :: "double \<Rightarrow> double" where
  "dneg (Fin x) = Fin (- x)" | "dneg PInf = MInf" | "dneg MInf = PInf" | "dneg NaN = NaN"

fun dadd :: "double \<Rightarrow> double \<Rightarrow> double" where
  "dadd (Fin x) (Fin y) = rnd (x + y)"
| "dadd NaN _ = NaN"
| "dadd _ NaN = NaN"
| "dadd PInf MInf = NaN"
| "dadd MInf PInf = NaN"
| "dadd PInf _ = PInf"
| "dadd _ PInf = PInf"
| "dadd MInf _ = MInf"
| "dadd _ MInf = MInf"

definition dsub :: "double \<Rightarrow> double \<Rightarrow> double" where
  "dsub x y = dadd x (dneg y)"

fun dinf :: "bool \<Rightarrow> double" where
  "dinf positive = (if positive then PInf else MInf)"

fun dmul :: "double \<Rightarrow> double \<Rightarrow> double" where
  "dmul (Fin x) (Fin y) = rnd (x * y)"
| "dmul NaN _ = NaN"
| "dmul _ NaN = NaN"
| "dmul (Fin x) PInf = (if x = 0 then NaN else dinf (0 < x))"
| "dmul (Fin x) MInf = (if x = 0 then NaN else dinf (x < 0))"
| "dmul PInf (Fin x) = (if x = 0 then NaN else dinf (0 < x))"
| "dmul MInf (Fin x) = (if x = 0 then NaN else dinf (x < 0))"
| "dmul PInf PInf = PInf"
| "dmul MInf MInf = PInf"
| "dmul PInf MInf = MInf"
| "dmul MInf PInf = MInf"

fun ddiv :: "double \<Rightarrow> double \<Rightarrow> double" where
  "ddiv (Fin x) (Fin y) = (if y = 0 then (if x = 0 then NaN else dinf (0 < x)) else rnd (x / y))"
| "ddiv NaN _ = NaN"
| "ddiv _ NaN = NaN"
| "ddiv (Fin x) _ = Fin 0"
| "ddiv PInf (Fin x) = dinf (0 \<le> x)"
| "ddiv MInf (Fin x) = dinf (x < 0)"
| "ddiv _ _ = NaN"

fun dless :: "double \<Rightarrow> double \<Rightarrow> bool" where
  "dless (Fin x) (Fin y) \<longleftrightarrow> x < y"
| "dless NaN _ \<longleftrightarrow> False"
| "dless _ NaN \<longleftrightarrow> False"
| "dless MInf MInf \<longleftrightarrow> False"
| "dless MInf _ \<longleftrightarrow> True"
| "dless (Fin x) PInf \<longleftrightarrow> True"
| "dless _ _ \<longleftrightarrow> False"

text \<open>\<open>(double) n\<close> and a constant of the source text.\<close>

definition of_u64 :: "u64 \<Rightarrow> double" where
  "of_u64 n = rnd (rat_of_nat (unat n))"

definition dlit :: "rat \<Rightarrow> double" where
  "dlit x = rnd x"

text \<open>\<open>(uint64_t) x\<close>.\<close>

fun to_u64 :: "double \<Rightarrow> u64 res" where
  "to_u64 (Fin x) = (if - 1 < x \<and> x < 2 ^ 64 then Ok (of_int (if 0 \<le> x then \<lfloor>x\<rfloor> else 0)) else Fault BadConversion)"
| "to_u64 _ = Fault BadConversion"

end
