(* ===== verification/DoubleFacts.thy ===== *)
theory DoubleFacts
  imports Doubles
begin

text \<open>
  The facts about rounding that the congestion controllers need: rounding is monotone, it leaves
  small integers and dyadic fractions alone, and it moves a number by at most half a unit in
  the last place.
\<close>

declare of_nat_unat [simp del]

section \<open>Powers of two\<close>

lemma powi_less_iff: "(2::rat) powi a < 2 powi b \<longleftrightarrow> a < b"
proof -
  have "(2::rat) powi a < 2 powi b" if "a < b" for a b
    using that by (rule power_int_strict_increasing) simp
  then show ?thesis by (metis linorder_cases less_asym less_irrefl)
qed

lemma powi_le_iff: "(2::rat) powi a \<le> 2 powi b \<longleftrightarrow> a \<le> b"
  by (metis powi_less_iff linorder_not_less)

lemma powi_int_mult: "a \<le> b \<Longrightarrow> \<exists>n::int. (2::rat) powi b = of_int n * 2 powi a"
proof -
  assume "a \<le> b"
  then have "(2::rat) powi b = 2 powi (int (nat (b - a))) * 2 powi a"
    by (simp add: power_int_add [symmetric])
  moreover have "(2::rat) powi (int (nat (b - a))) = of_int (2 ^ nat (b - a))" by (simp only: power_int_of_nat of_int_power of_int_numeral)
  ultimately have "(2::rat) powi b = of_int (2 ^ nat (b - a)) * 2 powi a" by simp
  then show ?thesis by blast
qed

lemma ilog2_bounds:
  assumes "0 < x"
  shows "2 powi (ilog2 x) \<le> x" "x < 2 powi (ilog2 x + 1)"
proof -
  obtain n d where q: "quotient_of x = (n, d)" by fastforce
  have d: "0 < d" using quotient_of_denom_pos [OF q] .
  have x: "x = of_int n / of_int d" using quotient_of_div [OF q] .
  have n: "0 < n" using assms x d by (simp add: zero_less_divide_iff)
  define a b where "a = floorlog 2 (nat n)" and "b = floorlog 2 (nat d)"
  have "2 ^ (a - 1) \<le> nat n \<and> nat n < 2 ^ a" "2 ^ (b - 1) \<le> nat d \<and> nat d < 2 ^ b"
    using floorlog_bounds [of "nat n" 2] floorlog_bounds [of "nat d" 2] n d by (simp_all add: a_def b_def)
  moreover have "0 < a" "0 < b" using n d by (simp_all add: a_def b_def floorlog_def)
  ultimately have bn: "(2::int) ^ (a - 1) \<le> n" "n < 2 ^ a" "(2::int) ^ (b - 1) \<le> d" "d < 2 ^ b"
    using n d by (simp_all add: nat_le_iff le_nat_iff nat_less_iff)
  have rn: "2 powi (int a - 1) \<le> (of_int n :: rat)" "(of_int n :: rat) < 2 powi int a"
    "2 powi (int b - 1) \<le> (of_int d :: rat)" "(of_int d :: rat) < 2 powi int b"
  proof -
    have p: "(2::rat) powi (int c - 1) = of_int (2 ^ (c - 1))" if "0 < c" for c :: nat
      using that by (metis One_nat_def Suc_pred' diff_Suc_1 int_ops(6) of_int_numeral of_int_power of_nat_1 power_int_of_nat zle_int Suc_leI less_one not_le of_nat_diff)
    show "2 powi (int a - 1) \<le> (of_int n :: rat)" "2 powi (int b - 1) \<le> (of_int d :: rat)"
      using bn \<open>0 < a\<close> \<open>0 < b\<close> by (simp_all only: p of_int_le_iff)
    have "(of_int n :: rat) < of_int (2 ^ a)" "(of_int d :: rat) < of_int (2 ^ b)"
      using bn by (simp_all only: of_int_less_iff)
    then show "(of_int n :: rat) < 2 powi int a" "(of_int d :: rat) < 2 powi int b" by simp_all
  qed
  have "x < 2 powi int a / 2 powi (int b - 1)"
    unfolding x using rn n d by (intro frac_less) (simp_all add: zero_less_power_int)
  also have "\<dots> = 2 powi (int a - int b + 1)" by (subst power_int_diff [symmetric]) (simp_all add: algebra_simps)
  finally have up: "x < 2 powi (int a - int b + 1)" .
  have "2 powi (int a - 1) / 2 powi int b < x"
    unfolding x using rn n d by (intro frac_less2) (simp_all add: zero_less_power_int)
  moreover have "2 powi (int a - int b - 1) = (2 powi (int a - 1) / 2 powi int b :: rat)"
    by (subst power_int_diff [symmetric]) (simp_all add: algebra_simps)
  ultimately have low: "2 powi (int a - int b - 1) \<le> x" by simp
  have "ilog2 x = (if 2 powi (int a - int b) \<le> x then int a - int b else int a - int b - 1)"
    by (simp add: ilog2_def q a_def b_def Let_def)
  then show "2 powi (ilog2 x) \<le> x" "x < 2 powi (ilog2 x + 1)" using up low by auto
qed

lemma ilog2_unique:
  assumes "2 powi e \<le> x" "x < 2 powi (e + 1)"
  shows "ilog2 x = e"
proof -
  have "0 < x" using assms(1) by (rule less_le_trans [rotated]) simp
  note b = ilog2_bounds [OF this]
  have "2 powi e < (2::rat) powi (ilog2 x + 1)" "2 powi ilog2 x < (2::rat) powi (e + 1)"
    using assms b by (auto intro: le_less_trans)
  then show ?thesis by (simp add: powi_less_iff)
qed

lemma ilog2_mono: "0 < x \<Longrightarrow> x \<le> y \<Longrightarrow> ilog2 x \<le> ilog2 y"
proof -
  assume "0 < x" "x \<le> y"
  then have "(2::rat) powi ilog2 x < 2 powi (ilog2 y + 1)"
    using ilog2_bounds [of x] ilog2_bounds [of y] by (meson le_less_trans less_le_trans order_less_le_trans)
  then show ?thesis by (simp add: powi_less_iff)
qed

section \<open>Rounding to an integer\<close>

lemma round_even_near: "round_even x = \<lfloor>x\<rfloor> \<or> round_even x = \<lfloor>x\<rfloor> + 1 \<and> of_int \<lfloor>x\<rfloor> + 1 / 2 \<le> x"
  by (auto simp: round_even_def Let_def)

lemma round_even_of_int [simp]: "round_even (of_int n) = n"
  by (simp add: round_even_def)

lemma round_even_mono: "x \<le> y \<Longrightarrow> round_even x \<le> round_even y"
proof -
  assume xy: "x \<le> y"
  then have f: "\<lfloor>x\<rfloor> \<le> \<lfloor>y\<rfloor>" by (rule floor_mono)
  show ?thesis
  proof (cases "\<lfloor>x\<rfloor> = \<lfloor>y\<rfloor>")
    case True
    with xy show ?thesis by (auto simp: round_even_def Let_def)
  next
    case False
    with f have "\<lfloor>x\<rfloor> + 1 \<le> \<lfloor>y\<rfloor>" by simp
    with round_even_near [of x] round_even_near [of y] show ?thesis by auto
  qed
qed

lemma round_even_error: "\<bar>of_int (round_even x) - x\<bar> \<le> 1 / 2"
proof -
  have "of_int \<lfloor>x\<rfloor> \<le> x" "x < of_int \<lfloor>x\<rfloor> + 1" by linarith+
  then show ?thesis unfolding round_even_def Let_def by (simp split: if_splits)
qed

section \<open>Rounding to a double\<close>

lemma ulp_pos [simp]: "0 < ulp x"
  by (simp add: ulp_def)

lemma fl_0 [simp]: "fl 0 = 0"
  by (simp add: fl_def)

lemma ulp_minus [simp]: "ulp (- x) = ulp x"
  by (simp add: ulp_def)

text \<open>A multiple of the unit bounds the rounding of what it bounds.\<close>

lemma fl_le_multiple: "0 < x \<Longrightarrow> x \<le> of_int n * ulp x \<Longrightarrow> fl x \<le> of_int n * ulp x"
proof -
  assume a: "0 < x" "x \<le> of_int n * ulp x"
  then have "x / ulp x \<le> of_int n" by (simp add: divide_le_eq)
  then have "round_even (x / ulp x) \<le> n" using round_even_mono [of "x / ulp x" "of_int n"] by simp
  with a(1) show ?thesis by (simp add: fl_def mult_right_mono)
qed

lemma fl_ge_multiple: "0 < x \<Longrightarrow> of_int n * ulp x \<le> x \<Longrightarrow> of_int n * ulp x \<le> fl x"
proof -
  assume a: "0 < x" "of_int n * ulp x \<le> x"
  then have "of_int n \<le> x / ulp x" by (simp add: le_divide_eq)
  then have "n \<le> round_even (x / ulp x)" using round_even_mono [of "of_int n" "x / ulp x"] by simp
  with a(1) show ?thesis by (simp add: fl_def mult_right_mono)
qed

lemma fl_exact: "x = of_int n * ulp x \<Longrightarrow> fl x = x"
proof -
  assume a: "x = of_int n * ulp x"
  have "x / ulp x = of_int n" by (subst a) (simp add: less_imp_neq [OF ulp_pos, symmetric])
  with a show ?thesis by (simp add: fl_def)
qed

lemma fl_error: "\<bar>fl x - x\<bar> \<le> ulp x / 2"
proof (cases "x = 0")
  case True
  then show ?thesis using ulp_pos [of 0] by (simp add: less_imp_le del: ulp_pos)
next
  case False
  have "fl x - x = (of_int (round_even (x / ulp x)) - x / ulp x) * ulp x"
    using False less_imp_neq [OF ulp_pos [of x]] by (simp add: fl_def algebra_simps)
  then have "\<bar>fl x - x\<bar> = \<bar>of_int (round_even (x / ulp x)) - x / ulp x\<bar> * ulp x"
    using ulp_pos [of x] by (simp add: abs_mult abs_of_pos)
  also have "\<dots> \<le> 1 / 2 * ulp x" by (intro mult_right_mono round_even_error) (simp add: less_imp_le)
  finally show ?thesis by simp
qed

lemma ulp_mono: "0 < x \<Longrightarrow> x \<le> y \<Longrightarrow> ulp x \<le> ulp y"
  using ilog2_mono [of x y] by (simp add: ulp_def powi_le_iff)

lemma fl_mono_pos:
  assumes "0 < x" "x \<le> y"
  shows "fl x \<le> fl y"
proof (cases "ulp x = ulp y")
  case True
  have "round_even (x / ulp x) \<le> round_even (y / ulp x)"
    using assms by (intro round_even_mono divide_right_mono) (simp_all add: less_imp_le)
  with assms True show ?thesis by (simp add: fl_def mult_right_mono)
next
  case False
  define ex ey where "ex = ilog2 x" and "ey = ilog2 y"
  have u: "ulp x = 2 powi (max (ex - 52) (- 1074))" "ulp y = 2 powi (max (ey - 52) (- 1074))"
    using assms by (simp_all add: ulp_def ex_def ey_def)
  have "ex \<le> ey" using ilog2_mono [OF assms] by (simp add: ex_def ey_def)
  moreover have "max (ex - 52) (- 1074) \<noteq> max (ey - 52) (- 1074)" using False u by metis
  ultimately have e: "ex < ey" "- 1074 < ey - 52" by (auto simp: max_def split: if_splits)
  have b: "x < 2 powi (ex + 1)" "2 powi ey \<le> y"
    using ilog2_bounds [of x] ilog2_bounds [of y] assms by (simp_all add: ex_def ey_def)
  have "x \<le> 2 powi ey" using b(1) e(1) powi_le_iff [of "ex + 1" ey] by simp
  moreover obtain n where n: "(2::rat) powi ey = of_int n * ulp x"
    using powi_int_mult [of "max (ex - 52) (- 1074)" ey] e u by auto
  ultimately have "fl x \<le> 2 powi ey" using fl_le_multiple [OF assms(1), of n] by simp
  also obtain m where m: "(2::rat) powi ey = of_int m * ulp y"
    using powi_int_mult [of "max (ey - 52) (- 1074)" ey] e u by auto
  have "2 powi ey \<le> fl y" using fl_ge_multiple [of y m] assms b(2) m by simp
  finally show ?thesis .
qed

lemma fl_nonneg: "0 \<le> x \<Longrightarrow> 0 \<le> fl x"
  using fl_ge_multiple [of x 0] by (cases "x = 0") auto

lemma fl_mono: "0 \<le> x \<Longrightarrow> x \<le> y \<Longrightarrow> fl x \<le> fl y"
  using fl_mono_pos [of x y] fl_nonneg [of y] by (cases "x = 0") auto

lemma fl_nonpos: "x \<le> 0 \<Longrightarrow> fl x \<le> 0"
proof -
  assume "x \<le> 0"
  then have "x / ulp x \<le> of_int 0" by (simp add: divide_le_0_iff less_imp_le)
  then have "round_even (x / ulp x) \<le> 0" using round_even_mono [of "x / ulp x" "of_int 0"] by (simp only: round_even_of_int)
  then show ?thesis by (simp add: fl_def mult_le_0_iff less_imp_le)
qed

text \<open>Numbers with at most 53 digits are doubles.\<close>

lemma fl_dyadic_less:
  assumes "0 \<le> m" "m < 2 ^ 53" "- 1074 \<le> e"
  shows "fl (of_int m * 2 powi e) = of_int m * 2 powi e"
proof (cases "m = 0")
  case False
  define x where "x = (of_int m * 2 powi e :: rat)"
  have x: "0 < x" using assms(1) False by (simp add: x_def)
  have "(of_int m :: rat) < of_int (2 ^ 53)" using assms(2) by (simp only: of_int_less_iff)
  then have "x < 2 powi 53 * 2 powi e" unfolding x_def by (intro mult_strict_right_mono) simp_all
  then have "x < 2 powi (53 + e)" by (simp add: power_int_add)
  with ilog2_bounds(1) [OF x] have "ilog2 x < 53 + e" using powi_less_iff le_less_trans by blast
  then have "max (ilog2 x - 52) (- 1074) \<le> e" using assms(3) by simp
  from powi_int_mult [OF this] obtain n where "(2::rat) powi e = of_int n * ulp x"
    using x by (auto simp: ulp_def)
  then have "x = of_int (m * n) * ulp x" unfolding x_def by simp
  then show ?thesis unfolding x_def by (rule fl_exact)
qed simp

lemma fl_dyadic:
  assumes "0 \<le> m" "m \<le> 2 ^ 53" "- 1074 \<le> e"
  shows "fl (of_int m * 2 powi e) = of_int m * 2 powi e"
proof (cases "m = 2 ^ 53")
  case True
  have "(of_int m * 2 powi e :: rat) = of_int (2 ^ 52) * 2 powi (e + 1)"
    unfolding True by (simp add: power_int_add)
  with fl_dyadic_less [of "2 ^ 52" "e + 1"] assms(3) show ?thesis by simp
next
  case False
  with fl_dyadic_less [of m e] assms show ?thesis by simp
qed

lemma fl_of_nat: "n \<le> 2 ^ 53 \<Longrightarrow> fl (rat_of_nat n) = rat_of_nat n"
  using fl_dyadic [of "int n" 0] of_nat_mono [of n "2 ^ 53", where 'a = int] by simp

lemma fl_pow2: "- 1074 \<le> e \<Longrightarrow> fl (2 powi e) = 2 powi e"
  using fl_dyadic [of 1 e] by simp

lemma fl_le_dyadic: "0 \<le> x \<Longrightarrow> x \<le> of_int m * 2 powi e \<Longrightarrow> 0 \<le> m \<Longrightarrow> m \<le> 2 ^ 53 \<Longrightarrow> - 1074 \<le> e \<Longrightarrow>
    fl x \<le> of_int m * 2 powi e"
  using fl_mono [of x "of_int m * 2 powi e"] fl_dyadic [of m e] by simp

lemma fl_ge_dyadic: "of_int m * 2 powi e \<le> x \<Longrightarrow> 0 \<le> m \<Longrightarrow> m \<le> 2 ^ 53 \<Longrightarrow> - 1074 \<le> e \<Longrightarrow>
    of_int m * 2 powi e \<le> fl x"
  using fl_mono [of "of_int m * 2 powi e" x] fl_dyadic [of m e] by simp

lemma fl_le_of_nat: "0 \<le> x \<Longrightarrow> x \<le> of_nat n \<Longrightarrow> n \<le> 2 ^ 53 \<Longrightarrow> fl x \<le> of_nat n"
  using fl_mono [of x "of_nat n"] fl_of_nat [of n] by simp

lemma fl_ge_of_nat: "of_nat n \<le> x \<Longrightarrow> n \<le> 2 ^ 53 \<Longrightarrow> of_nat n \<le> fl x"
  using fl_mono [of "of_nat n" x] fl_of_nat [of n] by simp

section \<open>Finite operations\<close>

lemma rnd_Fin: "0 \<le> x \<Longrightarrow> x \<le> 2 ^ 1000 \<Longrightarrow> rnd x = Fin (fl x)"
proof -
  assume a: "0 \<le> x" "x \<le> 2 ^ 1000"
  then have "fl x \<le> 2 ^ 1000" using fl_le_dyadic [of x 1 1000] by simp
  also have "(2::rat) ^ 1000 < 2 ^ 1024" by (rule power_strict_increasing) simp_all
  finally have "fl x < 2 ^ 1024" .
  moreover have "0 \<le> fl x" using a(1) by (rule fl_nonneg)
  moreover have "- (2 ^ 1024) < (0::rat)" by simp
  ultimately show ?thesis unfolding rnd_def by (smt (verit) leD le_less_trans)
qed

lemma of_u64_Fin: "of_u64 n = Fin (fl (of_nat (unat n)))"
proof -
  have "rat_of_nat (unat n) \<le> rat_of_nat (2 ^ 64)" using unsigned_less [of n, where 'a = nat] by (simp only: of_nat_le_iff) simp
  also have "\<dots> \<le> 2 ^ 1000" using power_increasing [of 64 1000 "2::rat"] by simp
  finally show ?thesis unfolding of_u64_def by (intro rnd_Fin) simp_all
qed

lemma of_u64_exact: "unat n \<le> 2 ^ 53 \<Longrightarrow> of_u64 n = Fin (of_nat (unat n))"
  by (simp add: of_u64_Fin fl_of_nat)

lemma to_u64_floor:
  assumes "0 \<le> x" "x < 2 ^ 64"
  shows "\<exists>n. to_u64 (Fin x) = Ok n \<and> unat n = nat \<lfloor>x\<rfloor>"
proof -
  have f: "0 \<le> \<lfloor>x\<rfloor>" using assms(1) by simp
  have "\<lfloor>x\<rfloor> < 2 ^ 64" using assms(2) by (simp add: floor_less_iff)
  then have "unat (of_int \<lfloor>x\<rfloor> :: u64) = nat \<lfloor>x\<rfloor>"
    using f by (simp add: unsigned_of_int take_bit_int_eq_self)
  with assms show ?thesis by simp
qed

end
