(* ===== verification/CcCommon.thy ===== *)
theory CcCommon
  imports DoubleFacts
begin

text \<open>
  What the congestion controllers share: the fields of \<open>picoquic_path_t\<close> and \<open>picoquic_cnx_t\<close> that
  they read and write, the notifications, and \<open>picoquic/cc_common.c\<close> (the filter of round trip
  times and the tests that end slow start).

  A path is found at its address; \<open>path\<close> lists the addresses \<open>cnx->path[0]\<close> to
  \<open>cnx->path[nb_paths - 1]\<close>. Integers of type \<open>uint64_t\<close> and \<open>size_t\<close> are 64-bit words,
  those of type \<open>int64_t\<close> are integers that are brought back into range by \<open>sint\<close> wherever the code
  assigns an unsigned value.
\<close>

section \<open>Constants\<close>

abbreviation PICOQUIC_CWIN_INITIAL :: u64 where "PICOQUIC_CWIN_INITIAL \<equiv> 15360"
abbreviation PICOQUIC_CWIN_MINIMUM :: u64 where "PICOQUIC_CWIN_MINIMUM \<equiv> 3072"
abbreviation PICOQUIC_TARGET_RENO_RTT :: u64 where "PICOQUIC_TARGET_RENO_RTT \<equiv> 100000"
abbreviation PICOQUIC_TARGET_SATELLITE_RTT :: u64 where "PICOQUIC_TARGET_SATELLITE_RTT \<equiv> 610000"
abbreviation PICOQUIC_MIN_MAX_RTT_SCOPE :: nat where "PICOQUIC_MIN_MAX_RTT_SCOPE \<equiv> 7"
abbreviation PICOQUIC_SMOOTHED_LOSS_SCOPE :: u64 where "PICOQUIC_SMOOTHED_LOSS_SCOPE \<equiv> 32"

section \<open>Paths, connections, notifications\<close>

record cc_path =
  path_packet_number :: u64
  path_packet_acked_number :: u64
  path_packet_acked_time_sent :: u64
  is_cc_data_updated :: bool
  is_ssthresh_initialized :: bool
  smoothed_rtt :: u64
  rtt_min :: u64
  send_mtu :: u64
  max_bandwidth_estimate :: u64
  cwin :: u64
  last_sender_limited_time :: u64
  last_time_acked_data_frame_sent :: u64
  pacing_rate :: u64
  pacing_evaluation_time :: u64
  pacing_bucket_nanosec :: int
  pacing_bucket_max :: int
  pacing_packet_time_nanosec :: int
  pacing_packet_time_microsec :: u64
  pacing_quantum_max :: u64
  pacing_rate_max :: u64

record cc_cnx =
  paths :: "nat \<Rightarrow> cc_path"
  path :: "nat list"
  multipath_enabled :: bool
  is_time_stamp_enabled :: bool
  congestion_algorithm_number :: nat
  packet_train_mode :: bool
  is_pacing_update_requested :: bool
  has_callback_fn :: bool
  pacing_rate_signalled :: u64
  pacing_increase_threshold :: u64
  pacing_decrease_threshold :: u64

definition nb_paths :: "cc_cnx \<Rightarrow> nat" where
  "nb_paths cnx = length (path cnx)"

definition upd_path :: "nat \<Rightarrow> (cc_path \<Rightarrow> cc_path) \<Rightarrow> cc_cnx \<Rightarrow> cc_cnx" where
  "upd_path x f cnx = cnx\<lparr>paths := (paths cnx)(x := f (paths cnx x))\<rparr>"

text \<open>\<open>cnx->path[i]\<close>: outside the paths of the connection the array holds no path.\<close>

definition path_at :: "cc_cnx \<Rightarrow> nat \<Rightarrow> nat res" where
  "path_at cnx i = (if i < nb_paths cnx then Ok (path cnx ! i) else Fault OutOfBounds)"

datatype notification =
    acknowledgement | repeat_loss | timeout | spurious_repeat | rtt_measure | bw_measurement
  | ecn_ec | cwin_blocked | seed_cwin | reset_notification

definition picoquic_cc_get_sequence_number :: "cc_cnx \<Rightarrow> nat \<Rightarrow> u64" where
  "picoquic_cc_get_sequence_number cnx x = path_packet_number (paths cnx x)"

definition picoquic_cc_get_ack_number :: "cc_cnx \<Rightarrow> nat \<Rightarrow> u64" where
  "picoquic_cc_get_ack_number cnx x = path_packet_acked_number (paths cnx x)"

definition picoquic_cc_get_ack_sent_time :: "cc_cnx \<Rightarrow> nat \<Rightarrow> u64" where
  "picoquic_cc_get_ack_sent_time cnx x = path_packet_acked_time_sent (paths cnx x)"

section \<open>The filter of round trip times\<close>

record min_max_rtt =
  last_rtt_sample_time :: u64
  rtt_filtered_min :: u64
  nb_rtt_excess :: int
  sample_current :: nat
  is_init :: bool
  smoothed_drop_rate :: double
  last_lost_packet_number :: u64
  sample_min :: u64
  sample_max :: u64
  samples :: "u64 list"

text \<open>The filter after \<open>memset\<close>.\<close>

definition min_max_rtt_zero :: min_max_rtt where
  "min_max_rtt_zero =
     \<lparr>last_rtt_sample_time = 0, rtt_filtered_min = 0, nb_rtt_excess = 0, sample_current = 0,
      is_init = False, smoothed_drop_rate = Fin 0, last_lost_packet_number = 0, sample_min = 0,
      sample_max = 0, samples = replicate PICOQUIC_MIN_MAX_RTT_SCOPE 0\<rparr>"

fun min_max_loop :: "u64 list \<Rightarrow> u64 \<times> u64 \<Rightarrow> u64 \<times> u64" where
  "min_max_loop [] (mn, mx) = (mn, mx)"
| "min_max_loop (x # xs) (mn, mx) =
     min_max_loop xs (if x < mn then (x, mx) else if x > mx then (mn, x) else (mn, mx))"

definition picoquic_filter_rtt_min_max :: "min_max_rtt \<Rightarrow> u64 \<Rightarrow> min_max_rtt" where
  "picoquic_filter_rtt_min_max rtt_track rtt =
     (let x = sample_current rtt_track;
          rtt_track = rtt_track\<lparr>samples := (samples rtt_track)[x := rtt]\<rparr>;
          rtt_track = rtt_track\<lparr>sample_current := x + 1\<rparr>;
          rtt_track = (if sample_current rtt_track \<ge> PICOQUIC_MIN_MAX_RTT_SCOPE
                       then rtt_track\<lparr>is_init := True, sample_current := 0\<rparr> else rtt_track);
          x_max = (if is_init rtt_track then PICOQUIC_MIN_MAX_RTT_SCOPE else x + 1);
          s0 = samples rtt_track ! 0;
          (mn, mx) = min_max_loop (drop 1 (take x_max (samples rtt_track))) (s0, s0)
      in rtt_track\<lparr>sample_min := mn, sample_max := mx\<rparr>)"

section \<open>Leaving slow start\<close>

definition PICOQUIC_SMOOTHED_LOSS_FACTOR :: double where
  "PICOQUIC_SMOOTHED_LOSS_FACTOR = ddiv (dlit 1) (dlit 16)"

definition PICOQUIC_SMOOTHED_LOSS_THRESHOLD :: double where
  "PICOQUIC_SMOOTHED_LOSS_THRESHOLD = dlit (2 / 10)"

lemma unat_increment: "(n::u64) < l \<Longrightarrow> unat (n + 1) = unat n + 1"
  using unsigned_less [of l, where 'a = nat] by (simp add: word_less_nat_alt unat_word_ariths)

function loss_loop :: "u64 \<Rightarrow> u64 \<Rightarrow> double \<Rightarrow> double" where
  "loss_loop next_number lost_packet_number rate =
     (if next_number < lost_packet_number
      then loss_loop (next_number + 1) lost_packet_number
             (dmul rate (dsub (dlit 1) PICOQUIC_SMOOTHED_LOSS_FACTOR))
      else rate)"
  by pat_completeness auto
termination
proof (relation "measure (\<lambda>(n, l, _). unat l - unat n)", goal_cases)
  case (2 n l r)
  then have "unat (n + 1) = unat n + 1" by (intro unat_increment)
  with 2 show ?case by (auto simp: word_less_nat_alt)
qed simp

declare loss_loop.simps [simp del]

definition picoquic_hystart_loss_test :: "min_max_rtt \<Rightarrow> notification \<Rightarrow> u64 \<Rightarrow> bool \<times> min_max_rtt" where
  "picoquic_hystart_loss_test rtt_track event lost_packet_number =
     (let next_number = last_lost_packet_number rtt_track in
      if lost_packet_number > next_number then
        let next_number = (if next_number + PICOQUIC_SMOOTHED_LOSS_SCOPE < lost_packet_number
                           then lost_packet_number - PICOQUIC_SMOOTHED_LOSS_SCOPE else next_number);
            rate = loss_loop next_number lost_packet_number (smoothed_drop_rate rtt_track);
            rate = dadd rate (dmul (dsub (dlit 1) rate) PICOQUIC_SMOOTHED_LOSS_FACTOR);
            rtt_track = rtt_track\<lparr>smoothed_drop_rate := rate, last_lost_packet_number := lost_packet_number\<rparr>
        in (if event = repeat_loss then dless PICOQUIC_SMOOTHED_LOSS_THRESHOLD rate
            else event = timeout, rtt_track)
      else (False, rtt_track))"

text \<open>The C function does not read its arguments \<open>packet_time\<close> and \<open>is_one_way_delay_enabled\<close>.\<close>

definition picoquic_hystart_test :: "min_max_rtt \<Rightarrow> u64 \<Rightarrow> u64 \<Rightarrow> bool \<times> min_max_rtt" where
  "picoquic_hystart_test rtt_track rtt_measurement current_time =
     (if current_time > last_rtt_sample_time rtt_track + 1000 then
        let rtt_track = picoquic_filter_rtt_min_max rtt_track rtt_measurement;
            rtt_track = rtt_track\<lparr>last_rtt_sample_time := current_time\<rparr>
        in if is_init rtt_track then
             let rtt_track = (if rtt_filtered_min rtt_track = 0 \<or>
                                 rtt_filtered_min rtt_track > sample_max rtt_track
                              then rtt_track\<lparr>rtt_filtered_min := sample_max rtt_track\<rparr> else rtt_track);
                 delta_max = rtt_filtered_min rtt_track div 4
             in if sample_min rtt_track > rtt_filtered_min rtt_track then
                  if sample_min rtt_track > rtt_filtered_min rtt_track + delta_max then
                    let rtt_track = rtt_track\<lparr>nb_rtt_excess := nb_rtt_excess rtt_track + 1\<rparr>
                    in (nb_rtt_excess rtt_track \<ge> int PICOQUIC_MIN_MAX_RTT_SCOPE, rtt_track)
                  else (False, rtt_track)
                else (False, rtt_track\<lparr>nb_rtt_excess := 0\<rparr>)
           else (False, rtt_track)
      else (False, rtt_track))"

definition picoquic_hystart_increase :: "cc_cnx \<Rightarrow> nat \<Rightarrow> u64 \<Rightarrow> cc_cnx" where
  "picoquic_hystart_increase cnx x nb_delivered = upd_path x (\<lambda>p. p\<lparr>cwin := cwin p + nb_delivered\<rparr>) cnx"

definition picoquic_cc_increased_window :: "cc_cnx \<Rightarrow> u64 \<Rightarrow> u64 res" where
  "picoquic_cc_increased_window cnx previous_window =
     res_bind (path_at cnx 0) (\<lambda>x.
       if rtt_min (paths cnx x) \<le> PICOQUIC_TARGET_RENO_RTT then Ok (previous_window * 2)
       else
         let w = of_u64 previous_window;
             w = ddiv w (of_u64 PICOQUIC_TARGET_RENO_RTT);
             w = dmul w (of_u64 (if rtt_min (paths cnx x) > PICOQUIC_TARGET_SATELLITE_RTT
                                 then PICOQUIC_TARGET_SATELLITE_RTT else rtt_min (paths cnx x)))
         in to_u64 w)"

section \<open>The filter looks at the last seven samples\<close>

text \<open>
  \<open>filter_window h r\<close>: the ring buffer of \<open>r\<close> holds the last seven of the measurements \<open>h\<close>, which
  are listed in order of arrival.
\<close>

definition last7 :: "u64 list \<Rightarrow> u64 list" where
  "last7 h = drop (length h - 7) h"

definition filter_window :: "u64 list \<Rightarrow> min_max_rtt \<Rightarrow> bool" where
  "filter_window h r \<longleftrightarrow> length (samples r) = 7 \<and> sample_current r = length h mod 7 \<and>
     (is_init r \<longleftrightarrow> 7 \<le> length h) \<and>
     (\<forall>i<length h. length h \<le> i + 7 \<longrightarrow> samples r ! (i mod 7) = h ! i)"

lemma filter_window_zero: "filter_window [] min_max_rtt_zero"
  by (simp add: filter_window_def min_max_rtt_zero_def)

lemma min_max_loop_fold:
  "mn \<le> mx \<Longrightarrow> min_max_loop xs (mn, mx) = (fold min xs mn, fold max xs mx)"
proof (induction xs arbitrary: mn mx)
  case (Cons x xs)
  show ?case
    using Cons.IH [of x mx] Cons.IH [of mn x] Cons.IH [of mn mx] Cons.prems
    by (auto simp: min_def max_def)
qed simp

lemma fold_min_Min: "fold min xs x = Min (set (x # xs))"
  by (metis Min.set_eq_fold)

lemma fold_max_Max: "fold max xs x = Max (set (x # xs))"
  by (metis Max.set_eq_fold)

text \<open>The buffer positions in use hold exactly the last measurements.\<close>

lemma window_set:
  assumes "filter_window h r" "h \<noteq> []"
  shows "set (take (if is_init r then 7 else length h) (samples r)) = set (last7 h)"
proof -
  note w = assms(1) [unfolded filter_window_def]
  have l: "last7 h = map (\<lambda>i. h ! i) [length h - 7..<length h]"
    by (rule nth_equalityI) (auto simp: last7_def)
  show ?thesis
  proof (cases "7 \<le> length h")
    case True
    then have i: "is_init r" using w by simp
    have "{..<7} = (\<lambda>i. i mod 7) ` {length h - 7..<length h}"
    proof (intro equalityI subsetI)
      fix j :: nat assume "j \<in> {..<7}"
      then have j: "j < 7" by simp
      define q s where "q = (length h - 1 - j) div 7" and "s = (length h - 1 - j) mod 7"
      have "length h - 1 - j = 7 * q + s" "s < 7" by (simp_all add: q_def s_def)
      then have i: "j + 7 * q = length h - 1 - s" using j True by simp
      then have "j + 7 * q \<in> {length h - 7..<length h}" using \<open>s < 7\<close> True by auto
      moreover have "(j + 7 * q) mod 7 = j" using j by simp
      ultimately show "j \<in> (\<lambda>i. i mod 7) ` {length h - 7..<length h}" by (intro image_eqI [of _ _ "j + 7 * q"]) simp_all
    qed auto
    moreover have "set (samples r) = (\<lambda>i. samples r ! i) ` {..<7}" using w by (auto simp: set_conv_nth)
    ultimately have "set (samples r) = (\<lambda>i. samples r ! (i mod 7)) ` {length h - 7..<length h}"
      by (simp only: image_image)
    also have "\<dots> = (\<lambda>i. h ! i) ` {length h - 7..<length h}" using w by (intro image_cong) auto
    finally show ?thesis using i l w by simp
  next
    case False
    then have "\<not> is_init r" "last7 h = h" using w by (simp_all add: last7_def)
    moreover have "take (length h) (samples r) = h"
      using w False by (intro nth_equalityI) auto
    ultimately show ?thesis by simp
  qed
qed

lemma filter_fields:
  "samples (picoquic_filter_rtt_min_max r x) = (samples r)[sample_current r := x]"
  "sample_current (picoquic_filter_rtt_min_max r x) = (if 7 \<le> sample_current r + 1 then 0 else sample_current r + 1)"
  "is_init (picoquic_filter_rtt_min_max r x) \<longleftrightarrow> is_init r \<or> 7 \<le> sample_current r + 1"
  "nb_rtt_excess (picoquic_filter_rtt_min_max r x) = nb_rtt_excess r"
  by (simp_all add: picoquic_filter_rtt_min_max_def Let_def split: prod.split)

lemma filter_loop:
  "(sample_min (picoquic_filter_rtt_min_max r x), sample_max (picoquic_filter_rtt_min_max r x)) =
     min_max_loop
       (drop 1 (take (if is_init (picoquic_filter_rtt_min_max r x) then 7 else sample_current r + 1)
         (samples (picoquic_filter_rtt_min_max r x))))
       (samples (picoquic_filter_rtt_min_max r x) ! 0, samples (picoquic_filter_rtt_min_max r x) ! 0)"
  unfolding picoquic_filter_rtt_min_max_def Let_def case_prod_beta by simp

lemma filter_window_step:
  assumes "filter_window h r"
  shows "filter_window (h @ [x]) (picoquic_filter_rtt_min_max r x)"
proof -
  note w = assms [unfolded filter_window_def]
  have c: "sample_current r < 7" using w by simp
  have m: "(if 7 \<le> length h mod 7 + 1 then 0 else length h mod 7 + 1) = (length h + 1) mod 7"
    by (simp add: mod_Suc) presburger
  have i7: "7 \<le> length h \<or> 7 \<le> length h mod 7 + 1 \<longleftrightarrow> 7 \<le> length h + 1"
    by (cases "length h < 7") (auto simp: mod_less)
  have "(samples r)[length h mod 7 := x] ! (i mod 7) = (h @ [x]) ! i"
    if "i < length h + 1" "length h + 1 \<le> i + 7" for i
  proof (cases "i = length h")
    case False
    then have i: "i < length h" using that by simp
    have "i mod 7 \<noteq> length h mod 7"
    proof
      assume "i mod 7 = length h mod 7"
      with i have "7 dvd length h - i" by (metis less_imp_le mod_eq_dvd_iff_nat)
      with i that show False by (auto dest: dvd_imp_le)
    qed
    with w i that show ?thesis by (simp add: nth_append)
  qed (use w c in simp)
  then have "\<forall>i<length (h @ [x]). length (h @ [x]) \<le> i + 7 \<longrightarrow> (samples r)[length h mod 7 := x] ! (i mod 7) = (h @ [x]) ! i"
    by simp
  moreover have "length (samples r) = 7" "sample_current r = length h mod 7" "is_init r = (7 \<le> length h)"
    using w by simp_all
  ultimately show ?thesis using m i7 by (simp only: filter_window_def filter_fields length_list_update length_append list.size) simp
qed

definition feed_rtt :: "u64 list \<Rightarrow> min_max_rtt \<Rightarrow> min_max_rtt" where
  "feed_rtt ms r = fold (\<lambda>m r. picoquic_filter_rtt_min_max r m) ms r"

lemma feed_rtt_window: "filter_window h r \<Longrightarrow> filter_window (h @ ms) (feed_rtt ms r)"
  unfolding feed_rtt_def by (induction ms arbitrary: h r) (use filter_window_step in fastforce)+

lemma filter_min_max:
  assumes "filter_window h r"
  shows "sample_min (picoquic_filter_rtt_min_max r x) = Min (set (last7 (h @ [x]))) \<and>
         sample_max (picoquic_filter_rtt_min_max r x) = Max (set (last7 (h @ [x])))"
proof -
  define r' where "r' = picoquic_filter_rtt_min_max r x"
  have w': "filter_window (h @ [x]) r'" unfolding r'_def by (rule filter_window_step [OF assms])
  note w = assms [unfolded filter_window_def]
  define n where "n = (if is_init r' then 7 else length h + 1)"
  have n: "n = (if is_init r' then 7 else sample_current r + 1)"
  proof (cases "is_init r'")
    case False
    then have "length h < 6" using w' by (simp add: filter_window_def)
    then show ?thesis using w False by (simp add: n_def)
  qed (simp add: n_def)
  have pos: "0 < n" "n \<le> 7" using w n by auto
  have l: "length (samples r') = 7" using w' by (simp add: filter_window_def)
  obtain y ys where ys: "samples r' = y # ys" using l by (cases "samples r'") auto
  have e: "(sample_min r', sample_max r') = min_max_loop (drop 1 (take n (samples r'))) (samples r' ! 0, samples r' ! 0)"
    unfolding n unfolding r'_def by (rule filter_loop)
  have t: "take n (samples r') = y # take (n - 1) ys" using pos(1) by (cases n) (simp_all add: ys)
  have "set (take n (samples r')) = set (last7 (h @ [x]))"
    using window_set [OF w'] by (cases "is_init r'") (simp_all add: n_def)
  then show ?thesis
    using e unfolding r'_def [symmetric] t
    by (simp add: min_max_loop_fold ys fold_min_Min fold_max_Max)
qed

section \<open>Properties\<close>

text \<open>
  Also: after any sequence of measurements the filter reports the minimum and the maximum of the
  last seven of them (of all, when there are fewer), and it counts as initialised exactly from
  the seventh on.
\<close>

theorem filter_rtt_min_max_correct:
  assumes "ms \<noteq> []"
  shows "sample_min (feed_rtt ms min_max_rtt_zero) = Min (set (last7 ms)) \<and>
         sample_max (feed_rtt ms min_max_rtt_zero) = Max (set (last7 ms)) \<and>
         (is_init (feed_rtt ms min_max_rtt_zero) \<longleftrightarrow> 7 \<le> length ms)"
proof -
  obtain ks m where ms: "ms = ks @ [m]" using assms by (cases ms rule: rev_cases) auto
  have w: "filter_window ks (feed_rtt ks min_max_rtt_zero)"
    using feed_rtt_window [OF filter_window_zero, of ks] by simp
  have "filter_window ms (feed_rtt ms min_max_rtt_zero)"
    using feed_rtt_window [OF filter_window_zero, of ms] by simp
  then show ?thesis using filter_min_max [OF w, of m] by (simp add: ms feed_rtt_def filter_window_def)
qed

theorem filter_rtt_min_max_correct_witness:
  "sample_min (feed_rtt [9, 3, 7] min_max_rtt_zero) = 3 \<and> sample_max (feed_rtt [9, 3, 7] min_max_rtt_zero) = 9"
  using filter_rtt_min_max_correct [of "[9, 3, 7]"] by (simp add: last7_def)

text \<open>
  Also: the delay test ends slow start only on a full window of samples, all of which exceed the
  filtered minimum by more than a quarter of it, at the seventh such observation or later, and at
  most once per millisecond.
\<close>

theorem hystart_test_exit:
  assumes "picoquic_hystart_test r m now = (True, r')"
  shows "is_init r' \<and> last_rtt_sample_time r + 1000 < now \<and> last_rtt_sample_time r' = now \<and>
         rtt_filtered_min r' + rtt_filtered_min r' div 4 < sample_min r' \<and> 7 \<le> nb_rtt_excess r' \<and>
         nb_rtt_excess r' = nb_rtt_excess r + 1"
proof -
  show ?thesis
    using assms by (auto simp: picoquic_hystart_test_def Let_def filter_fields(4) split: if_splits)
qed

theorem hystart_test_exit_witness:
  "\<exists>r'. picoquic_hystart_test
     (min_max_rtt_zero\<lparr>rtt_filtered_min := 100, nb_rtt_excess := 6, is_init := True,
        samples := [200, 200, 200, 200, 200, 200, 200]\<rparr>) 200 5000 = (True, r') \<and> 7 \<le> nb_rtt_excess r'"
proof -
  let ?r = "min_max_rtt_zero\<lparr>rtt_filtered_min := 100, nb_rtt_excess := 6, is_init := True,
        samples := [200, 200, 200, 200, 200, 200, 200]\<rparr>"
  obtain b r' where p: "picoquic_hystart_test ?r 200 5000 = (b, r')" by fastforce
  then have "b" by (auto simp: picoquic_hystart_test_def picoquic_filter_rtt_min_max_def min_max_rtt_zero_def Let_def)
  with p hystart_test_exit [of ?r 200 5000 r'] show ?thesis by auto
qed

end
