(* ===== verification/Pacing.thy ===== *)
theory Pacing
  imports CcCommon
begin

text \<open>
  Pacing, from \<open>picoquic/sender.c\<close>: the leaky bucket that spaces the packets of a path, and the
  computation of its rate and size from the congestion window.

  Sums and products of \<open>int64_t\<close> values are exact integers; C leaves their overflow undefined. A
  value of type \<open>uint64_t\<close> that is stored in an \<open>int64_t\<close> goes through \<open>sint\<close>.
\<close>

section \<open>The bucket\<close>

definition picoquic_update_pacing_bucket :: "cc_path \<Rightarrow> u64 \<Rightarrow> cc_path" where
  "picoquic_update_pacing_bucket p current_time =
     (let p = (if pacing_bucket_nanosec p < - pacing_packet_time_nanosec p
               then p\<lparr>pacing_bucket_nanosec := - pacing_packet_time_nanosec p\<rparr> else p)
      in if current_time > pacing_evaluation_time p then
           let p = p\<lparr>pacing_bucket_nanosec :=
                       sint (of_int (pacing_bucket_nanosec p) + (current_time - pacing_evaluation_time p) * 1000 :: u64)\<rparr>;
               p = p\<lparr>pacing_evaluation_time := current_time\<rparr>
           in if pacing_bucket_nanosec p > pacing_bucket_max p
              then p\<lparr>pacing_bucket_nanosec := pacing_bucket_max p\<rparr> else p
         else p)"

text \<open>Division of the C code: it truncates toward 0.\<close>

definition c_div :: "int \<Rightarrow> int \<Rightarrow> int" where
  "c_div a b = (if 0 \<le> a then a div b else - ((- a) div b))"

text \<open>
  The flag is \<open>cnx->quic->packet_train_mode\<close>; the result is the answer, the path and the next time
  to wake up.
\<close>

definition picoquic_is_sending_authorized_by_pacing ::
    "bool \<Rightarrow> cc_path \<Rightarrow> u64 \<Rightarrow> u64 \<Rightarrow> bool \<times> cc_path \<times> u64" where
  "picoquic_is_sending_authorized_by_pacing train_mode p current_time next_time =
     (let p = picoquic_update_pacing_bucket p current_time in
      if pacing_bucket_nanosec p < pacing_packet_time_nanosec p then
        let bucket_required =
              (if train_mode then
                 (if pacing_bucket_max p > 10 * pacing_packet_time_nanosec p
                  then 10 * pacing_packet_time_nanosec p else pacing_bucket_max p) - pacing_bucket_nanosec p
               else pacing_packet_time_nanosec p - pacing_bucket_nanosec p);
            next_pacing_time = current_time + 1 + of_int (c_div bucket_required 1000)
        in (False, p, if next_pacing_time < next_time then next_pacing_time else next_time)
      else (True, p, next_time))"

definition picoquic_update_pacing_after_send :: "cc_path \<Rightarrow> u64 \<Rightarrow> cc_path" where
  "picoquic_update_pacing_after_send p current_time =
     (let p = picoquic_update_pacing_bucket p current_time
      in p\<lparr>pacing_bucket_nanosec := pacing_bucket_nanosec p - pacing_packet_time_nanosec p\<rparr>)"

section \<open>Rate and size\<close>

text \<open>
  The application that asked for pacing updates is told through \<open>callback_fn\<close>; what the
  callback does is outside the model, the rate that was signalled is recorded.
\<close>

text \<open>The three groups of assignments to the path, and the test for the signal.\<close>

definition pacing_set_rate :: "u64 \<Rightarrow> u64 \<Rightarrow> cc_path \<Rightarrow> cc_path" where
  "pacing_set_rate rate quantum p =
     (let p = p\<lparr>pacing_rate := rate\<rparr>;
          p = (if quantum > pacing_quantum_max p then p\<lparr>pacing_quantum_max := quantum\<rparr> else p)
      in if pacing_rate p > pacing_rate_max p then p\<lparr>pacing_rate_max := pacing_rate p\<rparr> else p)"

definition pacing_set_packet_time :: "u64 \<Rightarrow> u64 \<Rightarrow> cc_path \<Rightarrow> cc_path" where
  "pacing_set_packet_time packet_time rtt_nanosec p =
     (let p = p\<lparr>pacing_packet_time_nanosec := sint packet_time\<rparr>
      in if pacing_packet_time_nanosec p \<le> 0
         then p\<lparr>pacing_packet_time_nanosec := 1, pacing_packet_time_microsec := 1\<rparr>
         else
           let p = (if of_int (pacing_packet_time_nanosec p) > rtt_nanosec
                    then p\<lparr>pacing_packet_time_nanosec := sint rtt_nanosec\<rparr> else p)
           in p\<lparr>pacing_packet_time_microsec := (of_int (pacing_packet_time_nanosec p) + 999) div 1000\<rparr>)"

definition pacing_set_bucket_max :: "u64 \<Rightarrow> cc_path \<Rightarrow> cc_path" where
  "pacing_set_bucket_max quantum_time p =
     (let p = p\<lparr>pacing_bucket_max := sint quantum_time\<rparr>;
          p = (if pacing_bucket_max p \<le> 0
               then p\<lparr>pacing_bucket_max := 16 * pacing_packet_time_nanosec p\<rparr> else p)
      in if pacing_bucket_nanosec p > pacing_bucket_max p
         then p\<lparr>pacing_bucket_nanosec := pacing_bucket_max p\<rparr> else p)"

definition pacing_signal :: "nat \<Rightarrow> cc_cnx \<Rightarrow> cc_cnx" where
  "pacing_signal x cnx =
     (let p = paths cnx x in
      if is_pacing_update_requested cnx \<and> path_at cnx 0 = Ok x \<and> has_callback_fn cnx \<and>
         (pacing_rate p > pacing_rate_signalled cnx \<and>
            pacing_rate p - pacing_rate_signalled cnx \<ge> pacing_increase_threshold cnx \<or>
          pacing_rate p < pacing_rate_signalled cnx \<and>
            pacing_rate_signalled cnx - pacing_rate p > pacing_decrease_threshold cnx)
      then cnx\<lparr>pacing_rate_signalled := pacing_rate p\<rparr> else cnx)"

definition picoquic_update_pacing_rate :: "cc_cnx \<Rightarrow> nat \<Rightarrow> double \<Rightarrow> u64 \<Rightarrow> cc_cnx res" where
  "picoquic_update_pacing_rate cnx x rate quantum =
     (let p = paths cnx x;
          packet_time = ddiv (of_u64 (send_mtu p)) rate;
          quantum_time = ddiv (of_u64 quantum) rate;
          rtt_nanosec = smoothed_rtt p * 1000
      in res_bind (to_u64 rate) (\<lambda>r.
         res_bind (to_u64 (dmul packet_time (dlit 1000000000))) (\<lambda>pt.
         res_bind (to_u64 (dmul quantum_time (dlit 1000000000))) (\<lambda>qt.
           let p = pacing_set_rate r quantum p;
               p = pacing_set_packet_time pt rtt_nanosec p;
               p = pacing_set_bucket_max qt p
           in Ok (pacing_signal x (upd_path x (\<lambda>_. p) cnx))))))"

definition picoquic_update_pacing_data :: "cc_cnx \<Rightarrow> nat \<Rightarrow> bool \<Rightarrow> cc_cnx res" where
  "picoquic_update_pacing_data cnx x slow_start =
     (let p = paths cnx x;
          rtt_nanosec = smoothed_rtt p * 1000
      in if \<not> (congestion_algorithm_number cnx \<ge> 6 \<and> nb_paths cnx = 2) \<and>
            (cwin p < send_mtu p * 8 \<or> rtt_nanosec \<le> 1000) then
           let p = p\<lparr>pacing_bucket_max := sint rtt_nanosec, pacing_packet_time_nanosec := 1,
                     pacing_packet_time_microsec := 1\<rparr>;
               p = (if pacing_bucket_nanosec p > pacing_bucket_max p
                    then p\<lparr>pacing_bucket_nanosec := pacing_bucket_max p\<rparr> else p)
           in Ok (upd_path x (\<lambda>_. p) cnx)
         else
           let rate = dmul (ddiv (of_u64 (cwin p)) (of_u64 rtt_nanosec)) (dlit 1000000000);
               quantum = cwin p div 4
           in res_bind
                (if quantum < 2 * send_mtu p then Ok (2 * send_mtu p)
                 else if slow_start \<and> smoothed_rtt p > 60000 then
                   (if quantum < 0x8000 then Ok 0x8000
                    else res_bind (to_u64 (ddiv (dmul rate (dlit 15000)) (dlit 1000000)))
                           (\<lambda>quantum2. Ok (if quantum2 > quantum then quantum2 else quantum)))
                 else if quantum > 16 * send_mtu p then Ok (16 * send_mtu p)
                 else Ok quantum)
                (\<lambda>quantum.
                   let rate = (if slow_start then dmul rate (dlit (5 / 4)) else rate)
                   in picoquic_update_pacing_rate cnx x rate quantum))"

section \<open>The bucket without wrap-around\<close>

text \<open>A path whose times and bucket are small enough for 64-bit arithmetic to be exact.\<close>

definition pacing_sane :: "cc_path \<Rightarrow> bool" where
  "pacing_sane p \<longleftrightarrow> 0 < pacing_packet_time_nanosec p \<and> pacing_packet_time_nanosec p \<le> pacing_bucket_max p \<and>
     pacing_bucket_max p < 2 ^ 62 \<and> pacing_bucket_nanosec p \<le> pacing_bucket_max p \<and>
     - (2 ^ 62) < pacing_bucket_nanosec p"

lemma sint_of_int: "- (2 ^ 63) \<le> k \<Longrightarrow> k < 2 ^ 63 \<Longrightarrow> sint (of_int k :: u64) = k"
  by transfer (simp add: signed_take_bit_int_eq_self)

lemma bucket_sum:
  assumes "pacing_sane p" "unat (t - e) < 2 ^ 51" "k \<le> pacing_bucket_max p" "- (2 ^ 62) < k"
  shows "sint (of_int k + (t - e) * 1000 :: u64) = k + int (unat (t - e)) * 1000"
proof -
  define d where "d = t - e"
  have e: "(of_int k + d * 1000 :: u64) = of_int (k + int (unat d) * 1000)"
    by (simp add: of_nat_unat)
  have "int (unat d) < 2 ^ 51" using assms(2) unfolding d_def by (metis of_nat_less_iff of_nat_numeral of_nat_power)
  then show ?thesis using assms(1,3,4) unfolding d_def [symmetric] e
    by (intro sint_of_int) (simp_all add: pacing_sane_def)
qed

lemma update_bucket_sane:
  assumes "pacing_sane p" "unat (t - pacing_evaluation_time p) < 2 ^ 51"
  shows "pacing_sane (picoquic_update_pacing_bucket p t)"
    "pacing_bucket_nanosec (picoquic_update_pacing_bucket p t) =
       (let b = max (pacing_bucket_nanosec p) (- pacing_packet_time_nanosec p)
        in if t > pacing_evaluation_time p
           then min (pacing_bucket_max p) (b + int (unat (t - pacing_evaluation_time p)) * 1000) else b)"
    "pacing_bucket_max (picoquic_update_pacing_bucket p t) = pacing_bucket_max p"
    "pacing_packet_time_nanosec (picoquic_update_pacing_bucket p t) = pacing_packet_time_nanosec p"
    "pacing_evaluation_time (picoquic_update_pacing_bucket p t) = max t (pacing_evaluation_time p)"
proof -
  define b where "b = max (pacing_bucket_nanosec p) (- pacing_packet_time_nanosec p)"
  have b: "b \<le> pacing_bucket_max p" "- (2 ^ 62) < b" "- pacing_packet_time_nanosec p \<le> b"
    using assms(1) by (auto simp: b_def pacing_sane_def)
  define p1 where "p1 = (if pacing_bucket_nanosec p < - pacing_packet_time_nanosec p
               then p\<lparr>pacing_bucket_nanosec := - pacing_packet_time_nanosec p\<rparr> else p)"
  have p1: "pacing_bucket_nanosec p1 = b" "pacing_evaluation_time p1 = pacing_evaluation_time p"
    "pacing_bucket_max p1 = pacing_bucket_max p" "pacing_packet_time_nanosec p1 = pacing_packet_time_nanosec p"
    by (simp_all add: p1_def b_def)
  define d where "d = (t - pacing_evaluation_time p) * 1000"
  note s = bucket_sum [OF assms b(1,2), folded d_def]
  show bucket: "pacing_bucket_nanosec (picoquic_update_pacing_bucket p t) =
       (let b = max (pacing_bucket_nanosec p) (- pacing_packet_time_nanosec p)
        in if t > pacing_evaluation_time p
           then min (pacing_bucket_max p) (b + int (unat (t - pacing_evaluation_time p)) * 1000) else b)"
    unfolding picoquic_update_pacing_bucket_def p1_def [symmetric] b_def [symmetric] Let_def p1 d_def [symmetric]
    by (simp add: p1 s)
  show m: "pacing_bucket_max (picoquic_update_pacing_bucket p t) = pacing_bucket_max p"
    "pacing_packet_time_nanosec (picoquic_update_pacing_bucket p t) = pacing_packet_time_nanosec p"
    "pacing_evaluation_time (picoquic_update_pacing_bucket p t) = max t (pacing_evaluation_time p)"
    unfolding picoquic_update_pacing_bucket_def p1_def [symmetric] Let_def
    by (auto simp: p1 max_def)
  show "pacing_sane (picoquic_update_pacing_bucket p t)"
    using assms(1) b unfolding pacing_sane_def m bucket b_def [symmetric] Let_def by auto
qed

section \<open>Properties\<close>

text \<open>
  A sender that asks for permission at the times \<open>ts\<close> and sends one packet whenever it gets it:
  the number of packets sent and the path afterwards.
\<close>

fun paced_sends :: "cc_path \<Rightarrow> u64 list \<Rightarrow> nat \<times> cc_path" where
  "paced_sends p [] = (0, p)"
| "paced_sends p (t # ts) =
     (case picoquic_is_sending_authorized_by_pacing False p t UINT64_MAX of
        (ok, p, _) \<Rightarrow>
          if ok then (case paced_sends (picoquic_update_pacing_after_send p t) ts of (n, p) \<Rightarrow> (n + 1, p))
          else paced_sends p ts)"

text \<open>The times do not decrease, start after the last evaluation and are within \<open>2 ^ 51\<close> of it.\<close>

definition times_ok :: "u64 \<Rightarrow> u64 list \<Rightarrow> bool" where
  "times_ok e ts \<longleftrightarrow> sorted (map unat (e # ts)) \<and> (\<forall>t\<in>set ts. unat t < unat e + 2 ^ 51)"

lemma times_ok_Cons:
  assumes "times_ok e (t # ts)"
  shows "e \<le> t" "unat (t - e) < 2 ^ 51" "times_ok t ts" "unat (t - e) = unat t - unat e"
proof -
  show et: "e \<le> t" using assms by (auto simp: times_ok_def word_le_nat_alt)
  then show d: "unat (t - e) = unat t - unat e" by (simp add: unat_sub word_le_nat_alt)
  show "unat (t - e) < 2 ^ 51" using assms et unfolding d by (auto simp: times_ok_def word_le_nat_alt)
  show "times_ok t ts" using assms by (auto simp: times_ok_def)
qed

lemma after_send_same_time:
  assumes "pacing_sane p" "pacing_evaluation_time p = t" "pacing_packet_time_nanosec p \<le> pacing_bucket_nanosec p"
  shows "picoquic_update_pacing_after_send p t = p\<lparr>pacing_bucket_nanosec := pacing_bucket_nanosec p - pacing_packet_time_nanosec p\<rparr>"
  using assms by (simp add: picoquic_update_pacing_after_send_def picoquic_update_pacing_bucket_def pacing_sane_def)

lemma paced_sends_bound:
  assumes "pacing_sane p" "0 \<le> pacing_bucket_nanosec p" "times_ok (pacing_evaluation_time p) ts"
  shows "int (fst (paced_sends p ts)) * pacing_packet_time_nanosec p \<le>
           pacing_bucket_nanosec p + 1000 * int (unat (List.last (pacing_evaluation_time p # ts)) - unat (pacing_evaluation_time p))"
  using assms
proof (induction ts arbitrary: p)
  case Nil
  then show ?case by simp
next
  case (Cons t ts)
  define e where "e = pacing_evaluation_time p"
  define p1 where "p1 = picoquic_update_pacing_bucket p t"
  note tt = times_ok_Cons [OF Cons.prems(3), folded e_def]
  note u = update_bucket_sane [OF Cons.prems(1), of t, folded e_def, OF tt(2), folded p1_def]
  have e1: "pacing_evaluation_time p1 = t" using u(5) tt(1) by simp
  have pt: "0 < pacing_packet_time_nanosec p" using Cons.prems(1) by (simp add: pacing_sane_def)
  have "e = t \<or> e < t" using tt(1) by auto
  then have b1: "pacing_bucket_nanosec p1 \<le> pacing_bucket_nanosec p + 1000 * int (unat t - unat e)"
      "0 \<le> pacing_bucket_nanosec p1"
    using u(2) Cons.prems(1,2) pt tt(4) by (auto simp: Let_def pacing_sane_def)
  have l: "unat t \<le> unat (List.last (t # ts))" "unat e \<le> unat t"
    using Cons.prems(3) by (auto simp: times_ok_def e_def)
  show ?case
  proof (cases "pacing_bucket_nanosec p1 < pacing_packet_time_nanosec p1")
    case True
    then have "paced_sends p (t # ts) = paced_sends p1 ts"
      by (simp add: picoquic_is_sending_authorized_by_pacing_def p1_def [symmetric] Let_def)
    moreover have "int (fst (paced_sends p1 ts)) * pacing_packet_time_nanosec p1 \<le>
        pacing_bucket_nanosec p1 + 1000 * int (unat (List.last (t # ts)) - unat t)"
      using Cons.IH [OF u(1) b1(2)] tt(3) unfolding e1 by blast
    ultimately show ?thesis using b1 l u(4) unfolding e_def [symmetric] by (simp add: of_nat_diff)
  next
    case False
    define p2 where "p2 = picoquic_update_pacing_after_send p1 t"
    have p2: "p2 = p1\<lparr>pacing_bucket_nanosec := pacing_bucket_nanosec p1 - pacing_packet_time_nanosec p1\<rparr>"
      unfolding p2_def by (rule after_send_same_time [OF u(1) e1]) (use False in simp)
    then have f: "fst (paced_sends p (t # ts)) = fst (paced_sends p2 ts) + 1"
      using False by (simp add: picoquic_is_sending_authorized_by_pacing_def p1_def [symmetric] p2_def [symmetric] split: prod.splits)
    have "pacing_sane p2" using u(1) False p2 by (simp add: pacing_sane_def)
    moreover have "0 \<le> pacing_bucket_nanosec p2" using False p2 by simp
    ultimately have "int (fst (paced_sends p2 ts)) * pacing_packet_time_nanosec p2 \<le>
        pacing_bucket_nanosec p2 + 1000 * int (unat (List.last (t # ts)) - unat t)"
      using Cons.IH [of p2] tt(3) e1 p2 by simp
    then show ?thesis using b1 l u(4) p2 unfolding f e_def [symmetric] by (simp add: of_nat_diff algebra_simps)
  qed
qed

text \<open>
  C18: the bucket is a rate limiter. However often the sender asks, the packets sent between the
  last evaluation and the last request take at most the bucket plus the elapsed time, counted
  at the time per packet that pacing has set.
\<close>

theorem pacing_rate_bound:
  assumes "pacing_sane p" "0 \<le> pacing_bucket_nanosec p" "times_ok (pacing_evaluation_time p) ts"
  shows "int (fst (paced_sends p ts)) * pacing_packet_time_nanosec p \<le>
           pacing_bucket_max p + 1000 * int (unat (List.last (pacing_evaluation_time p # ts)) - unat (pacing_evaluation_time p))"
  using paced_sends_bound [OF assms] assms(1) by (simp add: pacing_sane_def)

text \<open>A path for the witnesses: one packet takes 2000 nanoseconds, the bucket holds two.\<close>

definition example_path :: cc_path where
  "example_path =
     \<lparr>path_packet_number = 100, path_packet_acked_number = 90, path_packet_acked_time_sent = 0,
      is_cc_data_updated = False, is_ssthresh_initialized = False, smoothed_rtt = 50000,
      rtt_min = 40000, send_mtu = 1440, max_bandwidth_estimate = 0, cwin = 15360,
      last_sender_limited_time = 0, last_time_acked_data_frame_sent = 1000, pacing_rate = 0,
      pacing_evaluation_time = 10, pacing_bucket_nanosec = 4000, pacing_bucket_max = 4000,
      pacing_packet_time_nanosec = 2000, pacing_packet_time_microsec = 2, pacing_quantum_max = 0,
      pacing_rate_max = 0\<rparr>"

lemma example_path_sane: "pacing_sane example_path"
  by (simp add: pacing_sane_def example_path_def)

theorem pacing_rate_bound_witness:
  "int (fst (paced_sends example_path [10, 10, 10, 11, 12])) * 2000 \<le> 4000 + 1000 * 2"
  using pacing_rate_bound [OF example_path_sane, of "[10, 10, 10, 11, 12]"]
  by (simp add: example_path_def times_ok_def)

text \<open>
  C24: when pacing refuses a packet, the wake-up time it computes is late enough: at that time,
  without a packet in between, the packet is authorised.
\<close>

theorem pacing_wakeup_suffices:
  assumes "pacing_sane p" "pacing_evaluation_time p \<le> t" "unat t < 2 ^ 50"
    "picoquic_is_sending_authorized_by_pacing False p t UINT64_MAX = (False, p', wake)"
    "- pacing_packet_time_nanosec p \<le> pacing_bucket_nanosec p" "pacing_packet_time_nanosec p < 2 ^ 50"
  shows "t < wake \<and> fst (picoquic_is_sending_authorized_by_pacing False p' wake UINT64_MAX)"
proof -
  define e where "e = pacing_evaluation_time p"
  have d: "unat (t - e) < 2 ^ 51" using assms(2,3) by (simp add: e_def unat_sub word_le_nat_alt)
  note u = update_bucket_sane [OF assms(1), of t, folded e_def, OF d]
  have p': "p' = picoquic_update_pacing_bucket p t"
    using assms(4) by (simp add: picoquic_is_sending_authorized_by_pacing_def Let_def split: if_splits)
  note u = u [folded p']
  have low: "pacing_bucket_nanosec p' < pacing_packet_time_nanosec p'"
    using assms(4) unfolding picoquic_is_sending_authorized_by_pacing_def p' by (simp add: Let_def split: if_splits)
  define req where "req = pacing_packet_time_nanosec p' - pacing_bucket_nanosec p'"
  have b': "- pacing_packet_time_nanosec p \<le> pacing_bucket_nanosec p'"
    using u(2) assms(1,5) by (auto simp: Let_def pacing_sane_def)
  then have req: "0 < req" "req < 2 ^ 51" using low u(4) assms(6) by (simp_all add: req_def)
  define w where "w = t + 1 + of_int (req div 1000)"
  define k where "k = nat (req div 1000)"
  define j where "j = k + 1"
  have k: "req < 1000 * (int k + 1)" "k < 2 ^ 50" using req by (auto simp: k_def)
  have w: "w = t + of_nat j" using req by (simp add: w_def k_def j_def)
  have "j < 2 ^ 64" using k(2) by (simp add: j_def)
  then have uk: "unat (of_nat j :: u64) = j" by (simp add: unsigned_of_nat take_bit_nat_eq_self)
  have uw: "unat w = unat t + j"
    using assms(3) k(2) uk j_def unfolding w by (subst unat_plus_if') simp
  then have tw: "t < w" "unat (w - t) = j" using j_def by (simp_all add: word_less_nat_alt unat_sub word_le_nat_alt)
  have "w < UINT64_MAX" using uw assms(3) k(2) j_def by (simp add: word_less_nat_alt)
  then have wake: "wake = w"
    using assms(4) low req unfolding picoquic_is_sending_authorized_by_pacing_def p' [symmetric] w_def req_def
    by (simp add: Let_def c_div_def)
  have et: "pacing_evaluation_time p' = t" using u(5) assms(2) by (simp add: e_def)
  have d': "unat (w - pacing_evaluation_time p') < 2 ^ 51" using tw k(2) unfolding et j_def by simp
  note u' = update_bucket_sane [OF u(1) d']
  have "pacing_packet_time_nanosec p \<le> pacing_bucket_max p" using assms(1) by (simp add: pacing_sane_def)
  then have "pacing_packet_time_nanosec p \<le> pacing_bucket_nanosec (picoquic_update_pacing_bucket p' w)"
    using tw k(1) u(3,4) b' unfolding u'(2) et j_def by (auto simp: Let_def req_def)
  then show ?thesis using tw(1) u(4) u'(4) unfolding wake picoquic_is_sending_authorized_by_pacing_def
    by (simp add: Let_def)
qed

theorem pacing_wakeup_suffices_witness:
  "(10::u64) < 12 \<and> fst (picoquic_is_sending_authorized_by_pacing False
     (example_path\<lparr>pacing_bucket_nanosec := 500\<rparr>) 12 UINT64_MAX)"
proof (rule pacing_wakeup_suffices [where p = "example_path\<lparr>pacing_bucket_nanosec := 500\<rparr>" and t = 10])
qed (simp_all add: pacing_sane_def example_path_def picoquic_is_sending_authorized_by_pacing_def
      picoquic_update_pacing_bucket_def c_div_def)

end
