(* ===== verification/DoubleRange.thy ===== *)
theory DoubleRange
  imports DoubleFacts
begin

text \<open>
  Ranges of doubles. A double is between \<open>a\<close> and \<open>b\<close> when it lies from \<open>2 ^ a\<close> and
  \<open>2 ^ b\<close>; rounding keeps such bounds, so the range of an expression follows from those of its
  parts, and a range below 64 makes the conversion to \<open>uint64_t\<close> defined.
\<close>

definition between :: "int \<Rightarrow> int \<Rightarrow> double \<Rightarrow> bool" where
  "between a b d \<longleftrightarrow> (\<exists>x. d = Fin x \<and> 2 powi a \<le> x \<and> x \<le> 2 powi b)"

lemma rnd_between:
  assumes "2 powi a \<le> x" "x \<le> 2 powi b" "- 1000 \<le> a" "b \<le> 1000"
  shows "between a b (rnd x)"
proof -
  have x: "0 \<le> x" by (rule order_trans [OF _ assms(1)]) simp
  have "(2::rat) powi a \<le> 2 powi b" using assms by linarith
  then have ab: "a \<le> b" by (simp add: powi_le_iff)
  have "(2::rat) powi b \<le> 2 powi 1000" using assms(4) by (simp only: powi_le_iff)
  then have "x \<le> 2 ^ 1000" using assms(2) by simp
  then have "rnd x = Fin (fl x)" using x by (intro rnd_Fin)
  moreover have "2 powi a \<le> fl x" using fl_ge_dyadic [of 1 a x] assms by simp
  moreover have "fl x \<le> 2 powi b" using fl_le_dyadic [of x 1 b] assms x ab by simp
  ultimately show ?thesis by (simp add: between_def)
qed

lemma between_mul:
  assumes "between a b x" "between c d y" "- 1000 \<le> a + c" "b + d \<le> 1000"
  shows "between (a + c) (b + d) (dmul x y)"
proof -
  obtain u v where uv: "x = Fin u" "y = Fin v" "2 powi a \<le> u" "u \<le> 2 powi b" "2 powi c \<le> v" "v \<le> 2 powi d"
    using assms by (auto simp: between_def)
  have n: "0 \<le> u" "0 \<le> v" by (rule order_trans [OF _ uv(3)], simp) (rule order_trans [OF _ uv(5)], simp)
  have "2 powi (a + c) \<le> u * v" "u * v \<le> 2 powi (b + d)"
    unfolding power_int_add [OF disjI1, of "2::rat", simplified]
    by (rule mult_mono [OF uv(3,5) n(1)], simp) (rule mult_mono [OF uv(4,6) _ n(2)], simp)
  then show ?thesis using uv assms rnd_between by simp
qed

lemma between_div:
  assumes "between a b x" "between c d y" "- 1000 \<le> a - d" "b - c \<le> 1000"
  shows "between (a - d) (b - c) (ddiv x y)"
proof -
  obtain u v where uv: "x = Fin u" "y = Fin v" "2 powi a \<le> u" "u \<le> 2 powi b" "2 powi c \<le> v" "v \<le> 2 powi d"
    using assms by (auto simp: between_def)
  have n: "0 < u" "0 < v" by (rule less_le_trans [OF _ uv(3)], simp) (rule less_le_trans [OF _ uv(5)], simp)
  have "2 powi (a - d) \<le> u / v" "u / v \<le> 2 powi (b - c)"
    unfolding power_int_diff [OF disjI1, of "2::rat", simplified]
    by (rule frac_le [OF less_imp_le [OF n(1)] uv(3) n(2) uv(6)], rule frac_le [OF _ uv(4) _ uv(5)]) simp_all
  then show ?thesis using uv n assms rnd_between by simp
qed

lemma between_of_u64:
  assumes "2 ^ a \<le> unat n" "unat n \<le> 2 ^ b" "b \<le> 1000"
  shows "between (int a) (int b) (of_u64 n)"
proof -
  have "rat_of_nat (2 ^ a) \<le> rat_of_nat (unat n)" "rat_of_nat (unat n) \<le> rat_of_nat (2 ^ b)"
    using assms by (simp_all only: of_nat_le_iff)
  then show ?thesis unfolding of_u64_def using assms(3) by (intro rnd_between) simp_all
qed

lemma between_weaken:
  assumes "between a b x" "a' \<le> a" "b \<le> b'"
  shows "between a' b' x"
proof -
  have "(2::rat) powi a' \<le> 2 powi a" "(2::rat) powi b \<le> 2 powi b'" using assms by (simp_all only: powi_le_iff)
  then show ?thesis using assms(1) unfolding between_def by (auto intro: order_trans)
qed

lemma between_to_u64:
  assumes "between a b x" "b < 64"
  shows "\<exists>n. to_u64 x = Ok n \<and> unat n \<le> 2 ^ nat b"
proof -
  obtain u where u: "x = Fin u" "2 powi a \<le> u" "u \<le> 2 powi b" using assms(1) by (auto simp: between_def)
  have p: "0 \<le> u" by (rule order_trans [OF _ u(2)]) simp
  have "(2::rat) powi b \<le> 2 powi (int (nat b))" by (subst powi_le_iff) simp
  then have ub: "u \<le> 2 ^ nat b" using u(3) unfolding power_int_of_nat by (rule order_trans [rotated])
  have "(2::rat) powi b < 2 powi 64" using assms(2) by (simp only: powi_less_iff)
  then have "0 \<le> u" "u < 2 ^ 64" using u(3) p by simp_all
  from to_u64_floor [OF this] obtain n where n: "to_u64 (Fin u) = Ok n" "unat n = nat \<lfloor>u\<rfloor>" by blast
  have "\<lfloor>u\<rfloor> \<le> 2 ^ nat b" using ub by (simp add: floor_le_iff)
  then have "unat n \<le> nat (2 ^ nat b)" unfolding n(2) by (rule nat_mono)
  then show ?thesis using u n by (simp add: nat_power_eq)
qed

lemma between_dlit: "2 powi a \<le> x \<Longrightarrow> x \<le> 2 powi b \<Longrightarrow> - 1000 \<le> a \<Longrightarrow> b \<le> 1000 \<Longrightarrow> between a b (dlit x)"
  unfolding dlit_def by (rule rnd_between)

end
