(* ===== verification/PacingRate.thy ===== *)
theory PacingRate
  imports Pacing DoubleRange
begin

text \<open>
  The rate computation always ends with parameters that the bucket can work with: for the
  windows, packet sizes and round trip times of the ranges below, no conversion of a double is
  undefined, and the bucket is left in a state where 64-bit arithmetic is exact.
\<close>

text \<open>
  Windows from 2 KB to 2 GB, packets up to 64 KB, round trip times from a microsecond to 17
  minutes.
\<close>

definition pacing_ranges :: "cc_path \<Rightarrow> bool" where
  "pacing_ranges p \<longleftrightarrow> 2 ^ 11 \<le> unat (cwin p) \<and> unat (cwin p) \<le> 2 ^ 31 \<and> 1 \<le> unat (send_mtu p) \<and>
     unat (send_mtu p) \<le> 2 ^ 16 \<and> 1 \<le> unat (smoothed_rtt p) \<and> unat (smoothed_rtt p) \<le> 2 ^ 30"

lemma rnd_FinD: "rnd x = Fin y \<Longrightarrow> y = fl x"
  by (simp add: rnd_def split: if_splits)

lemma between_Fin: "between a b x \<Longrightarrow> \<exists>u. x = Fin u \<and> 0 < u"
proof -
  assume "between a b x"
  then obtain u where u: "x = Fin u" "2 powi a \<le> u" by (auto simp: between_def)
  moreover have "0 < u" by (rule less_le_trans [OF _ u(2)]) simp
  ultimately show ?thesis by blast
qed

definition time_at :: "double \<Rightarrow> u64 \<Rightarrow> double" where
  "time_at rate n = dmul (ddiv (of_u64 n) rate) (dlit 1000000000)"

lemma billion: "between 29 30 (dlit 1000000000)" by (rule between_dlit) simp_all

lemma time_at_between:
  assumes "between 0 62 rate" "1 \<le> unat n" "unat n \<le> 2 ^ b" "b \<le> 33"
  shows "between (- 33) (int b + 30) (time_at rate n)"
proof -
  have "between 0 (int b) (of_u64 n)" using between_of_u64 [of 0 n b] assms by simp
  from between_div [OF this assms(1)] have "between (- 62) (int b) (ddiv (of_u64 n) rate)" using assms(4) by simp
  from between_mul [OF this billion] show ?thesis using assms(4) by (simp add: time_at_def)
qed

lemma time_at_mono:
  assumes "between 0 62 rate" "1 \<le> unat m" "unat m \<le> unat n" "unat n \<le> 2 ^ 33"
    "to_u64 (time_at rate m) = Ok s" "to_u64 (time_at rate n) = Ok t"
  shows "unat s \<le> unat t"
proof -
  obtain r where r: "rate = Fin r" "0 < r" using between_Fin assms(1) by blast
  obtain g where g: "dlit 1000000000 = Fin g" "0 < g" using between_Fin billion by blast
  define time where "time n = fl (fl (fl (rat_of_nat (unat n)) / r) * g)" for n :: u64
  have t: "time_at rate k = Fin (time k)" if "1 \<le> unat k" "unat k \<le> 2 ^ 33" for k
  proof -
    have "between 0 33 (of_u64 k)" using between_of_u64 [of 0 k 33] that by simp
    from between_Fin [OF between_div [OF this assms(1)]]
    obtain y where y: "ddiv (of_u64 k) rate = Fin y" by auto
    from between_Fin [OF time_at_between [OF assms(1) that]]
    obtain z where z: "time_at rate k = Fin z" by auto
    have "y = fl (fl (rat_of_nat (unat k)) / r)" using y r by (simp add: of_u64_Fin rnd_FinD)
    moreover have "z = fl (y * g)" using z y g by (simp add: time_at_def rnd_FinD)
    ultimately show ?thesis using z by (simp add: time_def)
  qed
  have "time m \<le> time n" unfolding time_def using assms(3) r g
    by (intro fl_mono mult_right_mono divide_right_mono) (simp_all add: fl_nonneg)
  moreover have "0 \<le> time m" unfolding time_def using r g by (simp add: fl_nonneg)
  moreover have "time n < 2 ^ 64" using assms t [of n] by (auto split: if_splits)
  ultimately have "unat s = nat \<lfloor>time m\<rfloor>" "unat t = nat \<lfloor>time n\<rfloor>" "time m \<le> time n"
    using to_u64_floor [of "time m"] to_u64_floor [of "time n"] assms t [of m] t [of n] by (simp_all del: to_u64.simps)
  then show ?thesis by (simp add: floor_mono nat_mono)
qed

lemma sint_small: "n < 2 ^ 63 \<Longrightarrow> sint (of_nat n :: u64) = int n"
  using sint_of_int [of "int n"] by simp

lemma u64_of_nat:
  obtains k where "(n::u64) = of_nat k" "unat n = k" "k < 2 ^ 64"
proof -
  have "of_nat (unat n) = n" by (simp add: of_nat_unat)
  then show thesis using unsigned_less [of n, where 'a = nat] that [of "unat n"] by simp
qed

section \<open>The assignments\<close>

definition same_path_but_pacing :: "cc_path \<Rightarrow> cc_path \<Rightarrow> bool" where
  "same_path_but_pacing p q \<longleftrightarrow> cwin q = cwin p \<and> smoothed_rtt q = smoothed_rtt p \<and> send_mtu q = send_mtu p \<and>
     rtt_min q = rtt_min p \<and> path_packet_number q = path_packet_number p \<and>
     path_packet_acked_number q = path_packet_acked_number p \<and>
     path_packet_acked_time_sent q = path_packet_acked_time_sent p"

lemma set_rate_keeps:
  "pacing_bucket_nanosec (pacing_set_rate r q p) = pacing_bucket_nanosec p"
  "same_path_but_pacing p (pacing_set_rate r q p)"
  by (simp_all add: pacing_set_rate_def same_path_but_pacing_def Let_def)

lemma set_packet_time_keeps:
  "pacing_bucket_nanosec (pacing_set_packet_time pt rtt p) = pacing_bucket_nanosec p"
  "same_path_but_pacing p (pacing_set_packet_time pt rtt p)"
  by (simp_all add: pacing_set_packet_time_def same_path_but_pacing_def Let_def)

lemma set_bucket_max_keeps:
  "pacing_packet_time_nanosec (pacing_set_bucket_max qt p) = pacing_packet_time_nanosec p"
  "same_path_but_pacing p (pacing_set_bucket_max qt p)"
  by (simp_all add: pacing_set_bucket_max_def same_path_but_pacing_def Let_def)

lemma packet_time_set:
  assumes "unat pt < 2 ^ 60" "1000 \<le> unat rtt" "unat rtt < 2 ^ 60"
  shows "0 < pacing_packet_time_nanosec (pacing_set_packet_time pt rtt p)"
    "pacing_packet_time_nanosec (pacing_set_packet_time pt rtt p) \<le> max 1 (int (unat pt))"
    "pacing_packet_time_nanosec (pacing_set_packet_time pt rtt p) \<le> int (unat rtt)"
proof -
  obtain a b where ab: "pt = of_nat a" "unat pt = a" "rtt = of_nat b" "unat rtt = b"
    using u64_of_nat [of pt] u64_of_nat [of rtt] by metis
  have i: "sint pt = int a" "sint rtt = int b" unfolding ab(1,3)
    using assms unfolding ab(2,4) by (auto intro!: sint_small)
  have "(of_int (int a) :: u64) = pt" using ab(1) by simp
  then show "0 < pacing_packet_time_nanosec (pacing_set_packet_time pt rtt p)"
    "pacing_packet_time_nanosec (pacing_set_packet_time pt rtt p) \<le> max 1 (int (unat pt))"
    "pacing_packet_time_nanosec (pacing_set_packet_time pt rtt p) \<le> int (unat rtt)"
    using assms unfolding pacing_set_packet_time_def i ab(2,4) Let_def
    by (simp_all add: i word_less_nat_alt ab(2,4) del: of_int_of_nat_eq)
qed

lemma bucket_max_set:
  assumes "unat qt < 2 ^ 62" "0 < pacing_packet_time_nanosec p" "pacing_packet_time_nanosec p < 2 ^ 58"
    "pacing_packet_time_nanosec p \<le> max 1 (int (unat qt))" "- (2 ^ 62) < pacing_bucket_nanosec p"
  shows "pacing_sane (pacing_set_bucket_max qt p)"
proof -
  obtain a where a: "qt = of_nat a" "unat qt = a" using u64_of_nat [of qt] by metis
  have i: "sint qt = int a" using assms(1) unfolding a(2) unfolding a(1) by (auto intro!: sint_small)
  show ?thesis using assms unfolding pacing_set_bucket_max_def pacing_sane_def Let_def i a(2)
    by auto
qed

lemma signal_keeps [simp]: "paths (pacing_signal x cnx) = paths cnx" "path (pacing_signal x cnx) = path cnx"
  by (simp_all add: pacing_signal_def Let_def)

lemma rtt_nanosec: "pacing_ranges p \<Longrightarrow> unat (smoothed_rtt p * 1000) = unat (smoothed_rtt p) * 1000"
  by (simp add: pacing_ranges_def unat_mult_lem [THEN iffD1])

section \<open>The rate and the bucket\<close>

lemma same_path_trans: "same_path_but_pacing p q \<Longrightarrow> same_path_but_pacing q r \<Longrightarrow> same_path_but_pacing p r"
  by (simp add: same_path_but_pacing_def)

text \<open>What an update of the pacing of path \<open>x\<close> leaves behind.\<close>

definition pacing_updated :: "nat \<Rightarrow> cc_cnx \<Rightarrow> cc_cnx \<Rightarrow> bool" where
  "pacing_updated x cnx cnx' \<longleftrightarrow> pacing_sane (paths cnx' x) \<and> same_path_but_pacing (paths cnx x) (paths cnx' x) \<and>
     (\<forall>y. y \<noteq> x \<longrightarrow> paths cnx' y = paths cnx y) \<and> path cnx' = path cnx"

lemma update_pacing_rate_sane:
  assumes r: "pacing_ranges (paths cnx x)" "between 0 62 rate" and
    q: "unat (send_mtu (paths cnx x)) \<le> unat quantum" "unat quantum \<le> 2 ^ 31" and
    b: "- (2 ^ 62) < pacing_bucket_nanosec (paths cnx x)"
  shows "\<exists>cnx'. picoquic_update_pacing_rate cnx x rate quantum = Ok cnx' \<and> pacing_updated x cnx cnx'"
proof -
  define p where "p = paths cnx x"
  have m: "1 \<le> unat (send_mtu p)" "unat (send_mtu p) \<le> 2 ^ 16" "1 \<le> unat quantum" "unat (send_mtu p) \<le> unat quantum"
    "unat quantum \<le> 2 ^ 33"
    using r(1) q by (simp_all add: pacing_ranges_def p_def)
  obtain n where n: "to_u64 rate = Ok n" using between_to_u64 [OF r(2)] by auto
  obtain pt where pt: "to_u64 (time_at rate (send_mtu p)) = Ok pt" "unat pt \<le> 2 ^ 46"
    using between_to_u64 [OF time_at_between [OF r(2) m(1,2)]] by auto
  obtain qt where qt: "to_u64 (time_at rate quantum) = Ok qt" "unat qt \<le> 2 ^ 61"
    using between_to_u64 [OF time_at_between [OF r(2) m(3) q(2)]] by auto
  have pq: "unat pt \<le> unat qt" using time_at_mono [OF r(2) m(1,4,5) pt(1) qt(1)] .
  define p1 where "p1 = pacing_set_rate n quantum p"
  define p2 where "p2 = pacing_set_packet_time pt (smoothed_rtt p * 1000) p1"
  define p3 where "p3 = pacing_set_bucket_max qt p2"
  have same: "same_path_but_pacing p p3" "pacing_bucket_nanosec p2 = pacing_bucket_nanosec p"
    unfolding p3_def p2_def p1_def set_rate_keeps set_packet_time_keeps
    by (meson same_path_trans set_rate_keeps set_packet_time_keeps set_bucket_max_keeps) simp
  have rtt: "1000 \<le> unat (smoothed_rtt p * 1000)" "unat (smoothed_rtt p * 1000) < 2 ^ 60"
    using r(1) by (simp_all add: rtt_nanosec p_def [symmetric]) (simp_all add: pacing_ranges_def)
  have "unat pt < 2 ^ 60" using pt(2) by simp
  note t = packet_time_set [OF this rtt, of p1, folded p2_def]
  have "pacing_sane p3" unfolding p3_def
    using t pq pt(2) qt(2) b unfolding p_def [symmetric] same(2) [symmetric] by (intro bucket_max_set) auto
  moreover have "picoquic_update_pacing_rate cnx x rate quantum = Ok (pacing_signal x (upd_path x (\<lambda>_. p3) cnx))"
    using n pt(1) qt(1) by (simp add: picoquic_update_pacing_rate_def Let_def time_at_def p_def [symmetric] p1_def p2_def p3_def)
  ultimately show ?thesis using same(1)
    by (simp add: pacing_updated_def upd_path_def p_def)
qed

definition pacing_quantum :: "cc_path \<Rightarrow> bool \<Rightarrow> double \<Rightarrow> u64 res" where
  "pacing_quantum p slow_start rate =
     (let quantum = cwin p div 4 in
      if quantum < 2 * send_mtu p then Ok (2 * send_mtu p)
      else if slow_start \<and> smoothed_rtt p > 60000 then
        (if quantum < 0x8000 then Ok 0x8000
         else res_bind (to_u64 (ddiv (dmul rate (dlit 15000)) (dlit 1000000)))
                (\<lambda>quantum2. Ok (if quantum2 > quantum then quantum2 else quantum)))
      else if quantum > 16 * send_mtu p then Ok (16 * send_mtu p)
      else Ok quantum)"

definition window_rate :: "cc_path \<Rightarrow> double" where
  "window_rate p = dmul (ddiv (of_u64 (cwin p)) (of_u64 (smoothed_rtt p * 1000))) (dlit 1000000000)"

lemma window_rate_between:
  assumes "pacing_ranges p" "2 ^ a \<le> unat (smoothed_rtt p) * 1000" "a \<le> 40"
  shows "between 0 (61 - int a) (window_rate p)"
proof -
  have "between 11 31 (of_u64 (cwin p))" using between_of_u64 [of 11 "cwin p" 31] assms(1) by (simp add: pacing_ranges_def)
  moreover have "unat (smoothed_rtt p) * 1000 \<le> 2 ^ 40" using assms(1) by (simp add: pacing_ranges_def)
  then have "between (int a) 40 (of_u64 (smoothed_rtt p * 1000))"
    using between_of_u64 [of a "smoothed_rtt p * 1000" 40] assms by (simp add: rtt_nanosec)
  ultimately have "between (11 - 40) (31 - int a) (ddiv (of_u64 (cwin p)) (of_u64 (smoothed_rtt p * 1000)))"
    using assms(3) by (intro between_div) simp_all
  from between_mul [OF this billion] assms(3)
  have "between 0 (61 - int a) (dmul (ddiv (of_u64 (cwin p)) (of_u64 (smoothed_rtt p * 1000))) (dlit 1000000000))" by simp
  then show ?thesis unfolding window_rate_def .
qed

lemma pacing_quantum_range:
  assumes "pacing_ranges p"
  shows "\<exists>q. pacing_quantum p ss (window_rate p) = Ok q \<and> unat (send_mtu p) \<le> unat q \<and> unat q \<le> 2 ^ 31"
proof -
  have m: "unat (2 * send_mtu p) = 2 * unat (send_mtu p)" "unat (16 * send_mtu p) = 16 * unat (send_mtu p)"
    "unat (cwin p div 4) = unat (cwin p) div 4"
    using assms by (simp_all add: pacing_ranges_def unat_mult_lem [THEN iffD1] unat_div)
  have d: "unat (cwin p) div 4 \<le> 2 ^ 31" using assms unfolding pacing_ranges_def by (elim conjE) (rule order_trans [OF div_le_dividend])
  have "\<exists>q2. to_u64 (ddiv (dmul (window_rate p) (dlit 15000)) (dlit 1000000)) = Ok q2 \<and> unat q2 \<le> 2 ^ 31"
    if "smoothed_rtt p > 60000"
  proof -
    have "between 0 36 (window_rate p)" using window_rate_between [OF assms, of 25] that by (simp add: word_less_nat_alt)
    moreover have "between 13 14 (dlit 15000)" "between 19 20 (dlit 1000000)" by (rule between_dlit; simp)+
    ultimately have "between (0 + 13 - 20) (36 + 14 - 19) (ddiv (dmul (window_rate p) (dlit 15000)) (dlit 1000000))"
      by (intro between_div between_mul) simp_all
    from between_to_u64 [OF this] show ?thesis by simp
  qed
  then show ?thesis using assms m d
    by (auto simp: pacing_quantum_def Let_def word_less_nat_alt pacing_ranges_def not_less)
qed

lemma update_pacing_data_eq:
  "picoquic_update_pacing_data cnx x ss =
     (let p = paths cnx x; rtt_nanosec = smoothed_rtt p * 1000 in
      if \<not> (congestion_algorithm_number cnx \<ge> 6 \<and> nb_paths cnx = 2) \<and>
         (cwin p < send_mtu p * 8 \<or> rtt_nanosec \<le> 1000) then
        let p = p\<lparr>pacing_bucket_max := sint rtt_nanosec, pacing_packet_time_nanosec := 1,
                     pacing_packet_time_microsec := 1\<rparr>;
            p = (if pacing_bucket_nanosec p > pacing_bucket_max p
                 then p\<lparr>pacing_bucket_nanosec := pacing_bucket_max p\<rparr> else p)
        in Ok (upd_path x (\<lambda>_. p) cnx)
      else res_bind (pacing_quantum p ss (window_rate p))
             (picoquic_update_pacing_rate cnx x (if ss then dmul (window_rate p) (dlit (5 / 4)) else window_rate p)))"
  by (simp add: picoquic_update_pacing_data_def pacing_quantum_def window_rate_def Let_def)

lemma pacing_data_updated:
  assumes "pacing_ranges (paths cnx x)" "- (2 ^ 62) < pacing_bucket_nanosec (paths cnx x)"
  shows "\<exists>cnx'. picoquic_update_pacing_data cnx x ss = Ok cnx' \<and> pacing_updated x cnx cnx'"
proof -
  define p where "p = paths cnx x"
  have r: "pacing_ranges p" using assms(1) by (simp add: p_def)
  have rtt: "unat (smoothed_rtt p * 1000) = unat (smoothed_rtt p) * 1000" by (rule rtt_nanosec [OF r])
  then have "sint (smoothed_rtt p * 1000) = int (unat (smoothed_rtt p) * 1000)"
    using sint_small [of "unat (smoothed_rtt p * 1000)"] r by (simp add: of_nat_unat pacing_ranges_def)
  moreover have "between 0 62 (if ss then dmul (window_rate p) (dlit (5 / 4)) else window_rate p)"
  proof -
    have w: "between 0 52 (window_rate p)" using window_rate_between [OF r, of 9] r by (simp add: pacing_ranges_def)
    have "between (0 + 0) (52 + 1) (dmul (window_rate p) (dlit (5 / 4)))"
      by (rule between_mul [OF w between_dlit]) simp_all
    with w show ?thesis by (auto intro: between_weaken)
  qed
  moreover obtain q where "pacing_quantum p ss (window_rate p) = Ok q" "unat (send_mtu p) \<le> unat q" "unat q \<le> 2 ^ 31"
    using pacing_quantum_range [OF r] by blast
  ultimately show ?thesis using assms update_pacing_rate_sane [of cnx x]
    by (auto simp: update_pacing_data_eq Let_def p_def [symmetric] pacing_updated_def pacing_sane_def upd_path_def
        same_path_but_pacing_def pacing_ranges_def)
qed

text \<open>
  Also: after every update of the pacing of a path from its congestion window, the bucket is in a
  state that the rate limiter can work with: the time per packet is positive and fits the bucket,
  the bucket is at most full, and nothing but the pacing of this path has changed. No conversion
  from floating point is undefined on the way.
\<close>

theorem update_pacing_data_sane:
  assumes "pacing_ranges (paths cnx x)" "- (2 ^ 62) < pacing_bucket_nanosec (paths cnx x)"
  shows "\<exists>cnx'. picoquic_update_pacing_data cnx x ss = Ok cnx' \<and> pacing_updated x cnx cnx'"
  by (rule pacing_data_updated [OF assms])

definition example_cnx :: cc_cnx where
  "example_cnx =
     \<lparr>paths = (\<lambda>x. example_path\<lparr>path_packet_number := of_nat x\<rparr>), path = [10, 11], multipath_enabled = True,
      is_time_stamp_enabled = False, congestion_algorithm_number = 7, packet_train_mode = False,
      is_pacing_update_requested = False, has_callback_fn = False, pacing_rate_signalled = 0,
      pacing_increase_threshold = 0, pacing_decrease_threshold = 0\<rparr>"

theorem update_pacing_data_sane_witness:
  "\<exists>cnx'. picoquic_update_pacing_data example_cnx 10 False = Ok cnx' \<and> pacing_updated 10 example_cnx cnx'"
  by (rule update_pacing_data_sane) (simp_all add: pacing_ranges_def example_cnx_def example_path_def)

end
