(* ===== verification/NewReno.thy ===== *)
theory NewReno
  imports PacingRate
begin

text \<open>
  New Reno, from \<open>picoquic/newreno.c\<close>: the simulation that other algorithms also run, and the
  stand-alone algorithm on top of it.

  The state of the algorithm hangs off the path (\<open>congestion_alg_state\<close>, NULL when its allocation
  failed); here it is an argument and a result of type \<open>newreno_state option\<close>.
\<close>

section \<open>The simulation\<close>

datatype newreno_alg_state = slow_start | congestion_avoidance

record sim_state =
  alg_state :: newreno_alg_state
  sim_cwin :: u64
  residual_ack :: u64
  ssthresh :: u64
  recovery_start :: u64
  recovery_sequence :: u64

definition picoquic_newreno_sim_reset :: sim_state where
  "picoquic_newreno_sim_reset =
     \<lparr>alg_state = slow_start, sim_cwin = PICOQUIC_CWIN_INITIAL, residual_ack = 0,
      ssthresh = UINT64_MAX, recovery_start = 0, recovery_sequence = 0\<rparr>"

definition picoquic_newreno_sim_enter_recovery ::
    "sim_state \<Rightarrow> cc_cnx \<Rightarrow> nat \<Rightarrow> notification \<Rightarrow> u64 \<Rightarrow> sim_state" where
  "picoquic_newreno_sim_enter_recovery nr_state cnx x event current_time =
     (let nr_state = nr_state\<lparr>ssthresh := sim_cwin nr_state div 2\<rparr>;
          nr_state = (if ssthresh nr_state < PICOQUIC_CWIN_MINIMUM
                      then nr_state\<lparr>ssthresh := PICOQUIC_CWIN_MINIMUM\<rparr> else nr_state);
          nr_state = (if event = timeout
                      then nr_state\<lparr>sim_cwin := PICOQUIC_CWIN_MINIMUM, alg_state := slow_start\<rparr>
                      else nr_state\<lparr>sim_cwin := ssthresh nr_state, alg_state := congestion_avoidance\<rparr>)
      in nr_state\<lparr>recovery_start := current_time,
                  recovery_sequence := picoquic_cc_get_sequence_number cnx x, residual_ack := 0\<rparr>)"

definition picoquic_newreno_sim_seed_cwin :: "sim_state \<Rightarrow> u64 \<Rightarrow> sim_state" where
  "picoquic_newreno_sim_seed_cwin nr_state bytes_in_flight =
     (if alg_state nr_state = slow_start \<and> ssthresh nr_state = UINT64_MAX \<and>
         bytes_in_flight > sim_cwin nr_state
      then nr_state\<lparr>sim_cwin := bytes_in_flight, ssthresh := bytes_in_flight,
                    alg_state := congestion_avoidance\<rparr>
      else nr_state)"

text \<open>\<open>%\<close> and \<open>/\<close> on unsigned numbers.\<close>

definition c_divmod :: "u64 \<Rightarrow> u64 \<Rightarrow> (u64 \<times> u64) res" where
  "c_divmod a b = (if b = 0 then Fault DivideByZero else Ok (a div b, a mod b))"

text \<open>The two branches that the loss notifications and the spurious repeat take.\<close>

definition newreno_sim_loss :: "sim_state \<Rightarrow> cc_cnx \<Rightarrow> nat \<Rightarrow> notification \<Rightarrow> u64 \<Rightarrow> sim_state" where
  "newreno_sim_loss nr_state cnx x event current_time =
     (if \<not> multipath_enabled cnx then
        if current_time - recovery_start nr_state > smoothed_rtt (paths cnx x) \<or>
           recovery_sequence nr_state \<le> picoquic_cc_get_ack_number cnx x
        then picoquic_newreno_sim_enter_recovery nr_state cnx x event current_time else nr_state
      else
        if current_time - recovery_start nr_state > smoothed_rtt (paths cnx x) \<or>
           recovery_start nr_state \<le> picoquic_cc_get_ack_sent_time cnx x
        then picoquic_newreno_sim_enter_recovery nr_state cnx x event current_time else nr_state)"

definition newreno_sim_restore :: "sim_state \<Rightarrow> sim_state" where
  "newreno_sim_restore nr_state =
     (if ssthresh nr_state \<noteq> UINT64_MAX \<and> sim_cwin nr_state < 2 * ssthresh nr_state
      then nr_state\<lparr>sim_cwin := 2 * ssthresh nr_state, alg_state := congestion_avoidance\<rparr> else nr_state)"

definition newreno_sim_spurious :: "sim_state \<Rightarrow> cc_cnx \<Rightarrow> nat \<Rightarrow> u64 \<Rightarrow> sim_state" where
  "newreno_sim_spurious nr_state cnx x current_time =
     (if \<not> multipath_enabled cnx then
        if current_time - recovery_start nr_state < smoothed_rtt (paths cnx x) \<and>
           recovery_sequence nr_state > picoquic_cc_get_ack_number cnx x
        then newreno_sim_restore nr_state else nr_state
      else
        if current_time - recovery_start nr_state < smoothed_rtt (paths cnx x) \<and>
           recovery_start nr_state > picoquic_cc_get_ack_sent_time cnx x
        then newreno_sim_restore nr_state else nr_state)"

definition picoquic_newreno_sim_notify ::
    "sim_state \<Rightarrow> cc_cnx \<Rightarrow> nat \<Rightarrow> notification \<Rightarrow> u64 \<Rightarrow> u64 \<Rightarrow> sim_state res" where
  "picoquic_newreno_sim_notify nr_state cnx x event nb_bytes_acknowledged current_time =
     (case event of
        acknowledgement \<Rightarrow>
          (case alg_state nr_state of
             slow_start \<Rightarrow>
               (let nr_state = nr_state\<lparr>sim_cwin := sim_cwin nr_state + nb_bytes_acknowledged\<rparr>
                in Ok (if sim_cwin nr_state \<ge> ssthresh nr_state
                       then nr_state\<lparr>alg_state := congestion_avoidance\<rparr> else nr_state))
           | congestion_avoidance \<Rightarrow>
               (let complete_delta = nb_bytes_acknowledged * send_mtu (paths cnx x) + residual_ack nr_state
                in res_bind (c_divmod complete_delta (sim_cwin nr_state)) (\<lambda>(q, r).
                   Ok (nr_state\<lparr>residual_ack := r, sim_cwin := sim_cwin nr_state + q\<rparr>))))
      | ecn_ec \<Rightarrow> Ok (newreno_sim_loss nr_state cnx x event current_time)
      | repeat_loss \<Rightarrow> Ok (newreno_sim_loss nr_state cnx x event current_time)
      | timeout \<Rightarrow> Ok (newreno_sim_loss nr_state cnx x event current_time)
      | spurious_repeat \<Rightarrow> Ok (newreno_sim_spurious nr_state cnx x current_time)
      | reset_notification \<Rightarrow> Ok picoquic_newreno_sim_reset
      | seed_cwin \<Rightarrow> Ok (picoquic_newreno_sim_seed_cwin nr_state nb_bytes_acknowledged)
      | _ \<Rightarrow> Ok nr_state)"

section \<open>The algorithm\<close>

record newreno_state =
  nrss :: sim_state
  rtt_filter :: min_max_rtt

definition picoquic_newreno_reset :: "nat \<Rightarrow> cc_cnx \<Rightarrow> cc_cnx \<times> newreno_state" where
  "picoquic_newreno_reset x cnx =
     (let nr_state = \<lparr>nrss = picoquic_newreno_sim_reset, rtt_filter = min_max_rtt_zero\<rparr>
      in (upd_path x (\<lambda>p. p\<lparr>cwin := sim_cwin (nrss nr_state)\<rparr>) cnx, nr_state))"

text \<open>\<open>alloc\<close> says whether \<open>malloc\<close> succeeds.\<close>

definition picoquic_newreno_init :: "bool \<Rightarrow> nat \<Rightarrow> cc_cnx \<Rightarrow> cc_cnx \<times> newreno_state option" where
  "picoquic_newreno_init alloc x cnx =
     (if alloc then (case picoquic_newreno_reset x cnx of (cnx, nr_state) \<Rightarrow> (cnx, Some nr_state))
      else (cnx, None))"

text \<open>\<open>(uint64_t)((double)PICOQUIC_CWIN_INITIAL * (double)rtt / (double)PICOQUIC_TARGET_RENO_RTT)\<close>.\<close>

definition satellite_window :: "u64 \<Rightarrow> u64 res" where
  "satellite_window rtt =
     to_u64 (ddiv (dmul (of_u64 PICOQUIC_CWIN_INITIAL) (of_u64 rtt)) (of_u64 PICOQUIC_TARGET_RENO_RTT))"

definition newreno_set_cwin :: "nat \<Rightarrow> sim_state \<Rightarrow> cc_cnx \<Rightarrow> cc_cnx" where
  "newreno_set_cwin x s cnx = upd_path x (\<lambda>p. p\<lparr>cwin := sim_cwin s\<rparr>) cnx"

text \<open>The branch of the round trip measurement.\<close>

definition newreno_rtt_measured ::
    "newreno_state \<Rightarrow> cc_cnx \<Rightarrow> nat \<Rightarrow> u64 \<Rightarrow> u64 \<Rightarrow> u64 \<Rightarrow> (cc_cnx \<times> newreno_state) res" where
  "newreno_rtt_measured st cnx x rtt_measurement one_way_delay current_time =
     (if alg_state (nrss st) = slow_start \<and> ssthresh (nrss st) = UINT64_MAX then
        res_bind
          (if rtt_min (paths cnx x) > PICOQUIC_TARGET_RENO_RTT then
             res_bind (satellite_window
                         (if rtt_min (paths cnx x) > PICOQUIC_TARGET_SATELLITE_RTT
                          then PICOQUIC_TARGET_SATELLITE_RTT else rtt_min (paths cnx x)))
               (\<lambda>min_win.
                  if min_win > sim_cwin (nrss st)
                  then let st = st\<lparr>nrss := (nrss st)\<lparr>sim_cwin := min_win\<rparr>\<rparr>
                       in Ok (newreno_set_cwin x (nrss st) cnx, st)
                  else Ok (cnx, st))
           else Ok (cnx, st))
          (\<lambda>(cnx, st). res_bind (path_at cnx 0) (\<lambda>_.
             case picoquic_hystart_test (rtt_filter st)
                    (if is_time_stamp_enabled cnx then one_way_delay else rtt_measurement) current_time of
               (leave, rtt_track) \<Rightarrow>
                 let st = st\<lparr>rtt_filter := rtt_track\<rparr> in
                 if leave then
                   let st = st\<lparr>nrss := (nrss st)\<lparr>ssthresh := sim_cwin (nrss st), alg_state := congestion_avoidance\<rparr>\<rparr>;
                       cnx = newreno_set_cwin x (nrss st) cnx
                   in Ok (upd_path x (\<lambda>p. p\<lparr>is_ssthresh_initialized := True\<rparr>) cnx, st)
                 else Ok (cnx, st)))
      else Ok (cnx, st))"

definition newreno_bw_measured :: "newreno_state \<Rightarrow> cc_cnx \<Rightarrow> nat \<Rightarrow> cc_cnx \<times> newreno_state" where
  "newreno_bw_measured st cnx x =
     (if alg_state (nrss st) = slow_start \<and> ssthresh (nrss st) = UINT64_MAX then
        let max_win = max_bandwidth_estimate (paths cnx x) * smoothed_rtt (paths cnx x) div 1000000;
            min_win = max_win div 2
        in if sim_cwin (nrss st) < min_win
           then let st = st\<lparr>nrss := (nrss st)\<lparr>sim_cwin := min_win\<rparr>\<rparr>
                in (newreno_set_cwin x (nrss st) cnx, st)
           else (cnx, st)
      else (cnx, st))"

text \<open>The branches that hand the notification to the simulation and copy its window.\<close>

definition newreno_simulate ::
    "newreno_state \<Rightarrow> cc_cnx \<Rightarrow> nat \<Rightarrow> notification \<Rightarrow> u64 \<Rightarrow> u64 \<Rightarrow> (cc_cnx \<times> newreno_state) res" where
  "newreno_simulate st cnx x event nb_bytes_acknowledged current_time =
     res_bind (picoquic_newreno_sim_notify (nrss st) cnx x event nb_bytes_acknowledged current_time)
       (\<lambda>s. Ok (newreno_set_cwin x s cnx, st\<lparr>nrss := s\<rparr>))"

definition picoquic_newreno_notify ::
    "cc_cnx \<Rightarrow> nat \<Rightarrow> newreno_state option \<Rightarrow> notification \<Rightarrow> u64 \<Rightarrow> u64 \<Rightarrow> u64 \<Rightarrow> u64 \<Rightarrow>
       (cc_cnx \<times> newreno_state option) res" where
  "picoquic_newreno_notify cnx x nr_state event rtt_measurement one_way_delay nb_bytes_acknowledged current_time =
     (let cnx = upd_path x (\<lambda>p. p\<lparr>is_cc_data_updated := True\<rparr>) cnx in
      case nr_state of
        None \<Rightarrow> Ok (cnx, None)
      | Some st \<Rightarrow>
          res_bind
            (case event of
               acknowledgement \<Rightarrow>
                 (if last_time_acked_data_frame_sent (paths cnx x) > last_sender_limited_time (paths cnx x)
                  then newreno_simulate st cnx x event nb_bytes_acknowledged current_time
                  else Ok (cnx, st))
             | seed_cwin \<Rightarrow> newreno_simulate st cnx x event nb_bytes_acknowledged current_time
             | ecn_ec \<Rightarrow> newreno_simulate st cnx x event nb_bytes_acknowledged current_time
             | repeat_loss \<Rightarrow> newreno_simulate st cnx x event nb_bytes_acknowledged current_time
             | timeout \<Rightarrow> newreno_simulate st cnx x event nb_bytes_acknowledged current_time
             | spurious_repeat \<Rightarrow> newreno_simulate st cnx x event nb_bytes_acknowledged current_time
             | rtt_measure \<Rightarrow> newreno_rtt_measured st cnx x rtt_measurement one_way_delay current_time
             | cwin_blocked \<Rightarrow> Ok (cnx, st)
             | bw_measurement \<Rightarrow> Ok (newreno_bw_measured st cnx x)
             | reset_notification \<Rightarrow> Ok (picoquic_newreno_reset x cnx))
            (\<lambda>(cnx, st).
               res_bind (picoquic_update_pacing_data cnx x
                           (alg_state (nrss st) = slow_start \<and> ssthresh (nrss st) = UINT64_MAX))
                 (\<lambda>cnx. Ok (cnx, Some st))))"

definition picoquic_newreno_delete :: "newreno_state option \<Rightarrow> newreno_state option" where
  "picoquic_newreno_delete nr_state = (case nr_state of Some _ \<Rightarrow> None | None \<Rightarrow> None)"

definition picoquic_newreno_observe :: "newreno_state option \<Rightarrow> (u64 \<times> u64) res" where
  "picoquic_newreno_observe nr_state =
     (case nr_state of
        None \<Rightarrow> Fault NullDeref
      | Some st \<Rightarrow>
          Ok (case alg_state (nrss st) of slow_start \<Rightarrow> 0 | congestion_avoidance \<Rightarrow> 1,
              if ssthresh (nrss st) = UINT64_MAX then 0 else ssthresh (nrss st)))"

end
