(* ===== verification/NewRenoProps.thy ===== *)
theory NewRenoProps
  imports NewReno
begin

text \<open>
  New Reno: the invariant of its window, what a loss, a spurious loss and an acknowledgement do, and
  the safety of the notification handler.
\<close>

section \<open>The invariant of the simulation\<close>

definition sim_ok :: "sim_state \<Rightarrow> bool" where
  "sim_ok s \<longleftrightarrow> PICOQUIC_CWIN_MINIMUM \<le> sim_cwin s \<and> PICOQUIC_CWIN_MINIMUM \<le> ssthresh s \<and> residual_ack s < sim_cwin s"

lemma sim_ok_reset [simp]: "sim_ok picoquic_newreno_sim_reset"
  by (simp add: sim_ok_def picoquic_newreno_sim_reset_def)

lemma word_add_less:
  fixes a b :: u64
  assumes "unat a + unat b < 2 ^ 64"
  shows "a \<le> a + b" "unat (a + b) = unat a + unat b"
  using assms by (simp_all add: word_le_nat_alt unat_plus_if')

lemma sim_ok_grow:
  assumes "sim_ok s" "sim_cwin s \<le> w"
  shows "sim_ok (s\<lparr>sim_cwin := w\<rparr>)"
  using assms by (auto simp: sim_ok_def)

lemma sim_ok_alg_state [simp]: "sim_ok (s\<lparr>alg_state := a\<rparr>) = sim_ok s"
  by (simp add: sim_ok_def)

lemma sim_ok_enter_recovery: "sim_ok (picoquic_newreno_sim_enter_recovery s cnx x e t)"
  by (auto simp: picoquic_newreno_sim_enter_recovery_def sim_ok_def Let_def not_less
      intro: less_le_trans [of 0 "3072 :: u64"])

lemma sim_ok_loss: "sim_ok s \<Longrightarrow> sim_ok (newreno_sim_loss s cnx x e t)"
  by (simp add: newreno_sim_loss_def sim_ok_enter_recovery)

lemma sim_ok_restore: "sim_ok s \<Longrightarrow> sim_ok (newreno_sim_restore s)"
  using sim_ok_grow [of s "2 * ssthresh s"] by (auto simp: newreno_sim_restore_def less_imp_le)

lemma sim_ok_spurious: "sim_ok s \<Longrightarrow> sim_ok (newreno_sim_spurious s cnx x t)"
  by (simp add: newreno_sim_spurious_def sim_ok_restore)

lemma sim_ok_seed: "sim_ok s \<Longrightarrow> sim_ok (picoquic_newreno_sim_seed_cwin s n)"
  by (auto simp: picoquic_newreno_sim_seed_cwin_def sim_ok_def)

text \<open>An acknowledgement in congestion avoidance.\<close>

lemma ca_step:
  assumes "sim_ok s" "alg_state s = congestion_avoidance"
  shows "picoquic_newreno_sim_notify s cnx x acknowledgement n t =
           (let d = n * send_mtu (paths cnx x) + residual_ack s
            in Ok (s\<lparr>residual_ack := d mod sim_cwin s, sim_cwin := sim_cwin s + d div sim_cwin s\<rparr>))"
  using assms by (auto simp: picoquic_newreno_sim_notify_def c_divmod_def sim_ok_def Let_def)

lemma div_cwin_small: "PICOQUIC_CWIN_MINIMUM \<le> w \<Longrightarrow> unat ((d::u64) div w) < 2 ^ 53"
proof -
  assume "PICOQUIC_CWIN_MINIMUM \<le> w"
  then have "3072 \<le> unat w" by (simp add: word_le_nat_alt)
  then have "unat d div unat w \<le> unat d div 3072" by (intro div_le_mono2) simp_all
  also have "\<dots> < 2 ^ 53" using unsigned_less [of d, where 'a = nat] by simp
  finally show ?thesis by (simp add: unat_div)
qed

lemma newreno_sim_step:
  assumes "sim_ok s" "sim_cwin s < 2 ^ 62" "nb < 2 ^ 62"
  shows "\<exists>s'. picoquic_newreno_sim_notify s cnx x event nb t = Ok s' \<and> sim_ok s'"
proof (cases event)
  case acknowledgement
  show ?thesis
  proof (cases "alg_state s")
    case slow_start
    have "sim_cwin s \<le> sim_cwin s + nb" using assms(2,3) by (intro word_add_less) (simp add: word_less_nat_alt)
    from sim_ok_grow [OF assms(1) this] show ?thesis
      using acknowledgement slow_start by (simp add: picoquic_newreno_sim_notify_def Let_def)
  next
    case congestion_avoidance
    define d where "d = nb * send_mtu (paths cnx x) + residual_ack s"
    have "sim_cwin s \<le> sim_cwin s + d div sim_cwin s"
      using assms(1,2) div_cwin_small [of "sim_cwin s" d] by (intro word_add_less) (simp add: sim_ok_def word_less_nat_alt)
    moreover have "0 < sim_cwin s" using assms(1) less_le_trans [of 0 "3072 :: u64"] by (simp add: sim_ok_def)
    then have "d mod sim_cwin s < sim_cwin s" by (rule word_mod_less_divisor)
    ultimately show ?thesis using assms(1) ca_step [OF assms(1) congestion_avoidance] acknowledgement
      by (auto simp: sim_ok_def d_def [symmetric] Let_def)
  qed
qed (use assms in \<open>simp_all add: picoquic_newreno_sim_notify_def sim_ok_loss sim_ok_spurious sim_ok_seed\<close>)

text \<open>
  C22: whatever happens to the connection, the simulation of New Reno never divides by zero, its
  window and its threshold stay at or above the minimum window, and the bytes acknowledged but not
  yet credited stay below one window.
\<close>

theorem newreno_sim_invariant:
  assumes "sim_ok s" "sim_cwin s < 2 ^ 62" "nb < 2 ^ 62"
  shows "\<exists>s'. picoquic_newreno_sim_notify s cnx x event nb t = Ok s' \<and> sim_ok s'"
  by (rule newreno_sim_step [OF assms])

section \<open>Losses and spurious losses\<close>

text \<open>The notifications of a loss, with the bytes and the time they come with.\<close>

fun losses :: "sim_state \<Rightarrow> cc_cnx \<Rightarrow> nat \<Rightarrow> (notification \<times> u64 \<times> u64) list \<Rightarrow> sim_state res" where
  "losses s cnx x [] = Ok s"
| "losses s cnx x ((event, nb, t) # es) =
     res_bind (picoquic_newreno_sim_notify s cnx x event nb t) (\<lambda>s. losses s cnx x es)"

definition is_loss :: "notification \<Rightarrow> bool" where
  "is_loss e \<longleftrightarrow> e = ecn_ec \<or> e = repeat_loss \<or> e = timeout"

lemma notify_loss: "is_loss e \<Longrightarrow> picoquic_newreno_sim_notify s cnx x e nb t = Ok (newreno_sim_loss s cnx x e t)"
  by (auto simp: is_loss_def picoquic_newreno_sim_notify_def)

text \<open>The state after a loss that opens a recovery period.\<close>

lemma enter_recovery_state:
  "recovery_start (picoquic_newreno_sim_enter_recovery s cnx x e t) = t"
  "recovery_sequence (picoquic_newreno_sim_enter_recovery s cnx x e t) = path_packet_number (paths cnx x)"
  "ssthresh (picoquic_newreno_sim_enter_recovery s cnx x e t) = max (sim_cwin s div 2) PICOQUIC_CWIN_MINIMUM"
  "sim_cwin (picoquic_newreno_sim_enter_recovery s cnx x e t) =
     (if e = timeout then PICOQUIC_CWIN_MINIMUM else max (sim_cwin s div 2) PICOQUIC_CWIN_MINIMUM)"
  "alg_state (picoquic_newreno_sim_enter_recovery s cnx x e t) =
     (if e = timeout then slow_start else congestion_avoidance)"
  by (simp_all add: picoquic_newreno_sim_enter_recovery_def Let_def max_def not_less
      picoquic_cc_get_sequence_number_def) auto

text \<open>
  C23: one reduction per round trip. A loss that opens a recovery period halves the window (a timeout
  sets it to the minimum); every further loss reported within the smoothed round trip time, while
  only packets sent before the recovery are acknowledged, leaves the state as it is.
\<close>

theorem newreno_one_reduction_per_rtt:
  assumes "is_loss e" "\<not> multipath_enabled cnx"
    "t0 - recovery_start s > smoothed_rtt (paths cnx x) \<or> recovery_sequence s \<le> path_packet_acked_number (paths cnx x)"
    "path_packet_acked_number (paths cnx x) < path_packet_number (paths cnx x)"
    "\<forall>(e', nb, t)\<in>set es. is_loss e' \<and> t - t0 \<le> smoothed_rtt (paths cnx x)"
  shows "losses s cnx x ((e, nb0, t0) # es) = Ok (picoquic_newreno_sim_enter_recovery s cnx x e t0) \<and>
    sim_cwin (picoquic_newreno_sim_enter_recovery s cnx x e t0) =
      (if e = timeout then PICOQUIC_CWIN_MINIMUM else max (sim_cwin s div 2) PICOQUIC_CWIN_MINIMUM)"
proof -
  define s1 where "s1 = picoquic_newreno_sim_enter_recovery s cnx x e t0"
  have first: "picoquic_newreno_sim_notify s cnx x e nb0 t0 = Ok s1"
    using assms(2,3) by (simp add: notify_loss [OF assms(1)] newreno_sim_loss_def s1_def picoquic_cc_get_ack_number_def)
  have same: "newreno_sim_loss s1 cnx x e' t = s1" if "t - t0 \<le> smoothed_rtt (paths cnx x)" for e' t
    using that assms(2,4) by (simp add: newreno_sim_loss_def s1_def enter_recovery_state picoquic_cc_get_ack_number_def not_less)
  have "losses s1 cnx x es = Ok s1" using assms(5)
    by (induction es) (auto simp: notify_loss same)
  with first show ?thesis unfolding s1_def [symmetric] by (simp add: s1_def enter_recovery_state)
qed

text \<open>
  Also: a loss found to be spurious within its recovery period is undone: the window is again what it
  was before the loss, up to the byte lost by halving an odd window, and the algorithm is in
  congestion avoidance.
\<close>

theorem newreno_spurious_restores:
  assumes "is_loss e" "2 * PICOQUIC_CWIN_MINIMUM \<le> sim_cwin s" "\<not> multipath_enabled cnx"
    "path_packet_acked_number (paths cnx x) < path_packet_number (paths cnx x)"
    "t - t0 < smoothed_rtt (paths cnx x)"
  shows "\<exists>s'. picoquic_newreno_sim_notify (picoquic_newreno_sim_enter_recovery s cnx x e t0) cnx x spurious_repeat nb t = Ok s' \<and>
    sim_cwin s' = 2 * (sim_cwin s div 2) \<and> alg_state s' = congestion_avoidance"
proof -
  define s1 where "s1 = picoquic_newreno_sim_enter_recovery s cnx x e t0"
  have half: "3072 \<le> unat (sim_cwin s) div 2" using assms(2) by (simp add: word_le_nat_alt)
  have u: "unat (sim_cwin s div 2) = unat (sim_cwin s) div 2" by (simp add: unat_div)
  have m: "PICOQUIC_CWIN_MINIMUM \<le> sim_cwin s div 2" using half u by (simp add: word_le_nat_alt)
  then have th: "ssthresh s1 = sim_cwin s div 2" by (simp add: s1_def enter_recovery_state max_absorb1)
  have lt: "unat (sim_cwin s) div 2 * 2 < 2 ^ 64" using unsigned_less [of "sim_cwin s", where 'a = nat] by simp
  then have d: "unat (2 * (sim_cwin s div 2)) = 2 * (unat (sim_cwin s) div 2)"
    using u by (simp add: unat_mult_lem [THEN iffD1] mult.commute)
  have "sim_cwin s1 \<le> sim_cwin s div 2" using m by (simp add: s1_def enter_recovery_state max_absorb1)
  then have less: "sim_cwin s1 < 2 * ssthresh s1" using half u d unfolding th by (simp add: word_le_nat_alt word_less_nat_alt)
  have "sim_cwin s div 2 \<noteq> UINT64_MAX"
  proof
    assume "sim_cwin s div 2 = UINT64_MAX"
    then show False using u lt by simp
  qed
  then show ?thesis unfolding s1_def [symmetric]
    using assms(3-5) less th by (simp add: picoquic_newreno_sim_notify_def newreno_sim_spurious_def newreno_sim_restore_def
      picoquic_cc_get_ack_number_def) (simp add: s1_def enter_recovery_state)
qed

text \<open>
  Also: in congestion avoidance the window grows by one packet per window of acknowledged bytes, with
  nothing lost to rounding: what an acknowledgement adds to the window, counted at the window it
  was received with, plus the rest carried over, is exactly the acknowledged bytes times the packet
  size plus the rest from before.
\<close>

theorem newreno_ca_conserves:
  assumes "sim_ok s" "alg_state s = congestion_avoidance"
    "unat nb * unat (send_mtu (paths cnx x)) + unat (residual_ack s) < 2 ^ 64" "sim_cwin s < 2 ^ 62"
  shows "\<exists>s'. picoquic_newreno_sim_notify s cnx x acknowledgement nb t = Ok s' \<and>
    unat (sim_cwin s) * (unat (sim_cwin s') - unat (sim_cwin s)) + unat (residual_ack s') =
      unat nb * unat (send_mtu (paths cnx x)) + unat (residual_ack s) \<and> sim_cwin s \<le> sim_cwin s'"
proof -
  define d where "d = nb * send_mtu (paths cnx x) + residual_ack s"
  have d: "unat d = unat nb * unat (send_mtu (paths cnx x)) + unat (residual_ack s)"
    using assms(3) unfolding d_def by (simp add: unat_word_ariths)
  have g: "sim_cwin s \<le> sim_cwin s + d div sim_cwin s" "unat (sim_cwin s + d div sim_cwin s) = unat (sim_cwin s) + unat (d div sim_cwin s)"
    using assms(1,4) div_cwin_small [of "sim_cwin s" d] by (auto intro!: word_add_less simp: sim_ok_def word_less_nat_alt)
  show ?thesis using ca_step [OF assms(1,2), of cnx x nb t] g
    by (simp add: d_def [symmetric] Let_def unat_div unat_mod d [symmetric])
qed

section \<open>Witnesses for the simulation\<close>

definition example_sim :: sim_state where
  "example_sim =
     \<lparr>alg_state = congestion_avoidance, sim_cwin = 20001, residual_ack = 7, ssthresh = 16000,
      recovery_start = 100, recovery_sequence = 5\<rparr>"

definition example_sender :: cc_cnx where
  "example_sender = example_cnx\<lparr>paths := (\<lambda>_. example_path), multipath_enabled := False\<rparr>"

theorem newreno_sim_invariant_witness:
  "\<exists>s'. picoquic_newreno_sim_notify example_sim example_cnx 10 acknowledgement 1440 500 = Ok s' \<and> sim_ok s'"
  by (rule newreno_sim_invariant) (simp_all add: example_sim_def sim_ok_def)

theorem newreno_one_reduction_per_rtt_witness:
  "losses example_sim example_sender 10 [(repeat_loss, 1440, 60000), (timeout, 0, 70000), (ecn_ec, 0, 110000)] =
     Ok (picoquic_newreno_sim_enter_recovery example_sim example_sender 10 repeat_loss 60000) \<and>
   sim_cwin (picoquic_newreno_sim_enter_recovery example_sim example_sender 10 repeat_loss 60000) = 10000"
  using newreno_one_reduction_per_rtt [where e = repeat_loss and cnx = example_sender and ?t0.0 = 60000 and s = example_sim
      and x = 10 and es = "[(timeout, 0, 70000), (ecn_ec, 0, 110000)]" and ?nb0.0 = 1440]
  by (simp add: is_loss_def example_sim_def example_sender_def example_cnx_def example_path_def)

theorem newreno_spurious_restores_witness:
  "\<exists>s'. picoquic_newreno_sim_notify
           (picoquic_newreno_sim_enter_recovery example_sim example_sender 10 repeat_loss 60000)
           example_sender 10 spurious_repeat 0 61000 = Ok s' \<and>
     sim_cwin s' = 20000 \<and> alg_state s' = congestion_avoidance"
  using newreno_spurious_restores [where e = repeat_loss and s = example_sim and cnx = example_sender and x = 10 and t = 61000 and ?t0.0 = 60000 and nb = 0]
  by (simp add: is_loss_def example_sim_def example_sender_def example_cnx_def example_path_def)

theorem newreno_ca_conserves_witness:
  "\<exists>s'. picoquic_newreno_sim_notify example_sim example_sender 10 acknowledgement 28800 500 = Ok s' \<and>
     20001 * (unat (sim_cwin s') - 20001) + unat (residual_ack s') = 28800 * 1440 + 7 \<and> 20001 \<le> sim_cwin s'"
  using newreno_ca_conserves [where s = example_sim and nb = 28800 and cnx = example_sender and x = 10 and t = 500]
  by (simp add: sim_ok_def example_sim_def example_sender_def example_cnx_def example_path_def)

section \<open>The notification handler\<close>

text \<open>The state that the handler keeps: the window of the path is the window of the simulation.\<close>

definition newreno_inv :: "nat \<Rightarrow> cc_cnx \<Rightarrow> newreno_state \<Rightarrow> bool" where
  "newreno_inv x cnx st \<longleftrightarrow> sim_ok (nrss st) \<and> cwin (paths cnx x) = sim_cwin (nrss st)"

text \<open>
  What the branches of the handler leave for the pacing update: windows below 2 GB, and the fields
  of the path that they do not own as they were.
\<close>

definition branch_done :: "nat \<Rightarrow> cc_cnx \<Rightarrow> cc_cnx \<times> newreno_state \<Rightarrow> bool" where
  "branch_done x cnx r \<longleftrightarrow>
     (case r of (cnx', st) \<Rightarrow> newreno_inv x cnx' st \<and> unat (sim_cwin (nrss st)) \<le> 2 ^ 31 \<and>
        send_mtu (paths cnx' x) = send_mtu (paths cnx x) \<and>
        smoothed_rtt (paths cnx' x) = smoothed_rtt (paths cnx x) \<and>
        pacing_bucket_nanosec (paths cnx' x) = pacing_bucket_nanosec (paths cnx x) \<and> path cnx' = path cnx)"

text \<open>Limits on what the connection reports, under which windows stay below 2 GB in one step.\<close>

definition newreno_limits :: "nat \<Rightarrow> cc_cnx \<Rightarrow> sim_state \<Rightarrow> u64 \<Rightarrow> bool" where
  "newreno_limits x cnx s nb \<longleftrightarrow> unat (sim_cwin s) \<le> 2 ^ 30 \<and> (ssthresh s = UINT64_MAX \<or> unat (ssthresh s) \<le> 2 ^ 30) \<and>
     unat nb \<le> 2 ^ 20 \<and> pacing_ranges (paths cnx x) \<and>
     unat (max_bandwidth_estimate (paths cnx x) * smoothed_rtt (paths cnx x) div 1000000 div 2) \<le> 2 ^ 31"

lemma enter_recovery_bound:
  "sim_ok s \<Longrightarrow> sim_cwin (picoquic_newreno_sim_enter_recovery s cnx x e t) \<le> sim_cwin s"
proof -
  assume "sim_ok s"
  moreover have "sim_cwin s div 2 \<le> sim_cwin s" by (simp add: word_le_nat_alt unat_div)
  ultimately show ?thesis by (simp add: enter_recovery_state sim_ok_def)
qed

lemma sim_notify_bound:
  assumes "sim_ok s" "newreno_limits x cnx s nb" "picoquic_newreno_sim_notify s cnx x event nb t = Ok s'"
  shows "unat (sim_cwin s') \<le> 2 ^ 31"
proof -
  note l = assms(2) [unfolded newreno_limits_def pacing_ranges_def]
  have c: "unat (sim_cwin s) \<le> 2 ^ 31" using l by simp
  have loss: "unat (sim_cwin (newreno_sim_loss s cnx x e t)) \<le> 2 ^ 31" for e
  proof -
    have "unat (sim_cwin (picoquic_newreno_sim_enter_recovery s cnx x e t)) \<le> 2 ^ 31"
      using enter_recovery_bound [OF assms(1), of cnx x e t] c by (simp add: word_le_nat_alt)
    then show ?thesis using c by (simp add: newreno_sim_loss_def)
  qed
  have "unat (2 * ssthresh s) \<le> 2 ^ 31" if "ssthresh s \<noteq> UINT64_MAX"
    using that l by (auto simp: unat_word_ariths)
  then have sp: "unat (sim_cwin (newreno_sim_spurious s cnx x t)) \<le> 2 ^ 31"
    using c by (simp add: newreno_sim_spurious_def newreno_sim_restore_def)
  have slow: "unat (sim_cwin s + nb) \<le> 2 ^ 31" using l by (simp add: word_add_less)
  define d where "d = nb * send_mtu (paths cnx x) + residual_ack s"
  have "unat nb * unat (send_mtu (paths cnx x)) \<le> 2 ^ 20 * 2 ^ 16" using l by (intro mult_mono) auto
  moreover have "unat (residual_ack s) \<le> 2 ^ 30" using assms(1) l by (simp add: sim_ok_def word_less_nat_alt)
  moreover have "unat d = (unat nb * unat (send_mtu (paths cnx x)) + unat (residual_ack s)) mod 2 ^ 64"
    unfolding d_def by (simp add: unat_word_ariths mod_add_left_eq)
  ultimately have d: "unat d \<le> 2 ^ 37" by simp
  have "unat (d div sim_cwin s) \<le> unat d div 3072" using assms(1)
    by (simp add: unat_div sim_ok_def word_le_nat_alt div_le_mono2)
  also have "\<dots> \<le> 2 ^ 26" using div_le_mono [OF d, of 3072] by simp
  finally have ca: "unat (sim_cwin s + d div sim_cwin s) \<le> 2 ^ 31" using l by (simp add: word_add_less)
  have seed: "unat (sim_cwin (picoquic_newreno_sim_seed_cwin s nb)) \<le> 2 ^ 31"
    using l by (simp add: picoquic_newreno_sim_seed_cwin_def)
  show ?thesis using assms(3)
  proof (cases event)
    case acknowledgement
    then show ?thesis using assms(3) slow ca ca_step [OF assms(1), of cnx x nb t]
      by (cases "alg_state s") (auto simp: picoquic_newreno_sim_notify_def Let_def d_def split: if_splits)
  qed (use c loss sp seed in \<open>auto simp: picoquic_newreno_sim_notify_def picoquic_newreno_sim_reset_def\<close>)
qed

lemma branch_doneI:
  assumes "newreno_inv x cnx' st" "unat (sim_cwin (nrss st)) \<le> 2 ^ 31"
    "cnx' = upd_path x (\<lambda>p. p\<lparr>cwin := sim_cwin (nrss st), is_ssthresh_initialized := b\<rparr>) cnx"
  shows "branch_done x cnx (cnx', st)"
  using assms by (simp add: branch_done_def upd_path_def)

lemma satellite_window_range:
  assumes "PICOQUIC_TARGET_RENO_RTT < rtt" "rtt \<le> PICOQUIC_TARGET_SATELLITE_RTT"
  shows "\<exists>w. satellite_window rtt = Ok w \<and> unat w \<le> 2 ^ 18"
proof -
  have "between 13 14 (of_u64 PICOQUIC_CWIN_INITIAL)" using between_of_u64 [of 13 PICOQUIC_CWIN_INITIAL 14] by simp
  moreover have "between 16 20 (of_u64 rtt)" using between_of_u64 [of 16 rtt 20] assms by (simp add: word_less_nat_alt word_le_nat_alt)
  moreover have "between 16 17 (of_u64 PICOQUIC_TARGET_RENO_RTT)" using between_of_u64 [of 16 PICOQUIC_TARGET_RENO_RTT 17] by simp
  ultimately have "between (13 + 16 - 17) (14 + 20 - 16)
      (ddiv (dmul (of_u64 PICOQUIC_CWIN_INITIAL) (of_u64 rtt)) (of_u64 PICOQUIC_TARGET_RENO_RTT))"
    by (intro between_div between_mul) simp_all
  from between_to_u64 [OF this] show ?thesis by (simp add: satellite_window_def)
qed

lemma simulate_done:
  assumes "newreno_inv x cnx st" "newreno_limits x cnx (nrss st) nb"
  shows "\<exists>r. newreno_simulate st cnx x event nb t = Ok r \<and> branch_done x cnx r"
proof -
  have ok: "sim_ok (nrss st)" using assms(1) by (simp add: newreno_inv_def)
  have "sim_cwin (nrss st) < 2 ^ 62" "nb < 2 ^ 62"
    using assms(2) by (simp_all add: newreno_limits_def word_less_nat_alt)
  from newreno_sim_step [OF ok this, of cnx x event t] obtain s'
    where s': "picoquic_newreno_sim_notify (nrss st) cnx x event nb t = Ok s'" "sim_ok s'" by blast
  have "unat (sim_cwin s') \<le> 2 ^ 31" using sim_notify_bound [OF ok assms(2) s'(1)] .
  then show ?thesis using s'
    by (simp add: newreno_simulate_def newreno_set_cwin_def branch_done_def newreno_inv_def upd_path_def)
qed

lemma rtt_measured_done:
  assumes "newreno_inv x cnx st" "newreno_limits x cnx (nrss st) nb" "path cnx \<noteq> []"
  shows "\<exists>r. newreno_rtt_measured st cnx x rtt owd t = Ok r \<and> branch_done x cnx r"
proof -
  define m where "m = (if rtt_min (paths cnx x) > PICOQUIC_TARGET_SATELLITE_RTT
                       then PICOQUIC_TARGET_SATELLITE_RTT else rtt_min (paths cnx x))"
  have w: "\<exists>w. satellite_window m = Ok w \<and> unat w \<le> 2 ^ 18" if "rtt_min (paths cnx x) > PICOQUIC_TARGET_RENO_RTT"
    by (rule satellite_window_range) (use that in \<open>auto simp: m_def not_less\<close>)
  have p: "path_at c 0 = Ok (path c ! 0)" if "path c = path cnx" for c
    using assms(3) that by (simp add: path_at_def nb_paths_def)
  have c: "unat (sim_cwin (nrss st)) \<le> 2 ^ 31" using assms(2) by (simp add: newreno_limits_def)
  have grow: "sim_ok ((nrss st)\<lparr>sim_cwin := w\<rparr>)" if "sim_cwin (nrss st) < w" for w
    using sim_ok_grow [of "nrss st" w] assms(1) that by (simp add: newreno_inv_def)
  have leave: "sim_ok (s\<lparr>ssthresh := sim_cwin s, alg_state := a\<rparr>)" if "sim_ok s" for s a
    using that by (simp add: sim_ok_def)
  have second: "branch_done x cnx
      (let st1 = st1\<lparr>rtt_filter := f\<rparr>;
           st1 = st1\<lparr>nrss := (nrss st1)\<lparr>ssthresh := sim_cwin (nrss st1), alg_state := congestion_avoidance\<rparr>\<rparr>
       in (upd_path x (\<lambda>p. p\<lparr>is_ssthresh_initialized := True\<rparr>) (newreno_set_cwin x (nrss st1) c), st1))"
    "branch_done x cnx (c, st1\<lparr>rtt_filter := f\<rparr>)"
    if "branch_done x cnx (c, st1)" for c st1 f
    using that leave [of "nrss st1"]
    by (simp_all add: branch_done_def newreno_inv_def upd_path_def newreno_set_cwin_def Let_def)
  define first where "first =
    (if rtt_min (paths cnx x) > PICOQUIC_TARGET_RENO_RTT then
       res_bind (satellite_window m)
         (\<lambda>min_win.
            if min_win > sim_cwin (nrss st)
            then let st = st\<lparr>nrss := (nrss st)\<lparr>sim_cwin := min_win\<rparr>\<rparr>
                 in Ok (newreno_set_cwin x (nrss st) cnx, st)
            else Ok (cnx, st))
     else Ok (cnx, st))"
  have "\<exists>c1 st1. first = Ok (c1, st1) \<and> branch_done x cnx (c1, st1)"
    using w assms(1) c grow unfolding first_def
    by (auto simp: Let_def branch_done_def newreno_inv_def newreno_set_cwin_def upd_path_def)
  then obtain c1 st1 where f: "first = Ok (c1, st1)" "branch_done x cnx (c1, st1)" by blast
  have p1: "path_at c1 0 = Ok (path c1 ! 0)" using f(2) by (intro p) (simp add: branch_done_def)
  have id: "branch_done x cnx (cnx, st)" using assms(1) c by (simp add: branch_done_def)
  show ?thesis unfolding newreno_rtt_measured_def m_def [symmetric] first_def [symmetric]
    using f p1 second [OF f(2)] id by (auto simp: Let_def split: prod.split)
qed

text \<open>
  C19: the notification handler of New Reno never fails. For a connection within the limits it
  returns a state in which the window of the path is the window of the algorithm, at least the
  minimum window and at most 2 GB, and pacing is again in a state that the rate limiter can work
  with.
\<close>

theorem newreno_notify_safe:
  assumes "newreno_inv x cnx st" "newreno_limits x cnx (nrss st) nb" "path cnx \<noteq> []"
    "- (2 ^ 62) < pacing_bucket_nanosec (paths cnx x)"
  shows "\<exists>cnx' st'. picoquic_newreno_notify cnx x (Some st) event rtt owd nb t = Ok (cnx', Some st') \<and>
     newreno_inv x cnx' st' \<and> unat (cwin (paths cnx' x)) \<le> 2 ^ 31 \<and> pacing_sane (paths cnx' x)"
proof -
  define c where "c = upd_path x (\<lambda>p. p\<lparr>is_cc_data_updated := True\<rparr>) cnx"
  have c: "newreno_inv x c st" "newreno_limits x c (nrss st) nb" "path c \<noteq> []"
    "- (2 ^ 62) < pacing_bucket_nanosec (paths c x)"
    using assms by (simp_all add: c_def newreno_inv_def newreno_limits_def pacing_ranges_def upd_path_def)
  have id: "branch_done x c (c, st)" using c by (simp add: branch_done_def newreno_limits_def)
  have bw: "branch_done x c (newreno_bw_measured st c x)"
    using c id sim_ok_grow [of "nrss st"]
    by (auto simp: newreno_bw_measured_def Let_def branch_done_def newreno_inv_def newreno_set_cwin_def upd_path_def
        newreno_limits_def less_imp_le)
  have re: "branch_done x c (picoquic_newreno_reset x c)"
    by (simp add: picoquic_newreno_reset_def branch_done_def newreno_inv_def upd_path_def picoquic_newreno_sim_reset_def
        sim_ok_reset [unfolded picoquic_newreno_sim_reset_def] Let_def)
  define inner where "inner =
    (case event of
       acknowledgement \<Rightarrow>
         (if last_time_acked_data_frame_sent (paths c x) > last_sender_limited_time (paths c x)
          then newreno_simulate st c x event nb t else Ok (c, st))
     | rtt_measure \<Rightarrow> newreno_rtt_measured st c x rtt owd t
     | cwin_blocked \<Rightarrow> Ok (c, st)
     | bw_measurement \<Rightarrow> Ok (newreno_bw_measured st c x)
     | reset_notification \<Rightarrow> Ok (picoquic_newreno_reset x c)
     | _ \<Rightarrow> newreno_simulate st c x event nb t)"
  have "\<exists>r. inner = Ok r \<and> branch_done x c r"
    using simulate_done [OF c(1,2), of event t] rtt_measured_done [OF c(1,2,3), of rtt owd t] id bw re
    by (cases event) (simp_all add: inner_def)
  then obtain c1 st1 where i: "inner = Ok (c1, st1)" "branch_done x c (c1, st1)" by auto
  have r: "pacing_ranges (paths c1 x)"
    using i(2) c(2) less_le_trans [of 2048 3072 "unat (sim_cwin (nrss st1))"]
    by (auto simp: branch_done_def newreno_inv_def newreno_limits_def pacing_ranges_def sim_ok_def word_le_nat_alt)
  have b: "- (2 ^ 62) < pacing_bucket_nanosec (paths c1 x)" using i(2) c(4) by (simp add: branch_done_def)
  obtain c2 where c2: "picoquic_update_pacing_data c1 x (alg_state (nrss st1) = slow_start \<and> ssthresh (nrss st1) = UINT64_MAX) = Ok c2"
      "pacing_updated x c1 c2"
    using pacing_data_updated [OF r b] by blast
  have "picoquic_newreno_notify cnx x (Some st) event rtt owd nb t = Ok (c2, Some st1)"
    using i(1) c2(1) unfolding picoquic_newreno_notify_def c_def [symmetric] inner_def Let_def
    by (cases event) simp_all
  moreover have "newreno_inv x c2 st1" "unat (cwin (paths c2 x)) \<le> 2 ^ 31" "pacing_sane (paths c2 x)"
    using c2(2) i(2) by (simp_all add: pacing_updated_def same_path_but_pacing_def branch_done_def newreno_inv_def)
  ultimately show ?thesis by blast
qed

definition example_newreno :: newreno_state where
  "example_newreno = \<lparr>nrss = picoquic_newreno_sim_reset, rtt_filter = min_max_rtt_zero\<rparr>"

theorem newreno_notify_safe_witness:
  "\<exists>cnx' st'. picoquic_newreno_notify example_cnx 10 (Some example_newreno) repeat_loss 50000 0 1440 900000 = Ok (cnx', Some st') \<and>
     newreno_inv 10 cnx' st' \<and> unat (cwin (paths cnx' 10)) \<le> 2 ^ 31 \<and> pacing_sane (paths cnx' 10)"
  by (rule newreno_notify_safe)
    (simp_all add: newreno_inv_def newreno_limits_def example_newreno_def example_cnx_def example_path_def pacing_ranges_def
      picoquic_newreno_sim_reset_def sim_ok_reset [unfolded picoquic_newreno_sim_reset_def] unat_word_ariths unat_div)

end
