(* ===== verification/TwoPaths.thy ===== *)
theory TwoPaths
  imports NewRenoProps
begin

text \<open>
  What the two fair-queuing aware controllers have in common: the mean round trip time of the two
  paths, the macros MIN and MAX on doubles, and the facts about shares of a window, about its growth in
  congestion avoidance and about changes of the windows that both developments use.
\<close>

section \<open>Definitions\<close>

text \<open>\<open>(cnx->path[0]->smoothed_rtt + cnx->path[1]->smoothed_rtt)/2\<close>.\<close>

definition mean_smoothed_rtt :: "cc_cnx \<Rightarrow> u64 res" where
  "mean_smoothed_rtt cnx =
     res_bind (path_at cnx 0) (\<lambda>p0. res_bind (path_at cnx 1) (\<lambda>p1.
       Ok ((smoothed_rtt (paths cnx p0) + smoothed_rtt (paths cnx p1)) div 2)))"

definition dmin :: "double \<Rightarrow> double \<Rightarrow> double" where "dmin a b = (if dless a b then a else b)"
definition dmax :: "double \<Rightarrow> double \<Rightarrow> double" where "dmax a b = (if dless b a then a else b)"

section \<open>Doubles\<close>

lemma dlit_small: "n \<le> 2 ^ 53 \<Longrightarrow> dlit (of_nat n) = Fin (of_nat n)"
proof -
  assume n: "n \<le> 2 ^ 53"
  then have "rat_of_nat n \<le> rat_of_nat (2 ^ 53)" by (simp only: of_nat_le_iff)
  also have "\<dots> \<le> 2 ^ 1000" using power_increasing [of 53 1000 "2::rat"] by simp
  finally show ?thesis using n by (simp add: dlit_def rnd_Fin fl_of_nat)
qed

lemma dlit_1 [simp]: "dlit 1 = Fin 1"
  using dlit_small [of 1] by simp

lemma dlit_numeral: "(numeral n :: nat) \<le> 2 ^ 53 \<Longrightarrow> dlit (numeral n) = Fin (numeral n)"
  using dlit_small [of "numeral n"] by simp

lemma ulp_half: "1 / 2 \<le> x \<Longrightarrow> x < 1 \<Longrightarrow> ulp x = 2 powi (- 53)"
  using ilog2_unique [of "- 1" x] by (simp add: ulp_def power_int_minus)

lemma ulp_bound: "0 < x \<Longrightarrow> x \<le> 2 powi k \<Longrightarrow> - 1000 \<le> k \<Longrightarrow> ulp x \<le> 2 powi (k - 52)"
proof -
  assume a: "0 < x" "x \<le> 2 powi k" "- 1000 \<le> k"
  have "ilog2 (2 powi k) = k" by (rule ilog2_unique) (simp_all add: power_int_add)
  then have "ulp (2 powi k) = 2 powi (k - 52)" using a(3) by (simp add: ulp_def)
  then show ?thesis using ulp_mono [OF a(1,2)] by simp
qed

lemma fl_close: "0 \<le> x \<Longrightarrow> x \<le> 2 powi k \<Longrightarrow> - 1000 \<le> k \<Longrightarrow> \<bar>fl x - x\<bar> \<le> 2 powi (k - 53)"
proof (cases "x = 0")
  case False
  assume a: "0 \<le> x" "x \<le> 2 powi k" "- 1000 \<le> k"
  have "ulp x / 2 \<le> 2 powi (k - 52) / 2" using ulp_bound [of x k] a False by simp
  also have "\<dots> = 2 powi (k - 53)" using power_int_add [of "2::rat" "k - 53" 1] by (simp add: algebra_simps)
  finally show ?thesis using fl_error [of x] by linarith
qed simp

definition upto :: "int \<Rightarrow> double \<Rightarrow> bool" where
  "upto b d \<longleftrightarrow> (\<exists>x. d = Fin x \<and> 0 \<le> x \<and> x \<le> 2 powi b)"

lemma rnd_upto: "0 \<le> x \<Longrightarrow> x \<le> 2 powi b \<Longrightarrow> - 1000 \<le> b \<Longrightarrow> b \<le> 1000 \<Longrightarrow> upto b (rnd x)"
proof -
  assume a: "0 \<le> x" "x \<le> 2 powi b" "- 1000 \<le> b" "b \<le> 1000"
  have "(2::rat) powi b \<le> 2 powi 1000" using a(4) by (simp only: powi_le_iff)
  then have "x \<le> 2 ^ 1000" using a(2) by simp
  then have "rnd x = Fin (fl x)" using a by (intro rnd_Fin)
  moreover have "fl x \<le> 2 powi b" using fl_le_dyadic [of x 1 b] a by simp
  ultimately show ?thesis using fl_nonneg [OF a(1)] by (simp add: upto_def)
qed

section \<open>Windows and paths\<close>

text \<open>Limits of the simulated window; fair queuing may take it below the minimum window.\<close>

definition window_ok :: "sim_state \<Rightarrow> bool" where
  "window_ok s \<longleftrightarrow> unat (sim_cwin s) \<le> 2 ^ 31"

lemma seven_eighths:
  assumes "unat c \<le> 2 ^ 31"
  shows "to_u64 (dmul (of_u64 c) (ddiv (dlit 7) (dlit 8))) = Ok (of_nat (7 * unat c div 8))"
proof -
  have d: "ddiv (dlit 7) (dlit 8) = Fin (7 / 8)"
    using fl_dyadic [of 7 "- 3"] by (simp add: dlit_numeral rnd_Fin power_int_minus)
  have c: "of_u64 c = Fin (of_nat (unat c))" using assms by (intro of_u64_exact) simp
  have "fl (of_int (7 * int (unat c)) * 2 powi (- 3)) = of_int (7 * int (unat c)) * 2 powi (- 3)"
    using assms by (intro fl_dyadic) simp_all
  then have f: "fl (of_nat (unat c) * (7 / 8)) = of_nat (7 * unat c) / 8" by (simp add: power_int_minus mult.commute)
  have "rat_of_nat (unat c) \<le> rat_of_nat (2 ^ 31)" using assms by (simp only: of_nat_le_iff)
  then have "dmul (of_u64 c) (ddiv (dlit 7) (dlit 8)) = Fin (of_nat (7 * unat c) / 8)"
    using f by (simp add: c d rnd_Fin)
  moreover have "(of_nat (7 * unat c) / 8 :: rat) < 2 ^ 64"
    using \<open>rat_of_nat (unat c) \<le> rat_of_nat (2 ^ 31)\<close> by simp
  moreover have "\<lfloor>(of_nat (7 * unat c) / 8 :: rat)\<rfloor> = int (7 * unat c div 8)"
    using floor_divide_of_nat_eq [of "7 * unat c" 8, where 'a = rat] by simp
  ultimately show ?thesis by simp
qed

text \<open>One of the two windows; \<open>r\<close> is the share.\<close>

definition share :: "u64 \<Rightarrow> double \<Rightarrow> u64 res" where
  "share cw r = to_u64 (dmax (dmul (of_u64 cw) r) (of_u64 PICOQUIC_CWIN_MINIMUM))"

lemma minimum_exact: "of_u64 PICOQUIC_CWIN_MINIMUM = Fin 3072"
  using of_u64_exact [of PICOQUIC_CWIN_MINIMUM] by simp

lemma nat_range: "(3072::int) \<le> k \<Longrightarrow> k \<le> 2 ^ 31 \<Longrightarrow> 3072 \<le> nat k \<and> nat k \<le> 2 ^ 31"
  by auto

lemma share_zero: "share 0 (Fin r) = Ok 3072"
  using of_u64_exact [of 0] by (simp add: share_def minimum_exact dmax_def rnd_Fin)

lemma share_ok:
  assumes "unat cw \<le> 2 ^ 31" "between (- 2) 0 r"
  shows "\<exists>w. share cw r = Ok w \<and> 3072 \<le> unat w \<and> unat w \<le> 2 ^ 31"
proof (cases "cw = 0")
  case True
  then show ?thesis using assms(2) share_zero by (auto dest!: between_Fin)
next
  case False
  then have "1 \<le> unat cw" using unat_gt_0 [of cw] by simp
  then have "between 0 31 (of_u64 cw)" using between_of_u64 [of 0 cw 31] assms by simp
  from between_mul [OF this assms(2)] obtain u where u: "dmul (of_u64 cw) r = Fin u" "u \<le> 2 ^ 31" "0 < u"
    using between_Fin by (force simp: between_def)
  define v where "v = max u 3072"
  have v: "0 \<le> v" "v < 2 ^ 64" "3072 \<le> v" "v \<le> 2 ^ 31" using u(2) by (auto simp: v_def)
  have "dmax (Fin u) (Fin 3072) = Fin v" by (simp add: dmax_def v_def max_def)
  moreover obtain w where w: "to_u64 (Fin v) = Ok w" "unat w = nat \<lfloor>v\<rfloor>" using to_u64_floor [OF v(1,2)] by blast
  moreover have "3072 \<le> \<lfloor>v\<rfloor>" "\<lfloor>v\<rfloor> \<le> 2 ^ 31" using v(3,4) by (simp_all add: le_floor_iff floor_le_iff)
  then have "3072 \<le> nat \<lfloor>v\<rfloor>" "nat \<lfloor>v\<rfloor> \<le> 2 ^ 31" using nat_range by blast+
  ultimately show ?thesis by (simp add: share_def u(1) minimum_exact del: to_u64.simps)
qed

lemma share_range: "1 / 3 \<le> (1 / 3 :: rat) \<and> 1 / 3 \<le> (2 / 3 :: rat)" "1 / 3 \<le> (2 / 3 :: rat) \<and> 2 / 3 \<le> (2 / 3 :: rat)"
  "1 / 3 \<le> (2 / 5 :: rat) \<and> 2 / 5 \<le> (2 / 3 :: rat)" "1 / 3 \<le> (3 / 5 :: rat) \<and> 3 / 5 \<le> (2 / 3 :: rat)"
  by simp_all

lemma max_close: "\<bar>x - y\<bar> \<le> e \<Longrightarrow> \<bar>max x m - max m y\<bar> \<le> (e::rat)"
  by (auto simp: max_def abs_le_iff)

text \<open>The share of the window, raised to the minimum and rounded down, up to one byte.\<close>

lemma share_value:
  assumes "unat cw \<le> 2 ^ 31" "\<bar>r - q\<bar> \<le> 1 / 2 ^ 53" "1 / 3 \<le> q \<and> q \<le> 2 / 3" "share cw (Fin r) = Ok w"
  shows "\<bar>rat_of_nat (unat w) - max 3072 (rat_of_nat (unat cw) * q)\<bar> < 1 + 1 / 2 ^ 20"
    "rat_of_nat (unat w) \<le> max 3072 (rat_of_nat (unat cw) * q) + 1 / 2 ^ 20"
proof -
  define c where "c = rat_of_nat (unat cw)"
  have c: "0 \<le> c" "c \<le> 2 ^ 31"
    using of_nat_mono [OF assms(1), where 'a = rat] by (simp_all add: c_def)
  have "(1 / 2 ^ 53 :: rat) \<le> 1 / 100" by simp
  then have r: "1 / 3 - 1 / 100 \<le> r" "r \<le> 1" "0 \<le> r" using assms(2,3) unfolding abs_le_iff by linarith+
  have "\<bar>c * r - c * q\<bar> = c * \<bar>r - q\<bar>" using c by (simp add: abs_mult right_diff_distrib [symmetric])
  also have "\<dots> \<le> 2 ^ 31 * (1 / 2 ^ 53)" using c assms(2) by (intro mult_mono) simp_all
  finally have e1: "\<bar>c * r - c * q\<bar> \<le> 1 / 2 ^ 22" by simp
  have "c * r \<le> 2 ^ 31 * 1" using c r by (intro mult_mono) simp_all
  then have cr: "0 \<le> c * r" "c * r \<le> 2 powi 31" using c r by simp_all
  have e2: "\<bar>fl (c * r) - c * r\<bar> \<le> 1 / 2 ^ 22" using fl_close [OF cr] by (simp add: power_int_minus)
  define v where "v = max (fl (c * r)) 3072"
  have "\<bar>fl (c * r) - c * q\<bar> \<le> 1 / 2 ^ 21"
  proof -
    have "1 / 2 ^ 22 + 1 / 2 ^ 22 = (1 / 2 ^ 21 :: rat)" by simp
    then show ?thesis using e1 e2 unfolding abs_le_iff by linarith
  qed
  then have e: "\<bar>v - max 3072 (c * q)\<bar> \<le> 1 / 2 ^ 21" unfolding v_def by (rule max_close)
  have v: "3072 \<le> v" "v \<le> 2 ^ 31" using fl_le_dyadic [of "c * r" 1 31] cr unfolding v_def by auto
  have "c * r \<le> 2 ^ 1000" using cr(2) power_increasing [of 31 1000 "2::rat"] by simp
  then have "dmul (of_u64 cw) (Fin r) = Fin (fl (c * r))" using assms(1) cr of_u64_exact [of cw] by (simp add: c_def rnd_Fin)
  then have "share cw (Fin r) = to_u64 (Fin v)" by (simp add: share_def minimum_exact dmax_def v_def max_def del: to_u64.simps)
  then have "unat w = nat \<lfloor>v\<rfloor>" using to_u64_floor [of v] v assms(4) by fastforce
  then have "rat_of_nat (unat w) = of_int \<lfloor>v\<rfloor>" using v(1) by simp
  moreover have "of_int \<lfloor>v\<rfloor> \<le> v" "v < of_int \<lfloor>v\<rfloor> + 1" by linarith+
  moreover have "(1 / 2 ^ 21 :: rat) < 1 / 2 ^ 20" by simp
  ultimately show "\<bar>rat_of_nat (unat w) - max 3072 (rat_of_nat (unat cw) * q)\<bar> < 1 + 1 / 2 ^ 20"
    "rat_of_nat (unat w) \<le> max 3072 (rat_of_nat (unat cw) * q) + 1 / 2 ^ 20"
    using e unfolding c_def [symmetric] abs_less_iff abs_le_iff by linarith+
qed

text \<open>The same in whole numbers, for the share \<open>a / b\<close>.\<close>

lemma share_nat:
  assumes "unat cw \<le> 2 ^ 31" "\<bar>r - of_nat a / of_nat b\<bar> \<le> 1 / 2 ^ 53" "b \<le> 3 * a" "3 * a \<le> 2 * b" "0 < b" "b \<le> 5" "share cw (Fin r) = Ok w"
  shows "b * unat w \<le> max (b * 3072) (a * unat cw)" "max (b * 3072) (a * unat cw) \<le> b * unat w + b"
proof -
  define B where "B = rat_of_nat b"
  define q where "q = rat_of_nat a / B"
  have B: "0 < B" "B \<le> 5" using assms(5,6) by (simp_all add: B_def)
  have "rat_of_nat b \<le> rat_of_nat (3 * a)" "rat_of_nat (3 * a) \<le> rat_of_nat (2 * b)" using assms(3,4) by (simp_all only: of_nat_le_iff)
  then have q: "1 / 3 \<le> q \<and> q \<le> 2 / 3" using B by (simp add: q_def B_def field_simps)
  note v = share_value [OF assms(1) assms(2) [folded B_def, folded q_def] q assms(7)]
  define W where "W = rat_of_nat (unat w)"
  define m where "m = max 3072 (rat_of_nat (unat cw) * q)"
  have v: "W \<le> m + 1 / 2 ^ 20" "m < W + 1 + 1 / 2 ^ 20" using v unfolding W_def [symmetric] m_def [symmetric] abs_less_iff by linarith+
  have m: "B * m = rat_of_nat (max (b * 3072) (a * unat cw))"
    using B by (simp add: m_def q_def B_def of_nat_max max_mult_distrib_left mult.commute [of "rat_of_nat a"])
  have e: "5 * (1 / 2 ^ 20 :: rat) < 1" by simp
  have "B * (1 / 2 ^ 20) \<le> 5 * (1 / 2 ^ 20)" using B by (intro mult_right_mono) simp_all
  then have small: "B * (1 / 2 ^ 20) < 1" using e by (rule order.strict_trans1)
  have "B * W \<le> B * m + B * (1 / 2 ^ 20)" using mult_left_mono [OF v(1), of B] B by (simp add: distrib_left)
  then have "rat_of_nat (b * unat w) < rat_of_nat (max (b * 3072) (a * unat cw) + 1)"
    using small m by (simp add: B_def W_def)
  then show "b * unat w \<le> max (b * 3072) (a * unat cw)" unfolding of_nat_less_iff by linarith
  have "B * m < B * W + B + B * (1 / 2 ^ 20)" using mult_strict_left_mono [OF v(2), of B] B by (simp add: distrib_left)
  then have "rat_of_nat (max (b * 3072) (a * unat cw)) < rat_of_nat (b * unat w + b + 1)"
    using small m by (simp add: B_def W_def)
  then show "max (b * 3072) (a * unat cw) \<le> b * unat w + b" unfolding of_nat_less_iff by linarith
qed

lemma butlast_front: "(\<forall>e es. butlast xs = e # es \<longrightarrow> P e) \<longleftrightarrow> length xs \<le> 1 \<or> P (hd xs)"
  by (cases xs) auto

text \<open>The window of every path of the connection, and the limits of what the pacing needs.\<close>

definition paths_ok :: "cc_cnx \<Rightarrow> bool" where
  "paths_ok cnx \<longleftrightarrow> (\<forall>y\<in>set (path cnx). pacing_ranges (paths cnx y) \<and> - (2 ^ 62) < pacing_bucket_nanosec (paths cnx y))"

lemma paths_ok_flag [simp]: "paths_ok (upd_path x (\<lambda>p. p\<lparr>is_ssthresh_initialized := b\<rparr>) c) = paths_ok c"
  by (auto simp: paths_ok_def pacing_ranges_def upd_path_def)

text \<open>A change of the windows only.\<close>

definition only_windows :: "cc_cnx \<Rightarrow> cc_cnx \<Rightarrow> bool" where
  "only_windows cnx cnx' \<longleftrightarrow> path cnx' = path cnx \<and> multipath_enabled cnx' = multipath_enabled cnx \<and>
     (\<exists>w i. paths cnx' = (\<lambda>y. (paths cnx y)\<lparr>cwin := w y, is_ssthresh_initialized := i y\<rparr>))"

lemma only_windows_refl [simp]: "only_windows cnx cnx"
  unfolding only_windows_def
  by (intro conjI exI [of _ "\<lambda>y. cwin (paths cnx y)"] exI [of _ "\<lambda>y. is_ssthresh_initialized (paths cnx y)"]) simp_all

lemma only_windows_upd:
  assumes "only_windows cnx c"
  shows "only_windows cnx (upd_path x (\<lambda>p. p\<lparr>cwin := v\<rparr>) c)"
    "only_windows cnx (upd_path x (\<lambda>p. p\<lparr>is_ssthresh_initialized := b\<rparr>) c)"
proof -
  obtain w i where c: "paths c = (\<lambda>y. (paths cnx y)\<lparr>cwin := w y, is_ssthresh_initialized := i y\<rparr>)" "path c = path cnx"
    "multipath_enabled c = multipath_enabled cnx"
    using assms by (auto simp: only_windows_def)
  show "only_windows cnx (upd_path x (\<lambda>p. p\<lparr>cwin := v\<rparr>) c)" unfolding only_windows_def
    by (intro conjI exI [of _ "w(x := v)"] exI [of _ i]) (simp_all add: c upd_path_def fun_eq_iff)
  show "only_windows cnx (upd_path x (\<lambda>p. p\<lparr>is_ssthresh_initialized := b\<rparr>) c)" unfolding only_windows_def
    by (intro conjI exI [of _ w] exI [of _ "i(x := b)"]) (simp_all add: c upd_path_def fun_eq_iff)
qed

lemma only_windows_trans: "only_windows a b \<Longrightarrow> only_windows b c \<Longrightarrow> only_windows a c"
  unfolding only_windows_def by force

lemma only_windows_same:
  assumes "only_windows cnx c"
  shows "path c = path cnx" "send_mtu (paths c y) = send_mtu (paths cnx y)"
    "smoothed_rtt (paths c y) = smoothed_rtt (paths cnx y)" "pacing_bucket_nanosec (paths c y) = pacing_bucket_nanosec (paths cnx y)"
  using assms by (auto simp: only_windows_def)

lemma mean_rtt_ok: "path cnx = [x1, x2] \<Longrightarrow>
    mean_smoothed_rtt cnx = Ok ((smoothed_rtt (paths cnx x1) + smoothed_rtt (paths cnx x2)) div 2)"
  by (simp add: mean_smoothed_rtt_def path_at_def nb_paths_def)

section \<open>Growth\<close>

text \<open>The connection in which path \<open>x\<close> has the mean round trip time of both paths.\<close>

definition with_rtt :: "nat \<Rightarrow> u64 \<Rightarrow> cc_cnx \<Rightarrow> cc_cnx" where
  "with_rtt x rtt cnx = upd_path x (\<lambda>p. p\<lparr>smoothed_rtt := rtt\<rparr>) cnx"

lemma rounded_growth:
  assumes "unat d \<le> 2 ^ 30" "2 ^ 11 \<le> unat c" "unat c \<le> 2 ^ 24"
  shows "to_u64 (dadd (of_u64 c) (dmul (Fin 1) (ddiv (of_u64 d) (of_u64 c)))) = Ok (c + d div c)"
proof -
  define C where "C = rat_of_nat (unat c)"
  define q where "q = rat_of_nat (unat d) / C"
  define k where "k = unat d div unat c"
  define r where "r = unat d mod unat c"
  have C: "2 ^ 11 \<le> C" "C \<le> 2 ^ 24"
    using of_nat_mono [OF assms(2), where 'a = rat] of_nat_mono [OF assms(3), where 'a = rat] by (simp_all add: C_def)
  have dk: "unat d = k * unat c + r" "r < unat c" using assms(2) by (simp_all add: k_def r_def)
  have "rat_of_nat (unat d) = rat_of_nat k * C + rat_of_nat r" unfolding dk(1) C_def by simp
  then have qk: "q = rat_of_nat k + rat_of_nat r / C" using C by (simp add: q_def add_divide_distrib)
  have "rat_of_nat (r + 1) \<le> C" unfolding C_def of_nat_le_iff using dk(2) by simp
  then have "rat_of_nat r / C \<le> 1 - 1 / C" using C by (simp add: field_simps)
  moreover have "1 / 2 ^ 24 \<le> 1 / C" using C by (intro divide_left_mono) simp_all
  ultimately have frac2: "rat_of_nat r / C \<le> 1 - 1 / 2 ^ 24" by linarith
  have frac1: "0 \<le> rat_of_nat r / C" using C by simp
  note frac = frac1 frac2
  have "k \<le> unat d div 2 ^ 11" unfolding k_def using assms(2) by (intro div_le_mono2) simp_all
  also have "\<dots> \<le> 2 ^ 19" using div_le_mono [OF assms(1), of "2 ^ 11"] by simp
  finally have k19: "k \<le> 2 ^ 19" .
  then have kr: "rat_of_nat k \<le> 524288" using of_nat_mono [OF k19, where 'a = rat] by simp
  have "rat_of_nat r / C \<le> 1" using frac2 by (rule order_trans) simp
  then have "q \<le> 1048576" using qk kr by linarith
  then have q: "0 \<le> q" "q \<le> 2 powi 20" "rat_of_nat k \<le> q" using qk frac1 by simp_all
  define v where "v = fl q"
  have v: "rat_of_nat k \<le> v" "v \<le> 2 powi 20" "\<bar>v - q\<bar> \<le> 2 powi (20 - 53)"
    using fl_ge_of_nat [OF q(3)] fl_le_dyadic [of q 1 20] fl_close [OF q(1,2)] q k19 by (simp_all add: v_def)
  define w where "w = fl v"
  have v0: "0 \<le> v" using v(1) by (rule order_trans [rotated]) simp
  have w: "rat_of_nat k \<le> w" "w \<le> 2 powi 20" "\<bar>w - v\<bar> \<le> 2 powi (20 - 53)"
    using fl_ge_of_nat [OF v(1)] fl_le_dyadic [of v 1 20] fl_close [OF v0 v(2)] v v0 k19 by (simp_all add: w_def)
  have ck: "rat_of_nat (unat c + k) \<le> C + w" "0 \<le> C + w" "C + w \<le> 2 powi 25" using w C by (simp_all add: C_def)
  define u where "u = fl (C + w)"
  have u: "rat_of_nat (unat c + k) \<le> u" "u \<le> 2 powi 25" "\<bar>u - (C + w)\<bar> \<le> 2 powi (25 - 53)"
    using fl_ge_of_nat [OF ck(1)] fl_le_dyadic [of "C + w" 1 25] fl_close [OF ck(2,3)] ck assms(3) k19 by (simp_all add: u_def)
  have "u < rat_of_nat (unat c + k) + 1"
  proof -
    have "(2::rat) powi (20 - 53) \<le> 1 / 2 ^ 30" "(2::rat) powi (25 - 53) \<le> 1 / 2 ^ 28" by (simp_all add: power_int_minus)
    then have "u \<le> C + q + (1 / 2 ^ 30 + 1 / 2 ^ 30 + 1 / 2 ^ 28)" using u(3) w(3) v(3) unfolding abs_le_iff by linarith
    also have "\<dots> \<le> C + (rat_of_nat k + (1 - 1 / 2 ^ 24)) + (1 / 2 ^ 30 + 1 / 2 ^ 30 + 1 / 2 ^ 28)" using qk frac(2) by simp
    also have "\<dots> < C + rat_of_nat k + 1" by simp
    finally show ?thesis by (simp add: C_def)
  qed
  then have fu: "\<lfloor>u\<rfloor> = int (unat c + k)" using u(1) by (intro floor_unique) simp_all
  have big: "x \<le> 2 powi 25 \<Longrightarrow> x \<le> (2::rat) ^ 1000" for x
    using power_increasing [of 25 1000 "2::rat"] by (simp add: order_trans)
  have "(2::rat) powi 20 \<le> 2 powi 25" by simp
  then have "rnd q = Fin v" "rnd v = Fin w" "rnd (C + w) = Fin u"
    using q v v0 ck big unfolding v_def w_def u_def by (auto intro!: rnd_Fin intro: order_trans)
  then have "dadd (of_u64 c) (dmul (Fin 1) (ddiv (of_u64 d) (of_u64 c))) = Fin u"
    using of_u64_exact [of c] of_u64_exact [of d] assms C by (simp add: C_def [symmetric] q_def [symmetric])
  moreover have "0 \<le> u" "u < 2 ^ 64" using u(1,2) order_trans [OF _ u(1), of 0] by simp_all
  moreover have "(of_nat k :: u64) = of_nat (unat (d div c))" by (simp only: k_def unat_div)
  then have "(of_int (int (unat c + k)) :: u64) = c + d div c" by (simp add: of_nat_unat)
  ultimately show ?thesis using fu by simp
qed

lemma with_rtt_simps [simp]:
  "multipath_enabled (with_rtt x rtt cnx) = multipath_enabled cnx"
  "smoothed_rtt (paths (with_rtt x rtt cnx) x) = rtt"
  "send_mtu (paths (with_rtt x rtt cnx) x) = send_mtu (paths cnx x)"
  "picoquic_cc_get_ack_number (with_rtt x rtt cnx) x = picoquic_cc_get_ack_number cnx x"
  "picoquic_cc_get_ack_sent_time (with_rtt x rtt cnx) x = picoquic_cc_get_ack_sent_time cnx x"
  "picoquic_cc_get_sequence_number (with_rtt x rtt cnx) x = picoquic_cc_get_sequence_number cnx x"
  by (simp_all add: with_rtt_def upd_path_def picoquic_cc_get_ack_number_def picoquic_cc_get_ack_sent_time_def
      picoquic_cc_get_sequence_number_def)

lemma delta_bound:
  fixes nb mtu r :: u64
  assumes "unat nb * unat mtu + unat r \<le> 2 ^ 30"
  shows "unat (nb * mtu + r) \<le> 2 ^ 30"
proof -
  have "unat (nb * mtu + r) = (unat nb * unat mtu + unat r) mod 2 ^ 64"
    by (simp add: unat_word_ariths mod_add_left_eq)
  then show ?thesis using assms by simp
qed

lemma ratio_one:
  assumes "50000 \<le> unat rtt" "unat rtt \<le> 2 ^ 32"
  shows "dmin (ddiv (of_u64 rtt) (of_u64 50000)) (dlit 1) = Fin 1"
proof -
  have "of_u64 rtt = Fin (of_nat (unat rtt))" "of_u64 50000 = Fin 50000"
    using of_u64_exact [of rtt] of_u64_exact [of 50000] assms(2) by simp_all
  moreover have r: "(50000::rat) \<le> of_nat (unat rtt)" "of_nat (unat rtt) \<le> (2::rat) ^ 32"
    using of_nat_mono [OF assms(1), where 'a = rat] of_nat_mono [OF assms(2), where 'a = rat] by simp_all
  moreover have "of_nat (unat rtt) / 50000 \<le> (2::rat) ^ 1000"
    using r(2) power_increasing [of 32 1000 "2::rat"] by simp
  moreover have "1 \<le> fl (of_nat (unat rtt) / 50000)" using fl_ge_of_nat [of 1 "of_nat (unat rtt) / 50000"] r(1) by simp
  ultimately show ?thesis by (simp add: rnd_Fin dmin_def)
qed

text \<open>The assignments of congestion avoidance, given that the window is large enough for exact arithmetic.\<close>

lemma newreno_grow_rounded:
  assumes "unat nb * unat (send_mtu (paths cnx x)) + unat (residual_ack s) \<le> 2 ^ 30"
    "2 ^ 11 \<le> unat (sim_cwin s)" "unat (sim_cwin s) \<le> 2 ^ 24" "50000 \<le> unat rtt" "unat rtt \<le> 2 ^ 32"
    "alg_state s = congestion_avoidance"
  shows "(let d = nb * send_mtu (paths cnx x) + residual_ack s
      in res_bind (c_divmod d (sim_cwin s)) (\<lambda>(_, r).
           res_bind (to_u64 (dadd (of_u64 (sim_cwin s)) (dmul (dmin (ddiv (of_u64 rtt) (of_u64 50000)) (dlit 1))
             (ddiv (of_u64 d) (of_u64 (sim_cwin s)))))) (\<lambda>w. Ok (s\<lparr>residual_ack := r, sim_cwin := w\<rparr>)))) =
    picoquic_newreno_sim_notify s (with_rtt x rtt cnx) x acknowledgement nb t"
  using assms(2,6) rounded_growth [OF delta_bound [OF assms(1)] assms(2,3)]
  by (auto simp: ratio_one [OF assms(4,5)] picoquic_newreno_sim_notify_def Let_def c_divmod_def
      simp del: dmul.simps ddiv.simps to_u64.simps dlit_1)

end
