(* ===== verification/NewTonopahFacts.thy ===== *)
theory NewTonopahFacts
  imports NewTonopah
begin

text \<open>
  The parts of the fair-queuing aware controller one by one: the constants as doubles, the
  detection, the reaction, the list of intervals and the split of the window.
\<close>

section \<open>The constants\<close>

definition rho :: rat where "rho = fl (2 / 3)"

lemma rho: "\<bar>rho - 2 / 3\<bar> \<le> 1 / 2 ^ 54"
  using fl_error [of "2 / 3"] by (simp add: ulp_half rho_def power_int_minus field_simps)

lemma ratio: "new_tonopah_ratio = Fin rho"
  by (simp add: new_tonopah_ratio_def rho_def rnd_Fin dlit_numeral)

lemma rho_bounds: "2 / 3 - 1 / 2 ^ 54 \<le> rho" "rho \<le> 2 / 3 + 1 / 2 ^ 54"
  using rho unfolding abs_le_iff by linarith+

definition sigma :: rat where "sigma = fl (1 - rho)"

lemma ratio_rest: "dsub (dlit 1) new_tonopah_ratio = Fin sigma"
  using rho_bounds by (simp add: ratio dsub_def sigma_def rnd_Fin)

lemma sigma: "\<bar>sigma - 1 / 3\<bar> \<le> 1 / 2 ^ 53"
proof -
  have "1 / 4 \<le> 1 - rho" "1 - rho < 1 / 2" using rho_bounds by simp_all
  then have "ulp (1 - rho) = 2 powi (- 54)" using ilog2_unique [of "- 2" "1 - rho"] by (simp add: ulp_def power_int_minus)
  then have "\<bar>sigma - (1 - rho)\<bar> \<le> 1 / 2 ^ 54"
    using fl_error [of "1 - rho"] by (simp add: sigma_def power_int_minus field_simps)
  moreover have "1 / 2 ^ 54 + 1 / 2 ^ 54 = (1 / 2 ^ 53 :: rat)" by simp
  ultimately show ?thesis using rho unfolding abs_le_iff by linarith
qed

lemma sigma_bounds: "1 / 3 - 1 / 2 ^ 53 \<le> sigma" "sigma \<le> 1 / 3 + 1 / 2 ^ 53"
  using sigma unfolding abs_le_iff by linarith+

lemma ratios_between: "between (- 1) 0 new_tonopah_ratio" "between (- 2) (- 1) (dsub (dlit 1) new_tonopah_ratio)"
  using rho_bounds sigma_bounds unfolding ratio_rest unfolding ratio between_def by (simp_all add: power_int_minus)

section \<open>The detection\<close>

definition nt_ok :: "nt_globals \<Rightarrow> bool" where
  "nt_ok g \<longleftrightarrow> length (intervals g) \<le> 4 \<and> (\<forall>e\<in>set (intervals g). dominant_path_id e = 1 \<or> dominant_path_id e = 2) \<and>
     (\<forall>e es. intervals g = e # es \<longrightarrow> \<not> finished1 e \<and> \<not> finished2 e)"

text \<open>The mean round trip times of the dominant and of the other path in an interval.\<close>

definition mean_dominant :: "nt_interval \<Rightarrow> double" where
  "mean_dominant e = (if dominant_path_id e = 1 then ddiv (dadd (Fin 0) (rtt_sum1 e)) (of_u64 (num_acks1 e))
                      else ddiv (dadd (Fin 0) (rtt_sum2 e)) (of_u64 (num_acks2 e)))"

definition mean_submissive :: "nt_interval \<Rightarrow> double" where
  "mean_submissive e = (if dominant_path_id e = 1 then ddiv (dadd (Fin 0) (rtt_sum2 e)) (of_u64 (num_acks2 e))
                        else ddiv (dadd (Fin 0) (rtt_sum1 e)) (of_u64 (num_acks1 e)))"

definition fq_seen :: "nt_interval \<Rightarrow> bool" where
  "fq_seen e \<longleftrightarrow> dless (dlit 5000) (dsub (mean_dominant e) (mean_submissive e))"

definition nt_finished :: "nt_interval \<Rightarrow> bool" where
  "nt_finished e \<longleftrightarrow> finished1 e \<and> finished2 e"

lemma aggregate_loop_first:
  assumes "\<forall>e\<in>set es. dominant_path_id e = 1 \<or> dominant_path_id e = 2"
    "nxt \<noteq> None \<or> (\<forall>e ys. es = e # ys \<longrightarrow> \<not> nt_finished e)"
  shows "aggregate_loop nxt nt_sums_zero es = Ok (case find nt_finished es of None \<Rightarrow> False | Some e \<Rightarrow> fq_seen e)"
  using assms
proof (induction es arbitrary: nxt)
  case Nil
  then show ?case by simp
next
  case (Cons e es)
  show ?case
  proof (cases "nt_finished e")
    case True
    then obtain nx where "nxt = Some nx" using Cons.prems(2) by auto
    with True Cons.prems show ?thesis
      by (auto simp: nt_finished_def nt_sums_add1_def nt_sums_add2_def nt_sums_zero_def fq_seen_def mean_dominant_def
          mean_submissive_def Let_def)
  next
    case False
    moreover have "len nt_sums_zero = 0" by (simp add: nt_sums_zero_def)
    ultimately show ?thesis using Cons.IH [of "Some e"] Cons.prems(1) unfolding nt_finished_def by auto
  qed
qed

lemma aggregate_eq:
  assumes "nt_ok g"
  shows "new_tonopah_aggregate_intervals (intervals g) =
    Ok (case find nt_finished (intervals g) of None \<Rightarrow> False | Some e \<Rightarrow> fq_seen e)"
  unfolding new_tonopah_aggregate_intervals_def
  by (rule aggregate_loop_first) (use assms in \<open>auto simp: nt_ok_def nt_finished_def\<close>)

section \<open>Reaction, new interval, split\<close>

lemma nt_ok_delete [simp]: "nt_ok (new_tonopah_delete_info_list g)"
  by (simp add: nt_ok_def new_tonopah_delete_info_list_def)

text \<open>The globals except the intervals and the time of the last change.\<close>

definition same_roles :: "nt_globals \<Rightarrow> nt_globals \<Rightarrow> bool" where
  "same_roles g h \<longleftrightarrow> path1 h = path1 g \<and> path2 h = path2 g \<and> dominant_path h = dominant_path g"

lemma same_roles_refl [simp]: "same_roles g g" by (simp add: same_roles_def)
lemma same_roles_trans: "same_roles g h \<Longrightarrow> same_roles h k \<Longrightarrow> same_roles g k" by (simp add: same_roles_def)
lemma same_roles_delete [simp]: "same_roles g (new_tonopah_delete_info_list g)"
  by (simp add: same_roles_def new_tonopah_delete_info_list_def)

lemma nt_react_ok:
  assumes "nt_ok g" "window_ok s"
  shows "\<exists>g' s'. nt_react fq g s = Ok (g', s') \<and> nt_ok g' \<and> same_roles g g' \<and> window_ok s' \<and>
    alg_state s' = alg_state s \<and>
    (if fq \<and> alg_state s = congestion_avoidance
     then unat (sim_cwin s') = 7 * unat (sim_cwin s) div 8 \<and> ssthresh s' = sim_cwin s' \<and> intervals g' = []
     else s' = s)"
proof -
  have c: "unat (sim_cwin s) \<le> 2 ^ 31" using assms(2) by (simp add: window_ok_def)
  define w :: u64 where "w = of_nat (7 * unat (sim_cwin s) div 8)"
  have w: "unat w = 7 * unat (sim_cwin s) div 8" using c by (simp add: w_def unsigned_of_nat take_bit_nat_eq_self)
  moreover have "unat w \<le> 2 ^ 31" using c unfolding w by linarith
  ultimately show ?thesis
    using assms seven_eighths [OF c, folded w_def]
    by (auto simp: nt_react_def window_ok_def word_le_nat_alt Let_def new_tonopah_delete_info_list_def [of g, symmetric])
      (simp_all add: new_tonopah_delete_info_list_def)
qed

lemma nt_new_interval_ok:
  assumes "nt_ok g"
  shows "\<exists>g'. nt_new_interval g cnx p1 p2 = Ok g' \<and> nt_ok g' \<and> same_roles g g' \<and> intervals g' \<noteq> []"
proof -
  define e where "e = nt_interval_zero\<lparr>
            dominant_path_id := (if dominant_path g = path1 g then 1 else 2),
            first_seq_num1 := picoquic_cc_get_sequence_number cnx p1,
            first_seq_num2 := picoquic_cc_get_sequence_number cnx p2,
            dont_use := (intervals g = [])\<rparr>"
  have e: "dominant_path_id e = 1 \<or> dominant_path_id e = 2" "\<not> finished1 e" "\<not> finished2 e"
    by (simp_all add: e_def nt_interval_zero_def)
  have l: "length (intervals g) \<le> 4" using assms by (simp add: nt_ok_def)
  define es where "es = (if length (intervals g) = 4 then butlast (e # intervals g) else e # intervals g)"
  have "nt_new_interval g cnx p1 p2 = Ok (g\<lparr>intervals := es\<rparr>)"
    using l by (simp add: nt_new_interval_def new_tonopah_get_interval_info_list_len_def e_def [symmetric] es_def Let_def)
  moreover have "nt_ok (g\<lparr>intervals := es\<rparr>)"
  proof -
    have "set es \<subseteq> insert e (set (intervals g))" unfolding es_def by (auto dest: in_set_butlastD)
    moreover have "\<exists>ys. es = e # ys" using l by (cases "intervals g") (auto simp: es_def)
    ultimately show ?thesis using assms e l by (auto simp: nt_ok_def es_def split: if_splits)
  qed
  moreover have "es \<noteq> []" using l by (cases "intervals g") (auto simp: es_def)
  ultimately show ?thesis by (simp add: same_roles_def)
qed

lemma shares_ok:
  assumes "unat cw \<le> 2 ^ 31"
  obtains d s where "share cw new_tonopah_ratio = Ok d" "share cw (dsub (dlit 1) new_tonopah_ratio) = Ok s"
    "3072 \<le> unat d" "unat d \<le> 2 ^ 31" "3072 \<le> unat s" "unat s \<le> 2 ^ 31"
proof -
  have "between (- 2) 0 new_tonopah_ratio" "between (- 2) 0 (dsub (dlit 1) new_tonopah_ratio)"
    by (rule between_weaken [OF ratios_between(1)]; simp) (rule between_weaken [OF ratios_between(2)]; simp)
  from share_ok [OF assms(1) this(1)] share_ok [OF assms(1) this(2)] that show ?thesis by blast
qed

lemma split_eq:
  assumes "path cnx = [x1, x2]" "share cw new_tonopah_ratio = Ok d"
    "share cw (dsub (dlit 1) new_tonopah_ratio) = Ok s"
  shows "nt_split g cnx cw =
    Ok (if dominant_path g = path1 g then upd_path x2 (\<lambda>p. p\<lparr>cwin := s\<rparr>) (upd_path x1 (\<lambda>p. p\<lparr>cwin := d\<rparr>) cnx)
        else if dominant_path g = path2 g then upd_path x1 (\<lambda>p. p\<lparr>cwin := s\<rparr>) (upd_path x2 (\<lambda>p. p\<lparr>cwin := d\<rparr>) cnx)
        else cnx)"
  using assms by (simp add: nt_split_def share_def path_at_def nb_paths_def)

lemma split_ok:
  assumes "path cnx = [x1, x2]" "unat cw \<le> 2 ^ 31" "paths_ok cnx"
  shows "\<exists>cnx'. nt_split g cnx cw = Ok cnx' \<and> only_windows cnx cnx' \<and> paths_ok cnx'"
proof -
  obtain d s where ds: "share cw new_tonopah_ratio = Ok d" "share cw (dsub (dlit 1) new_tonopah_ratio) = Ok s"
    "3072 \<le> unat d" "unat d \<le> 2 ^ 31" "3072 \<le> unat s" "unat s \<le> 2 ^ 31" using shares_ok [OF assms(2)] .
  then show ?thesis using split_eq [OF assms(1) ds(1,2), of g] assms(1,3)
      only_windows_upd(1) [OF only_windows_upd(1) [OF only_windows_refl]]
    by (auto simp: paths_ok_def pacing_ranges_def upd_path_def)
qed

lemma set_path_ok:
  assumes "nt_ok g" "path cnx = [x1, x2] \<or> path cnx = [x1]" "window_ok s" "unat cw \<le> 2 ^ 31" "paths_ok cnx" "malloc_ok env"
  shows "\<exists>g' cnx' s'. new_tonopah_set_path env g cnx s cw = Ok (g', cnx', s') \<and> nt_ok g' \<and> same_roles g g' \<and>
    only_windows cnx cnx' \<and> paths_ok cnx' \<and> window_ok s' \<and> alg_state s' = alg_state s \<and>
    (alg_state s \<noteq> congestion_avoidance \<longrightarrow> s' = s)"
proof (cases "\<exists>p1 p2. path1 g = Some p1 \<and> path2 g = Some p2 \<and> path cnx = [x1, x2]")
  case False
  then have "new_tonopah_set_path env g cnx s cw = Ok (g, cnx, s)"
    using assms(2) by (auto simp: new_tonopah_set_path_def nb_paths_def split: option.splits)
  then show ?thesis using assms by (auto simp: window_ok_def word_le_nat_alt)
next
  case True
  then obtain p1 p2 where p: "path1 g = Some p1" "path2 g = Some p2" "path cnx = [x1, x2]" by blast
  have n: "nb_paths cnx = 2" using p(3) by (simp add: nb_paths_def)
  obtain fq where fq: "new_tonopah_aggregate_intervals (intervals g) = Ok fq" using aggregate_eq [OF assms(1)] by blast
  obtain g1 s1 where r: "nt_react fq g s = Ok (g1, s1)" "nt_ok g1" "same_roles g g1" "window_ok s1" "alg_state s1 = alg_state s" "alg_state s \<noteq> congestion_avoidance \<longrightarrow> s1 = s"
    using nt_react_ok [OF assms(1,3), of fq] by metis
  obtain g2 where i: "nt_new_interval g1 cnx p1 p2 = Ok g2" "nt_ok g2" "same_roles g1 g2"
    using nt_new_interval_ok [OF r(2)] by blast
  have sp: "\<exists>cnx'. nt_split h cnx cw = Ok cnx' \<and> only_windows cnx cnx' \<and> paths_ok cnx'" for h
    using split_ok [OF p(3) assms(4,5)] .
  have k: "nt_ok (g2\<lparr>last_change := t\<rparr>)" "same_roles g (g2\<lparr>last_change := t\<rparr>)" for t
    using i r by (simp_all add: nt_ok_def same_roles_def)
  define c where "c \<longleftrightarrow> last_change g + min (max new_tonopah_minimum_interval
      ((smoothed_rtt (paths cnx x1) + smoothed_rtt (paths cnx x2)) div 2)) new_tonopah_maximum_interval < now_set_path env"
  show ?thesis
  proof (cases c)
    case True
    define g3 where "g3 = g2\<lparr>last_change := now_set_path env\<rparr>"
    obtain cnx' where "nt_split g3 cnx cw = Ok cnx'" "only_windows cnx cnx'" "paths_ok cnx'" using sp by blast
    then show ?thesis using p n fq r i k assms(6) True unfolding c_def
      by (simp add: new_tonopah_set_path_def Let_def mean_rtt_ok g3_def)
  next
    case False
    obtain cnx' where "nt_split g cnx cw = Ok cnx'" "only_windows cnx cnx'" "paths_ok cnx'" using sp by blast
    then show ?thesis using p n assms(1,3,6) False unfolding c_def
      by (simp add: new_tonopah_set_path_def Let_def mean_rtt_ok)
  qed
qed

end
