(* ===== verification/NewTonopahProps.thy ===== *)
theory NewTonopahProps
  imports NewTonopahFacts
begin

text \<open>
  The fair-queuing aware controller as a whole: safety of the handler over all reachable states,
  the meaning of the detection, the split of the window, and how it relates to New Reno.
\<close>

section \<open>Growth in congestion avoidance\<close>

lemma mean_share:
  assumes "1 \<le> unat m" "unat m \<le> 2 ^ 32"
  shows "upto 0 (dmin (ddiv (of_u64 m) (of_u64 new_tonopah_minimum_congestion_avoidance_interval)) (dlit 1))"
proof -
  have "between 0 32 (of_u64 m)" using between_of_u64 [of 0 m 32] assms by simp
  moreover have "between 15 16 (of_u64 new_tonopah_minimum_congestion_avoidance_interval)"
    using between_of_u64 [of 15 50000 16] by (simp add: new_tonopah_minimum_congestion_avoidance_interval_def)
  ultimately obtain u where "ddiv (of_u64 m) (of_u64 new_tonopah_minimum_congestion_avoidance_interval) = Fin u" "0 < u"
    using between_Fin [OF between_div] by fastforce
  then show ?thesis by (auto simp: dmin_def upto_def)
qed

lemma grow_ok:
  assumes "path cnx = [x1, x2]" "paths_ok cnx" "0 < unat (sim_cwin s)" "unat (sim_cwin s) \<le> 2 ^ 30"
    "unat nb * unat (send_mtu (paths cnx x)) + unat (residual_ack s) \<le> 2 ^ 30"
  shows "\<exists>s'. new_tonopah_grow s cnx x nb = Ok s' \<and> sim_cwin s \<le> sim_cwin s' \<and> unat (sim_cwin s') \<le> 2 ^ 31 \<and>
    alg_state s' = alg_state s \<and> ssthresh s' = ssthresh s \<and> residual_ack s' < sim_cwin s"
proof -
  define d where "d = nb * send_mtu (paths cnx x) + residual_ack s"
  have "unat d = (unat nb * unat (send_mtu (paths cnx x)) + unat (residual_ack s)) mod 2 ^ 64"
    unfolding d_def by (simp add: unat_word_ariths mod_add_left_eq)
  then have d: "unat d \<le> 2 ^ 30" using assms(5) by simp
  have c: "1 \<le> unat (sim_cwin s)" "unat (sim_cwin s) \<le> 2 ^ 30" using assms(3,4) by simp_all
  define m where "m = (smoothed_rtt (paths cnx x1) + smoothed_rtt (paths cnx x2)) div 2"
  have r: "1 \<le> unat (smoothed_rtt (paths cnx y))" "unat (smoothed_rtt (paths cnx y)) \<le> 2 ^ 30" if "y = x1 \<or> y = x2" for y
    using assms(1,2) that by (auto simp: paths_ok_def pacing_ranges_def)
  have "unat (smoothed_rtt (paths cnx x1) + smoothed_rtt (paths cnx x2)) =
      unat (smoothed_rtt (paths cnx x1)) + unat (smoothed_rtt (paths cnx x2))"
    using r [of x1] r [of x2] by (intro word_add_less) simp
  then have m: "1 \<le> unat m" "unat m \<le> 2 ^ 32" using r [of x1] r [of x2] by (simp_all add: m_def unat_div)
  obtain q where q: "dmin (ddiv (of_u64 m) (of_u64 new_tonopah_minimum_congestion_avoidance_interval)) (dlit 1) = Fin q"
      "0 \<le> q" "q \<le> 1" using mean_share [OF m] by (auto simp: upto_def)
  have de: "of_u64 d = Fin (of_nat (unat d))" "of_u64 (sim_cwin s) = Fin (of_nat (unat (sim_cwin s)))"
    using d c by (auto intro!: of_u64_exact)
  have dl: "rat_of_nat (unat d) \<le> rat_of_nat (2 ^ 30)" "rat_of_nat 1 \<le> rat_of_nat (unat (sim_cwin s))"
    "rat_of_nat (unat (sim_cwin s)) \<le> rat_of_nat (2 ^ 30)" using d c by (simp_all only: of_nat_le_iff)
  then have "rat_of_nat (unat d) / rat_of_nat (unat (sim_cwin s)) \<le> 2 ^ 30 / 1" by (intro frac_le) simp_all
  then have "upto 30 (rnd (rat_of_nat (unat d) / rat_of_nat (unat (sim_cwin s))))" by (intro rnd_upto) simp_all
  then obtain v where v: "ddiv (of_u64 d) (of_u64 (sim_cwin s)) = Fin v" "0 \<le> v" "v \<le> 2 ^ 30"
    using de dl(2) by (auto simp: upto_def)
  have "q * v \<le> 1 * 2 ^ 30" using q v by (intro mult_mono) auto
  then have "upto 30 (rnd (q * v))" using q v by (intro rnd_upto) simp_all
  then obtain i where i: "dmul (Fin q) (Fin v) = Fin i" "0 \<le> i" "i \<le> 2 ^ 30" by (auto simp: upto_def)
  have sum: "0 \<le> rat_of_nat (unat (sim_cwin s)) + i" "rat_of_nat (unat (sim_cwin s)) + i \<le> 2 powi 31" using i dl(3) by simp_all
  from rnd_upto [OF this] obtain w where w: "rnd (rat_of_nat (unat (sim_cwin s)) + i) = Fin w" "0 \<le> w" "w \<le> 2 ^ 31"
    by (auto simp: upto_def)
  have cw: "rat_of_nat (unat (sim_cwin s)) \<le> w"
    using w(1) fl_ge_of_nat [of "unat (sim_cwin s)" "rat_of_nat (unat (sim_cwin s)) + i"] i c rnd_FinD [OF w(1)] by simp
  obtain k where k: "to_u64 (Fin w) = Ok k" "unat k = nat \<lfloor>w\<rfloor>" using to_u64_floor [of w] w by fastforce
  have "int (unat (sim_cwin s)) \<le> \<lfloor>w\<rfloor>" using cw by (simp add: le_floor_iff)
  from nat_mono [OF this] have "unat (sim_cwin s) \<le> nat \<lfloor>w\<rfloor>" by simp
  moreover have "nat \<lfloor>w\<rfloor> \<le> 2 ^ 31" using w(3) by (simp add: nat_le_iff floor_le_iff)
  ultimately have g: "unat (sim_cwin s) \<le> unat k" "unat k \<le> 2 ^ 31" unfolding k(2) by simp_all
  have "0 < sim_cwin s" using c by (simp add: word_less_nat_alt)
  then have "d mod sim_cwin s < sim_cwin s" by (rule word_mod_less_divisor)
  then show ?thesis using g k c v i q w(1) \<open>0 < sim_cwin s\<close> de
    by (simp add: new_tonopah_grow_def c_divmod_def mean_rtt_ok [OF assms(1)] m_def [symmetric] d_def [symmetric] Let_def
        word_le_nat_alt del: dmul.simps to_u64.simps ddiv.simps) 
qed

section \<open>One notification\<close>

text \<open>
  Limits on what the connection reports, as for New Reno, and on the size of the window. There is no limit from
  below: the reaction to fair queuing has no minimum window.
\<close>

definition nt_limits :: "cc_cnx \<Rightarrow> nat \<Rightarrow> sim_state \<Rightarrow> u64 \<Rightarrow> bool" where
  "nt_limits cnx x0 s nb \<longleftrightarrow> unat (sim_cwin s) \<le> 2 ^ 30 \<and>
     (ssthresh s = UINT64_MAX \<or> unat (ssthresh s) \<le> 2 ^ 30) \<and> unat nb \<le> 2 ^ 20 \<and>
     unat nb * unat (send_mtu (paths cnx x0)) + unat (residual_ack s) \<le> 2 ^ 30 \<and>
     (\<forall>rtt. mean_smoothed_rtt cnx = Ok rtt \<longrightarrow>
        unat (max_bandwidth_estimate (paths cnx x0) * rtt div 1000000 div 2) \<le> 2 ^ 31)"

lemma nt_limits_window: "nt_limits cnx x0 s nb \<Longrightarrow> window_ok s"
  by (simp add: nt_limits_def window_ok_def)

text \<open>The acknowledgement that divides by the window when it is empty.\<close>

definition empty_window :: "notification \<Rightarrow> sim_state \<Rightarrow> bool" where
  "empty_window event s \<longleftrightarrow> event = acknowledgement \<and> alg_state s = congestion_avoidance \<and> sim_cwin s = 0"

lemma enter_recovery_facts:
  assumes "nt_ok g" "window_ok s"
  shows "nt_ok (fst (picoquic_new_tonopah_sim_enter_recovery g s cnx x e t)) \<and>
    same_roles g (fst (picoquic_new_tonopah_sim_enter_recovery g s cnx x e t)) \<and>
    window_ok (snd (picoquic_new_tonopah_sim_enter_recovery g s cnx x e t))"
proof -
  have w: "unat (sim_cwin s) \<le> 2 ^ 31" using assms(2) by (simp add: window_ok_def)
  have "unat (sim_cwin s div 2) \<le> 2 ^ 31" using w(1) by (simp add: unat_div)
  then show ?thesis using assms w
    by (auto simp: picoquic_new_tonopah_sim_enter_recovery_def Let_def window_ok_def word_le_nat_alt not_less word_less_nat_alt)
qed

lemma sim_loss_facts:
  assumes "nt_ok g" "window_ok s" "new_tonopah_sim_loss g s cnx x e rtt t = (g', s')"
  shows "nt_ok g' \<and> same_roles g g' \<and> window_ok s'"
proof -
  have "(g', s') = (g, s) \<or> (g', s') = picoquic_new_tonopah_sim_enter_recovery g s cnx x e t"
    using assms(3) by (auto simp: new_tonopah_sim_loss_def split: if_splits)
  then show ?thesis using assms(1,2) enter_recovery_facts [OF assms(1,2), of cnx x e t]
    by (metis fst_conv snd_conv same_roles_refl)
qed

lemma sim_spurious_facts:
  assumes "window_ok s" "ssthresh s = UINT64_MAX \<or> unat (ssthresh s) \<le> 2 ^ 30"
  shows "window_ok (new_tonopah_sim_spurious s cnx x rtt t)"
proof -
  have "unat (2 * ssthresh s) \<le> 2 ^ 31" if "ssthresh s \<noteq> UINT64_MAX"
    using that assms(2) by (auto simp: unat_word_ariths)
  then have "window_ok (new_tonopah_sim_restore s)" using assms(1)
    by (auto simp: new_tonopah_sim_restore_def window_ok_def intro: order_trans less_imp_le)
  then show ?thesis using assms(1) by (simp add: new_tonopah_sim_spurious_def)
qed

lemma nt_sim_notify_ok:
  assumes "nt_ok g" "path cnx = [x1, x2]" "paths_ok cnx" "nt_limits cnx x s nb" "\<not> empty_window event s"
  shows "\<exists>g' s'. picoquic_new_tonopah_sim_notify g s cnx x event nb t = Ok (g', s') \<and> nt_ok g' \<and> same_roles g g' \<and> window_ok s'"
proof -
  note l = assms(4) [unfolded nt_limits_def]
  have w: "window_ok s" by (rule nt_limits_window [OF assms(4)])
  have n: "nb_paths cnx = 2" using assms(2) by (simp add: nb_paths_def)
  define rtt where "rtt = (smoothed_rtt (paths cnx x1) + smoothed_rtt (paths cnx x2)) div 2"
  have m: "mean_smoothed_rtt cnx = Ok rtt" using mean_rtt_ok [OF assms(2)] by (simp add: rtt_def)
  have loss: "\<exists>g' s'. new_tonopah_sim_loss g s cnx x e rtt t = (g', s') \<and> nt_ok g' \<and> same_roles g g' \<and> window_ok s'" for e
    using sim_loss_facts [OF assms(1) w, of cnx x e rtt t] by (metis surj_pair)
  have sp: "window_ok (new_tonopah_sim_spurious s cnx x rtt t)" using sim_spurious_facts [OF w] l by blast
  have slow: "window_ok (s\<lparr>sim_cwin := sim_cwin s + nb\<rparr>)"
    using l word_add_less [of "sim_cwin s" nb] by (auto simp: window_ok_def intro: order_trans)
  have alg: "window_ok (u\<lparr>alg_state := a\<rparr>) = window_ok u" for u a by (simp add: window_ok_def)
  have ca: "\<exists>s'. new_tonopah_grow s cnx x nb = Ok s' \<and> window_ok s'" if "sim_cwin s \<noteq> 0"
    using grow_ok [OF assms(2,3), of s nb x] l that by (auto simp: window_ok_def unat_gt_0)
  have re: "window_ok picoquic_new_tonopah_sim_reset" by (simp add: window_ok_def picoquic_new_tonopah_sim_reset_def)
  have seed: "window_ok (picoquic_new_tonopah_sim_seed_cwin s nb)"
    using l by (auto simp: picoquic_new_tonopah_sim_seed_cwin_def window_ok_def intro: order_trans less_imp_le)
  show ?thesis
  proof (cases event)
    case acknowledgement
    then show ?thesis using n m assms(1) slow ca
      by (cases "alg_state s") (use assms(5) in \<open>auto simp: picoquic_new_tonopah_sim_notify_def Let_def alg empty_window_def\<close>)
  qed (use n m assms(1) w loss sp re seed in \<open>auto simp: picoquic_new_tonopah_sim_notify_def\<close>)
qed

text \<open>The interval of an acknowledgement.\<close>

lemma find_interval_loop_facts:
  assumes "find_interval_loop one a es = Some (i, fs)"
  shows "i < length fs \<and> length fs = length es \<and> map dominant_path_id fs = map dominant_path_id es \<and>
    (\<forall>e ys. fs = e # ys \<longrightarrow> (\<exists>zs. es = e # zs))"
  using assms
proof (induction es arbitrary: i fs)
  case (Cons e es)
  show ?case
  proof (cases "a \<ge> (if one then first_seq_num1 e else first_seq_num2 e)")
    case True
    then show ?thesis using Cons.prems by (cases es) (auto simp: nt_finish_def)
  next
    case False
    then obtain j gs where "find_interval_loop one a es = Some (j, gs)" "i = Suc j" "fs = e # gs"
      using Cons.prems by auto
    then show ?thesis using Cons.IH by auto
  qed
qed simp

lemma find_right_interval_ok:
  assumes "nt_ok g" "path1 g = Some p \<or> path2 g = Some p"
  shows "\<exists>g' i. new_tonopah_find_right_interval g cnx p = Ok (g', i) \<and> nt_ok g' \<and> same_roles g g' \<and>
    (\<forall>j. i = Some j \<longrightarrow> j < length (intervals g'))"
proof (cases "find_interval_loop (Some p = path1 g) (picoquic_cc_get_ack_number cnx p) (intervals g)")
  case None
  then show ?thesis using assms by (auto simp: new_tonopah_find_right_interval_def)
next
  case (Some r)
  then obtain i fs where r: "find_interval_loop (Some p = path1 g) (picoquic_cc_get_ack_number cnx p) (intervals g) = Some (i, fs)"
    by (cases r) auto
  note f = find_interval_loop_facts [OF r]
  then have img: "dominant_path_id ` set fs = dominant_path_id ` set (intervals g)" by (metis list.set_map)
  have "\<forall>e\<in>set fs. dominant_path_id e = 1 \<or> dominant_path_id e = 2"
  proof
    fix e assume "e \<in> set fs"
    then have "dominant_path_id e \<in> dominant_path_id ` set (intervals g)" unfolding img [symmetric] by (rule imageI)
    then show "dominant_path_id e = 1 \<or> dominant_path_id e = 2" using assms(1) by (auto simp: nt_ok_def)
  qed
  then have "nt_ok (g\<lparr>intervals := fs\<rparr>)" using f assms(1) by (auto simp: nt_ok_def)
  then show ?thesis using r f assms(2) by (auto simp: new_tonopah_find_right_interval_def same_roles_def)
qed

lemma measure_ok:
  assumes "nt_ok g" "i < length (intervals g)"
  shows "nt_ok (g\<lparr>intervals := (intervals g)[i := nt_measure one nb srtt t (intervals g ! i)]\<rparr>)"
proof -
  define e where "e = nt_measure one nb srtt t (intervals g ! i)"
  have e: "dominant_path_id e = dominant_path_id (intervals g ! i)" "finished1 e = finished1 (intervals g ! i)"
    "finished2 e = finished2 (intervals g ! i)"
    by (simp_all add: e_def nt_measure_def Let_def)
  have "dominant_path_id f = 1 \<or> dominant_path_id f = 2" if "f \<in> set ((intervals g)[i := e])" for f
  proof -
    have "f = e \<or> f \<in> set (intervals g)" using that set_update_subset_insert [of "intervals g" i e] by blast
    moreover have "intervals g ! i \<in> set (intervals g)" using assms(2) by simp
    ultimately show ?thesis using assms(1) e(1) unfolding nt_ok_def by metis
  qed
  moreover have "\<not> finished1 f \<and> \<not> finished2 f" if "(intervals g)[i := e] = f # fs" for f fs
  proof (cases "intervals g")
    case Nil
    then show ?thesis using that by simp
  next
    case (Cons h hs)
    then show ?thesis using assms that e(2,3) by (cases i) (auto simp: nt_ok_def)
  qed
  ultimately show ?thesis using assms(1) unfolding e_def [symmetric] nt_ok_def by simp
qed

definition roles_ok :: "nat \<Rightarrow> nat \<Rightarrow> nt_globals \<Rightarrow> bool" where
  "roles_ok x1 x2 g \<longleftrightarrow>
     (case path1 g of
        None \<Rightarrow> path2 g = None
      | Some a \<Rightarrow> (a = x1 \<or> a = x2) \<and> (case path2 g of None \<Rightarrow> True | Some b \<Rightarrow> (b = x1 \<or> b = x2) \<and> b \<noteq> a))"

lemma roles_ok_same: "same_roles g h \<Longrightarrow> roles_ok x1 x2 h = roles_ok x1 x2 g"
  by (simp add: same_roles_def roles_ok_def split: option.split)

lemma register_ok:
  assumes "nt_ok g" "roles_ok x1 x2 g" "x = x1 \<or> x = x2" "nb_paths cnx \<le> 2"
  shows "\<exists>g'. nt_register g cnx x = Ok g' \<and> nt_ok g' \<and> roles_ok x1 x2 g' \<and> (path1 g' = Some x \<or> path2 g' = Some x)"
  using assms by (cases "path1 g"; cases "path2 g") (auto simp: nt_register_def roles_ok_def nt_ok_def Let_def)

text \<open>What every branch of the handler leaves behind.\<close>

definition nt_done :: "nt_globals \<Rightarrow> cc_cnx \<Rightarrow> nt_result \<Rightarrow> bool" where
  "nt_done g cnx r \<longleftrightarrow>
     (case r of (g', cnx', st') \<Rightarrow> nt_ok g' \<and> same_roles g g' \<and> only_windows cnx cnx' \<and> paths_ok cnx' \<and>
        window_ok (nt_nrss st'))"

lemma set_windows_ok:
  assumes "nt_ok g" "path cnx = [x1, x2]" "window_ok (nt_nrss st)" "unat cw \<le> 2 ^ 31" "paths_ok cnx"
    "malloc_ok env"
  shows "\<exists>g' cnx' s'. nt_set_windows env g cnx st cw = Ok (g', cnx', st\<lparr>nt_nrss := s'\<rparr>) \<and> nt_ok g' \<and> same_roles g g' \<and>
    only_windows cnx cnx' \<and> paths_ok cnx' \<and> window_ok s' \<and> (alg_state (nt_nrss st) \<noteq> congestion_avoidance \<longrightarrow> s' = nt_nrss st)"
proof -
  have "path cnx = [x1, x2] \<or> path cnx = [x1]" using assms(2) by simp
  from set_path_ok [OF assms(1) this assms(3-6)] obtain g' cnx' s' where
    "new_tonopah_set_path env g cnx (nt_nrss st) cw = Ok (g', cnx', s')" "nt_ok g'" "same_roles g g'"
    "only_windows cnx cnx'" "paths_ok cnx'" "window_ok s'" "alg_state (nt_nrss st) \<noteq> congestion_avoidance \<longrightarrow> s' = nt_nrss st"
    by blast
  then show ?thesis by (intro exI [of _ g'] exI [of _ cnx'] exI [of _ s']) (simp add: nt_set_windows_def)
qed

lemma nt_simulate_done:
  assumes "nt_ok g" "path cnx = [x1, x2]" "paths_ok cnx" "nt_limits cnx x (nt_nrss st) nb" "malloc_ok env" "event \<noteq> acknowledgement"
  shows "\<exists>r. nt_simulate env g cnx x st event nb t = Ok r \<and> nt_done g cnx r"
proof -
  obtain g1 s1 where n: "picoquic_new_tonopah_sim_notify g (nt_nrss st) cnx x event nb t = Ok (g1, s1)"
    "nt_ok g1" "same_roles g g1" "window_ok s1" using nt_sim_notify_ok [OF assms(1-4), of event t] assms(6) by (auto simp: empty_window_def)
  have "window_ok (nt_nrss (st\<lparr>nt_nrss := s1\<rparr>))" "unat (sim_cwin s1) \<le> 2 ^ 31"
    using n(4) by (simp_all add: window_ok_def)
  from set_windows_ok [OF n(2) assms(2) this assms(3,5)] n show ?thesis
    by (auto simp: nt_simulate_def nt_done_def intro: same_roles_trans)
qed

lemma nt_acknowledged_done:
  assumes "nt_ok g" "path cnx = [x1, x2]" "paths_ok cnx" "nt_limits cnx x0 (nt_nrss st) nb" "malloc_ok env"
    "path1 g = Some x \<or> path2 g = Some x" "window_ok (nt_nrss st)"
    "last_sender_limited_time (paths cnx x) < last_time_acked_data_frame_sent (paths cnx x) \<longrightarrow> \<not> empty_window acknowledgement (nt_nrss st)"
  shows "\<exists>r. nt_acknowledged env g cnx x0 x st nb tt t = Ok r \<and> nt_done g cnx r"
proof (cases "last_sender_limited_time (paths cnx x) < last_time_acked_data_frame_sent (paths cnx x)")
  case False
  then show ?thesis using assms by (simp add: nt_acknowledged_def nt_done_def)
next
  case limited: True
  obtain g1 s1 where n: "picoquic_new_tonopah_sim_notify g (nt_nrss st) cnx x0 acknowledgement nb t = Ok (g1, s1)"
    "nt_ok g1" "same_roles g g1" "window_ok s1" using nt_sim_notify_ok [OF assms(1-4), of acknowledgement] assms(8) limited by blast
  have "path1 g1 = Some x \<or> path2 g1 = Some x" using assms(6) n(3) by (simp add: same_roles_def)
  from find_right_interval_ok [OF n(2) this] obtain g2 i where f: "new_tonopah_find_right_interval g1 cnx x = Ok (g2, i)"
    "nt_ok g2" "same_roles g1 g2" "\<forall>j. i = Some j \<longrightarrow> j < length (intervals g2)" by blast
  define g3 where "g3 = (case i of
                        None \<Rightarrow> g2
                      | Some i \<Rightarrow> g2\<lparr>intervals := (intervals g2)[i :=
                                      nt_measure (Some x = path1 g2) nb
                                        (smoothed_rtt (paths cnx x)) tt (intervals g2 ! i)]\<rparr>)"
  have g3: "nt_ok g3" "same_roles g g3" using f n(3) measure_ok [OF f(2)]
    by (auto simp: g3_def same_roles_def split: option.splits)
  have "window_ok (nt_nrss (st\<lparr>nt_nrss := s1\<rparr>))" "unat (sim_cwin s1) \<le> 2 ^ 31"
    using n(4) by (simp_all add: window_ok_def)
  from set_windows_ok [OF g3(1) assms(2) this assms(3,5)] obtain g4 cnx' s' where
    w: "nt_set_windows env g3 cnx (st\<lparr>nt_nrss := s1\<rparr>) (sim_cwin s1) = Ok (g4, cnx', st\<lparr>nt_nrss := s'\<rparr>)"
      "nt_ok g4" "same_roles g3 g4" "only_windows cnx cnx'" "paths_ok cnx'" "window_ok s'" by auto
  have "nt_done g cnx (g4, cnx', st\<lparr>nt_nrss := s'\<rparr>)" using w g3(2) same_roles_trans [of g g3 g4] by (simp add: nt_done_def)
  then show ?thesis using n(1) f(1) w(1) limited by (auto simp: nt_acknowledged_def g3_def [symmetric] Let_def)
qed

lemma nt_rtt_measured_done:
  assumes "nt_ok g" "path cnx = [x1, x2]" "paths_ok cnx" "nt_limits cnx x0 (nt_nrss st) nb" "malloc_ok env"
  shows "\<exists>r. nt_rtt_measured env g cnx x0 st rtt owd t = Ok r \<and> nt_done g cnx r"
proof -
  note l = assms(4) [unfolded nt_limits_def]
  have w: "window_ok (nt_nrss st)" by (rule nt_limits_window [OF assms(4)])
  have id: "nt_done g cnx (g, cnx, st)" using assms w by (simp add: nt_done_def)
  show ?thesis
  proof (cases "alg_state (nt_nrss st) = slow_start \<and> ssthresh (nt_nrss st) = UINT64_MAX")
    case False
    then show ?thesis using id by (auto simp: nt_rtt_measured_def)
  next
    case True
    then have slow: "alg_state (nt_nrss st) = slow_start" by blast
    define m where "m = (if rtt_min (paths cnx x0) > PICOQUIC_TARGET_SATELLITE_RTT
                         then PICOQUIC_TARGET_SATELLITE_RTT else rtt_min (paths cnx x0))"
    define first where "first =
      (if rtt_min (paths cnx x0) > PICOQUIC_TARGET_RENO_RTT then
         res_bind (satellite_window m)
           (\<lambda>min_win.
              if min_win > sim_cwin (nt_nrss st)
              then nt_set_windows env g cnx (st\<lparr>nt_nrss := (nt_nrss st)\<lparr>sim_cwin := min_win\<rparr>\<rparr>) min_win
              else Ok (g, cnx, st))
       else Ok (g, cnx, st))"
    have "\<exists>g1 cnx1 st1. first = Ok (g1, cnx1, st1) \<and> nt_ok g1 \<and> same_roles g g1 \<and> only_windows cnx cnx1 \<and> paths_ok cnx1 \<and>
        window_ok (nt_nrss st1)"
    proof (cases "rtt_min (paths cnx x0) > PICOQUIC_TARGET_RENO_RTT")
      case False
      then show ?thesis using assms w by (auto simp: first_def)
    next
      case rtt: True
      have "\<exists>v. satellite_window m = Ok v \<and> unat v \<le> 2 ^ 18"
        by (rule satellite_window_range) (use rtt in \<open>auto simp: m_def not_less\<close>)
      then obtain v where v: "satellite_window m = Ok v" "unat v \<le> 2 ^ 18" by blast
      show ?thesis
      proof (cases "v > sim_cwin (nt_nrss st)")
        case True
        define s1 where "s1 = (nt_nrss st)\<lparr>sim_cwin := v\<rparr>"
        have "window_ok (nt_nrss (st\<lparr>nt_nrss := s1\<rparr>))" "unat v \<le> 2 ^ 31"
          using v(2) by (simp_all add: s1_def window_ok_def)
        note w = this
        obtain g1 cnx1 s' where "nt_set_windows env g cnx (st\<lparr>nt_nrss := s1\<rparr>) v = Ok (g1, cnx1, st\<lparr>nt_nrss := s1\<rparr>\<lparr>nt_nrss := s'\<rparr>)"
          "nt_ok g1" "same_roles g g1" "only_windows cnx cnx1" "paths_ok cnx1"
          "alg_state (nt_nrss (st\<lparr>nt_nrss := s1\<rparr>)) \<noteq> congestion_avoidance \<longrightarrow> s' = nt_nrss (st\<lparr>nt_nrss := s1\<rparr>)"
          using set_windows_ok [OF assms(1,2) w assms(3,5)] by blast
        moreover from this have "s' = s1" using slow by (simp add: s1_def)
        ultimately show ?thesis using True v(1) rtt w(1)
          by (intro exI [of _ g1] exI [of _ cnx1] exI [of _ "st\<lparr>nt_nrss := s1\<rparr>"]) (simp add: first_def s1_def)
      next
        case False
        then show ?thesis using assms w v rtt by (auto simp: first_def)
      qed
    qed
    then obtain g1 cnx1 st1 where f: "first = Ok (g1, cnx1, st1)" "nt_ok g1" "same_roles g g1" "only_windows cnx cnx1" "paths_ok cnx1"
        "window_ok (nt_nrss st1)" by blast
    obtain leave rt where h: "picoquic_hystart_test (nt_rtt_filter st1)
                    (if is_time_stamp_enabled cnx1 then owd else rtt) t = (leave, rt)" by fastforce
    define s2 where "s2 = (nt_nrss st1)\<lparr>ssthresh := sim_cwin (nt_nrss st1), alg_state := congestion_avoidance\<rparr>"
    define st2 where "st2 = st1\<lparr>nt_rtt_filter := rt, nt_nrss := s2\<rparr>"
    have w2: "window_ok (nt_nrss st2)" "unat (sim_cwin (nt_nrss st2)) \<le> 2 ^ 31"
      using f(6) by (simp_all add: st2_def s2_def window_ok_def)
    have p1: "path cnx1 = [x1, x2]" using only_windows_same(1) [OF f(4)] assms(2) by simp
    obtain g3 cnx3 s3 where w: "nt_set_windows (env\<lparr>now_set_path := now_set_path_again env\<rparr>) g1 cnx1 st2 (sim_cwin (nt_nrss st2)) = Ok (g3, cnx3, st2\<lparr>nt_nrss := s3\<rparr>)"
      "nt_ok g3" "same_roles g1 g3" "only_windows cnx1 cnx3" "paths_ok cnx3" "window_ok s3"
      using set_windows_ok [OF f(2) p1 w2 f(5), of "env\<lparr>now_set_path := now_set_path_again env\<rparr>"] assms(5) by auto
    have "nt_done g cnx (g3, upd_path x0 (\<lambda>p. p\<lparr>is_ssthresh_initialized := True\<rparr>) cnx3, st2\<lparr>nt_nrss := s3\<rparr>)"
      using w f(3) same_roles_trans [of g g1 g3] only_windows_upd(2) [OF only_windows_trans [OF f(4) w(4)]]
      by (simp add: nt_done_def)
    moreover have "nt_done g cnx (g1, cnx1, st1\<lparr>nt_rtt_filter := rt\<rparr>)" using f by (simp add: nt_done_def)
    ultimately show ?thesis using True f(1) h w(1)
      unfolding nt_rtt_measured_def m_def [symmetric] first_def [symmetric]
      by (auto simp: Let_def st2_def s2_def)
  qed
qed

lemma nt_bw_measured_done:
  assumes "nt_ok g" "path cnx = [x1, x2]" "paths_ok cnx" "nt_limits cnx x0 (nt_nrss st) nb" "malloc_ok env"
  shows "\<exists>r. nt_bw_measured env g cnx x0 st = Ok r \<and> nt_done g cnx r"
proof -
  note l = assms(4) [unfolded nt_limits_def]
  have w: "window_ok (nt_nrss st)" by (rule nt_limits_window [OF assms(4)])
  then have id: "nt_done g cnx (g, cnx, st)" using assms by (simp add: nt_done_def)
  obtain rtt where m: "mean_smoothed_rtt cnx = Ok rtt" using mean_rtt_ok [OF assms(2)] by blast
  have n: "nb_paths cnx = 2" using assms(2) by (simp add: nb_paths_def)
  define v where "v = max_bandwidth_estimate (paths cnx x0) * rtt div 1000000 div 2"
  have v: "unat v \<le> 2 ^ 31" using l m by (simp add: v_def)
  show ?thesis
  proof (cases "alg_state (nt_nrss st) = slow_start \<and> ssthresh (nt_nrss st) = UINT64_MAX \<and> sim_cwin (nt_nrss st) < v")
    case False
    then show ?thesis using id m n by (auto simp: nt_bw_measured_def Let_def v_def)
  next
    case True
    define s1 where "s1 = (nt_nrss st)\<lparr>sim_cwin := v\<rparr>"
    have "window_ok (nt_nrss (st\<lparr>nt_nrss := s1\<rparr>))"
      using v by (simp add: s1_def window_ok_def)
    from set_windows_ok [OF assms(1,2) this v assms(3,5)] obtain g1 cnx1 s' where
      "nt_set_windows env g cnx (st\<lparr>nt_nrss := s1\<rparr>) v = Ok (g1, cnx1, st\<lparr>nt_nrss := s1\<rparr>\<lparr>nt_nrss := s'\<rparr>)"
      "nt_done g cnx (g1, cnx1, st\<lparr>nt_nrss := s1\<rparr>\<lparr>nt_nrss := s'\<rparr>)" by (auto simp: nt_done_def)
    then show ?thesis using True m n by (auto simp: nt_bw_measured_def Let_def v_def [symmetric] s1_def)
  qed
qed

lemma nt_branch_done:
  assumes "nt_ok g" "path cnx = [x1, x2]" "paths_ok cnx" "nt_limits cnx x0 (nt_nrss st) nb" "malloc_ok env"
    "path1 g = Some x \<or> path2 g = Some x" "event \<noteq> reset_notification"
    "last_sender_limited_time (paths cnx x) < last_time_acked_data_frame_sent (paths cnx x) \<longrightarrow> \<not> empty_window event (nt_nrss st)"
  shows "\<exists>r. nt_branch env g cnx x0 x st event rtt owd nb t = Ok r \<and> nt_done g cnx r"
proof -
  have w: "window_ok (nt_nrss st)" by (rule nt_limits_window [OF assms(4)])
  then have "nt_done g cnx (g, cnx, st)" using assms by (simp add: nt_done_def)
  then show ?thesis
    using nt_simulate_done [OF assms(1-5)] nt_acknowledged_done [OF assms(1-6) w] nt_rtt_measured_done [OF assms(1-5)]
      nt_bw_measured_done [OF assms(1-5)] assms(7,8)
    by (cases event) (auto simp: nt_branch_def)
qed

lemma reset_done:
  assumes "nt_ok g" "paths_ok cnx" "x \<in> set (path cnx)"
  shows "\<exists>r. nt_branch env g cnx x0 x st reset_notification rtt owd nb t = Ok r \<and> nt_done g cnx r"
  using assms only_windows_upd(1) [OF only_windows_refl, of cnx x]
  by (auto simp: nt_branch_def picoquic_new_tonopah_reset_def Let_def nt_done_def window_ok_def picoquic_new_tonopah_sim_reset_def
      paths_ok_def pacing_ranges_def upd_path_def)

lemma nt_notify_ok:
  assumes "nt_ok g" "roles_ok x1 x2 g" "path cnx = [x1, x2]" "x = x1 \<or> x = x2" "paths_ok cnx"
    "nt_limits cnx x1 (nt_nrss st) nb" "malloc_ok env"
    "last_sender_limited_time (paths cnx x) < last_time_acked_data_frame_sent (paths cnx x) \<longrightarrow> \<not> empty_window event (nt_nrss st)"
  shows "\<exists>g' cnx' st'. picoquic_new_tonopah_notify env g cnx x (Some st) event rtt owd nb t = Ok (g', cnx', Some st') \<and>
     nt_ok g' \<and> roles_ok x1 x2 g' \<and> path cnx' = path cnx \<and> window_ok (nt_nrss st') \<and> pacing_sane (paths cnx' x) \<and>
     (\<forall>y\<in>set (path cnx'). pacing_ranges (paths cnx' y))"
proof -
  have n: "nb_paths cnx \<le> 2" "path_at cnx 0 = Ok x1" using assms(3) by (simp_all add: nb_paths_def path_at_def)
  obtain g1 where g1: "nt_register g cnx x = Ok g1" "nt_ok g1" "roles_ok x1 x2 g1" "path1 g1 = Some x \<or> path2 g1 = Some x"
    using register_ok [OF assms(1,2,4) n(1)] by blast
  define g2 where "g2 = (if dominant_path g1 = None then g1\<lparr>dominant_path := Some x1, last_change := now_notify env\<rparr> else g1)"
  have g2: "nt_ok g2" "roles_ok x1 x2 g2" "path1 g2 = Some x \<or> path2 g2 = Some x"
    using g1 by (auto simp: g2_def nt_ok_def roles_ok_def split: option.splits)
  define c where "c = upd_path x (\<lambda>p. p\<lparr>is_cc_data_updated := True\<rparr>) cnx"
  have c: "path c = [x1, x2]" "paths_ok c" "nt_limits c x1 (nt_nrss st) nb" "x \<in> set (path c)"
    "last_sender_limited_time (paths c x) < last_time_acked_data_frame_sent (paths c x) \<longrightarrow> \<not> empty_window event (nt_nrss st)"
    using assms by (auto simp: c_def upd_path_def paths_ok_def nt_limits_def pacing_ranges_def mean_smoothed_rtt_def path_at_def nb_paths_def)
  have "\<exists>r. nt_branch env g2 c x1 x st event rtt owd nb t = Ok r \<and> nt_done g2 c r"
    using nt_branch_done [OF g2(1) c(1-3) assms(7) g2(3) _ c(5)] reset_done [OF g2(1) c(2,4)] by (cases "event = reset_notification") auto
  then obtain g3 c3 st3 where b: "nt_branch env g2 c x1 x st event rtt owd nb t = Ok (g3, c3, st3)" "nt_done g2 c (g3, c3, st3)"
    by auto
  have d: "nt_ok g3" "same_roles g2 g3" "only_windows c c3" "paths_ok c3" "window_ok (nt_nrss st3)"
    using b(2) by (simp_all add: nt_done_def)
  have p3: "path c3 = [x1, x2]" "x \<in> set (path c3)" using only_windows_same(1) [OF d(3)] c by simp_all
  then have "pacing_ranges (paths c3 x)" "- (2 ^ 62) < pacing_bucket_nanosec (paths c3 x)" using d(4) by (auto simp: paths_ok_def)
  from pacing_data_updated [OF this] obtain c4 where
    c4: "picoquic_update_pacing_data c3 x (alg_state (nt_nrss st3) = slow_start \<and> ssthresh (nt_nrss st3) = UINT64_MAX) = Ok c4"
      "pacing_updated x c3 c4" by blast
  have "pacing_ranges (paths c4 y)" if "y \<in> set (path c4)" for y
    using that c4(2) d(4) by (cases "y = x") (auto simp: pacing_updated_def same_path_but_pacing_def paths_ok_def pacing_ranges_def)
  moreover have "picoquic_new_tonopah_notify env g cnx x (Some st) event rtt owd nb t = Ok (g3, c4, Some st3)"
    using g1(1) n(2) b(1) c4(1) by (simp add: picoquic_new_tonopah_notify_def g2_def [symmetric] c_def [symmetric] Let_def)
  moreover have "roles_ok x1 x2 g3" using g2(2) roles_ok_same [OF d(2)] by simp
  ultimately show ?thesis using d c4(2) p3(1) assms(3) by (simp add: pacing_updated_def)
qed

text \<open>The one fault that is left: the acknowledgement that finds an empty window.\<close>

lemma nt_notify_divides:
  assumes "nt_ok g" "roles_ok x1 x2 g" "path cnx = [x1, x2]" "x = x1 \<or> x = x2"
    "last_sender_limited_time (paths cnx x) < last_time_acked_data_frame_sent (paths cnx x)" "empty_window event (nt_nrss st)"
  shows "picoquic_new_tonopah_notify env g cnx x (Some st) event rtt owd nb t = Fault DivideByZero"
proof -
  have n: "nb_paths cnx = 2" "path_at cnx 0 = Ok x1" "path_at cnx 1 = Ok x2" using assms(3) by (simp_all add: nb_paths_def path_at_def)
  obtain g1 where "nt_register g cnx x = Ok g1" using register_ok [OF assms(1,2,4), of cnx] n(1) by auto
  moreover have "new_tonopah_grow (nt_nrss st) c x1 nb = Fault DivideByZero" for c
    using assms(6) by (simp add: new_tonopah_grow_def c_divmod_def empty_window_def Let_def)
  ultimately show ?thesis using assms(5,6) n
    by (simp add: picoquic_new_tonopah_notify_def nt_branch_def nt_acknowledged_def picoquic_new_tonopah_sim_notify_def empty_window_def
        Let_def upd_path_def nb_paths_def path_at_def mean_smoothed_rtt_def)
qed

end
