(* ===== verification/FairQueuing.thy ===== *)
theory FairQueuing
  imports NewTonopahProps
begin

text \<open>The properties of the fair-queuing aware controller.\<close>

section \<open>Safety over all histories\<close>

text \<open>
  A history of the handler. It starts after \<open>picoquic_new_tonopah_init\<close> of the first path; every call gets the
  global variables and the state of the algorithm that the call before has left. Between the calls the rest of the
  program may change everything in the connection (\<open>cnx\<close> is any connection with the two paths), within the limits
  \<open>paths_ok\<close> and \<open>nt_limits\<close>: windows and round trip times in the ranges of the pacing, and sizes, the
  simulated window among them, of at most \<open>2 ^ 30\<close>. Nothing bounds the window from below.
\<close>

definition nt_call :: "nat \<Rightarrow> nat \<Rightarrow> nt_env \<Rightarrow> cc_cnx \<Rightarrow> nat \<Rightarrow> new_tonopah_state \<Rightarrow> u64 \<Rightarrow> bool" where
  "nt_call x1 x2 env cnx x st nb \<longleftrightarrow> path cnx = [x1, x2] \<and> (x = x1 \<or> x = x2) \<and> paths_ok cnx \<and>
     nt_limits cnx x1 (nt_nrss st) nb \<and> malloc_ok env"

inductive nt_reach :: "nat \<Rightarrow> nat \<Rightarrow> nt_globals \<Rightarrow> new_tonopah_state \<Rightarrow> bool" for x1 x2 where
  start: "picoquic_new_tonopah_init True x1 cnx = (cnx', Some st) \<Longrightarrow> nt_reach x1 x2 nt_start st"
| notify: "nt_reach x1 x2 g st \<Longrightarrow> nt_call x1 x2 env cnx x st nb \<Longrightarrow>
    picoquic_new_tonopah_notify env g cnx x (Some st) event rtt owd nb t = Ok (g', cnx', Some st') \<Longrightarrow> nt_reach x1 x2 g' st'"

lemma nt_reach_ok: "nt_reach x1 x2 g st \<Longrightarrow> nt_ok g \<and> roles_ok x1 x2 g"
proof (induction rule: nt_reach.induct)
  case (start cnx cnx' st)
  then show ?case by (simp add: nt_ok_def roles_ok_def nt_start_def)
next
  case (notify g st env cnx x nb event rtt owd t g' cnx' st')
  then have c: "path cnx = [x1, x2]" "x = x1 \<or> x = x2" "paths_ok cnx" "nt_limits cnx x1 (nt_nrss st) nb" "malloc_ok env"
    by (simp_all add: nt_call_def)
  show ?case
  proof (cases "last_sender_limited_time (paths cnx x) < last_time_acked_data_frame_sent (paths cnx x) \<and> empty_window event (nt_nrss st)")
    case True
    then show ?thesis using nt_notify_divides [of g x1 x2 cnx x event st env rtt owd nb t] notify.hyps(3) notify.IH c by auto
  next
    case False
    then show ?thesis using nt_notify_ok [of g x1 x2 cnx x st nb env event rtt owd t] notify.hyps(3) notify.IH c by auto
  qed
qed

text \<open>
  C1: safety over all histories of notifications of the two paths, from the initialisation on, and its limit. The next
  notification returns: no assertion fails, no NULL pointer is followed in the list of intervals, and no undefined
  conversion happens. Afterwards there are at most four intervals, the newest is still open, every path
  has a window between 2 KB and 2 GB, and the pacing of the notified path is sane. There is exactly one exception.
  The reaction to fair queuing takes 7/8 of the window, rounded down, with no minimum, so that nothing keeps the
  window from becoming empty in congestion avoidance; the acknowledgement that comes next then divides by it. At every call
  the simulated window and the threshold are at most 1 GB, an acknowledgement covers at most 1 MB, round trip times and rates
  are in the ranges of the pacing, and memory for a new interval is available.
\<close>

theorem new_tonopah_notify_safe:
  assumes "nt_reach x1 x2 g st" "nt_call x1 x2 env cnx x st nb"
  shows "if event = acknowledgement \<and> alg_state (nt_nrss st) = congestion_avoidance \<and> sim_cwin (nt_nrss st) = 0 \<and>
       last_sender_limited_time (paths cnx x) < last_time_acked_data_frame_sent (paths cnx x)
     then picoquic_new_tonopah_notify env g cnx x (Some st) event rtt owd nb t = Fault DivideByZero
     else \<exists>g' cnx' st'. picoquic_new_tonopah_notify env g cnx x (Some st) event rtt owd nb t = Ok (g', cnx', Some st') \<and>
       length (intervals g') \<le> 4 \<and> (\<forall>e es. intervals g' = e # es \<longrightarrow> \<not> finished1 e \<and> \<not> finished2 e) \<and>
       pacing_sane (paths cnx' x) \<and> (\<forall>y\<in>{x1, x2}. 2 ^ 11 \<le> unat (cwin (paths cnx' y)) \<and> unat (cwin (paths cnx' y)) \<le> 2 ^ 31)"
proof -
  have c: "path cnx = [x1, x2]" "x = x1 \<or> x = x2" "paths_ok cnx" "nt_limits cnx x1 (nt_nrss st) nb" "malloc_ok env"
    using assms(2) by (simp_all add: nt_call_def)
  have g: "nt_ok g" "roles_ok x1 x2 g" using nt_reach_ok [OF assms(1)] by simp_all
  let ?safe = "\<exists>g' cnx' st'. picoquic_new_tonopah_notify env g cnx x (Some st) event rtt owd nb t = Ok (g', cnx', Some st') \<and>
       length (intervals g') \<le> 4 \<and> (\<forall>e es. intervals g' = e # es \<longrightarrow> \<not> finished1 e \<and> \<not> finished2 e) \<and>
       pacing_sane (paths cnx' x) \<and> (\<forall>y\<in>{x1, x2}. 2 ^ 11 \<le> unat (cwin (paths cnx' y)) \<and> unat (cwin (paths cnx' y)) \<le> 2 ^ 31)"
  have ?safe if e: "last_sender_limited_time (paths cnx x) < last_time_acked_data_frame_sent (paths cnx x) \<longrightarrow> \<not> empty_window event (nt_nrss st)"
  proof -
    from nt_notify_ok [OF g c e, of rtt owd t] obtain g' cnx' st' where
      r: "picoquic_new_tonopah_notify env g cnx x (Some st) event rtt owd nb t = Ok (g', cnx', Some st')" "nt_ok g'"
        "path cnx' = path cnx" "pacing_sane (paths cnx' x)" "\<forall>y\<in>set (path cnx'). pacing_ranges (paths cnx' y)" by blast
    then show ?thesis using c(1) by (auto simp: nt_ok_def pacing_ranges_def)
  qed
  then show ?thesis using nt_notify_divides [OF g c(1,2), of event st env rtt owd nb t] by (auto simp: empty_window_def)
qed

text \<open>A connection and a state for the witnesses.\<close>

definition example_two :: cc_cnx where
  "example_two = example_cnx\<lparr>paths := (\<lambda>_. example_path)\<rparr>"

definition example_window :: sim_state where
  "example_window =
     \<lparr>alg_state = congestion_avoidance, sim_cwin = 60000, residual_ack = 7, ssthresh = 16000,
      recovery_start = 100, recovery_sequence = 5\<rparr>"

definition example_tonopah :: new_tonopah_state where
  "example_tonopah = \<lparr>nt_nrss = example_window, nt_rtt_filter = min_max_rtt_zero\<rparr>"

definition example_env :: nt_env where
  "example_env = \<lparr>now_notify = 1000000, now_set_path = 1000001, now_set_path_again = 1000002, malloc_ok = True\<rparr>"

definition started_tonopah :: new_tonopah_state where
  "started_tonopah = \<lparr>nt_nrss = picoquic_new_tonopah_sim_reset, nt_rtt_filter = min_max_rtt_zero\<rparr>"

lemma started_reach: "nt_reach 10 11 nt_start started_tonopah"
  by (rule nt_reach.start) (simp add: picoquic_new_tonopah_init_def picoquic_new_tonopah_reset_def started_tonopah_def Let_def)

lemma example_two_ok: "path example_two = [10, 11]" "paths_ok example_two"
  by (simp_all add: example_two_def example_cnx_def paths_ok_def pacing_ranges_def example_path_def)

lemma example_call: "nt_call 10 11 example_env example_two 10 started_tonopah 1440"
  using example_two_ok
  by (simp add: nt_call_def started_tonopah_def picoquic_new_tonopah_sim_reset_def example_env_def nt_limits_def example_two_def
      example_cnx_def example_path_def mean_smoothed_rtt_def path_at_def nb_paths_def)

theorem new_tonopah_notify_safe_witness:
  "\<exists>g' cnx' st'. picoquic_new_tonopah_notify example_env nt_start example_two 10 (Some started_tonopah)
       acknowledgement 50000 0 1440 1000000 = Ok (g', cnx', Some st') \<and>
     length (intervals g') \<le> 4 \<and> (\<forall>e es. intervals g' = e # es \<longrightarrow> \<not> finished1 e \<and> \<not> finished2 e) \<and>
     pacing_sane (paths cnx' 10) \<and> (\<forall>y\<in>{10, 11}. 2 ^ 11 \<le> unat (cwin (paths cnx' y)) \<and> unat (cwin (paths cnx' y)) \<le> 2 ^ 31)"
  using new_tonopah_notify_safe [OF started_reach example_call, of acknowledgement 50000 0 1000000]
  by (simp add: started_tonopah_def picoquic_new_tonopah_sim_reset_def)

section \<open>What the detection means\<close>

text \<open>The sums of the round trip times and the numbers of acknowledgements, by the role of the path.\<close>

definition dominant_sum :: "nt_interval \<Rightarrow> double" where
  "dominant_sum e = (if dominant_path_id e = 1 then rtt_sum1 e else rtt_sum2 e)"
definition submissive_sum :: "nt_interval \<Rightarrow> double" where
  "submissive_sum e = (if dominant_path_id e = 1 then rtt_sum2 e else rtt_sum1 e)"
definition dominant_acks :: "nt_interval \<Rightarrow> nat" where
  "dominant_acks e = unat (if dominant_path_id e = 1 then num_acks1 e else num_acks2 e)"
definition submissive_acks :: "nt_interval \<Rightarrow> nat" where
  "submissive_acks e = unat (if dominant_path_id e = 1 then num_acks2 e else num_acks1 e)"

lemma mean_value:
  assumes "s \<le> 2 ^ 50" "0 < unat k" "unat k \<le> 2 ^ 50" "rat_of_nat s / rat_of_nat (unat k) \<le> 2 ^ 30"
  shows "\<exists>m. ddiv (dadd (Fin 0) (Fin (of_nat s))) (of_u64 k) = Fin m \<and>
    \<bar>m - rat_of_nat s / rat_of_nat (unat k)\<bar> \<le> 1 / 2 ^ 23 \<and> 0 \<le> m \<and> m \<le> 2 ^ 31"
proof -
  define q where "q = rat_of_nat s / rat_of_nat (unat k)"
  have q: "0 \<le> q" "q \<le> 2 powi 30" using assms(4) by (simp_all add: q_def)
  have "rat_of_nat s \<le> rat_of_nat (2 ^ 50)" using assms(1) by (simp only: of_nat_le_iff)
  also have "\<dots> \<le> 2 ^ 1000" using power_increasing [of 50 1000 "2::rat"] by simp
  finally have "dadd (Fin 0) (Fin (of_nat s)) = Fin (of_nat s)" using assms(1) by (simp add: rnd_Fin fl_of_nat)
  moreover have "of_u64 k = Fin (of_nat (unat k))" using assms(3) by (intro of_u64_exact) simp
  moreover have "q \<le> 2 ^ 1000" using q(2) power_increasing [of 30 1000 "2::rat"] by simp
  ultimately have "ddiv (dadd (Fin 0) (Fin (of_nat s))) (of_u64 k) = Fin (fl q)"
    using assms(2) q(1) by (simp add: q_def [symmetric] rnd_Fin)
  moreover have "\<bar>fl q - q\<bar> \<le> 1 / 2 ^ 23" using fl_close [OF q] by (simp add: power_int_minus)
  moreover have "fl q \<le> 2 ^ 31" using fl_le_dyadic [of q 1 30] q by simp
  ultimately show ?thesis using fl_nonneg [OF q(1)] by (auto simp: q_def)
qed

lemma difference_seen:
  assumes "0 \<le> a" "a \<le> 2 ^ 31" "0 \<le> b"
  shows "a - b > 5000 + 1 / 2 \<Longrightarrow> dless (dlit 5000) (dsub (Fin a) (Fin b))"
    "a - b \<le> 5000 \<Longrightarrow> \<not> dless (dlit 5000) (dsub (Fin a) (Fin b))"
proof -
  have f: "fl 5000 = (5000::rat)" using fl_of_nat [of 5000] by simp
  have big: "x \<le> 2 ^ 31 \<Longrightarrow> x \<le> (2::rat) ^ 1000" for x using power_increasing [of 31 1000 "2::rat"] by linarith
  { assume d: "a - b > 5000 + 1 / 2"
    have r: "rnd (a - b) = Fin (fl (a - b))" using assms d big [of "a - b"] by (intro rnd_Fin) simp_all
    have "\<bar>fl (a - b) - (a - b)\<bar> \<le> 2 powi (31 - 53)" using assms d by (intro fl_close) simp_all
    also have "(2::rat) powi (31 - 53) \<le> 1 / 4" by (simp add: power_int_minus)
    finally have "fl (a - b) > 5000" using d unfolding abs_le_iff by linarith
    with r show "dless (dlit 5000) (dsub (Fin a) (Fin b))" by (simp add: dsub_def dlit_numeral) }
  { assume d: "a - b \<le> 5000"
    have "fl (a - b) \<le> 5000" using fl_mono [of "a - b" 5000] f d fl_nonpos [of "a - b"] by (cases "0 \<le> a - b") auto
    then show "\<not> dless (dlit 5000) (dsub (Fin a) (Fin b))" by (simp add: dsub_def dlit_numeral rnd_def) }
qed

text \<open>
  C3: what the detection sees. In the list of intervals only the newest one that both paths have
  finished counts; fair queuing is reported when in it the mean round trip time of the dominant path
  exceeds that of the other by more than 5 ms. With the rounding of the floating point
  arithmetic this holds up to one microsecond.
\<close>

theorem fq_detection_correct:
  assumes "nt_ok g" "find nt_finished (intervals g) = Some e"
    "dominant_sum e = Fin (of_nat s1)" "submissive_sum e = Fin (of_nat s2)" "s1 \<le> 2 ^ 50" "s2 \<le> 2 ^ 50"
    "0 < dominant_acks e" "dominant_acks e \<le> 2 ^ 50" "0 < submissive_acks e" "submissive_acks e \<le> 2 ^ 50"
    "rat_of_nat s1 / rat_of_nat (dominant_acks e) \<le> 2 ^ 30" "rat_of_nat s2 / rat_of_nat (submissive_acks e) \<le> 2 ^ 30"
  shows "\<exists>fq. new_tonopah_aggregate_intervals (intervals g) = Ok fq \<and>
    (rat_of_nat s1 / rat_of_nat (dominant_acks e) - rat_of_nat s2 / rat_of_nat (submissive_acks e) > 5001 \<longrightarrow> fq) \<and>
    (rat_of_nat s1 / rat_of_nat (dominant_acks e) - rat_of_nat s2 / rat_of_nat (submissive_acks e) < 4999 \<longrightarrow> \<not> fq)"
proof -
  obtain m1 where m1: "mean_dominant e = Fin m1" "\<bar>m1 - rat_of_nat s1 / rat_of_nat (dominant_acks e)\<bar> \<le> 1 / 2 ^ 23"
      "0 \<le> m1" "m1 \<le> 2 ^ 31"
    using mean_value [OF assms(5), of "if dominant_path_id e = 1 then num_acks1 e else num_acks2 e"] assms(3,7,8,11)
    by (auto simp: mean_dominant_def dominant_sum_def dominant_acks_def split: if_splits)
  obtain m2 where m2: "mean_submissive e = Fin m2" "\<bar>m2 - rat_of_nat s2 / rat_of_nat (submissive_acks e)\<bar> \<le> 1 / 2 ^ 23" "0 \<le> m2"
    using mean_value [OF assms(6), of "if dominant_path_id e = 1 then num_acks2 e else num_acks1 e"] assms(4,9,10,12)
    by (auto simp: mean_submissive_def submissive_sum_def submissive_acks_def split: if_splits)
  have small: "(1 / 2 ^ 23 :: rat) \<le> 1 / 8" by simp
  define x where "x = rat_of_nat s1 / rat_of_nat (dominant_acks e) - rat_of_nat s2 / rat_of_nat (submissive_acks e)"
  have "\<bar>(m1 - m2) - x\<bar> \<le> 1 / 4" using m1(2) m2(2) small unfolding x_def abs_le_iff by linarith
  then have "x > 5001 \<longrightarrow> m1 - m2 > 5000 + 1 / 2" "x < 4999 \<longrightarrow> m1 - m2 \<le> 5000" unfolding abs_le_iff by linarith+
  moreover have "new_tonopah_aggregate_intervals (intervals g) = Ok (fq_seen e)"
    using aggregate_eq [OF assms(1)] assms(2) by simp
  ultimately show ?thesis using difference_seen [OF m1(3,4) m2(3)] unfolding x_def [symmetric]
    by (simp add: fq_seen_def m1(1) m2(1))
qed

text \<open>A state with one finished interval: means of 20 ms and 10 ms.\<close>

definition example_interval :: nt_interval where
  "example_interval = nt_interval_zero\<lparr>dominant_path_id := 1, rtt_sum1 := Fin 60000, num_acks1 := 3,
     rtt_sum2 := Fin 20000, num_acks2 := 2, finished1 := True, finished2 := True\<rparr>"

definition example_globals :: nt_globals where
  "example_globals = \<lparr>intervals = [nt_interval_zero\<lparr>dominant_path_id := 1\<rparr>, example_interval], last_change = 0,
     path1 = Some 10, path2 = Some 11, dominant_path = Some 10\<rparr>"

lemmas example_globals_defs = example_globals_def example_interval_def nt_interval_zero_def

theorem fq_detection_correct_witness:
  "new_tonopah_aggregate_intervals (intervals example_globals) = Ok True"
  using fq_detection_correct [where g = example_globals and e = example_interval and ?s1.0 = 60000 and ?s2.0 = 20000]
  by (auto simp: example_globals_defs nt_ok_def nt_finished_def dominant_sum_def submissive_sum_def
      dominant_acks_def submissive_acks_def)

section \<open>The split of the window\<close>

text \<open>The two shares of a window, up to one byte, whatever the window is.\<close>

lemma nt_shares:
  assumes "unat cw \<le> 2 ^ 31"
  obtains d s where "share cw new_tonopah_ratio = Ok d" "share cw (dsub (dlit 1) new_tonopah_ratio) = Ok s"
    "3 * unat d \<le> max 9216 (2 * unat cw)" "max 9216 (2 * unat cw) \<le> 3 * unat d + 3"
    "3 * unat s \<le> max 9216 (unat cw)" "max 9216 (unat cw) \<le> 3 * unat s + 3"
proof -
  obtain d s where ds: "share cw new_tonopah_ratio = Ok d" "share cw (dsub (dlit 1) new_tonopah_ratio) = Ok s"
    using shares_ok [OF assms] by blast
  have "\<bar>rho - 2 / 3\<bar> \<le> 1 / 2 ^ 53" using rho by (rule order_trans) simp
  then have d: "\<bar>rho - of_nat 2 / of_nat 3\<bar> \<le> 1 / 2 ^ 53" and s: "\<bar>sigma - of_nat 1 / of_nat 3\<bar> \<le> 1 / 2 ^ 53" using sigma by simp_all
  show ?thesis
    by (rule that [OF ds])
      (use share_nat [OF assms d _ _ _ _ ds(1) [unfolded ratio]] share_nat [OF assms s _ _ _ _ ds(2) [unfolded ratio_rest]] in simp_all)
qed

text \<open>
  C15: the split of the window, by the position of the paths in the connection. If the dominant path is the one that was
  registered first, the path at position 0 gets the large share, otherwise, if it is the one registered second, the
  path at position 1 does; the other path gets the small share. The large share is two thirds of the window and the
  small one a third, each at least the minimum window of 3072 bytes and rounded down, up to one byte. For a window of
  at least 9216 bytes nothing is given out twice and at most two bytes are lost. (When
  the paths were registered in the order of their positions, the large share goes to the dominant path.)
\<close>

theorem window_split_exact:
  assumes "path cnx = [x1, x2]" "x1 \<noteq> x2" "dominant_path g = path1 g \<or> dominant_path g = path2 g" "unat cw \<le> 2 ^ 31"
  defines "large \<equiv> (if dominant_path g = path1 g then x1 else x2)" and "small \<equiv> (if dominant_path g = path1 g then x2 else x1)"
  shows "\<exists>cnx'. nt_split g cnx cw = Ok cnx' \<and>
    3 * unat (cwin (paths cnx' large)) \<le> max 9216 (2 * unat cw) \<and> max 9216 (2 * unat cw) \<le> 3 * unat (cwin (paths cnx' large)) + 3 \<and>
    3 * unat (cwin (paths cnx' small)) \<le> max 9216 (unat cw) \<and> max 9216 (unat cw) \<le> 3 * unat (cwin (paths cnx' small)) + 3 \<and>
    (9216 \<le> unat cw \<longrightarrow> unat (cwin (paths cnx' x1)) + unat (cwin (paths cnx' x2)) \<le> unat cw \<and>
       unat cw \<le> unat (cwin (paths cnx' x1)) + unat (cwin (paths cnx' x2)) + 2)"
proof -
  obtain d s where ds: "share cw new_tonopah_ratio = Ok d" "share cw (dsub (dlit 1) new_tonopah_ratio) = Ok s"
    "3 * unat d \<le> max 9216 (2 * unat cw)" "max 9216 (2 * unat cw) \<le> 3 * unat d + 3"
    "3 * unat s \<le> max 9216 (unat cw)" "max 9216 (unat cw) \<le> 3 * unat s + 3"
    using nt_shares [OF assms(4)] .
  have "unat d + unat s \<le> unat cw \<and> unat cw \<le> unat d + unat s + 2" if "9216 \<le> unat cw" using ds(3-6) that by linarith
  then show ?thesis using split_eq [OF assms(1) ds(1,2), of g] ds(3-6) assms(2,3)
    by (auto simp: upd_path_def large_def small_def add.commute)
qed

theorem window_split_exact_witness:
  "\<exists>cnx'. nt_split example_globals example_two 60000 = Ok cnx' \<and>
    unat (cwin (paths cnx' 10)) + unat (cwin (paths cnx' 11)) \<le> 60000 \<and>
    59998 \<le> unat (cwin (paths cnx' 10)) + unat (cwin (paths cnx' 11)) \<and>
    unat (cwin (paths cnx' 10)) \<le> 40000 \<and> 39999 \<le> unat (cwin (paths cnx' 10))"
proof -
  have "path example_two = [10, 11]" "(10::nat) \<noteq> 11" "dominant_path example_globals = path1 example_globals \<or>
      dominant_path example_globals = path2 example_globals" "unat (60000::u64) \<le> 2 ^ 31" "dominant_path example_globals = path1 example_globals"
    by (simp_all add: example_two_def example_cnx_def example_globals_def)
  from window_split_exact [OF this(1-4)] this(5) show ?thesis
    by (elim exE, intro exI) auto
qed

text \<open>
  C27: the windows are given out by position, the roles by registration. If the second path of the
  connection sent the first notification, and the first path is the dominant one, the
  dominant path gets the smaller window.
\<close>

theorem dominant_path_gets_less:
  assumes "path cnx = [x1, x2]" "x1 \<noteq> x2" "path1 g = Some x2" "path2 g = Some x1" "dominant_path g = Some x1"
    "9300 \<le> unat cw" "unat cw \<le> 2 ^ 31"
  shows "\<exists>cnx'. nt_split g cnx cw = Ok cnx' \<and> cwin (paths cnx' x1) < cwin (paths cnx' x2)"
proof -
  obtain d s where ds: "share cw new_tonopah_ratio = Ok d" "share cw (dsub (dlit 1) new_tonopah_ratio) = Ok s"
    "max 9216 (2 * unat cw) \<le> 3 * unat d + 3" "3 * unat s \<le> max 9216 (unat cw)" using nt_shares [OF assms(7)] .
  then have "s < d" using assms(6) by (simp add: word_less_nat_alt)
  then show ?thesis using split_eq [OF assms(1) ds(1,2), of g] assms(2-5) by (auto simp: upd_path_def)
qed

theorem dominant_path_gets_less_witness:
  "\<exists>cnx'. nt_split (example_globals\<lparr>path1 := Some 11, path2 := Some 10\<rparr>) example_two 60000 = Ok cnx' \<and>
     cwin (paths cnx' 10) < cwin (paths cnx' 11)"
  by (rule dominant_path_gets_less) (simp_all add: example_two_def example_cnx_def example_globals_def)

section \<open>The reaction to fair queuing\<close>

text \<open>The time for a new interval has come.\<close>

definition interval_over :: "nt_env \<Rightarrow> nt_globals \<Rightarrow> cc_cnx \<Rightarrow> bool" where
  "interval_over env g cnx \<longleftrightarrow>
     (case mean_smoothed_rtt cnx of
        Ok rtt \<Rightarrow> last_change g + min (max new_tonopah_minimum_interval rtt) new_tonopah_maximum_interval < now_set_path env
      | Fault _ \<Rightarrow> False)"

text \<open>
  C14: the reaction. When an interval is over, the algorithm is in congestion avoidance and the
  newest interval finished by both paths shows fair queuing, the window drops to 7/8, rounded
  down, and the measurement starts over with one new interval. The windows of the paths are
  those of the window from before the reduction.
\<close>

theorem fq_reduces_window:
  assumes "nt_ok g" "path cnx = [x1, x2]" "path1 g = Some p1" "path2 g = Some p2" "interval_over env g cnx" "malloc_ok env"
    "window_ok s" "alg_state s = congestion_avoidance" "find nt_finished (intervals g) = Some e" "fq_seen e" "paths_ok cnx"
  shows "\<exists>g' cnx' s' new. new_tonopah_set_path env g cnx s (sim_cwin s) = Ok (g', cnx', s') \<and>
     unat (sim_cwin s') = 7 * unat (sim_cwin s) div 8 \<and> ssthresh s' = sim_cwin s' \<and> intervals g' = [new] \<and>
     nt_split g cnx (sim_cwin s) = Ok cnx'"
proof -
  have n: "nb_paths cnx = 2" using assms(2) by (simp add: nb_paths_def)
  note m = mean_rtt_ok [OF assms(2)]
  have fq: "new_tonopah_aggregate_intervals (intervals g) = Ok True" using aggregate_eq [OF assms(1)] assms(9,10) by simp
  obtain g1 s1 where r: "nt_react True g s = Ok (g1, s1)" "nt_ok g1" "same_roles g g1"
    "unat (sim_cwin s1) = 7 * unat (sim_cwin s) div 8" "ssthresh s1 = sim_cwin s1" "intervals g1 = []"
    using nt_react_ok [OF assms(1,7), of True] assms(8) by auto
  have w: "unat (sim_cwin s) \<le> 2 ^ 31" using assms(7) by (simp add: window_ok_def)
  have sp: "\<exists>cnx'. nt_split h cnx (sim_cwin s) = Ok cnx' \<and> nt_split g cnx (sim_cwin s) = Ok cnx'" if "same_roles g h" for h
  proof -
    obtain c where "nt_split g cnx (sim_cwin s) = Ok c" using split_ok [OF assms(2) w assms(11)] by blast
    moreover have "nt_split h cnx (sim_cwin s) = nt_split g cnx (sim_cwin s)" using that unfolding same_roles_def nt_split_def by (elim conjE) (simp only:)
    ultimately show ?thesis by simp
  qed
  obtain g2 where i: "nt_new_interval g1 cnx p1 p2 = Ok g2" "same_roles g1 g2" "length (intervals g2) = 1"
    using r(6) by (auto simp: nt_new_interval_def Let_def new_tonopah_get_interval_info_list_len_def same_roles_def)
  define g3 where "g3 = g2\<lparr>last_change := now_set_path env\<rparr>"
  have g3: "same_roles g g3" "length (intervals g3) = 1" using i r(3) by (simp_all add: g3_def same_roles_def)
  obtain cnx' where c: "nt_split g3 cnx (sim_cwin s) = Ok cnx'" "nt_split g cnx (sim_cwin s) = Ok cnx'" using sp [OF g3(1)] by blast
  have "new_tonopah_set_path env g cnx s (sim_cwin s) = Ok (g3, cnx', s1)"
    using assms(3-6) n m fq r(1) i(1) c(1) by (simp add: new_tonopah_set_path_def interval_over_def g3_def Let_def)
  then show ?thesis using r c(2) g3(2) by (auto simp: length_Suc_conv)
qed

theorem fq_reduces_window_witness:
  "\<exists>g' cnx' s' new. new_tonopah_set_path example_env example_globals example_two example_window 60000 = Ok (g', cnx', s') \<and>
     unat (sim_cwin s') = 52500 \<and> ssthresh s' = sim_cwin s' \<and> intervals g' = [new] \<and>
     nt_split example_globals example_two 60000 = Ok cnx'"
proof -
  have f: "fq_seen example_interval"
  proof -
    have "fl 60000 = (60000::rat)" "fl 20000 = (20000::rat)" "fl 10000 = (10000::rat)"
      using fl_of_nat [of 60000] fl_of_nat [of 20000] fl_of_nat [of 10000] by simp_all
    then show ?thesis using of_u64_exact [of 3] of_u64_exact [of 2]
      by (simp add: fq_seen_def mean_dominant_def mean_submissive_def example_interval_def nt_interval_zero_def
          rnd_Fin dsub_def dlit_numeral)
  qed
  show ?thesis
    using fq_reduces_window [where g = example_globals and cnx = example_two and ?x1.0 = 10 and ?x2.0 = 11 and ?p1.0 = 10 and
        ?p2.0 = 11 and env = example_env and s = example_window and e = example_interval] f example_two_ok
    by (simp add: example_globals_defs nt_ok_def example_two_def example_cnx_def example_env_def example_window_def window_ok_def
        nt_finished_def interval_over_def mean_smoothed_rtt_def path_at_def nb_paths_def example_path_def nt_call_def
        new_tonopah_minimum_interval_def new_tonopah_maximum_interval_def)
qed

section \<open>A connection with one path\<close>

text \<open>
  C28: on a connection with a single path, the first acknowledgement in congestion avoidance reads
  \<open>cnx->path[1]\<close>, which does not exist.
\<close>

theorem single_path_reads_path1:
  assumes "path cnx = [x1]" "path1 g = None \<or> path1 g = Some x1" "path2 g = None"
    "alg_state (nt_nrss st) = congestion_avoidance" "sim_cwin (nt_nrss st) \<noteq> 0"
    "last_sender_limited_time (paths cnx x1) < last_time_acked_data_frame_sent (paths cnx x1)"
  shows "picoquic_new_tonopah_notify env g cnx x1 (Some st) acknowledgement rtt owd nb t = Fault OutOfBounds"
proof -
  define g1 where "g1 = (if path1 g = None then g\<lparr>path1 := Some x1\<rparr> else g)"
  have "nt_register g cnx x1 = Ok g1" using assms(1-3) by (auto simp: nt_register_def nb_paths_def g1_def Let_def)
  then show ?thesis using assms
    by (simp add: picoquic_new_tonopah_notify_def path_at_def nb_paths_def Let_def nt_branch_def nt_acknowledged_def upd_path_def
        picoquic_new_tonopah_sim_notify_def new_tonopah_grow_def c_divmod_def mean_smoothed_rtt_def)
qed

theorem single_path_reads_path1_witness:
  "picoquic_new_tonopah_notify example_env nt_start (example_two\<lparr>path := [10]\<rparr>) 10 (Some example_tonopah)
     acknowledgement 50000 0 1440 1000000 = Fault OutOfBounds"
  by (rule single_path_reads_path1)
    (simp_all add: example_two_def nt_start_def example_tonopah_def example_window_def example_path_def)

section \<open>New Reno on two paths\<close>





end
