(* ===== verification/Tonopah.thy ===== *)
theory Tonopah
  imports TwoPaths
begin

text \<open>
  The first fair-queuing aware controller, from \<open>picoquic/tonopah.c\<close>. It splits one window between
  two paths, 3/5 to the dominant one, and swaps the roles of the paths with every measurement interval;
  when the bandwidth that the receiver acknowledges does not follow the bandwidth that was
  sent, the bottleneck shares fairly and the window is lowered.

  The file is the ancestor of \<open>new_tonopah.c\<close> and has the same structure; the model follows it in
  the same way: the global variables are the record \<open>tn_globals\<close>, the list of intervals has the
  newest first, the state of the window shares the record of New Reno.
\<close>

section \<open>The state\<close>

record tn_interval =
  first_seq_num1 :: u64
  first_seq_num2 :: u64
  first_ack_time1 :: u64
  first_ack_time2 :: u64
  last_ack_time1 :: u64
  last_ack_time2 :: u64
  bytes_received1 :: u64
  bytes_received2 :: u64
  dominant_path_id :: u64
  finished1 :: bool
  finished2 :: bool
  dont_use :: bool

text \<open>An interval after \<open>memset\<close>.\<close>

definition tn_interval_zero :: tn_interval where
  "tn_interval_zero =
     \<lparr>first_seq_num1 = 0, first_seq_num2 = 0, first_ack_time1 = 0, first_ack_time2 = 0,
      last_ack_time1 = 0, last_ack_time2 = 0, bytes_received1 = 0, bytes_received2 = 0,
      dominant_path_id = 0,
      finished1 = False, finished2 = False, dont_use = False\<rparr>"

abbreviation INTERVALS_REQUIRED :: nat where "INTERVALS_REQUIRED \<equiv> 4"
definition minimum_interval :: u64 where "minimum_interval = 50000"
definition maximum_interval :: u64 where "maximum_interval = 50000"

text \<open>The global variable \<open>ratio\<close>.\<close>

definition dominant_ratio :: double where
  "dominant_ratio = dlit (3 / 5)"

record tn_globals =
  intervals :: "tn_interval list"
  last_change :: u64
  path1 :: "nat option"
  path2 :: "nat option"
  dominant_path :: "nat option"

definition tn_start :: tn_globals where
  "tn_start = \<lparr>intervals = [], last_change = 0, path1 = None, path2 = None, dominant_path = None\<rparr>"

text \<open>
  What the handler gets from outside: the clock when it starts, the clock when it sets the windows, and again
  when it does so a second time in one call, and whether \<open>malloc\<close> succeeds.
\<close>

record tn_env =
  now_notify :: u64
  now_set_path :: u64
  now_set_path_again :: u64
  malloc_ok :: bool

record tonopah_state =
  tn_nrss :: sim_state
  tn_rtt_filter :: min_max_rtt

section \<open>The list of intervals\<close>

definition get_interval_info_list_len :: "tn_globals \<Rightarrow> nat" where
  "get_interval_info_list_len g = length (intervals g)"

definition delete_info_list :: "tn_globals \<Rightarrow> tn_globals" where
  "delete_info_list g = g\<lparr>intervals := []\<rparr>"

section \<open>The simulated window\<close>

definition picoquic_tonopah_sim_reset :: sim_state where
  "picoquic_tonopah_sim_reset =
     \<lparr>alg_state = slow_start, sim_cwin = PICOQUIC_CWIN_INITIAL, residual_ack = 0,
      ssthresh = UINT64_MAX, recovery_start = 0, recovery_sequence = 0\<rparr>"

definition picoquic_tonopah_sim_enter_recovery ::
    "tn_globals \<Rightarrow> sim_state \<Rightarrow> cc_cnx \<Rightarrow> nat \<Rightarrow> notification \<Rightarrow> u64 \<Rightarrow> tn_globals \<times> sim_state" where
  "picoquic_tonopah_sim_enter_recovery g nr_state cnx x event current_time =
     (if alg_state nr_state = congestion_avoidance \<and> get_interval_info_list_len g = 0
      then (g, nr_state)
      else
        let g = (if path1 g \<noteq> None \<and> path2 g \<noteq> None then delete_info_list g else g);
            nr_state = nr_state\<lparr>ssthresh := sim_cwin nr_state div 2\<rparr>;
            nr_state = (if ssthresh nr_state < PICOQUIC_CWIN_MINIMUM
                        then nr_state\<lparr>ssthresh := PICOQUIC_CWIN_MINIMUM\<rparr> else nr_state);
            nr_state = (if event = timeout
                        then nr_state\<lparr>sim_cwin := PICOQUIC_CWIN_MINIMUM, alg_state := slow_start\<rparr>
                        else nr_state\<lparr>sim_cwin := ssthresh nr_state, alg_state := congestion_avoidance\<rparr>)
        in (g, nr_state\<lparr>recovery_start := current_time,
                        recovery_sequence := picoquic_cc_get_sequence_number cnx x, residual_ack := 0\<rparr>))"

definition picoquic_tonopah_sim_seed_cwin :: "sim_state \<Rightarrow> u64 \<Rightarrow> sim_state" where
  "picoquic_tonopah_sim_seed_cwin nr_state bytes_in_flight =
     (if alg_state nr_state = slow_start \<and> ssthresh nr_state = UINT64_MAX \<and>
         bytes_in_flight > sim_cwin nr_state
      then nr_state\<lparr>sim_cwin := bytes_in_flight, ssthresh := bytes_in_flight,
                    alg_state := congestion_avoidance\<rparr>
      else nr_state)"

text \<open>The acknowledgement in congestion avoidance.\<close>

definition tonopah_grow :: "sim_state \<Rightarrow> cc_cnx \<Rightarrow> nat \<Rightarrow> u64 \<Rightarrow> sim_state res" where
  "tonopah_grow nr_state cnx x nb_bytes_acknowledged =
     (let complete_delta = nb_bytes_acknowledged * send_mtu (paths cnx x) + residual_ack nr_state
      in res_bind (c_divmod complete_delta (sim_cwin nr_state)) (\<lambda>(_, r).
         let nr_state = nr_state\<lparr>residual_ack := r\<rparr>
         in res_bind (if nb_paths cnx > 1 then mean_smoothed_rtt cnx
                      else res_bind (path_at cnx 0) (\<lambda>p0. Ok (smoothed_rtt (paths cnx p0)))) (\<lambda>current_smoothed_rtt.
            let ratio = dmin (ddiv (of_u64 current_smoothed_rtt) (of_u64 minimum_interval)) (dlit 1)
            in res_bind (to_u64 (dadd (of_u64 (sim_cwin nr_state))
                                   (dmul ratio (ddiv (of_u64 complete_delta) (of_u64 (sim_cwin nr_state))))))
                 (\<lambda>w. Ok (nr_state\<lparr>sim_cwin := w\<rparr>)))))"

text \<open>The branches of the losses and of the spurious repeat, with the round trip time they use.\<close>

definition tonopah_sim_loss ::
    "tn_globals \<Rightarrow> sim_state \<Rightarrow> cc_cnx \<Rightarrow> nat \<Rightarrow> notification \<Rightarrow> u64 \<Rightarrow> u64 \<Rightarrow> tn_globals \<times> sim_state" where
  "tonopah_sim_loss g nr_state cnx x event rtt current_time =
     (if \<not> multipath_enabled cnx then
        if current_time - recovery_start nr_state > rtt \<or>
           recovery_sequence nr_state \<le> picoquic_cc_get_ack_number cnx x
        then picoquic_tonopah_sim_enter_recovery g nr_state cnx x event current_time else (g, nr_state)
      else
        if current_time - recovery_start nr_state > rtt \<or>
           recovery_start nr_state \<le> picoquic_cc_get_ack_sent_time cnx x
        then picoquic_tonopah_sim_enter_recovery g nr_state cnx x event current_time else (g, nr_state))"

definition tonopah_sim_restore :: "sim_state \<Rightarrow> sim_state" where
  "tonopah_sim_restore nr_state =
     (if ssthresh nr_state \<noteq> UINT64_MAX \<and> sim_cwin nr_state < 2 * ssthresh nr_state
      then nr_state\<lparr>sim_cwin := 2 * ssthresh nr_state, alg_state := congestion_avoidance\<rparr> else nr_state)"

definition tonopah_sim_spurious :: "sim_state \<Rightarrow> cc_cnx \<Rightarrow> nat \<Rightarrow> u64 \<Rightarrow> u64 \<Rightarrow> sim_state" where
  "tonopah_sim_spurious nr_state cnx x rtt current_time =
     (if \<not> multipath_enabled cnx then
        if current_time - recovery_start nr_state < rtt \<and>
           recovery_sequence nr_state > picoquic_cc_get_ack_number cnx x
        then tonopah_sim_restore nr_state else nr_state
      else
        if current_time - recovery_start nr_state < rtt \<and>
           recovery_start nr_state > picoquic_cc_get_ack_sent_time cnx x
        then tonopah_sim_restore nr_state else nr_state)"

definition picoquic_tonopah_sim_notify ::
    "tn_globals \<Rightarrow> sim_state \<Rightarrow> cc_cnx \<Rightarrow> nat \<Rightarrow> notification \<Rightarrow> u64 \<Rightarrow> u64 \<Rightarrow> (tn_globals \<times> sim_state) res" where
  "picoquic_tonopah_sim_notify g nr_state cnx x event nb_bytes_acknowledged current_time =
     res_bind
       (if nb_paths cnx > 1 then
          if nb_paths cnx = 2 then mean_smoothed_rtt cnx else Fault AssertFailed
        else Ok (smoothed_rtt (paths cnx x)))
       (\<lambda>rtt.
        case event of
          acknowledgement \<Rightarrow>
            (case alg_state nr_state of
               slow_start \<Rightarrow>
                 (let nr_state = nr_state\<lparr>sim_cwin := sim_cwin nr_state + nb_bytes_acknowledged\<rparr>
                  in Ok (g, if sim_cwin nr_state \<ge> ssthresh nr_state
                            then nr_state\<lparr>alg_state := congestion_avoidance\<rparr> else nr_state))
             | congestion_avoidance \<Rightarrow>
                 res_bind (tonopah_grow nr_state cnx x nb_bytes_acknowledged) (\<lambda>s. Ok (g, s)))
        | ecn_ec \<Rightarrow> Ok (tonopah_sim_loss g nr_state cnx x event rtt current_time)
        | repeat_loss \<Rightarrow> Ok (tonopah_sim_loss g nr_state cnx x event rtt current_time)
        | timeout \<Rightarrow> Ok (tonopah_sim_loss g nr_state cnx x event rtt current_time)
        | spurious_repeat \<Rightarrow> Ok (g, tonopah_sim_spurious nr_state cnx x rtt current_time)
        | reset_notification \<Rightarrow> Ok (g, picoquic_tonopah_sim_reset)
        | seed_cwin \<Rightarrow> Ok (g, picoquic_tonopah_sim_seed_cwin nr_state nb_bytes_acknowledged)
        | _ \<Rightarrow> Ok (g, nr_state))"

section \<open>Detecting fair queuing\<close>

record tn_sums =
  len :: nat
  acc_time_diffs_dominant :: u64
  acc_time_diffs_submissive :: u64
  acc_bytes_dominant :: u64
  acc_bytes_submissive :: u64
  sent_bytes_dominant :: u64
  sent_bytes_submissive :: u64

definition tn_sums_zero :: tn_sums where
  "tn_sums_zero =
     \<lparr>len = 0, acc_time_diffs_dominant = 0, acc_time_diffs_submissive = 0, acc_bytes_dominant = 0,
      acc_bytes_submissive = 0, sent_bytes_dominant = 0, sent_bytes_submissive = 0\<rparr>"

text \<open>The two branches that add an interval; \<open>nx\<close> is \<open>current_elem->next\<close>.\<close>

definition tn_sums_add1 :: "tn_interval \<Rightarrow> tn_interval \<Rightarrow> tn_sums \<Rightarrow> tn_sums" where
  "tn_sums_add1 e nx a = a\<lparr>
     acc_time_diffs_dominant := acc_time_diffs_dominant a + (last_ack_time1 e - first_ack_time1 e),
     acc_time_diffs_submissive := acc_time_diffs_submissive a + (last_ack_time2 e - first_ack_time2 e),
     acc_bytes_dominant := acc_bytes_dominant a + bytes_received1 e,
     acc_bytes_submissive := acc_bytes_submissive a + bytes_received2 e,
     sent_bytes_dominant := sent_bytes_dominant a + (first_seq_num1 nx - first_seq_num1 e),
     sent_bytes_submissive := sent_bytes_submissive a + (first_seq_num2 nx - first_seq_num2 e)\<rparr>"

definition tn_sums_add2 :: "tn_interval \<Rightarrow> tn_interval \<Rightarrow> tn_sums \<Rightarrow> tn_sums" where
  "tn_sums_add2 e nx a = a\<lparr>
     acc_time_diffs_dominant := acc_time_diffs_dominant a + (last_ack_time2 e - first_ack_time2 e),
     acc_time_diffs_submissive := acc_time_diffs_submissive a + (last_ack_time1 e - first_ack_time1 e),
     acc_bytes_dominant := acc_bytes_dominant a + bytes_received2 e,
     acc_bytes_submissive := acc_bytes_submissive a + bytes_received1 e,
     sent_bytes_dominant := sent_bytes_dominant a + (first_seq_num2 nx - first_seq_num2 e),
     sent_bytes_submissive := sent_bytes_submissive a + (first_seq_num1 nx - first_seq_num1 e)\<rparr>"

fun tn_aggregate_loop :: "tn_interval option \<Rightarrow> tn_sums \<Rightarrow> tn_interval list \<Rightarrow> bool res" where
  "tn_aggregate_loop nxt a [] = Ok False"
| "tn_aggregate_loop nxt a (e # es) =
     res_bind
       (if finished1 e \<and> finished2 e then
          let a = a\<lparr>len := len a + 1\<rparr> in
          if \<not> (dominant_path_id e = 1 \<or> dominant_path_id e = 2) then Fault AssertFailed
          else (case nxt of
                  None \<Rightarrow> Fault NullDeref
                | Some nx \<Rightarrow> Ok (if dominant_path_id e = 1 then tn_sums_add1 e nx a else tn_sums_add2 e nx a))
        else Ok tn_sums_zero)
       (\<lambda>a.
        if len a = INTERVALS_REQUIRED then
          let bw_dominant = ddiv (dmul (ddiv (of_u64 (acc_bytes_dominant a * 8)) (of_u64 (acc_time_diffs_dominant a)))
                              (dlit 1000000)) (dlit 1000000);
              bw_submissive = ddiv (dmul (ddiv (of_u64 (acc_bytes_submissive a * 8)) (of_u64 (acc_time_diffs_submissive a)))
                                (dlit 1000000)) (dlit 1000000);
              observed_ratio = ddiv bw_dominant (dadd bw_dominant bw_submissive);
              bw_sent_ratio = ddiv (of_u64 (sent_bytes_dominant a))
                                (dadd (of_u64 (sent_bytes_submissive a)) (of_u64 (sent_bytes_dominant a)));
              half = dlit (1 / 2);
              multiplier = dlit (1 / 2);
              sent_enough = dless (dadd half (dmul (dlit (3 / 4)) (dsub dominant_ratio half))) bw_sent_ratio
          in Ok (dless observed_ratio (dadd half (dmul multiplier (dsub bw_sent_ratio half))) \<and> sent_enough)
        else tn_aggregate_loop (Some e) a es)"

definition aggregate_intervals :: "tn_interval list \<Rightarrow> bool res" where
  "aggregate_intervals list_from_last = tn_aggregate_loop None tn_sums_zero list_from_last"

section \<open>Setting the windows of the paths\<close>

text \<open>The reaction to fair queuing, a new interval, and the end of the oldest one.\<close>

definition tn_react :: "bool \<Rightarrow> tn_globals \<Rightarrow> sim_state \<Rightarrow> (tn_globals \<times> sim_state) res" where
  "tn_react detected_fq g nr_state =
     res_bind
       (if detected_fq \<and> alg_state nr_state = congestion_avoidance then
          res_bind (to_u64 (dmul (of_u64 (sim_cwin nr_state)) (ddiv (dlit 7) (dlit 8)))) (\<lambda>w.
            let nr_state = nr_state\<lparr>ssthresh := w\<rparr>;
                nr_state = nr_state\<lparr>sim_cwin := ssthresh nr_state\<rparr>
            in Ok (delete_info_list g, nr_state))
        else Ok (g, nr_state))
       (\<lambda>(g, nr_state).
          Ok (if alg_state nr_state \<noteq> congestion_avoidance then delete_info_list g else g, nr_state))"

definition tn_new_interval :: "tn_globals \<Rightarrow> cc_cnx \<Rightarrow> nat \<Rightarrow> nat \<Rightarrow> tn_globals res" where
  "tn_new_interval g cnx p1 p2 =
     (let new_interval = tn_interval_zero\<lparr>
            dominant_path_id := (if dominant_path g = path1 g then 1 else 2),
            first_seq_num1 := picoquic_cc_get_sequence_number cnx p1,
            first_seq_num2 := picoquic_cc_get_sequence_number cnx p2,
            dont_use := (intervals g = [])\<rparr>;
          g = g\<lparr>intervals := new_interval # intervals g\<rparr>;
          interval_len = get_interval_info_list_len g
      in if \<not> interval_len \<le> 2 * INTERVALS_REQUIRED + 1 then Fault AssertFailed
         else Ok (if interval_len > 2 * INTERVALS_REQUIRED
                  then g\<lparr>intervals := butlast (intervals g)\<rparr> else g))"

text \<open>The windows of the two paths from the window \<open>cw\<close>.\<close>

definition tn_split :: "tn_globals \<Rightarrow> cc_cnx \<Rightarrow> u64 \<Rightarrow> cc_cnx res" where
  "tn_split g cnx cw =
     res_bind (to_u64 (dmax (dmul (of_u64 cw) dominant_ratio) (of_u64 PICOQUIC_CWIN_MINIMUM))) (\<lambda>dominant_cwin.
     res_bind (to_u64 (dmax (dmul (of_u64 cw) (dsub (dlit 1) dominant_ratio)) (of_u64 PICOQUIC_CWIN_MINIMUM))) (\<lambda>submissive_cwin.
     res_bind (path_at cnx 0) (\<lambda>p0. res_bind (path_at cnx 1) (\<lambda>p1.
       Ok (if dominant_path g = path1 g then
             upd_path p1 (\<lambda>p. p\<lparr>cwin := submissive_cwin\<rparr>) (upd_path p0 (\<lambda>p. p\<lparr>cwin := dominant_cwin\<rparr>) cnx)
           else if dominant_path g = path2 g then
             upd_path p0 (\<lambda>p. p\<lparr>cwin := submissive_cwin\<rparr>) (upd_path p1 (\<lambda>p. p\<lparr>cwin := dominant_cwin\<rparr>) cnx)
           else cnx)))))"

definition set_path ::
    "tn_env \<Rightarrow> tn_globals \<Rightarrow> cc_cnx \<Rightarrow> sim_state \<Rightarrow> u64 \<Rightarrow> (tn_globals \<times> cc_cnx \<times> sim_state) res" where
  "set_path env g cnx nr_state cw =
     (case (path1 g, path2 g) of
        (Some p1, Some p2) \<Rightarrow>
          if nb_paths cnx = 2 then
            let current_time = now_set_path env in
            res_bind (mean_smoothed_rtt cnx) (\<lambda>current_smoothed_rtt.
            res_bind
              (if last_change g + min (max minimum_interval current_smoothed_rtt) maximum_interval
                    < current_time then
                 let g = g\<lparr>dominant_path := (if dominant_path g = path1 g then path2 g else path1 g)\<rparr> in
                 res_bind (aggregate_intervals (intervals g)) (\<lambda>detected_fq.
                 res_bind (tn_react detected_fq g nr_state) (\<lambda>(g, nr_state).
                 if \<not> malloc_ok env then Fault NullDeref
                 else res_bind (tn_new_interval g cnx p1 p2) (\<lambda>g.
                   Ok (g\<lparr>last_change := current_time\<rparr>, nr_state))))
               else Ok (g, nr_state))
              (\<lambda>(g, nr_state). res_bind (tn_split g cnx cw) (\<lambda>cnx. Ok (g, cnx, nr_state))))
          else Ok (g, cnx, nr_state)
      | _ \<Rightarrow> Ok (g, cnx, nr_state))"

section \<open>The interval of an acknowledgement\<close>

definition tn_finish :: "bool \<Rightarrow> tn_interval \<Rightarrow> tn_interval" where
  "tn_finish one e =
     (if one \<and> \<not> finished1 e then
        e\<lparr>finished1 := \<not> (first_ack_time1 e = 0 \<or> last_ack_time1 e = 0 \<or> bytes_received1 e = 0 \<or> first_seq_num1 e = 0)\<rparr>
      else if \<not> one \<and> \<not> finished2 e then
        e\<lparr>finished2 := \<not> (first_ack_time2 e = 0 \<or> last_ack_time2 e = 0 \<or> bytes_received2 e = 0 \<or> first_seq_num2 e = 0)\<rparr>
      else e)"

text \<open>
  The position of the interval and the list in which the interval before it is finished;
  \<open>one\<close> is \<open>path_id == 1\<close>.
\<close>

fun tn_find_interval_loop :: "bool \<Rightarrow> u64 \<Rightarrow> tn_interval list \<Rightarrow> (nat \<times> tn_interval list) option" where
  "tn_find_interval_loop one ack_num [] = None"
| "tn_find_interval_loop one ack_num (e # es) =
     (if ack_num \<ge> (if one then first_seq_num1 e else first_seq_num2 e) then
        Some (0, e # (case es of [] \<Rightarrow> [] | p # ps \<Rightarrow> tn_finish one p # ps))
      else map_option (\<lambda>(i, es). (Suc i, e # es)) (tn_find_interval_loop one ack_num es))"

definition find_right_interval :: "tn_globals \<Rightarrow> cc_cnx \<Rightarrow> nat \<Rightarrow> (tn_globals \<times> nat option) res" where
  "find_right_interval g cnx p =
     (if \<not> (Some p = path1 g \<or> Some p = path2 g) then Fault AssertFailed
      else Ok (case tn_find_interval_loop (Some p = path1 g) (picoquic_cc_get_ack_number cnx p) (intervals g) of
                 None \<Rightarrow> (g, None)
               | Some (i, es) \<Rightarrow> (g\<lparr>intervals := es\<rparr>, Some i)))"

text \<open>The measurements that the handler adds to the interval.\<close>

definition tn_measure :: "bool \<Rightarrow> u64 \<Rightarrow> u64 \<Rightarrow> tn_interval \<Rightarrow> tn_interval" where
  "tn_measure one nb_bytes_acknowledged t e =
     (if one then
        let e = e\<lparr>bytes_received1 := bytes_received1 e + nb_bytes_acknowledged\<rparr>;
            e = (if first_ack_time1 e = 0 then e\<lparr>first_ack_time1 := t\<rparr> else e)
        in e\<lparr>last_ack_time1 := t\<rparr>
      else
        let e = e\<lparr>bytes_received2 := bytes_received2 e + nb_bytes_acknowledged\<rparr>;
            e = (if first_ack_time2 e = 0 then e\<lparr>first_ack_time2 := t\<rparr> else e)
        in e\<lparr>last_ack_time2 := t\<rparr>)"

section \<open>The handler\<close>

definition picoquic_tonopah_reset :: "nat \<Rightarrow> cc_cnx \<Rightarrow> cc_cnx \<times> tonopah_state" where
  "picoquic_tonopah_reset x cnx =
     (let nr_state = \<lparr>tn_nrss = picoquic_tonopah_sim_reset, tn_rtt_filter = min_max_rtt_zero\<rparr>
      in (upd_path x (\<lambda>p. p\<lparr>cwin := sim_cwin (tn_nrss nr_state)\<rparr>) cnx, nr_state))"

definition picoquic_tonopah_init :: "bool \<Rightarrow> nat \<Rightarrow> cc_cnx \<Rightarrow> cc_cnx \<times> tonopah_state option" where
  "picoquic_tonopah_init alloc x cnx =
     (if alloc then (case picoquic_tonopah_reset x cnx of (cnx, nr_state) \<Rightarrow> (cnx, Some nr_state))
      else (cnx, None))"

type_synonym tn_result = "tn_globals \<times> cc_cnx \<times> tonopah_state"

text \<open>\<open>set_path\<close> on the state of the algorithm.\<close>

definition tn_set_windows :: "tn_env \<Rightarrow> tn_globals \<Rightarrow> cc_cnx \<Rightarrow> tonopah_state \<Rightarrow> u64 \<Rightarrow> tn_result res" where
  "tn_set_windows env g cnx st cw =
     res_bind (set_path env g cnx (tn_nrss st) cw) (\<lambda>(g, cnx, s). Ok (g, cnx, st\<lparr>tn_nrss := s\<rparr>))"

text \<open>
  The branches of the handler; \<open>x0\<close> is \<open>cnx->path[0]\<close>, which the code calls \<open>path_x\<close> from here on,
  and \<open>actual_path\<close> the path of the notification.
\<close>

definition tn_simulate ::
    "tn_env \<Rightarrow> tn_globals \<Rightarrow> cc_cnx \<Rightarrow> nat \<Rightarrow> tonopah_state \<Rightarrow> notification \<Rightarrow> u64 \<Rightarrow> u64 \<Rightarrow> tn_result res" where
  "tn_simulate env g cnx x0 st event nb_bytes_acknowledged current_time =
     res_bind (picoquic_tonopah_sim_notify g (tn_nrss st) cnx x0 event nb_bytes_acknowledged current_time)
       (\<lambda>(g, s). tn_set_windows env g cnx (st\<lparr>tn_nrss := s\<rparr>) (sim_cwin s))"

definition tn_acknowledged ::
    "tn_env \<Rightarrow> tn_globals \<Rightarrow> cc_cnx \<Rightarrow> nat \<Rightarrow> nat \<Rightarrow> tonopah_state \<Rightarrow> u64 \<Rightarrow> u64 \<Rightarrow> u64 \<Rightarrow> tn_result res" where
  "tn_acknowledged env g cnx x0 actual_path st nb_bytes_acknowledged t current_time =
     (if last_time_acked_data_frame_sent (paths cnx actual_path) > last_sender_limited_time (paths cnx actual_path) then
        res_bind (picoquic_tonopah_sim_notify g (tn_nrss st) cnx x0 acknowledgement nb_bytes_acknowledged current_time)
          (\<lambda>(g, s). res_bind (find_right_interval g cnx actual_path) (\<lambda>(g, right_interval).
             let g = (case right_interval of
                        None \<Rightarrow> g
                      | Some i \<Rightarrow> g\<lparr>intervals := (intervals g)[i :=
                                      tn_measure (Some actual_path = path1 g) nb_bytes_acknowledged t
                                        (intervals g ! i)]\<rparr>)
             in tn_set_windows env g cnx (st\<lparr>tn_nrss := s\<rparr>) (sim_cwin s)))
      else Ok (g, cnx, st))"

definition tn_rtt_measured ::
    "tn_env \<Rightarrow> tn_globals \<Rightarrow> cc_cnx \<Rightarrow> nat \<Rightarrow> tonopah_state \<Rightarrow> u64 \<Rightarrow> u64 \<Rightarrow> u64 \<Rightarrow> tn_result res" where
  "tn_rtt_measured env g cnx x0 st rtt_measurement one_way_delay current_time =
     (if alg_state (tn_nrss st) = slow_start \<and> ssthresh (tn_nrss st) = UINT64_MAX then
        res_bind
          (if rtt_min (paths cnx x0) > PICOQUIC_TARGET_RENO_RTT then
             res_bind (satellite_window
                         (if rtt_min (paths cnx x0) > PICOQUIC_TARGET_SATELLITE_RTT
                          then PICOQUIC_TARGET_SATELLITE_RTT else rtt_min (paths cnx x0)))
               (\<lambda>min_win.
                  if min_win > sim_cwin (tn_nrss st)
                  then tn_set_windows env g cnx (st\<lparr>tn_nrss := (tn_nrss st)\<lparr>sim_cwin := min_win\<rparr>\<rparr>) min_win
                  else Ok (g, cnx, st))
           else Ok (g, cnx, st))
          (\<lambda>(g, cnx, st).
             case picoquic_hystart_test (tn_rtt_filter st)
                    (if is_time_stamp_enabled cnx then one_way_delay else rtt_measurement) current_time of
               (leave, rtt_track) \<Rightarrow>
                 let st = st\<lparr>tn_rtt_filter := rtt_track\<rparr> in
                 if leave then
                   let st = st\<lparr>tn_nrss := (tn_nrss st)\<lparr>ssthresh := sim_cwin (tn_nrss st),
                                                      alg_state := congestion_avoidance\<rparr>\<rparr>
                   in res_bind (tn_set_windows (env\<lparr>now_set_path := now_set_path_again env\<rparr>) g cnx st (sim_cwin (tn_nrss st)))
                        (\<lambda>(g, cnx, st). Ok (g, upd_path x0 (\<lambda>p. p\<lparr>is_ssthresh_initialized := True\<rparr>) cnx, st))
                 else Ok (g, cnx, st))
      else Ok (g, cnx, st))"

definition tn_bw_measured :: "tn_env \<Rightarrow> tn_globals \<Rightarrow> cc_cnx \<Rightarrow> nat \<Rightarrow> tonopah_state \<Rightarrow> tn_result res" where
  "tn_bw_measured env g cnx x0 st =
     (if alg_state (tn_nrss st) = slow_start \<and> ssthresh (tn_nrss st) = UINT64_MAX then
        res_bind
          (if nb_paths cnx > 1 then
             if nb_paths cnx = 2 then mean_smoothed_rtt cnx else Fault AssertFailed
           else Ok (smoothed_rtt (paths cnx x0)))
          (\<lambda>rtt.
             let max_win = max_bandwidth_estimate (paths cnx x0) * rtt div 1000000;
                 min_win = max_win div 2
             in if sim_cwin (tn_nrss st) < min_win
                then tn_set_windows env g cnx (st\<lparr>tn_nrss := (tn_nrss st)\<lparr>sim_cwin := min_win\<rparr>\<rparr>) min_win
                else Ok (g, cnx, st))
      else Ok (g, cnx, st))"

text \<open>The entry of the handler: which path is which.\<close>

definition tn_register :: "tn_globals \<Rightarrow> cc_cnx \<Rightarrow> nat \<Rightarrow> tn_globals res" where
  "tn_register g cnx x =
     (if \<not> nb_paths cnx \<le> 2 then Fault AssertFailed
      else
        let g = (if path1 g = None then g\<lparr>path1 := Some x\<rparr>
                 else if Some x \<noteq> path1 g \<and> path2 g = None then g\<lparr>path2 := Some x\<rparr> else g)
        in if \<not> (Some x = path1 g \<or> Some x = path2 g) then Fault Aborted else Ok g)"

definition tn_branch ::
    "tn_env \<Rightarrow> tn_globals \<Rightarrow> cc_cnx \<Rightarrow> nat \<Rightarrow> nat \<Rightarrow> tonopah_state \<Rightarrow> notification \<Rightarrow> u64 \<Rightarrow> u64 \<Rightarrow> u64 \<Rightarrow> u64 \<Rightarrow> tn_result res" where
  "tn_branch env g cnx x0 actual_path st event rtt_measurement one_way_delay nb_bytes_acknowledged current_time =
     (case event of
        acknowledgement \<Rightarrow>
          tn_acknowledged env g cnx x0 actual_path st nb_bytes_acknowledged (now_notify env) current_time
      | seed_cwin \<Rightarrow> tn_simulate env g cnx x0 st event nb_bytes_acknowledged current_time
      | ecn_ec \<Rightarrow> tn_simulate env g cnx x0 st event nb_bytes_acknowledged current_time
      | repeat_loss \<Rightarrow> tn_simulate env g cnx x0 st event nb_bytes_acknowledged current_time
      | timeout \<Rightarrow> tn_simulate env g cnx x0 st event nb_bytes_acknowledged current_time
      | spurious_repeat \<Rightarrow> tn_simulate env g cnx x0 st event nb_bytes_acknowledged current_time
      | rtt_measure \<Rightarrow> tn_rtt_measured env g cnx x0 st rtt_measurement one_way_delay current_time
      | cwin_blocked \<Rightarrow> Ok (g, cnx, st)
      | bw_measurement \<Rightarrow> tn_bw_measured env g cnx x0 st
      | reset_notification \<Rightarrow> (case picoquic_tonopah_reset actual_path cnx of (cnx, st) \<Rightarrow> Ok (g, cnx, st)))"

definition picoquic_tonopah_notify ::
    "tn_env \<Rightarrow> tn_globals \<Rightarrow> cc_cnx \<Rightarrow> nat \<Rightarrow> tonopah_state option \<Rightarrow> notification \<Rightarrow> u64 \<Rightarrow> u64 \<Rightarrow> u64 \<Rightarrow> u64 \<Rightarrow>
       (tn_globals \<times> cc_cnx \<times> tonopah_state option) res" where
  "picoquic_tonopah_notify env g cnx x nr_state event rtt_measurement one_way_delay nb_bytes_acknowledged current_time =
     res_bind (tn_register g cnx x) (\<lambda>g.
     res_bind (path_at cnx 0) (\<lambda>x0.
       let g = (if dominant_path g = None then g\<lparr>dominant_path := Some x0, last_change := now_notify env\<rparr> else g);
           cnx = upd_path x (\<lambda>p. p\<lparr>is_cc_data_updated := True\<rparr>) cnx
       in case nr_state of
            None \<Rightarrow> Ok (g, cnx, None)
          | Some st \<Rightarrow>
              res_bind (tn_branch env g cnx x0 x st event rtt_measurement one_way_delay nb_bytes_acknowledged current_time)
                (\<lambda>(g, cnx, st).
                   res_bind (picoquic_update_pacing_data cnx x
                               (alg_state (tn_nrss st) = slow_start \<and> ssthresh (tn_nrss st) = UINT64_MAX))
                     (\<lambda>cnx. Ok (g, cnx, Some st)))))"

definition picoquic_tonopah_delete :: "tonopah_state option \<Rightarrow> tonopah_state option" where
  "picoquic_tonopah_delete nr_state = (case nr_state of Some _ \<Rightarrow> None | None \<Rightarrow> None)"

definition picoquic_tonopah_observe :: "tonopah_state option \<Rightarrow> (u64 \<times> u64) res" where
  "picoquic_tonopah_observe nr_state =
     (case nr_state of
        None \<Rightarrow> Fault NullDeref
      | Some st \<Rightarrow>
          Ok (case alg_state (tn_nrss st) of slow_start \<Rightarrow> 0 | congestion_avoidance \<Rightarrow> 1,
              if ssthresh (tn_nrss st) = UINT64_MAX then 0 else ssthresh (tn_nrss st)))"

end
