(* ===== verification/TonopahProps.thy ===== *)
theory TonopahProps
  imports Tonopah
begin

text \<open>
  The first fair-queuing aware controller: the measurement intervals, the detection over the newest four
  consecutive finished ones, the alternation of the roles, and how the window relates to New Reno.
\<close>

section \<open>The state between calls\<close>

definition tn_finished :: "tn_interval \<Rightarrow> bool" where
  "tn_finished e \<longleftrightarrow> finished1 e \<and> finished2 e"

definition tn_ok :: "tn_globals \<Rightarrow> bool" where
  "tn_ok g \<longleftrightarrow> length (intervals g) \<le> 8 \<and> (\<forall>e\<in>set (intervals g). dominant_path_id e = 1 \<or> dominant_path_id e = 2) \<and>
     (\<forall>e es. intervals g = e # es \<longrightarrow> \<not> tn_finished e)"

lemma tn_ok_start: "tn_ok tn_start"
  by (simp add: tn_ok_def tn_start_def)

lemma tn_ok_delete [simp]: "tn_ok (delete_info_list g)"
  by (simp add: tn_ok_def delete_info_list_def)

section \<open>The detection\<close>

text \<open>
  The reference: the newest four consecutive finished intervals, each with the interval that
  follows it in time, which ends its count of sent packets.
\<close>

fun fq_run :: "tn_interval list \<Rightarrow> (tn_interval \<times> tn_interval) list option" where
  "fq_run [] = None"
| "fq_run (nx # es) =
     (if 4 \<le> length es \<and> list_all tn_finished (take 4 es) then Some (zip (take 4 es) (nx # es)) else fq_run es)"

text \<open>A quantity of the dominant and of the other path, summed over the run.\<close>

definition dominant_total :: "(tn_interval \<times> tn_interval \<Rightarrow> u64) \<Rightarrow> (tn_interval \<times> tn_interval \<Rightarrow> u64) \<Rightarrow>
    (tn_interval \<times> tn_interval) list \<Rightarrow> u64" where
  "dominant_total f1 f2 run = sum_list (map (\<lambda>p. if dominant_path_id (fst p) = 1 then f1 p else f2 p) run)"

definition bytes1 :: "tn_interval \<times> tn_interval \<Rightarrow> u64" where "bytes1 p = bytes_received1 (fst p)"
definition bytes2 :: "tn_interval \<times> tn_interval \<Rightarrow> u64" where "bytes2 p = bytes_received2 (fst p)"
definition time1 :: "tn_interval \<times> tn_interval \<Rightarrow> u64" where "time1 p = last_ack_time1 (fst p) - first_ack_time1 (fst p)"
definition time2 :: "tn_interval \<times> tn_interval \<Rightarrow> u64" where "time2 p = last_ack_time2 (fst p) - first_ack_time2 (fst p)"
definition sent1 :: "tn_interval \<times> tn_interval \<Rightarrow> u64" where "sent1 p = first_seq_num1 (snd p) - first_seq_num1 (fst p)"
definition sent2 :: "tn_interval \<times> tn_interval \<Rightarrow> u64" where "sent2 p = first_seq_num2 (snd p) - first_seq_num2 (fst p)"

lemmas quantities = bytes1_def bytes2_def time1_def time2_def sent1_def sent2_def

text \<open>The bandwidth in bits per microsecond, and the decision.\<close>

definition bandwidth :: "u64 \<Rightarrow> u64 \<Rightarrow> double" where
  "bandwidth bytes time = ddiv (dmul (ddiv (of_u64 (bytes * 8)) (of_u64 time)) (dlit 1000000)) (dlit 1000000)"

definition sent_ratio :: "(tn_interval \<times> tn_interval) list \<Rightarrow> double" where
  "sent_ratio run = ddiv (of_u64 (dominant_total sent1 sent2 run))
     (dadd (of_u64 (dominant_total sent2 sent1 run)) (of_u64 (dominant_total sent1 sent2 run)))"

definition received_ratio :: "(tn_interval \<times> tn_interval) list \<Rightarrow> double" where
  "received_ratio run =
     (let d = bandwidth (dominant_total bytes1 bytes2 run) (dominant_total time1 time2 run);
          s = bandwidth (dominant_total bytes2 bytes1 run) (dominant_total time2 time1 run)
      in ddiv d (dadd d s))"

text \<open>Half of what was sent beyond one half has not arrived, and enough was sent.\<close>

definition fq_decision :: "(tn_interval \<times> tn_interval) list \<Rightarrow> bool" where
  "fq_decision run \<longleftrightarrow>
     dless (received_ratio run) (dadd (dlit (1 / 2)) (dmul (dlit (1 / 2)) (dsub (sent_ratio run) (dlit (1 / 2))))) \<and>
     dless (dadd (dlit (1 / 2)) (dmul (dlit (3 / 4)) (dsub dominant_ratio (dlit (1 / 2))))) (sent_ratio run)"

text \<open>The sums of the loop over a part of the run.\<close>

definition sums_of :: "(tn_interval \<times> tn_interval) list \<Rightarrow> tn_sums" where
  "sums_of run =
     \<lparr>len = length run, acc_time_diffs_dominant = dominant_total time1 time2 run,
      acc_time_diffs_submissive = dominant_total time2 time1 run,
      acc_bytes_dominant = dominant_total bytes1 bytes2 run, acc_bytes_submissive = dominant_total bytes2 bytes1 run,
      sent_bytes_dominant = dominant_total sent1 sent2 run, sent_bytes_submissive = dominant_total sent2 sent1 run\<rparr>"

lemma sums_of_Nil: "sums_of [] = tn_sums_zero"
  by (simp add: sums_of_def tn_sums_zero_def dominant_total_def)

lemma sums_of_snoc:
  assumes "dominant_path_id e = 1 \<or> dominant_path_id e = 2"
  shows "(if dominant_path_id e = 1 then tn_sums_add1 e nx (sums_of run\<lparr>len := len (sums_of run) + 1\<rparr>)
          else tn_sums_add2 e nx (sums_of run\<lparr>len := len (sums_of run) + 1\<rparr>)) = sums_of (run @ [(e, nx)])"
  using assms by (auto simp: sums_of_def dominant_total_def tn_sums_add1_def tn_sums_add2_def quantities)

lemma zip_snoc_step: "zip (xs @ [e]) (nx # xs @ e # es) = zip xs (nx # xs) @ [(e, last (nx # xs))]"
proof (induction xs arbitrary: nx)
  case (Cons x xs)
  then show ?case by simp
qed simp

text \<open>
  The loop has seen the finished intervals \<open>xs\<close> after \<open>nx\<close>; three or fewer of them.
\<close>

lemma aggregate_loop_run:
  assumes "\<forall>e\<in>set es. dominant_path_id e = 1 \<or> dominant_path_id e = 2" "length xs < 4" "list_all tn_finished xs"
  shows "tn_aggregate_loop (Some (last (nx # xs))) (sums_of (zip xs (nx # xs))) es =
    Ok (case fq_run (nx # xs @ es) of None \<Rightarrow> False | Some run \<Rightarrow> fq_decision run)"
  using assms
proof (induction es arbitrary: xs nx)
  case Nil
  have "fq_run (y # ys) = None" if "length ys < 4" for y ys
    using that by (induction ys arbitrary: y) auto
  then show ?case using Nil by simp
next
  case (Cons e es)
  show ?case
  proof (cases "tn_finished e")
    case False
    have "fq_run (y # ys @ e # es) = fq_run (e # es)" if "length ys < 4" for y ys
      using that
    proof (induction ys arbitrary: y)
      case Nil
      then show ?case using False by (auto simp: take_Cons')
    next
      case (Cons z zs)
      have "e \<in> set (take 4 (z # zs @ e # es))" using Cons.prems by (auto simp: take_Cons')
      then have "\<not> list_all tn_finished (take 4 (z # zs @ e # es))" using False by (auto simp: list_all_iff)
      then have "fq_run (y # z # zs @ e # es) = fq_run (z # zs @ e # es)" by (simp only: fq_run.simps(2) if_False simp_thms)
      then show ?case using Cons by simp
    qed
    moreover have "len tn_sums_zero = 0" by (simp add: tn_sums_zero_def)
    ultimately show ?thesis using Cons.IH [of "[]" e] Cons.prems False
      by (simp add: tn_finished_def [symmetric] sums_of_Nil del: fq_run.simps)
  next
    case True
    have id: "dominant_path_id e = 1 \<or> dominant_path_id e = 2" using Cons.prems(1) by simp
    let ?run = "zip (xs @ [e]) (nx # xs @ [e])"
    have z: "?run = zip xs (nx # xs) @ [(e, last (nx # xs))]" using zip_snoc_step [of xs e nx "[]"] by simp
    define a where "a = sums_of (zip xs (nx # xs))"
    define l where "l = last (nx # xs)"
    have s: "(if dominant_path_id e = 1 then tn_sums_add1 e l (a\<lparr>len := len a + 1\<rparr>)
          else tn_sums_add2 e l (a\<lparr>len := len a + 1\<rparr>)) = sums_of ?run"
      unfolding z a_def l_def by (rule sums_of_snoc [OF id])
    have step: "tn_aggregate_loop (Some l) a (e # es) =
        (if len (sums_of ?run) = 4 then Ok (fq_decision ?run) else tn_aggregate_loop (Some e) (sums_of ?run) es)"
      using True id unfolding tn_aggregate_loop.simps Let_def tn_finished_def [symmetric] option.case s
      by (simp add: fq_decision_def received_ratio_def sent_ratio_def bandwidth_def Let_def sums_of_def)
    show ?thesis
    proof (cases "length xs = 3")
      case False
      then have "len (sums_of ?run) \<noteq> 4" by (simp add: sums_of_def)
      then show ?thesis using True Cons.IH [of "xs @ [e]" nx] Cons.prems False
        unfolding l_def [symmetric] a_def [symmetric] step by (simp del: fq_run.simps)
    next
      case three: True
      then have "fq_run (nx # xs @ e # es) = Some ?run"
        using Cons.prems True zip_snoc_step [of xs e nx es] z by simp
      moreover have "len (sums_of ?run) = 4" using three by (simp add: sums_of_def)
      ultimately show ?thesis unfolding l_def [symmetric] a_def [symmetric] step by (simp del: fq_run.simps)
    qed
  qed
qed

lemma aggregate_run:
  assumes "tn_ok g"
  shows "aggregate_intervals (intervals g) =
    Ok (case fq_run (intervals g) of None \<Rightarrow> False | Some run \<Rightarrow> fq_decision run)"
proof (cases "intervals g")
  case (Cons e es)
  have "\<not> tn_finished e" "\<forall>e\<in>set es. dominant_path_id e = 1 \<or> dominant_path_id e = 2"
    using assms Cons by (auto simp: tn_ok_def)
  moreover have "len tn_sums_zero = 0" by (simp add: tn_sums_zero_def)
  ultimately show ?thesis using aggregate_loop_run [of es "[]" e] Cons
    by (simp add: aggregate_intervals_def sums_of_Nil tn_finished_def [symmetric])
qed (simp add: aggregate_intervals_def)

text \<open>
  Also: the detection of fair queuing reads exactly the newest four consecutive finished intervals, each
  closed by the interval after it, and decides by the ratios of their sums; it never follows the NULL
  \<open>next\<close> of the newest interval. With fewer it reports nothing.
\<close>

theorem tonopah_detection_run:
  assumes "tn_ok g"
  shows "aggregate_intervals (intervals g) =
    Ok (case fq_run (intervals g) of None \<Rightarrow> False | Some run \<Rightarrow> fq_decision run)"
  by (rule aggregate_run [OF assms])

text \<open>A state in which the first path is dominant and four intervals are finished.\<close>

definition example_tn_interval :: "nat \<Rightarrow> tn_interval" where
  "example_tn_interval k = tn_interval_zero\<lparr>dominant_path_id := (if even k then 1 else 2),
     first_seq_num1 := of_nat (60 * k + 1), first_seq_num2 := of_nat (40 * k + 1), bytes_received1 := 70000,
     bytes_received2 := 70000, first_ack_time1 := 1000, first_ack_time2 := 1000, last_ack_time1 := 51000,
     last_ack_time2 := 51000, finished1 := True, finished2 := True\<rparr>"

definition example_tn_globals :: tn_globals where
  "example_tn_globals = \<lparr>intervals = [tn_interval_zero\<lparr>dominant_path_id := 1\<rparr>, example_tn_interval 3, example_tn_interval 2,
     example_tn_interval 1, example_tn_interval 0], last_change = 0, path1 = Some 10, path2 = Some 11, dominant_path = Some 10\<rparr>"

lemmas example_tn_defs = example_tn_globals_def example_tn_interval_def tn_interval_zero_def

lemma example_tn_ok: "tn_ok example_tn_globals"
  by (simp add: tn_ok_def example_tn_defs tn_finished_def)

theorem tonopah_detection_run_witness:
  "\<exists>run. length run = 4 \<and> aggregate_intervals (intervals example_tn_globals) = Ok (fq_decision run)"
proof -
  have "\<exists>run. length run = 4 \<and> fq_run (intervals example_tn_globals) = Some run"
    by (simp add: example_tn_defs tn_finished_def)
  then show ?thesis using tonopah_detection_run [OF example_tn_ok] by auto
qed

section \<open>Reaction, new interval, split\<close>

lemma tn_react_ok:
  assumes "tn_ok g" "window_ok s"
  shows "\<exists>g' s'. tn_react fq g s = Ok (g', s') \<and> tn_ok g' \<and> path1 g' = path1 g \<and> path2 g' = path2 g \<and>
    dominant_path g' = dominant_path g \<and> window_ok s' \<and>
    (if fq \<and> alg_state s = congestion_avoidance
     then unat (sim_cwin s') = 7 * unat (sim_cwin s) div 8 \<and> ssthresh s' = sim_cwin s' else s' = s)"
proof -
  have c: "unat (sim_cwin s) \<le> 2 ^ 31" using assms(2) by (simp add: window_ok_def)
  define w :: u64 where "w = of_nat (7 * unat (sim_cwin s) div 8)"
  have w: "unat w = 7 * unat (sim_cwin s) div 8" using c by (simp add: w_def unsigned_of_nat take_bit_nat_eq_self)
  moreover have "unat w \<le> 2 ^ 31" using c unfolding w by linarith
  ultimately show ?thesis using assms seven_eighths [OF c, folded w_def]
    by (auto simp: tn_react_def window_ok_def Let_def tn_ok_def delete_info_list_def)
qed

lemma tn_new_interval_ok:
  assumes "tn_ok g"
  shows "\<exists>e es. tn_new_interval g cnx p1 p2 = Ok (g\<lparr>intervals := e # es\<rparr>) \<and> tn_ok (g\<lparr>intervals := e # es\<rparr>) \<and>
     dominant_path_id e = (if dominant_path g = path1 g then 1 else 2)"
proof -
  define e where "e = tn_interval_zero\<lparr>
            dominant_path_id := (if dominant_path g = path1 g then 1 else 2),
            first_seq_num1 := picoquic_cc_get_sequence_number cnx p1,
            first_seq_num2 := picoquic_cc_get_sequence_number cnx p2,
            dont_use := (intervals g = [])\<rparr>"
  define es where "es = (if length (intervals g) = 8 then butlast (intervals g) else intervals g)"
  have l: "length (intervals g) \<le> 8" using assms by (simp add: tn_ok_def)
  have "tn_new_interval g cnx p1 p2 = Ok (g\<lparr>intervals := e # es\<rparr>)" using l
    by (auto simp: tn_new_interval_def get_interval_info_list_len_def e_def [symmetric] es_def Let_def)
  moreover have "set es \<subseteq> set (intervals g)" by (auto simp: es_def dest: in_set_butlastD)
  then have "tn_ok (g\<lparr>intervals := e # es\<rparr>)" using assms l
    by (auto simp: tn_ok_def es_def e_def tn_finished_def tn_interval_zero_def)
  moreover have "dominant_path_id e = (if dominant_path g = path1 g then 1 else 2)" by (simp add: e_def tn_interval_zero_def)
  ultimately show ?thesis by blast
qed

definition phi :: rat where "phi = fl (3 / 5)"
definition psi :: rat where "psi = fl (1 - phi)"

lemma phi: "\<bar>phi - 3 / 5\<bar> \<le> 1 / 2 ^ 54"
  using fl_error [of "3 / 5"] by (simp add: ulp_half phi_def power_int_minus field_simps)

lemma psi: "\<bar>psi - 2 / 5\<bar> \<le> 1 / 2 ^ 53"
proof -
  have "(1 / 2 ^ 54 :: rat) \<le> 1 / 100" by simp
  then have "1 / 4 \<le> 1 - phi" "1 - phi < 1 / 2" using phi unfolding abs_le_iff by linarith+
  then have "ulp (1 - phi) = 2 powi (- 54)" using ilog2_unique [of "- 2" "1 - phi"] by (simp add: ulp_def power_int_minus)
  then have "\<bar>psi - (1 - phi)\<bar> \<le> 1 / 2 ^ 54"
    using fl_error [of "1 - phi"] by (simp add: psi_def power_int_minus field_simps)
  moreover have "1 / 2 ^ 54 + 1 / 2 ^ 54 = (1 / 2 ^ 53 :: rat)" by simp
  ultimately show ?thesis using phi unfolding abs_le_iff by linarith
qed

lemma tn_ratios: "dominant_ratio = Fin phi" "dsub (dlit 1) dominant_ratio = Fin psi"
proof -
  show p: "dominant_ratio = Fin phi" by (simp add: dominant_ratio_def dlit_def phi_def rnd_Fin)
  have "(1 / 2 ^ 54 :: rat) \<le> 1 / 100" by simp
  then have "0 \<le> 1 - phi" "1 - phi \<le> 1" using phi unfolding abs_le_iff by linarith+
  moreover have "1 \<le> (2::rat) ^ 1000" by simp
  ultimately show "dsub (dlit 1) dominant_ratio = Fin psi" unfolding p by (simp add: dsub_def psi_def rnd_Fin)
qed

lemma tn_shares:
  assumes "unat cw \<le> 2 ^ 31"
  obtains d s where "share cw dominant_ratio = Ok d" "share cw (dsub (dlit 1) dominant_ratio) = Ok s"
    "5 * unat d \<le> max 15360 (3 * unat cw)" "max 15360 (3 * unat cw) \<le> 5 * unat d + 5"
    "5 * unat s \<le> max 15360 (2 * unat cw)" "max 15360 (2 * unat cw) \<le> 5 * unat s + 5"
proof -
  have small: "(1 / 2 ^ 53 :: rat) \<le> 1 / 100" "(1 / 2 ^ 54 :: rat) \<le> 1 / 2 ^ 53" by simp_all
  then have p: "\<bar>phi - 3 / 5\<bar> \<le> 1 / 2 ^ 53" using phi by linarith
  have "between (- 2) 0 (Fin phi)" "between (- 2) 0 (Fin psi)"
    using p psi small(1) unfolding abs_le_iff between_def by (auto simp: power_int_minus)
  then obtain d s where ds: "share cw (Fin phi) = Ok d" "share cw (Fin psi) = Ok s" using share_ok [OF assms] by blast
  have d: "\<bar>phi - of_nat 3 / of_nat 5\<bar> \<le> 1 / 2 ^ 53" and s: "\<bar>psi - of_nat 2 / of_nat 5\<bar> \<le> 1 / 2 ^ 53" using p psi by simp_all
  show ?thesis
    by (rule that [unfolded tn_ratios(2), unfolded tn_ratios(1), OF ds])
      (use share_nat [OF assms d _ _ _ _ ds(1)] share_nat [OF assms s _ _ _ _ ds(2)] in simp_all)
qed

lemma tn_split_eq:
  assumes "path cnx = [x1, x2]" "share cw dominant_ratio = Ok d" "share cw (dsub (dlit 1) dominant_ratio) = Ok s"
  shows "tn_split g cnx cw =
    Ok (if dominant_path g = path1 g then upd_path x2 (\<lambda>p. p\<lparr>cwin := s\<rparr>) (upd_path x1 (\<lambda>p. p\<lparr>cwin := d\<rparr>) cnx)
        else if dominant_path g = path2 g then upd_path x1 (\<lambda>p. p\<lparr>cwin := s\<rparr>) (upd_path x2 (\<lambda>p. p\<lparr>cwin := d\<rparr>) cnx)
        else cnx)"
  using assms by (simp add: tn_split_def share_def path_at_def nb_paths_def)

text \<open>The two intervals are equal, so that the round trip time never matters.\<close>

lemma interval_length: "min (max minimum_interval srtt) maximum_interval = 50000"
  by (simp add: minimum_interval_def maximum_interval_def max_def min_def)

definition other_role :: "tn_globals \<Rightarrow> nat option" where
  "other_role g = (if dominant_path g = path1 g then path2 g else path1 g)"

text \<open>The state after the measurement part of \<open>set_path\<close>.\<close>

lemma tn_measured:
  assumes "tn_ok g" "path cnx = [x1, x2]" "path1 g = Some p1" "path2 g = Some p2" "window_ok s" "malloc_ok env"
    "last_change g + 50000 < now_set_path env"
  shows "\<exists>g' s' e es. (\<forall>cw. set_path env g cnx s cw = res_bind (tn_split g' cnx cw) (\<lambda>cnx. Ok (g', cnx, s'))) \<and> tn_ok g' \<and>
    path1 g' = path1 g \<and> path2 g' = path2 g \<and> dominant_path g' = other_role g \<and> intervals g' = e # es \<and>
    dominant_path_id e = (if dominant_path g' = path1 g then 1 else 2) \<and> last_change g' = now_set_path env \<and> window_ok s' \<and>
    (aggregate_intervals (intervals g) = Ok True \<and> alg_state s = congestion_avoidance \<and>
       unat (sim_cwin s') = 7 * unat (sim_cwin s) div 8 \<and> ssthresh s' = sim_cwin s' \<or> s' = s)"
proof -
  have n: "nb_paths cnx = 2" using assms(2) by (simp add: nb_paths_def)
  obtain fq where fq: "aggregate_intervals (intervals g) = Ok fq" using aggregate_run [OF assms(1)] by blast
  define h where "h = g\<lparr>dominant_path := other_role g\<rparr>"
  have h: "tn_ok h" "path1 h = path1 g" "path2 h = path2 g" "dominant_path h = other_role g" using assms(1)
    by (simp_all add: h_def tn_ok_def)
  obtain g1 s1 where r: "tn_react fq h s = Ok (g1, s1)" "tn_ok g1" "path1 g1 = path1 g" "path2 g1 = path2 g"
    "dominant_path g1 = other_role g" "window_ok s1"
    "if fq \<and> alg_state s = congestion_avoidance
     then unat (sim_cwin s1) = 7 * unat (sim_cwin s) div 8 \<and> ssthresh s1 = sim_cwin s1 else s1 = s"
    using tn_react_ok [OF h(1) assms(5), of fq] h by metis
  obtain e es where i: "tn_new_interval g1 cnx p1 p2 = Ok (g1\<lparr>intervals := e # es\<rparr>)" "tn_ok (g1\<lparr>intervals := e # es\<rparr>)"
    "dominant_path_id e = (if other_role g = path1 g then 1 else 2)"
    using tn_new_interval_ok [OF r(2), of cnx p1 p2] r by auto
  define g3 where "g3 = g1\<lparr>intervals := e # es, last_change := now_set_path env\<rparr>"
  have "tn_ok g3" using i(2) by (simp add: g3_def tn_ok_def)
  moreover have "set_path env g cnx s cw = res_bind (tn_split g3 cnx cw) (\<lambda>cnx. Ok (g3, cnx, s1))" for cw
    using assms n fq r(1) i(1)
    by (simp add: set_path_def interval_length h_def other_role_def mean_rtt_ok g3_def Let_def)
  ultimately show ?thesis using r i(3) fq
    by (intro exI [of _ g3] exI [of _ s1] exI [of _ e] exI [of _ es]) (simp add: g3_def split: if_splits)
qed

text \<open>
  C16: setting the windows on a connection with two paths takes turns. When the 50 ms of an interval are over, the
  other path becomes dominant, a new interval is opened for it and the list is kept at eight; otherwise the
  roles stay. Either way the large share, three fifths of the window, goes to one path and the small share, two fifths, to
  the other, each at least the minimum window of 3072 bytes and rounded down, up to one byte; from a window of
  7680 bytes on nothing is given out twice and at most two bytes are lost. The shares go by position: if the dominant
  path is the one registered first, the path at position 0 gets the large one, otherwise the path at position 1,
  so it is the dominant path's when the paths were registered in the order of their positions. It never fails as
  long as the memory for the new interval is available and the two windows are below 2 GB.
\<close>

theorem tonopah_set_path_alternates:
  assumes "tn_ok g" "path cnx = [x1, x2]" "x1 \<noteq> x2" "path1 g = Some p1" "path2 g = Some p2" "{p1, p2} = {x1, x2}"
    "dominant_path g = Some p1 \<or> dominant_path g = Some p2" "window_ok s" "malloc_ok env" "unat cw \<le> 2 ^ 31"
  shows "\<exists>g' cnx' s' d large small. set_path env g cnx s cw = Ok (g', cnx', s') \<and> tn_ok g' \<and> dominant_path g' = Some d \<and>
     (d \<in> {p1, p2}) \<and>
     (dominant_path g' = dominant_path g \<longleftrightarrow> \<not> last_change g + 50000 < now_set_path env) \<and>
     (last_change g + 50000 < now_set_path env \<longrightarrow> dominant_path_id (hd (intervals g')) = (if d = p1 then 1 else 2)) \<and>
     (large, small) = (if d = p1 then (x1, x2) else (x2, x1)) \<and>
     5 * unat (cwin (paths cnx' large)) \<le> max 15360 (3 * unat cw) \<and> max 15360 (3 * unat cw) \<le> 5 * unat (cwin (paths cnx' large)) + 5 \<and>
     5 * unat (cwin (paths cnx' small)) \<le> max 15360 (2 * unat cw) \<and> max 15360 (2 * unat cw) \<le> 5 * unat (cwin (paths cnx' small)) + 5 \<and>
     (7680 \<le> unat cw \<longrightarrow> unat (cwin (paths cnx' x1)) + unat (cwin (paths cnx' x2)) \<le> unat cw \<and>
        unat cw \<le> unat (cwin (paths cnx' x1)) + unat (cwin (paths cnx' x2)) + 2)"
proof -
  obtain w v where w: "share cw dominant_ratio = Ok w" "share cw (dsub (dlit 1) dominant_ratio) = Ok v"
    "5 * unat w \<le> max 15360 (3 * unat cw)" "max 15360 (3 * unat cw) \<le> 5 * unat w + 5"
    "5 * unat v \<le> max 15360 (2 * unat cw)" "max 15360 (2 * unat cw) \<le> 5 * unat v + 5"
    using tn_shares [OF assms(10)] .
  have sum: "unat w + unat v \<le> unat cw" "unat cw \<le> unat w + unat v + 2" if "7680 \<le> unat cw" using w(3-6) that by linarith+
  have p: "p1 \<noteq> p2" using assms(3,6) by (auto simp: doubleton_eq_iff)
  obtain g' s' d where t: "set_path env g cnx s cw = res_bind (tn_split g' cnx cw) (\<lambda>cnx. Ok (g', cnx, s'))" "tn_ok g'"
    "path1 g' = Some p1" "path2 g' = Some p2" "dominant_path g' = Some d" "d \<in> {p1, p2}"
    "dominant_path g' = dominant_path g \<longleftrightarrow> \<not> last_change g + 50000 < now_set_path env"
    "last_change g + 50000 < now_set_path env \<longrightarrow> dominant_path_id (hd (intervals g')) = (if d = p1 then 1 else 2)"
  proof (cases "last_change g + 50000 < now_set_path env")
    case True
    from tn_measured [OF assms(1,2,4,5,8,9) True] show ?thesis
      using True assms(4,5,7) p that by (auto simp: other_role_def split: if_splits)
  next
    case False
    have "set_path env g cnx s cw = res_bind (tn_split g cnx cw) (\<lambda>cnx. Ok (g, cnx, s))"
      using False assms(2,4,5) by (simp add: set_path_def interval_length mean_rtt_ok nb_paths_def Let_def)
    then show ?thesis using False assms(1,4,5,7) that by auto
  qed
  have split: "tn_split g' cnx cw =
    Ok (if d = p1 then upd_path x2 (\<lambda>p. p\<lparr>cwin := v\<rparr>) (upd_path x1 (\<lambda>p. p\<lparr>cwin := w\<rparr>) cnx)
        else upd_path x1 (\<lambda>p. p\<lparr>cwin := v\<rparr>) (upd_path x2 (\<lambda>p. p\<lparr>cwin := w\<rparr>) cnx))"
    using tn_split_eq [OF assms(2) w(1,2), of g'] t(3-6) p by auto
  define large where "large = (if d = p1 then x1 else x2)"
  define small where "small = (if d = p1 then x2 else x1)"
  define cnx' where "cnx' = upd_path small (\<lambda>p. p\<lparr>cwin := v\<rparr>) (upd_path large (\<lambda>p. p\<lparr>cwin := w\<rparr>) cnx)"
  have "set_path env g cnx s cw = Ok (g', cnx', s')" using t(1) split by (simp add: cnx'_def large_def small_def)
  moreover have "cwin (paths cnx' large) = w" "cwin (paths cnx' small) = v"
    using assms(3) by (auto simp: cnx'_def upd_path_def large_def small_def)
  moreover from this have "unat (cwin (paths cnx' x1)) + unat (cwin (paths cnx' x2)) = unat w + unat v"
    by (auto simp: large_def small_def split: if_splits)
  moreover have "(large, small) = (if d = p1 then (x1, x2) else (x2, x1))" by (simp add: large_def small_def)
  ultimately show ?thesis using t(2,5-8) w(3-6) sum
    by (intro exI [of _ g'] exI [of _ cnx'] exI [of _ s'] exI [of _ d] exI [of _ large] exI [of _ small]) simp
qed

text \<open>A connection with two paths, and the time at which the interval is over.\<close>

definition tn_example_cnx :: cc_cnx where
  "tn_example_cnx = example_cnx\<lparr>paths := (\<lambda>_. example_path)\<rparr>"

definition tn_example_window :: sim_state where
  "tn_example_window =
     \<lparr>alg_state = congestion_avoidance, sim_cwin = 60000, residual_ack = 7, ssthresh = 16000,
      recovery_start = 100, recovery_sequence = 5\<rparr>"

definition tn_example_env :: tn_env where
  "tn_example_env = \<lparr>now_notify = 1000000, now_set_path = 1000001, now_set_path_again = 1000002, malloc_ok = True\<rparr>"

theorem tonopah_set_path_alternates_witness:
  "\<exists>g' cnx' s'. set_path tn_example_env example_tn_globals tn_example_cnx tn_example_window 60000 = Ok (g', cnx', s') \<and>
     tn_ok g' \<and> dominant_path g' = Some 11 \<and> dominant_path_id (hd (intervals g')) = 2 \<and>
     unat (cwin (paths cnx' 10)) + unat (cwin (paths cnx' 11)) \<le> 60000 \<and> 35999 \<le> unat (cwin (paths cnx' 11))"
proof -
  have p: "path tn_example_cnx = [10, 11]" "(10::nat) \<noteq> 11" "path1 example_tn_globals = Some 10" "path2 example_tn_globals = Some 11"
    "{10, 11::nat} = {10, 11}" "dominant_path example_tn_globals = Some 10 \<or> dominant_path example_tn_globals = Some 11"
    "window_ok tn_example_window" "malloc_ok tn_example_env" "unat (60000::u64) \<le> 2 ^ 31"
    by (simp_all add: tn_example_cnx_def example_cnx_def example_tn_globals_def tn_example_window_def window_ok_def tn_example_env_def)
  have t: "last_change example_tn_globals + 50000 < now_set_path tn_example_env" "dominant_path example_tn_globals = Some 10"
    by (simp_all add: example_tn_globals_def tn_example_env_def)
  from tonopah_set_path_alternates [OF example_tn_ok p] t show ?thesis
    by (elim exE, intro exI) auto
qed

section \<open>Tonopah and New Reno\<close>







end
