(* ===== verification/StreamData.thy ===== *)
theory StreamData
  imports SortedStore
begin

text \<open>
  The data of a stream that has arrived out of order, from \<open>picoquic/frames.c\<close> and
  \<open>picoquic/quicctx.c\<close>: chunks in a splay tree sorted by offset, and the pool of nodes that the
  chunks are stored in.

  A node is found at the address of its tree node. \<open>dn_bytes\<close> is the pointer \<open>bytes\<close> together with
  \<open>length\<close>: \<open>None\<close> for NULL, otherwise the \<open>length\<close> bytes it points to. A run that does not
  return, follows NULL or overruns a buffer is \<open>None\<close>, as in \<open>Splay\<close>.
\<close>

section \<open>Nodes and their pool\<close>

abbreviation PICOQUIC_MAX_PACKET_SIZE :: nat where "PICOQUIC_MAX_PACKET_SIZE \<equiv> 1536"
abbreviation PICOQUIC_MAX_PACKETS_IN_POOL :: int where "PICOQUIC_MAX_PACKETS_IN_POOL \<equiv> 0x8000"
abbreviation PICOQUIC_ERROR_MEMORY :: int where "PICOQUIC_ERROR_MEMORY \<equiv> 0x405"

record data_node =
  dn_offset :: u64
  dn_bytes :: "u8 list option"

definition data_node_zero :: data_node where
  "data_node_zero = \<lparr>dn_offset = 0, dn_bytes = None\<rparr>"

text \<open>
  The part of the QUIC context that holds the nodes: the nodes by address, the list
  \<open>p_first_data_node\<close>, the counters, and what \<open>malloc\<close> will return, call by call.
\<close>

record data_pool =
  data_nodes :: "nat \<Rightarrow> data_node"
  free_data_nodes :: "nat list"
  nb_data_nodes_in_pool :: int
  nb_data_nodes_allocated :: int
  mallocs :: "nat option list"

definition upd_node :: "nat \<Rightarrow> (data_node \<Rightarrow> data_node) \<Rightarrow> data_pool \<Rightarrow> data_pool" where
  "upd_node a f q = q\<lparr>data_nodes := (data_nodes q)(a := f (data_nodes q a))\<rparr>"

definition dn_length :: "data_node \<Rightarrow> nat" where
  "dn_length n = (case dn_bytes n of None \<Rightarrow> 0 | Some b \<Rightarrow> length b)"

definition picoquic_stream_data_node_compare :: "data_node \<Rightarrow> data_node \<Rightarrow> int" where
  "picoquic_stream_data_node_compare l r = sint (dn_offset l - dn_offset r)"

definition picoquic_stream_data_node_recycle :: "data_pool \<Rightarrow> nat \<Rightarrow> data_pool" where
  "picoquic_stream_data_node_recycle q a =
     (if nb_data_nodes_in_pool q < PICOQUIC_MAX_PACKETS_IN_POOL then
        q\<lparr>free_data_nodes := a # free_data_nodes q, nb_data_nodes_in_pool := nb_data_nodes_in_pool q + 1\<rparr>
      else q\<lparr>nb_data_nodes_allocated := nb_data_nodes_allocated q - 1\<rparr>)"

definition picoquic_stream_data_node_alloc :: "data_pool \<Rightarrow> ptr \<times> data_pool" where
  "picoquic_stream_data_node_alloc q =
     (case free_data_nodes q of
        [] \<Rightarrow>
          (case mallocs q of
             Some a # ms \<Rightarrow>
               (Some a, upd_node a (\<lambda>_. data_node_zero)
                          (q\<lparr>mallocs := ms, nb_data_nodes_allocated := nb_data_nodes_allocated q + 1\<rparr>))
           | None # ms \<Rightarrow> (None, q\<lparr>mallocs := ms\<rparr>)
           | [] \<Rightarrow> (None, q))
      | a # rest \<Rightarrow>
          (Some a, upd_node a (\<lambda>n. n\<lparr>dn_bytes := None\<rparr>)
                     (q\<lparr>free_data_nodes := rest, nb_data_nodes_in_pool := nb_data_nodes_in_pool q - 1\<rparr>)))"

section \<open>Queueing the data of a frame\<close>

text \<open>
  \<open>received_data\<close> is the node that holds the packet; it serves for one chunk, which is not copied.
  The result is the return code, the pool, the tree and \<open>*chunk_added\<close>.
\<close>

type_synonym queue_result = "int \<times> data_pool \<times> splay_tree \<times> bool"

definition add_chunk_node ::
    "data_pool \<Rightarrow> splay_tree \<Rightarrow> u64 \<Rightarrow> u8 list \<Rightarrow> bool \<Rightarrow> ptr \<Rightarrow> queue_result option" where
  "add_chunk_node q t offset bytes chunk_added received_data =
     (case (case received_data of Some r \<Rightarrow> if dn_bytes (data_nodes q r) = None then Some r else None | None \<Rightarrow> None) of
        Some r \<Rightarrow> do {
          let q = upd_node r (\<lambda>n. n\<lparr>dn_bytes := Some bytes, dn_offset := offset\<rparr>) q;
          t \<leftarrow> picosplay_insert picoquic_stream_data_node_compare (data_nodes q) t r;
          Some (0, q, t, True)
        }
      | None \<Rightarrow>
          (case picoquic_stream_data_node_alloc q of
             (None, q) \<Rightarrow> Some (PICOQUIC_ERROR_MEMORY, q, t, chunk_added)
           | (Some a, q) \<Rightarrow>
               if length bytes > PICOQUIC_MAX_PACKET_SIZE then None
               else do {
                 let q = upd_node a (\<lambda>n. n\<lparr>dn_bytes := Some bytes, dn_offset := offset\<rparr>) q;
                 t \<leftarrow> picosplay_insert picoquic_stream_data_node_compare (data_nodes q) t a;
                 Some (0, q, t, True)
               }))"

text \<open>The bytes of the frame from offset \<open>ofs\<close> on, \<open>len\<close> of them.\<close>

definition frame_part :: "u64 \<Rightarrow> u8 list \<Rightarrow> u64 \<Rightarrow> u64 \<Rightarrow> u8 list" where
  "frame_part input_begin bytes ofs len = take (unat len) (drop (unat (ofs - input_begin)) bytes)"

text \<open>The loop over the chunks that start inside the frame; the last component is \<open>frame_data_offset\<close>.\<close>

partial_function (option) queue_input_loop ::
    "u64 \<Rightarrow> u64 \<Rightarrow> u8 list \<Rightarrow> ptr \<Rightarrow> data_pool \<Rightarrow> splay_tree \<Rightarrow> u64 \<Rightarrow> ptr \<Rightarrow> int \<Rightarrow> bool \<Rightarrow>
       (queue_result \<times> u64) option" where
  "queue_input_loop input_begin input_end bytes received_data q t frame_data_offset next ret added =
     (case next of
        None \<Rightarrow> Some ((ret, q, t, added), frame_data_offset)
      | Some n \<Rightarrow>
          if ret = 0 \<and> frame_data_offset < input_end \<and> dn_offset (data_nodes q n) < input_end then do {
            let chunk_len = (if dn_offset (data_nodes q n) > frame_data_offset
                             then dn_offset (data_nodes q n) - frame_data_offset else 0);
            (ret, q, t, added) \<leftarrow>
              (if chunk_len > 0
               then add_chunk_node q t frame_data_offset (frame_part input_begin bytes frame_data_offset chunk_len)
                      added received_data
               else Some (ret, q, t, added));
            nx \<leftarrow> picosplay_next t n;
            queue_input_loop input_begin input_end bytes received_data q t
              (dn_offset (data_nodes q n) + of_nat (dn_length (data_nodes q n))) nx ret added
          }
          else Some ((ret, q, t, added), frame_data_offset))"

declare queue_input_loop.simps [code]

definition picoquic_queue_network_input ::
    "data_pool \<Rightarrow> splay_tree \<Rightarrow> u64 \<Rightarrow> u64 \<Rightarrow> u8 list \<Rightarrow> ptr \<Rightarrow> bool \<Rightarrow> queue_result option" where
  "picoquic_queue_network_input q t consumed_offset frame_data_offset bytes received_data added =
     (let input_begin = frame_data_offset;
          input_end = frame_data_offset + of_nat (length bytes);
          frame_data_offset = (if frame_data_offset < consumed_offset then consumed_offset else frame_data_offset)
      in if frame_data_offset < input_end then do {
           prev \<leftarrow> picosplay_find_previous picoquic_stream_data_node_compare (data_nodes q) t
                     (data_node_zero\<lparr>dn_offset := frame_data_offset\<rparr>);
           (frame_data_offset, next) \<leftarrow>
             (case prev of
                None \<Rightarrow> do { nx \<leftarrow> picosplay_first t; Some (frame_data_offset, nx) }
              | Some p \<Rightarrow> do {
                  let prev_end = dn_offset (data_nodes q p) + of_nat (dn_length (data_nodes q p));
                  nx \<leftarrow> picosplay_next t p;
                  Some (if frame_data_offset > prev_end then frame_data_offset else prev_end, nx)
                });
           ((ret, q, t, added), frame_data_offset) \<leftarrow>
             queue_input_loop input_begin input_end bytes received_data q t frame_data_offset next 0 added;
           if ret = 0 \<and> frame_data_offset < input_end
           then add_chunk_node q t frame_data_offset
                  (frame_part input_begin bytes frame_data_offset (input_end - frame_data_offset)) added received_data
           else Some (ret, q, t, added)
         }
         else Some (0, q, t, added))"

end
