(* ===== verification/Streams.thy ===== *)
theory Streams
  imports StreamData Sacks
begin

text \<open>
  The streams of a connection, from \<open>picoquic/frames.c\<close> and \<open>picoquic/quicctx.c\<close>: creation and lookup,
  the list of output streams, closing, and flow control.

  The stream tree is the sequence of its streams in the order of their identifiers, as \<open>SortedStore\<close>
  establishes; a pointer to a stream is the identifier, which is unique in a connection. The
  links of the list of output streams are such pointers. A run that does not return, uses a deleted
  stream or calls a NULL function is \<open>None\<close>. The outcomes of the \<open>malloc\<close> calls for streams are
  a list in the connection. Logging is left out.
\<close>

section \<open>State\<close>

datatype cnx_state =
    picoquic_state_client_init
  | picoquic_state_client_init_sent
  | picoquic_state_client_renegotiate
  | picoquic_state_client_retry_received
  | picoquic_state_client_init_resent
  | picoquic_state_server_init
  | picoquic_state_server_handshake
  | picoquic_state_client_handshake_start
  | picoquic_state_handshake_failure
  | picoquic_state_handshake_failure_resend
  | picoquic_state_client_almost_ready
  | picoquic_state_server_false_start
  | picoquic_state_server_almost_ready
  | picoquic_state_client_ready_start
  | picoquic_state_ready
  | picoquic_state_disconnecting
  | picoquic_state_closing_received
  | picoquic_state_closing
  | picoquic_state_draining
  | picoquic_state_disconnected

primrec state_code :: "cnx_state \<Rightarrow> nat" where
  "state_code picoquic_state_client_init = 0"
| "state_code picoquic_state_client_init_sent = 1"
| "state_code picoquic_state_client_renegotiate = 2"
| "state_code picoquic_state_client_retry_received = 3"
| "state_code picoquic_state_client_init_resent = 4"
| "state_code picoquic_state_server_init = 5"
| "state_code picoquic_state_server_handshake = 6"
| "state_code picoquic_state_client_handshake_start = 7"
| "state_code picoquic_state_handshake_failure = 8"
| "state_code picoquic_state_handshake_failure_resend = 9"
| "state_code picoquic_state_client_almost_ready = 10"
| "state_code picoquic_state_server_false_start = 11"
| "state_code picoquic_state_server_almost_ready = 12"
| "state_code picoquic_state_client_ready_start = 13"
| "state_code picoquic_state_ready = 14"
| "state_code picoquic_state_disconnecting = 15"
| "state_code picoquic_state_closing_received = 16"
| "state_code picoquic_state_closing = 17"
| "state_code picoquic_state_draining = 18"
| "state_code picoquic_state_disconnected = 19"

instantiation cnx_state :: linorder
begin

definition less_eq_cnx_state :: "cnx_state \<Rightarrow> cnx_state \<Rightarrow> bool" where
  "less_eq_cnx_state a b \<longleftrightarrow> state_code a \<le> state_code b"

definition less_cnx_state :: "cnx_state \<Rightarrow> cnx_state \<Rightarrow> bool" where
  "less_cnx_state a b \<longleftrightarrow> state_code a < state_code b"

instance
proof
  fix a b :: cnx_state
  show "a \<le> b \<Longrightarrow> b \<le> a \<Longrightarrow> a = b"
    unfolding less_eq_cnx_state_def by (cases a; cases b) simp_all
qed (auto simp: less_eq_cnx_state_def less_cnx_state_def)

end

text \<open>The initial limits of the transport parameters.\<close>

record stream_limits =
  initial_max_stream_data_bidi_local :: u64
  initial_max_stream_data_bidi_remote :: u64
  initial_max_stream_data_uni :: u64

record stream_head =
  stream_id :: u64
  next_output_stream :: "u64 option"
  previous_output_stream :: "u64 option"
  consumed_offset :: u64
  fin_offset :: u64
  maxdata_local :: u64
  maxdata_remote :: u64
  remote_error :: u64
  remote_stop_error :: u64
  stream_data_tree :: splay_tree
  sent_offset :: u64
  direct_receive_fn :: "(bool \<Rightarrow> u8 list \<Rightarrow> u64 \<Rightarrow> int) option"
  sent_sack_list :: sack_list
  fin_requested :: bool
  fin_sent :: bool
  fin_received :: bool
  fin_signalled :: bool
  reset_requested :: bool
  reset_sent :: bool
  reset_received :: bool
  reset_signalled :: bool
  stop_sending_requested :: bool
  stop_sending_received :: bool
  stop_sending_signalled :: bool
  max_stream_updated :: bool
  is_output_stream :: bool
  is_closed :: bool
  is_discarded :: bool

datatype stream_event = callback_stream_data | callback_stream_fin | callback_stream_reset | callback_stop_sending

type_synonym app_call = "u64 \<times> stream_event \<times> u8 list"

text \<open>
  \<open>callback_fn\<close> gives the return code of the application for the calls it has received so far, the
  latest last; \<open>callbacks\<close> are these calls. The application does not change the connection.
\<close>

record stream_cnx =
  client_mode :: bool
  cnx_state :: cnx_state
  local_error :: u64
  offending_frame_type :: u64
  local_parameters :: stream_limits
  remote_parameters :: stream_limits
  cnx_maxdata_local :: u64
  cnx_maxdata_remote :: u64
  max_max_stream_data_remote :: u64
  data_received :: u64
  sent_blocked_frame :: bool
  stream_blocked_bidir_sent :: bool
  stream_blocked_unidir_sent :: bool
  max_stream_data_needed :: bool
  latest_progress_time :: u64
  next_stream_id :: "u64 \<Rightarrow> u64"
  max_stream_id_bidir_local :: u64
  max_stream_id_bidir_local_computed :: u64
  max_stream_id_unidir_local :: u64
  max_stream_id_unidir_local_computed :: u64
  max_stream_id_bidir_remote :: u64
  max_stream_id_unidir_remote :: u64
  high_priority_stream_id :: u64
  ack_after_fin :: "nat \<Rightarrow> bool"
  first_output_stream :: "u64 option"
  last_output_stream :: "u64 option"
  stream_tree :: "stream_head list"
  stream_mallocs :: "bool list"
  pool :: data_pool
  callback_fn :: "(app_call list \<Rightarrow> int) option"
  callbacks :: "app_call list"

section \<open>Stream identifiers\<close>

definition IS_CLIENT_STREAM_ID :: "u64 \<Rightarrow> bool" where "IS_CLIENT_STREAM_ID n \<longleftrightarrow> n AND 1 = 0"
definition IS_BIDIR_STREAM_ID :: "u64 \<Rightarrow> bool" where "IS_BIDIR_STREAM_ID n \<longleftrightarrow> n AND 2 = 0"
definition IS_LOCAL_STREAM_ID :: "u64 \<Rightarrow> bool \<Rightarrow> bool" where
  "IS_LOCAL_STREAM_ID n client \<longleftrightarrow> (n XOR (if client then 1 else 0)) AND 1 \<noteq> 0"
definition STREAM_TYPE_FROM_ID :: "u64 \<Rightarrow> u64" where "STREAM_TYPE_FROM_ID n = n AND 3"
definition NEXT_STREAM_ID_FOR_TYPE :: "u64 \<Rightarrow> u64" where "NEXT_STREAM_ID_FOR_TYPE n = n + 4"
definition STREAM_RANK_FROM_ID :: "u64 \<Rightarrow> u64" where "STREAM_RANK_FROM_ID n = drop_bit 2 (n + 4)"
definition STREAM_ID_FROM_RANK :: "u64 \<Rightarrow> bool \<Rightarrow> bool \<Rightarrow> u64" where
  "STREAM_ID_FROM_RANK rank client is_unidir =
     push_bit 2 (rank - 1) OR push_bit 1 (if is_unidir then 1 else 0) OR (if client then 0 else 1)"

section \<open>Errors\<close>

abbreviation PICOQUIC_ERROR_CLASS :: u64 where "PICOQUIC_ERROR_CLASS \<equiv> 0x400"
abbreviation PICOQUIC_ERROR_DETECTED :: int where "PICOQUIC_ERROR_DETECTED \<equiv> 0x415"
abbreviation PICOQUIC_STREAM_RECEIVE_COMPLETE :: int where "PICOQUIC_STREAM_RECEIVE_COMPLETE \<equiv> 0x42C"
abbreviation PICOQUIC_TRANSPORT_INTERNAL_ERROR :: u64 where "PICOQUIC_TRANSPORT_INTERNAL_ERROR \<equiv> 0x1"
abbreviation PICOQUIC_TRANSPORT_FLOW_CONTROL_ERROR :: u64 where "PICOQUIC_TRANSPORT_FLOW_CONTROL_ERROR \<equiv> 0x3"
abbreviation PICOQUIC_TRANSPORT_STREAM_LIMIT_ERROR :: u64 where "PICOQUIC_TRANSPORT_STREAM_LIMIT_ERROR \<equiv> 0x4"
abbreviation PICOQUIC_TRANSPORT_STREAM_STATE_ERROR :: u64 where "PICOQUIC_TRANSPORT_STREAM_STATE_ERROR \<equiv> 0x5"
abbreviation PICOQUIC_TRANSPORT_FINAL_OFFSET_ERROR :: u64 where "PICOQUIC_TRANSPORT_FINAL_OFFSET_ERROR \<equiv> 0x6"
abbreviation PICOQUIC_TRANSPORT_FRAME_FORMAT_ERROR :: u64 where "PICOQUIC_TRANSPORT_FRAME_FORMAT_ERROR \<equiv> 0x7"
abbreviation PICOQUIC_TRANSPORT_PROTOCOL_VIOLATION :: u64 where "PICOQUIC_TRANSPORT_PROTOCOL_VIOLATION \<equiv> 0xA"

definition picoquic_connection_error_ex :: "stream_cnx \<Rightarrow> u64 \<Rightarrow> u64 \<Rightarrow> int \<times> stream_cnx" where
  "picoquic_connection_error_ex cnx err frame_type =
     (let err = (if err > PICOQUIC_ERROR_CLASS then PICOQUIC_TRANSPORT_INTERNAL_ERROR else err);
          cnx = (if cnx_state cnx = picoquic_state_ready \<or> cnx_state cnx = picoquic_state_client_ready_start \<or>
                    cnx_state cnx = picoquic_state_server_false_start
                 then cnx\<lparr>local_error := err, cnx_state := picoquic_state_disconnecting\<rparr>
                 else if cnx_state cnx < picoquic_state_server_false_start then
                   if cnx_state cnx \<noteq> picoquic_state_handshake_failure \<and>
                      cnx_state cnx \<noteq> picoquic_state_handshake_failure_resend
                   then cnx\<lparr>local_error := err, cnx_state := picoquic_state_handshake_failure\<rparr>
                   else cnx
                 else cnx)
      in (PICOQUIC_ERROR_DETECTED, cnx\<lparr>offending_frame_type := frame_type\<rparr>))"

definition picoquic_connection_error :: "stream_cnx \<Rightarrow> u64 \<Rightarrow> u64 \<Rightarrow> int \<times> stream_cnx" where
  "picoquic_connection_error cnx err frame_type = picoquic_connection_error_ex cnx err frame_type"

section \<open>The tree of streams\<close>

definition picoquic_find_stream :: "stream_cnx \<Rightarrow> u64 \<Rightarrow> stream_head option" where
  "picoquic_find_stream cnx n = List.find (\<lambda>s. stream_id s = n) (stream_tree cnx)"

text \<open>A write through a pointer to the stream \<open>n\<close>.\<close>

definition upd_stream :: "u64 \<Rightarrow> (stream_head \<Rightarrow> stream_head) \<Rightarrow> stream_cnx \<Rightarrow> stream_cnx" where
  "upd_stream n f cnx = cnx\<lparr>stream_tree := map (\<lambda>s. if stream_id s = n then f s else s) (stream_tree cnx)\<rparr>"

definition tree_insert_stream :: "stream_head \<Rightarrow> stream_cnx \<Rightarrow> stream_cnx" where
  "tree_insert_stream s cnx =
     cnx\<lparr>stream_tree := takeWhile (\<lambda>o'. stream_id o' \<le> stream_id s) (stream_tree cnx) @ s #
                       dropWhile (\<lambda>o'. stream_id o' \<le> stream_id s) (stream_tree cnx)\<rparr>"

section \<open>The list of output streams\<close>

definition picoquic_insert_output_stream :: "stream_cnx \<Rightarrow> u64 \<Rightarrow> stream_cnx option" where
  "picoquic_insert_output_stream cnx n = do {
     s \<leftarrow> picoquic_find_stream cnx n;
     if \<not> is_output_stream s then
       let cnx =
         (if n = high_priority_stream_id cnx then
            let cnx = upd_stream n (\<lambda>s. s\<lparr>previous_output_stream := None, next_output_stream := first_output_stream cnx\<rparr>) cnx;
                cnx = (case first_output_stream cnx of None \<Rightarrow> cnx
                       | Some f \<Rightarrow> upd_stream f (\<lambda>s. s\<lparr>previous_output_stream := Some n\<rparr>) cnx)
            in cnx\<lparr>first_output_stream := Some n\<rparr>
          else
            let cnx = upd_stream n (\<lambda>s. s\<lparr>previous_output_stream := last_output_stream cnx, next_output_stream := None\<rparr>) cnx
            in case last_output_stream cnx of
                 None \<Rightarrow> cnx\<lparr>first_output_stream := Some n, last_output_stream := Some n\<rparr>
               | Some l \<Rightarrow> (upd_stream l (\<lambda>s. s\<lparr>next_output_stream := Some n\<rparr>) cnx)\<lparr>last_output_stream := Some n\<rparr>)
       in Some (upd_stream n (\<lambda>s. s\<lparr>is_output_stream := True\<rparr>) cnx)
     else Some cnx
   }"

definition picoquic_remove_output_stream :: "stream_cnx \<Rightarrow> u64 \<Rightarrow> stream_cnx option" where
  "picoquic_remove_output_stream cnx n = do {
     s \<leftarrow> picoquic_find_stream cnx n;
     if is_output_stream s then
       let cnx = upd_stream n (\<lambda>s. s\<lparr>is_output_stream := False\<rparr>) cnx;
           cnx = (case previous_output_stream s of
                    None \<Rightarrow> cnx\<lparr>first_output_stream := next_output_stream s\<rparr>
                  | Some p \<Rightarrow> upd_stream p (\<lambda>o'. o'\<lparr>next_output_stream := next_output_stream s\<rparr>) cnx);
           cnx = (case next_output_stream s of
                    None \<Rightarrow> cnx\<lparr>last_output_stream := previous_output_stream s\<rparr>
                  | Some x \<Rightarrow> upd_stream x (\<lambda>o'. o'\<lparr>previous_output_stream := previous_output_stream s\<rparr>) cnx)
       in Some cnx
     else Some cnx
   }"

text \<open>The walk along \<open>picoquic_next_stream\<close> is the rest of the sequence.\<close>

fun add_output_streams_loop :: "stream_cnx \<Rightarrow> u64 \<Rightarrow> u64 \<Rightarrow> bool \<Rightarrow> stream_head list \<Rightarrow> stream_cnx option" where
  "add_output_streams_loop cnx old_limit new_limit is_bidir [] = Some cnx"
| "add_output_streams_loop cnx old_limit new_limit is_bidir (s # ss) =
     (if stream_id s > old_limit \<and> stream_id s > new_limit then Some cnx
      else do {
        cnx \<leftarrow> (if stream_id s > old_limit \<and> IS_LOCAL_STREAM_ID (stream_id s) (client_mode cnx) \<and>
                    IS_BIDIR_STREAM_ID (stream_id s) = is_bidir
                 then picoquic_insert_output_stream cnx (stream_id s) else Some cnx);
        add_output_streams_loop cnx old_limit new_limit is_bidir ss
      })"

definition picoquic_add_output_streams :: "stream_cnx \<Rightarrow> u64 \<Rightarrow> u64 \<Rightarrow> bool \<Rightarrow> stream_cnx option" where
  "picoquic_add_output_streams cnx old_limit new_limit is_bidir =
     (let old_rank = STREAM_RANK_FROM_ID old_limit;
          first_new_id = STREAM_ID_FROM_RANK (old_rank + 1) (client_mode cnx) (\<not> is_bidir)
      in add_output_streams_loop cnx old_limit new_limit is_bidir
           (dropWhile (\<lambda>s. stream_id s \<noteq> first_new_id) (stream_tree cnx)))"

section \<open>Closing a stream\<close>

definition picoquic_is_stream_closed :: "stream_head \<Rightarrow> bool \<Rightarrow> bool" where
  "picoquic_is_stream_closed s client =
     (\<not> is_output_stream s \<and>
      (if IS_BIDIR_STREAM_ID (stream_id s) then
         (fin_requested s \<and> fin_sent s \<or> reset_requested s \<and> reset_sent s) \<and>
         (fin_received s \<and> fin_signalled s \<or> reset_received s \<and> reset_signalled s)
       else if IS_LOCAL_STREAM_ID (stream_id s) client then
         fin_requested s \<and> fin_sent s \<or> reset_requested s \<and> reset_sent s
       else fin_received s \<and> fin_signalled s \<or> reset_received s \<and> reset_signalled s))"

definition picoquic_is_stream_acked :: "stream_head \<Rightarrow> bool option" where
  "picoquic_is_stream_acked s =
     (if is_closed s then
        if reset_sent s then Some True
        else do { r \<leftarrow> picoquic_check_sack_list (sent_sack_list s) 0 (sent_offset s); Some (r \<noteq> 0) }
      else Some False)"

definition picoquic_update_max_stream_ID_local :: "stream_cnx \<Rightarrow> u64 \<Rightarrow> stream_cnx option" where
  "picoquic_update_max_stream_ID_local cnx n = do {
     s \<leftarrow> picoquic_find_stream cnx n;
     Some (if client_mode cnx \<noteq> IS_CLIENT_STREAM_ID n \<and> \<not> max_stream_updated s then
             if consumed_offset s \<ge> fin_offset s \<and> (fin_received s \<or> reset_received s) then
               if IS_BIDIR_STREAM_ID n then
                 if fin_sent s \<or> reset_sent s then
                   upd_stream n (\<lambda>s. s\<lparr>max_stream_updated := True\<rparr>)
                     (cnx\<lparr>max_stream_id_bidir_local_computed := max_stream_id_bidir_local_computed cnx + 4\<rparr>)
                 else cnx
               else
                 upd_stream n (\<lambda>s. s\<lparr>max_stream_updated := True\<rparr>)
                   (cnx\<lparr>max_stream_id_unidir_local_computed := max_stream_id_unidir_local_computed cnx + 4\<rparr>)
             else cnx
           else cnx)
   }"

text \<open>\<open>picosplay_empty_tree\<close> with the deletion function of the data nodes.\<close>

partial_function (option) empty_data_tree :: "data_pool \<Rightarrow> splay_tree \<Rightarrow> data_pool option" where
  "empty_data_tree q t =
     (case root t of
        None \<Rightarrow> Some q
      | Some r \<Rightarrow> do { t \<leftarrow> picosplay_delete_hint t (Some r); empty_data_tree (picoquic_stream_data_node_recycle q r) t })"

declare empty_data_tree.simps [code]

definition picoquic_delete_stream :: "stream_cnx \<Rightarrow> u64 \<Rightarrow> stream_cnx option" where
  "picoquic_delete_stream cnx n = do {
     s \<leftarrow> picoquic_find_stream cnx n;
     q \<leftarrow> empty_data_tree (pool cnx) (stream_data_tree s);
     Some (cnx\<lparr>pool := q, stream_tree := filter (\<lambda>o'. stream_id o' \<noteq> n) (stream_tree cnx)\<rparr>)
   }"

definition picoquic_delete_stream_if_closed :: "stream_cnx \<Rightarrow> u64 \<Rightarrow> (bool \<times> stream_cnx) option" where
  "picoquic_delete_stream_if_closed cnx n = do {
     s \<leftarrow> picoquic_find_stream cnx n;
     (ret, cnx) \<leftarrow>
       (if \<not> is_closed s \<and> picoquic_is_stream_closed s (client_mode cnx) then do {
          cnx \<leftarrow> picoquic_update_max_stream_ID_local cnx n;
          Some (True, upd_stream n (\<lambda>s. s\<lparr>is_closed := True\<rparr>) cnx)
        } else Some (False, cnx));
     s \<leftarrow> picoquic_find_stream cnx n;
     acked \<leftarrow> picoquic_is_stream_acked s;
     cnx \<leftarrow> (if is_closed s \<and> acked then picoquic_delete_stream cnx n else Some cnx);
     Some (ret, cnx)
   }"

end
