(* ===== verification/StreamInput.thy ===== *)
theory StreamInput
  imports Streams FrameSkip
begin

text \<open>
  What the peer does to the streams, from \<open>picoquic/frames.c\<close>: the frames STREAM, CRYPTO,
  RESET_STREAM, STOP_SENDING, MAX_DATA, MAX_STREAM_DATA and MAX_STREAMS. A decoder gets the frame from
  its type byte on, and returns NULL (\<open>None\<close> as a value) or the bytes after it. The outer option is that of
  \<open>Streams\<close>.
\<close>

section \<open>Creation\<close>

text \<open>The memory of empty trees, and the stream after \<open>memset\<close> with its initial limits.\<close>

definition empty_memory :: memory where
  "empty_memory = (\<lambda>_. \<lparr>parent = None, left = None, right = None\<rparr>)"

definition empty_items :: "nat \<Rightarrow> sack_item" where
  "empty_items = (\<lambda>_. \<lparr>start_of_sack_range = 0, end_of_sack_range = 0, time_created = 0, nb_times_sent = (\<lambda>_. 0)\<rparr>)"

definition new_stream :: "u64 \<Rightarrow> u64 \<Rightarrow> u64 \<Rightarrow> stream_head" where
  "new_stream n local_limit remote_limit =
     \<lparr>stream_id = n, next_output_stream = None, previous_output_stream = None, consumed_offset = 0, fin_offset = 0,
      maxdata_local = local_limit, maxdata_remote = remote_limit, remote_error = 0, remote_stop_error = 0,
      stream_data_tree = picosplay_init_tree empty_memory, sent_offset = 0, direct_receive_fn = None,
      sent_sack_list = picoquic_sack_list_init empty_memory empty_items,
      fin_requested = False, fin_sent = False, fin_received = False, fin_signalled = False,
      reset_requested = False, reset_sent = False, reset_received = False, reset_signalled = False,
      stop_sending_requested = False, stop_sending_received = False, stop_sending_signalled = False,
      max_stream_updated = False, is_output_stream = False, is_closed = False, is_discarded = False\<rparr>"

text \<open>The limits of a new stream, and whether it can be written to.\<close>

definition stream_setup :: "stream_cnx \<Rightarrow> u64 \<Rightarrow> stream_head \<times> bool" where
  "stream_setup cnx n =
     (if IS_LOCAL_STREAM_ID n (client_mode cnx) then
        if IS_BIDIR_STREAM_ID n then
          (new_stream n (initial_max_stream_data_bidi_local (local_parameters cnx))
             (initial_max_stream_data_bidi_remote (remote_parameters cnx)),
           n \<le> max_stream_id_bidir_remote cnx)
        else
          (new_stream n 0 (initial_max_stream_data_uni (remote_parameters cnx)),
           n \<le> max_stream_id_unidir_remote cnx)
      else
        if IS_BIDIR_STREAM_ID n then
          (new_stream n (initial_max_stream_data_bidi_remote (local_parameters cnx))
             (initial_max_stream_data_bidi_local (remote_parameters cnx)), True)
        else
          (new_stream n (initial_max_stream_data_uni (local_parameters cnx)) 0, False))"

definition picoquic_create_stream :: "stream_cnx \<Rightarrow> u64 \<Rightarrow> (u64 option \<times> stream_cnx) option" where
  "picoquic_create_stream cnx n =
     (case stream_mallocs cnx of
        True # ms \<Rightarrow> do {
          let cnx = cnx\<lparr>stream_mallocs := ms\<rparr>;
          let (s, is_output) = stream_setup cnx n;
          let cnx = tree_insert_stream s cnx;
          cnx \<leftarrow> (if is_output then picoquic_insert_output_stream cnx n
                  else do {
                    cnx \<leftarrow> picoquic_remove_output_stream cnx n;
                    (_, cnx) \<leftarrow> picoquic_delete_stream_if_closed cnx n;
                    Some cnx
                  });
          Some (Some n,
                if n \<ge> next_stream_id cnx (STREAM_TYPE_FROM_ID n)
                then cnx\<lparr>next_stream_id := (next_stream_id cnx)(STREAM_TYPE_FROM_ID n := NEXT_STREAM_ID_FOR_TYPE n)\<rparr>
                else cnx)
        }
      | False # ms \<Rightarrow> Some (None, cnx\<lparr>stream_mallocs := ms\<rparr>)
      | [] \<Rightarrow> Some (None, cnx))"

text \<open>The loop of \<open>picoquic_create_missing_streams\<close>; \<open>stream\<close> is the last stream created.\<close>

partial_function (option) create_missing_loop ::
    "stream_cnx \<Rightarrow> u64 \<Rightarrow> u64 option \<Rightarrow> (u64 option \<times> stream_cnx) option" where
  "create_missing_loop cnx n stream =
     (if n \<ge> next_stream_id cnx (STREAM_TYPE_FROM_ID n) then do {
        (stream, cnx) \<leftarrow> picoquic_create_stream cnx (next_stream_id cnx (STREAM_TYPE_FROM_ID n));
        case stream of
          None \<Rightarrow> Some (None, snd (picoquic_connection_error cnx PICOQUIC_TRANSPORT_INTERNAL_ERROR 0))
        | Some m \<Rightarrow>
            create_missing_loop
              (if \<not> IS_BIDIR_STREAM_ID n \<and> \<not> IS_LOCAL_STREAM_ID n (client_mode cnx)
               then upd_stream m (\<lambda>s. s\<lparr>fin_requested := True, fin_sent := True\<rparr>) cnx else cnx)
              n stream
      } else Some (stream, cnx))"

declare create_missing_loop.simps [code]

definition picoquic_create_missing_streams :: "stream_cnx \<Rightarrow> u64 \<Rightarrow> bool \<Rightarrow> (u64 option \<times> stream_cnx) option" where
  "picoquic_create_missing_streams cnx n is_remote =
     (let expect_client_stream = (client_mode cnx \<noteq> is_remote)
      in if is_remote \<and> n < next_stream_id cnx (STREAM_TYPE_FROM_ID n) then Some (None, cnx)
         else if IS_CLIENT_STREAM_ID n \<noteq> expect_client_stream then
           Some (None, snd (picoquic_connection_error cnx PICOQUIC_TRANSPORT_STREAM_LIMIT_ERROR 0))
         else if is_remote \<and>
             n > (if IS_BIDIR_STREAM_ID n then max_stream_id_bidir_local cnx else max_stream_id_unidir_local cnx) then
           Some (None, snd (picoquic_connection_error cnx PICOQUIC_TRANSPORT_STREAM_LIMIT_ERROR 0))
         else if n < next_stream_id cnx (STREAM_TYPE_FROM_ID n) then
           Some (None, snd (picoquic_connection_error cnx PICOQUIC_TRANSPORT_STREAM_STATE_ERROR 0))
         else create_missing_loop cnx n None)"

definition picoquic_find_or_create_stream :: "stream_cnx \<Rightarrow> u64 \<Rightarrow> bool \<Rightarrow> (u64 option \<times> stream_cnx) option" where
  "picoquic_find_or_create_stream cnx n is_remote =
     (case picoquic_find_stream cnx n of
        None \<Rightarrow> picoquic_create_missing_streams cnx n is_remote
      | Some s \<Rightarrow> Some (Some n, cnx))"

section \<open>Flow control\<close>

definition picoquic_flow_control_check_stream_offset :: "stream_cnx \<Rightarrow> u64 \<Rightarrow> u64 \<Rightarrow> (int \<times> stream_cnx) option" where
  "picoquic_flow_control_check_stream_offset cnx n new_fin_offset = do {
     s \<leftarrow> picoquic_find_stream cnx n;
     Some (if new_fin_offset > maxdata_local s then
             picoquic_connection_error cnx PICOQUIC_TRANSPORT_FLOW_CONTROL_ERROR 0
           else if new_fin_offset > fin_offset s then
             let new_bytes = new_fin_offset - fin_offset s
             in if new_bytes > cnx_maxdata_local cnx \<or> cnx_maxdata_local cnx - new_bytes < data_received cnx
                then picoquic_connection_error cnx PICOQUIC_TRANSPORT_FLOW_CONTROL_ERROR 0
                else (0, upd_stream n (\<lambda>s. s\<lparr>fin_offset := new_fin_offset\<rparr>)
                           (cnx\<lparr>data_received := data_received cnx + new_bytes\<rparr>))
           else (0, cnx))
   }"

section \<open>Delivery\<close>

definition call_application :: "stream_cnx \<Rightarrow> app_call \<Rightarrow> (int \<times> stream_cnx) option" where
  "call_application cnx call = do {
     f \<leftarrow> callback_fn cnx;
     let log = callbacks cnx @ [call];
     Some (f log, cnx\<lparr>callbacks := log\<rparr>)
   }"

definition picoquic_stream_data_chunk_callback :: "stream_cnx \<Rightarrow> u64 \<Rightarrow> u8 list \<Rightarrow> stream_cnx option" where
  "picoquic_stream_data_chunk_callback cnx n bytes = do {
     let cnx = upd_stream n (\<lambda>s. s\<lparr>consumed_offset := consumed_offset s + of_nat (length bytes)\<rparr>) cnx;
     s \<leftarrow> picoquic_find_stream cnx n;
     let fin = (consumed_offset s \<ge> fin_offset s \<and> fin_received s \<and> \<not> fin_signalled s);
     let cnx = (if fin then upd_stream n (\<lambda>s. s\<lparr>fin_signalled := True\<rparr>) cnx else cnx);
     if (bytes \<noteq> [] \<or> fin) \<and> \<not> stop_sending_requested s \<and> \<not> is_discarded s then do {
       (r, cnx) \<leftarrow> call_application cnx (n, if fin then callback_stream_fin else callback_stream_data, bytes);
       Some (if r \<noteq> 0 then snd (picoquic_connection_error cnx PICOQUIC_TRANSPORT_INTERNAL_ERROR 0) else cnx)
     } else Some cnx
   }"

partial_function (option) stream_data_loop :: "stream_cnx \<Rightarrow> u64 \<Rightarrow> stream_cnx option" where
  "stream_data_loop cnx n = do {
     s \<leftarrow> picoquic_find_stream cnx n;
     data \<leftarrow> picosplay_first (stream_data_tree s);
     case data of
       None \<Rightarrow> Some cnx
     | Some a \<Rightarrow>
         let d = data_nodes (pool cnx) a in
         if dn_offset d \<le> consumed_offset s then do {
           let start = unat (consumed_offset s - dn_offset d);
           b \<leftarrow> dn_bytes d;
           cnx \<leftarrow> (if length b \<ge> start then picoquic_stream_data_chunk_callback cnx n (drop start b) else Some cnx);
           s \<leftarrow> picoquic_find_stream cnx n;
           t \<leftarrow> picosplay_delete_hint (stream_data_tree s) (Some a);
           stream_data_loop
             (upd_stream n (\<lambda>s. s\<lparr>stream_data_tree := t\<rparr>)
                (cnx\<lparr>pool := picoquic_stream_data_node_recycle (pool cnx) a\<rparr>)) n
         } else Some cnx
   }"

declare stream_data_loop.simps [code]

definition picoquic_stream_data_callback :: "stream_cnx \<Rightarrow> u64 \<Rightarrow> stream_cnx option" where
  "picoquic_stream_data_callback cnx n =
     do { cnx \<leftarrow> stream_data_loop cnx n; picoquic_stream_data_chunk_callback cnx n [] }"

section \<open>A STREAM frame\<close>

text \<open>The checks on the final offset and the flow control; the second component is \<open>should_notify\<close>.\<close>

definition stream_input_check ::
    "stream_cnx \<Rightarrow> u64 \<Rightarrow> bool \<Rightarrow> u64 \<Rightarrow> u64 \<Rightarrow> ((int \<times> bool) \<times> stream_cnx) option" where
  "stream_input_check cnx n fin new_fin_offset current_time = do {
     s \<leftarrow> picoquic_find_stream cnx n;
     if fin_received s then
       Some (if (if fin then fin_offset s \<noteq> new_fin_offset else new_fin_offset > fin_offset s) then
               let (r, cnx) = picoquic_connection_error cnx PICOQUIC_TRANSPORT_FINAL_OFFSET_ERROR 0 in ((r, False), cnx)
             else ((0, False), cnx))
     else do {
       cnx \<leftarrow> (if fin then
                 picoquic_update_max_stream_ID_local
                   ((upd_stream n (\<lambda>s. s\<lparr>fin_received := True\<rparr>) cnx)\<lparr>latest_progress_time := current_time\<rparr>) n
               else Some cnx);
       (r, cnx) \<leftarrow> (if new_fin_offset > fin_offset s
                    then picoquic_flow_control_check_stream_offset cnx n new_fin_offset else Some (0, cnx));
       Some ((r, fin), cnx)
     }
   }"

text \<open>The three ways in which the data is taken.\<close>

definition stream_input_direct ::
    "stream_cnx \<Rightarrow> u64 \<Rightarrow> (bool \<Rightarrow> u8 list \<Rightarrow> u64 \<Rightarrow> int) \<Rightarrow> u64 \<Rightarrow> bool \<Rightarrow> u8 list \<Rightarrow> (int \<times> stream_cnx) option" where
  "stream_input_direct cnx n receive offset fin bytes = do {
     s \<leftarrow> picoquic_find_stream cnx n;
     let ret = receive fin bytes offset;
     Some (if ret = PICOQUIC_STREAM_RECEIVE_COMPLETE \<and> fin_received s
           then (0, upd_stream n (\<lambda>s. s\<lparr>fin_signalled := True\<rparr>) cnx)
           else if ret \<noteq> 0 then
             picoquic_connection_error cnx (if ret \<ge> 0x400 then PICOQUIC_TRANSPORT_INTERNAL_ERROR else of_int ret) 0
           else (0, cnx))
   }"

definition stream_input_queued ::
    "stream_cnx \<Rightarrow> u64 \<Rightarrow> u64 \<Rightarrow> u8 list \<Rightarrow> ptr \<Rightarrow> bool \<Rightarrow> u64 \<Rightarrow> (int \<times> stream_cnx) option" where
  "stream_input_queued cnx n offset bytes received_data should_notify current_time = do {
     s \<leftarrow> picoquic_find_stream cnx n;
     (ret, q, t, added) \<leftarrow>
       picoquic_queue_network_input (pool cnx) (stream_data_tree s) (consumed_offset s) offset bytes received_data False;
     let cnx = upd_stream n (\<lambda>s. s\<lparr>stream_data_tree := t\<rparr>) (cnx\<lparr>pool := q\<rparr>);
     if ret \<noteq> 0 then Some (picoquic_connection_error cnx (of_int ret) 0)
     else do {
       let cnx = (if added then cnx\<lparr>latest_progress_time := current_time\<rparr> else cnx);
       cnx \<leftarrow> (if (should_notify \<or> added) \<and> callback_fn cnx \<noteq> None
               then picoquic_stream_data_callback cnx n else Some cnx);
       Some (0, cnx)
     }
   }"

definition stream_input_data ::
    "stream_cnx \<Rightarrow> u64 \<Rightarrow> u64 \<Rightarrow> bool \<Rightarrow> u8 list \<Rightarrow> ptr \<Rightarrow> bool \<Rightarrow> u64 \<Rightarrow> (int \<times> stream_cnx) option" where
  "stream_input_data cnx n offset fin bytes received_data should_notify current_time = do {
     s \<leftarrow> picoquic_find_stream cnx n;
     case direct_receive_fn s of
       Some receive \<Rightarrow> stream_input_direct cnx n receive offset fin bytes
     | None \<Rightarrow>
         if consumed_offset s \<ge> offset \<and> callback_fn cnx \<noteq> None then
           if offset + of_nat (length bytes) \<ge> consumed_offset s then do {
             cnx \<leftarrow> picoquic_stream_data_chunk_callback cnx n (drop (unat (consumed_offset s - offset)) bytes);
             cnx \<leftarrow> picoquic_stream_data_callback cnx n;
             Some (0, cnx)
           } else Some (0, cnx)
         else stream_input_queued cnx n offset bytes received_data should_notify current_time
   }"

text \<open>The end: a completed stream is closed; a stream that was deleted is no longer read.\<close>

definition stream_input_close :: "stream_cnx \<Rightarrow> u64 \<Rightarrow> stream_cnx option" where
  "stream_input_close cnx n = do {
     s \<leftarrow> picoquic_find_stream cnx n;
     (is_deleted, cnx) \<leftarrow> (if fin_signalled s then picoquic_delete_stream_if_closed cnx n else Some (False, cnx));
     if is_deleted then Some cnx
     else do {
       s \<leftarrow> picoquic_find_stream cnx n;
       let cnx = (if \<not> fin_signalled s \<and> \<not> fin_received s \<and> \<not> reset_received s \<and>
                     2 * consumed_offset s > maxdata_local s
                  then cnx\<lparr>max_stream_data_needed := True\<rparr> else cnx);
       Some (if fin_received s \<or> reset_received s then cnx\<lparr>ack_after_fin := (ack_after_fin cnx)(0 := True, 1 := True)\<rparr>
             else cnx)
     }
   }"

definition picoquic_stream_network_input ::
    "stream_cnx \<Rightarrow> u64 \<Rightarrow> u64 \<Rightarrow> bool \<Rightarrow> u8 list \<Rightarrow> ptr \<Rightarrow> u64 \<Rightarrow> (int \<times> stream_cnx) option" where
  "picoquic_stream_network_input cnx n offset fin bytes received_data current_time = do {
     (stream, cnx) \<leftarrow> picoquic_find_or_create_stream cnx n True;
     case stream of
       None \<Rightarrow> Some (if n < next_stream_id cnx (STREAM_TYPE_FROM_ID n) then 0 else 1, cnx)
     | Some _ \<Rightarrow> do {
         ((ret, should_notify), cnx) \<leftarrow> stream_input_check cnx n fin (offset + of_nat (length bytes)) current_time;
         if ret \<noteq> 0 then Some (ret, cnx)
         else do {
           (ret, cnx) \<leftarrow> stream_input_data cnx n offset fin bytes received_data should_notify current_time;
           if ret \<noteq> 0 then Some (ret, cnx)
           else do { cnx \<leftarrow> stream_input_close cnx n; Some (0, cnx) }
         }
       }
   }"

definition picoquic_decode_stream_frame ::
    "stream_cnx \<Rightarrow> u8 list \<Rightarrow> ptr \<Rightarrow> u64 \<Rightarrow> (u8 list option \<times> stream_cnx) option" where
  "picoquic_decode_stream_frame cnx bytes received_data current_time =
     (case picoquic_parse_stream_header bytes
             \<lparr>sh_stream_id = 0, sh_offset = 0, sh_data_length = 0, sh_fin = False, sh_consumed = 0\<rparr> of
        (ret, h) \<Rightarrow>
          if ret \<noteq> 0 then Some (None, cnx)
          else if sh_offset h + of_nat (sh_data_length h) \<ge> 2 ^ 62 then
            Some (None, snd (picoquic_connection_error cnx PICOQUIC_TRANSPORT_FINAL_OFFSET_ERROR 0))
          else do {
            let rest = drop (sh_consumed h) bytes;
            (ret, cnx) \<leftarrow> picoquic_stream_network_input cnx (sh_stream_id h) (sh_offset h) (sh_fin h)
                           (take (sh_data_length h) rest) received_data current_time;
            Some (if ret \<noteq> 0 then None else Some (drop (sh_data_length h) rest), cnx)
          })"

section \<open>A CRYPTO frame\<close>

definition picoquic_parse_crypto_hs_frame :: "u8 list \<Rightarrow> ((u64 \<times> u8 list) \<times> u8 list) option" where
  "picoquic_parse_crypto_hs_frame bytes = do {
     (offset, bytes) \<leftarrow> picoquic_frames_varint_decode (tl bytes);
     (data_length, bytes) \<leftarrow> picoquic_frames_varint_decode bytes;
     rest \<leftarrow> picoquic_frames_fixed_skip bytes data_length;
     Some ((offset, take (unat data_length) bytes), rest)
   }"

text \<open>The stream of the encryption epoch, \<open>cnx->tls_stream[epoch]\<close>, is not in the tree; it is an argument.\<close>

definition picoquic_decode_crypto_hs_frame ::
    "stream_cnx \<Rightarrow> stream_head \<Rightarrow> u8 list \<Rightarrow> ptr \<Rightarrow> (u8 list option \<times> stream_cnx \<times> stream_head) option" where
  "picoquic_decode_crypto_hs_frame cnx tls bytes received_data =
     (case picoquic_parse_crypto_hs_frame bytes of
        None \<Rightarrow> Some (None, snd (picoquic_connection_error cnx PICOQUIC_TRANSPORT_FRAME_FORMAT_ERROR 0x06), tls)
      | Some ((offset, data), rest) \<Rightarrow> do {
          (ret, q, t, _) \<leftarrow> picoquic_queue_network_input (pool cnx) (stream_data_tree tls) (consumed_offset tls) offset data
                           received_data False;
          let cnx = cnx\<lparr>pool := q\<rparr>;
          let tls = tls\<lparr>stream_data_tree := t\<rparr>;
          Some (if ret \<noteq> 0 then (None, snd (picoquic_connection_error cnx (of_int ret) 0x06), tls) else (Some rest, cnx, tls))
        })"

section \<open>RESET_STREAM and STOP_SENDING\<close>

text \<open>The call of the application in the two decoders, and the flags that follow it.\<close>

definition signal_stream_reset :: "stream_cnx \<Rightarrow> u64 \<Rightarrow> stream_cnx option" where
  "signal_stream_reset cnx n = do {
     s \<leftarrow> picoquic_find_stream cnx n;
     if callback_fn cnx \<noteq> None \<and> \<not> reset_signalled s then do {
       cnx \<leftarrow> (if \<not> is_discarded s then do {
                 (r, cnx) \<leftarrow> call_application cnx (n, callback_stream_reset, []);
                 Some (if r \<noteq> 0 then snd (picoquic_connection_error cnx PICOQUIC_TRANSPORT_INTERNAL_ERROR 0x04) else cnx)
               } else Some cnx);
       (_, cnx) \<leftarrow> picoquic_delete_stream_if_closed (upd_stream n (\<lambda>s. s\<lparr>reset_signalled := True\<rparr>) cnx) n;
       Some cnx
     } else Some cnx
   }"

definition picoquic_decode_stream_reset_frame :: "stream_cnx \<Rightarrow> u8 list \<Rightarrow> (u8 list option \<times> stream_cnx) option" where
  "picoquic_decode_stream_reset_frame cnx bytes =
     (case do { (n, bytes) \<leftarrow> picoquic_frames_varint_decode (tl bytes);
                (error_code, bytes) \<leftarrow> picoquic_frames_varint_decode bytes;
                (final_offset, bytes) \<leftarrow> picoquic_frames_varint_decode bytes;
                Some (n, error_code, final_offset, bytes) } of
        None \<Rightarrow> Some (None, snd (picoquic_connection_error cnx PICOQUIC_TRANSPORT_FRAME_FORMAT_ERROR 0x04))
      | Some (n, error_code, final_offset, rest) \<Rightarrow> do {
          (stream, cnx) \<leftarrow> picoquic_find_or_create_stream cnx n True;
          case stream of
            None \<Rightarrow> Some (None, cnx)
          | Some _ \<Rightarrow> do {
              s \<leftarrow> picoquic_find_stream cnx n;
              if (fin_received s \<or> reset_received s) \<and> final_offset \<noteq> fin_offset s then
                Some (None, snd (picoquic_connection_error cnx PICOQUIC_TRANSPORT_FINAL_OFFSET_ERROR 0x04))
              else do {
                (ret, cnx) \<leftarrow> picoquic_flow_control_check_stream_offset cnx n final_offset;
                if ret \<noteq> 0 then Some (None, cnx)
                else if \<not> reset_received s then do {
                  let cnx = upd_stream n (\<lambda>s. s\<lparr>reset_received := True, remote_error := error_code\<rparr>) cnx;
                  cnx \<leftarrow> picoquic_update_max_stream_ID_local cnx n;
                  cnx \<leftarrow> signal_stream_reset cnx n;
                  Some (Some rest, cnx)
                } else Some (Some rest, cnx)
              }
            }
        })"

definition signal_stop_sending :: "stream_cnx \<Rightarrow> u64 \<Rightarrow> stream_cnx option" where
  "signal_stop_sending cnx n = do {
     s \<leftarrow> picoquic_find_stream cnx n;
     if callback_fn cnx \<noteq> None \<and> \<not> stop_sending_signalled s then do {
       cnx \<leftarrow> (if \<not> is_discarded s then do {
                 (r, cnx) \<leftarrow> call_application cnx (n, callback_stop_sending, []);
                 Some (if r \<noteq> 0 then snd (picoquic_connection_error cnx PICOQUIC_TRANSPORT_INTERNAL_ERROR 0x05) else cnx)
               } else Some cnx);
       Some (upd_stream n (\<lambda>s. s\<lparr>stop_sending_signalled := True\<rparr>) cnx)
     } else Some cnx
   }"

definition picoquic_decode_stop_sending_frame :: "stream_cnx \<Rightarrow> u8 list \<Rightarrow> (u8 list option \<times> stream_cnx) option" where
  "picoquic_decode_stop_sending_frame cnx bytes =
     (case do { (n, bytes) \<leftarrow> picoquic_frames_varint_decode (tl bytes);
                (error_code, bytes) \<leftarrow> picoquic_frames_varint_decode bytes;
                Some (n, error_code, bytes) } of
        None \<Rightarrow> Some (None, snd (picoquic_connection_error cnx PICOQUIC_TRANSPORT_FRAME_FORMAT_ERROR 0x05))
      | Some (n, error_code, rest) \<Rightarrow> do {
          (stream, cnx) \<leftarrow> picoquic_find_or_create_stream cnx n True;
          case stream of
            None \<Rightarrow> Some (Some rest, cnx)
          | Some _ \<Rightarrow>
              if \<not> IS_BIDIR_STREAM_ID n \<and> \<not> IS_LOCAL_STREAM_ID n (client_mode cnx) then
                Some (None, snd (picoquic_connection_error cnx PICOQUIC_TRANSPORT_PROTOCOL_VIOLATION 0x05))
              else do {
                s \<leftarrow> picoquic_find_stream cnx n;
                if \<not> stop_sending_received s \<and> \<not> reset_requested s \<and> \<not> fin_sent s then do {
                  cnx \<leftarrow> signal_stop_sending
                            (upd_stream n (\<lambda>s. s\<lparr>stop_sending_received := True, remote_stop_error := error_code\<rparr>) cnx) n;
                  Some (Some rest, cnx)
                } else Some (Some rest, cnx)
              }
        })"

section \<open>The limits that the peer raises\<close>

definition picoquic_decode_max_data_frame :: "stream_cnx \<Rightarrow> u8 list \<Rightarrow> u8 list option \<times> stream_cnx" where
  "picoquic_decode_max_data_frame cnx bytes =
     (case picoquic_frames_varint_decode (tl bytes) of
        None \<Rightarrow> (None, snd (picoquic_connection_error cnx PICOQUIC_TRANSPORT_FRAME_FORMAT_ERROR 0x10))
      | Some (maxdata, rest) \<Rightarrow>
          (Some rest,
           if maxdata > cnx_maxdata_remote cnx
           then cnx\<lparr>cnx_maxdata_remote := maxdata, sent_blocked_frame := False\<rparr> else cnx))"

definition picoquic_decode_max_stream_data_frame :: "stream_cnx \<Rightarrow> u8 list \<Rightarrow> (u8 list option \<times> stream_cnx) option" where
  "picoquic_decode_max_stream_data_frame cnx bytes =
     (case do { (n, bytes) \<leftarrow> picoquic_frames_varint_decode (tl bytes);
                (maxdata, bytes) \<leftarrow> picoquic_frames_varint_decode bytes;
                Some (n, maxdata, bytes) } of
        None \<Rightarrow> Some (None, snd (picoquic_connection_error cnx PICOQUIC_TRANSPORT_FRAME_FORMAT_ERROR 0x11))
      | Some (n, maxdata, rest) \<Rightarrow> do {
          (stream, cnx) \<leftarrow> (if picoquic_find_stream cnx n = None then picoquic_create_missing_streams cnx n True
                           else Some (Some n, cnx));
          cnx \<leftarrow> (case stream of
                    None \<Rightarrow> Some cnx
                  | Some m \<Rightarrow> do {
                      s \<leftarrow> picoquic_find_stream cnx m;
                      Some (if maxdata > maxdata_remote s then
                              let cnx = upd_stream m (\<lambda>s. s\<lparr>maxdata_remote := maxdata\<rparr>) cnx
                              in if maxdata > max_max_stream_data_remote cnx
                                 then cnx\<lparr>max_max_stream_data_remote := maxdata\<rparr> else cnx
                            else cnx)
                    });
          Some (Some rest, cnx)
        })"

definition picoquic_decode_max_streams_frame ::
    "stream_cnx \<Rightarrow> u8 list \<Rightarrow> u64 \<Rightarrow> (u8 list option \<times> stream_cnx) option" where
  "picoquic_decode_max_streams_frame cnx bytes max_streams_frame_type =
     (case picoquic_frames_varint_decode (tl bytes) of
        None \<Rightarrow> Some (None, snd (picoquic_connection_error cnx PICOQUIC_TRANSPORT_FRAME_FORMAT_ERROR max_streams_frame_type))
      | Some (max_stream_rank, rest) \<Rightarrow> do {
          let max_stream_id = STREAM_ID_FROM_RANK max_stream_rank (client_mode cnx) (max_streams_frame_type \<noteq> 0x12);
          cnx \<leftarrow>
            (if max_streams_frame_type = 0x12 then
               if max_stream_id > max_stream_id_bidir_remote cnx then do {
                 cnx \<leftarrow> picoquic_add_output_streams cnx (max_stream_id_bidir_remote cnx) max_stream_id True;
                 Some (cnx\<lparr>max_stream_id_bidir_remote := max_stream_id, stream_blocked_bidir_sent := False\<rparr>)
               } else Some cnx
             else
               if max_stream_id > max_stream_id_unidir_remote cnx then do {
                 cnx \<leftarrow> picoquic_add_output_streams cnx (max_stream_id_unidir_remote cnx) max_stream_id False;
                 Some (cnx\<lparr>max_stream_id_unidir_remote := max_stream_id, stream_blocked_unidir_sent := False\<rparr>)
               } else Some cnx);
          Some (if max_stream_id \<ge> 2 ^ 62
                then (None, snd (picoquic_connection_error cnx PICOQUIC_TRANSPORT_STREAM_LIMIT_ERROR max_streams_frame_type))
                else (Some rest, cnx))
        })"

end
