(* ===== verification/StreamFacts.thy ===== *)
theory StreamFacts
  imports StreamData
begin

text \<open>
  The invariant of the data of a stream, and what the operations do to it. The reference is the stream
  itself, a function \<open>D\<close> from offsets to bytes: every chunk holds the bytes of \<open>D\<close> at its offsets.
\<close>

section \<open>The invariant\<close>

abbreviation begins :: "data_pool \<Rightarrow> nat \<Rightarrow> nat" where "begins q a \<equiv> unat (dn_offset (data_nodes q a))"
abbreviation ends :: "data_pool \<Rightarrow> nat \<Rightarrow> nat" where "ends q a \<equiv> begins q a + dn_length (data_nodes q a)"

definition chunk_ok :: "(nat \<Rightarrow> u8) \<Rightarrow> data_pool \<Rightarrow> nat \<Rightarrow> bool" where
  "chunk_ok D q a \<longleftrightarrow> dn_bytes (data_nodes q a) = Some (map D [begins q a..<ends q a]) \<and>
     begins q a < ends q a \<and> ends q a < 2 ^ 62"

definition chunks :: "(nat \<Rightarrow> u8) \<Rightarrow> data_pool \<Rightarrow> nat list \<Rightarrow> bool" where
  "chunks D q xs \<longleftrightarrow> (\<forall>a\<in>set xs. chunk_ok D q a) \<and> sorted_wrt (\<lambda>a b. ends q a \<le> begins q b) xs"

definition covered :: "data_pool \<Rightarrow> nat list \<Rightarrow> nat set" where
  "covered q xs = (\<Union>a\<in>set xs. {begins q a..<ends q a})"

lemma chunks_covered_simps [simp]:
  "covered q [] = {}" "covered q (a # xs) = {begins q a..<ends q a} \<union> covered q xs"
  "covered q (xs @ ys) = covered q xs \<union> covered q ys"
  by (auto simp: covered_def)

text \<open>Addresses that an allocation may return.\<close>

definition available :: "data_pool \<Rightarrow> nat list" where
  "available q = free_data_nodes q @ map the (filter (\<lambda>m. m \<noteq> None) (mallocs q))"

text \<open>How many allocations are sure to succeed.\<close>

definition stock :: "data_pool \<Rightarrow> nat" where
  "stock q = length (free_data_nodes q) + length (takeWhile (\<lambda>m. m \<noteq> None) (mallocs q))"

lemma stock_upd_node [simp]: "stock (upd_node a f q) = stock q"
  by (simp add: stock_def upd_node_def)

text \<open>The node of the packet, while it is unused.\<close>

definition spare :: "data_pool \<Rightarrow> ptr \<Rightarrow> nat list" where
  "spare q received = (case received of Some r \<Rightarrow> if dn_bytes (data_nodes q r) = None then [r] else [] | None \<Rightarrow> [])"

definition pool_ok :: "data_pool \<Rightarrow> nat list \<Rightarrow> ptr \<Rightarrow> bool" where
  "pool_ok q xs received \<longleftrightarrow> distinct (available q @ spare q received @ xs)"

definition store :: "(nat \<Rightarrow> u8) \<Rightarrow> data_pool \<Rightarrow> splay_tree \<Rightarrow> nat list \<Rightarrow> ptr \<Rightarrow> bool" where
  "store D q t xs received \<longleftrightarrow> represents t xs \<and> chunks D q xs \<and> pool_ok q xs received"

lemma chunks_append:
  "chunks D q (xs @ ys) \<longleftrightarrow> chunks D q xs \<and> chunks D q ys \<and> (\<forall>a\<in>set xs. \<forall>b\<in>set ys. ends q a \<le> begins q b)"
  by (auto simp: chunks_def sorted_wrt_append)

lemma chunks_Cons:
  "chunks D q (a # xs) \<longleftrightarrow> chunk_ok D q a \<and> chunks D q xs \<and> (\<forall>b\<in>set xs. ends q a \<le> begins q b)"
  by (auto simp: chunks_def)

lemma chunks_Nil [simp]: "chunks D q []"
  by (simp add: chunks_def)

lemma chunks_begins: "chunks D q xs \<Longrightarrow> sorted_wrt (\<lambda>a b. begins q a < begins q b) xs"
  by (induction xs) (fastforce simp: chunks_Cons chunk_ok_def)+

lemma chunks_same:
  assumes "\<forall>a\<in>set xs. data_nodes q' a = data_nodes q a"
  shows "chunks D q' xs = chunks D q xs" "covered q' xs = covered q xs"
proof -
  have "sorted_wrt (\<lambda>a b. ends q' a \<le> begins q' b) xs = sorted_wrt (\<lambda>a b. ends q a \<le> begins q b) xs"
    using assms by (intro sorted_wrt_cong_on) simp
  with assms show "chunks D q' xs = chunks D q xs" by (simp add: chunks_def chunk_ok_def)
  show "covered q' xs = covered q xs" using assms by (simp add: covered_def)
qed

section \<open>Adding a chunk\<close>

text \<open>The address that the next chunk gets, and the pool without it.\<close>

lemma alloc_cases:
  assumes "picoquic_stream_data_node_alloc q = (p, q')"
  obtains "p = None" "data_nodes q' = data_nodes q" "available q' = available q" "stock q = 0"
  | a where "p = Some a" "available q = a # available q'" "\<forall>x. x \<noteq> a \<longrightarrow> data_nodes q' x = data_nodes q x" "stock q = stock q' + 1"
  using assms
  by (auto simp: picoquic_stream_data_node_alloc_def available_def upd_node_def stock_def split: list.splits option.splits)

lemma compare_offsets:
  assumes "begins q a < 2 ^ 62" "unat (dn_offset v) < 2 ^ 62"
  shows "picoquic_stream_data_node_compare v (data_nodes q a) = int (unat (dn_offset v)) - int (begins q a)"
  using assms unfolding picoquic_stream_data_node_compare_def by (intro sint_diff_small)

text \<open>The chunk of the bytes from \<open>o\<close> to \<open>e\<close> is written into the unused node \<open>a\<close> and inserted.\<close>

lemma insert_chunk:
  assumes "represents t (us @ vs)" "chunks D q (us @ vs)" "a \<notin> set (us @ vs)"
    "unat ofs < e" "e < 2 ^ 62" "bytes = map D [unat ofs..<e]"
    "\<forall>u\<in>set us. ends q u \<le> unat ofs" "\<forall>v\<in>set vs. e \<le> begins q v"
  defines "q' \<equiv> upd_node a (\<lambda>n. n\<lparr>dn_bytes := Some bytes, dn_offset := ofs\<rparr>) q"
  shows "\<exists>t'. picosplay_insert picoquic_stream_data_node_compare (data_nodes q') t a = Some t' \<and>
    represents t' (us @ a # vs) \<and> chunks D q' (us @ a # vs) \<and>
    covered q' (us @ a # vs) = covered q (us @ vs) \<union> {unat ofs..<e}"
proof -
  have same: "\<forall>x\<in>set (us @ vs). data_nodes q' x = data_nodes q x" using assms(3) by (auto simp: q'_def upd_node_def)
  have a: "begins q' a = unat ofs" "ends q' a = e" "chunk_ok D q' a" using assms(4-6)
    by (simp_all add: q'_def upd_node_def dn_length_def chunk_ok_def)
  have c: "chunks D q' (us @ vs)" using chunks_same(1) [OF same] assms(2) by simp
  have cu: "chunks D q' (us @ a # vs)" using c a same assms(7,8) by (auto simp: chunks_append chunks_Cons)
  have small: "begins q' x < 2 ^ 62" if "x \<in> set (us @ vs)" for x
  proof -
    have "ends q' x < 2 ^ 62" using c that by (auto simp: chunks_def chunk_ok_def)
    then show ?thesis by linarith
  qed
  have cmp: "\<forall>c\<in>set (us @ vs). picoquic_stream_data_node_compare (data_nodes q' a) (data_nodes q' c) =
      int (unat ofs) - int (begins q' c)"
    using compare_offsets [OF small, of _ "data_nodes q' a"] a assms(4,5) by simp
  have "\<forall>c\<in>set us. begins q' c \<le> unat ofs" "\<forall>c\<in>set vs. unat ofs < begins q' c"
    using same assms(4,7,8) by fastforce+
  from splay_store.insert_keyed [where key = "begins q'" and val = "data_nodes q'" and cmp = picoquic_stream_data_node_compare,
      OF assms(1,3) chunks_begins [OF c] cmp this]
  obtain t' where "picosplay_insert picoquic_stream_data_node_compare (data_nodes q') t a = Some t'" "represents t' (us @ a # vs)"
    by blast
  moreover have "covered q' us = covered q us" "covered q' vs = covered q vs" using same by (auto intro!: chunks_same(2))
  ultimately show ?thesis using cu a by auto
qed

text \<open>What adding a chunk between \<open>us\<close> and \<open>vs\<close> does: the chunk is there, or there was no memory.\<close>

definition added_at ::
    "(nat \<Rightarrow> u8) \<Rightarrow> ptr \<Rightarrow> data_pool \<Rightarrow> nat list \<Rightarrow> nat list \<Rightarrow> nat \<Rightarrow> nat \<Rightarrow> bool \<Rightarrow> queue_result \<Rightarrow> bool" where
  "added_at D received q us vs o1 e added r = (case r of (ret, q', t', added') \<Rightarrow>
     (\<forall>x\<in>set (us @ vs). data_nodes q' x = data_nodes q x) \<and>
     (ret = 0 \<and> added' \<and> (\<exists>a. store D q' t' (us @ a # vs) received \<and> ends q' a = e \<and>
        covered q' (us @ a # vs) = covered q (us @ vs) \<union> {o1..<e}) \<and> stock q \<le> stock q' + 1 \<or>
      ret = PICOQUIC_ERROR_MEMORY \<and> stock q = 0 \<and> added' = added \<and> store D q' t' (us @ vs) received))"

lemma add_chunk_node_ok:
  assumes "store D q t (us @ vs) received" "unat ofs < e" "e < 2 ^ 62" "bytes = map D [unat ofs..<e]" "e - unat ofs \<le> 1536"
    "\<forall>u\<in>set us. ends q u \<le> unat ofs" "\<forall>v\<in>set vs. e \<le> begins q v"
  shows "\<exists>r. add_chunk_node q t ofs bytes added received = Some r \<and> added_at D received q us vs (unat ofs) e added r"
proof -
  have st: "represents t (us @ vs)" "chunks D q (us @ vs)" "pool_ok q (us @ vs) received"
    using assms(1) by (simp_all add: store_def)
  have spare_same: "spare q' received = spare q received" if "\<forall>r. received = Some r \<longrightarrow> data_nodes q' r = data_nodes q r" for q'
    using that by (auto simp: spare_def split: option.splits)
  show ?thesis
  proof (cases "spare q received")
    case (Cons r rs)
    then have r: "received = Some r" "dn_bytes (data_nodes q r) = None" by (auto simp: spare_def split: option.splits if_splits)
    have n: "r \<notin> set (us @ vs)" using st(3) Cons by (simp add: pool_ok_def)
    define q' where "q' = upd_node r (\<lambda>n. n\<lparr>dn_bytes := Some bytes, dn_offset := ofs\<rparr>) q"
    obtain t' where i: "picosplay_insert picoquic_stream_data_node_compare (data_nodes q') t r = Some t'"
      "represents t' (us @ r # vs)" "chunks D q' (us @ r # vs)" "covered q' (us @ r # vs) = covered q (us @ vs) \<union> {unat ofs..<e}"
      using insert_chunk [OF st(1,2) n assms(2-4,6,7)] unfolding q'_def by blast
    have "spare q' received = []" "available q' = available q" by (simp_all add: q'_def r spare_def upd_node_def available_def)
    then have "pool_ok q' (us @ r # vs) received" using st(3) Cons r by (auto simp: pool_ok_def spare_def)
    moreover have "ends q' r = e" "\<forall>x\<in>set (us @ vs). data_nodes q' x = data_nodes q x"
      using n assms(2,4) by (auto simp: q'_def upd_node_def dn_length_def)
    moreover have "stock q' = stock q" by (simp add: q'_def)
    ultimately show ?thesis using i r by (auto simp: add_chunk_node_def q'_def [symmetric] added_at_def store_def)
  next
    case Nil
    then have r: "(case received of Some r \<Rightarrow> if dn_bytes (data_nodes q r) = None then Some r else None | None \<Rightarrow> None) = None"
      by (auto simp: spare_def split: option.splits if_splits)
    obtain p q1 where al: "picoquic_stream_data_node_alloc q = (p, q1)" by fastforce
    then show ?thesis
    proof (cases rule: alloc_cases)
      case 1
      then have "added_at D received q us vs (unat ofs) e added (PICOQUIC_ERROR_MEMORY, q1, t, added)"
        using st spare_same [of q1] chunks_same(1) [of "us @ vs" q1 q] by (simp add: added_at_def store_def pool_ok_def)
      then show ?thesis using al 1(1) r by (simp add: add_chunk_node_def)
    next
      case (2 a)
      have n: "a \<notin> set (us @ vs)" "a \<notin> set (available q1)" using st(3) 2(2) by (auto simp: pool_ok_def)
      define q' where "q' = upd_node a (\<lambda>n. n\<lparr>dn_bytes := Some bytes, dn_offset := ofs\<rparr>) q1"
      have same: "\<forall>x\<in>set (us @ vs). data_nodes q1 x = data_nodes q x" using n 2(3) by auto
      then have eq: "\<forall>u\<in>set us. ends q1 u \<le> unat ofs" "\<forall>v\<in>set vs. e \<le> begins q1 v" using assms(6,7) by auto
      have c1: "chunks D q1 (us @ vs)" "covered q1 (us @ vs) = covered q (us @ vs)" using chunks_same [OF same] st(2) by simp_all
      obtain t' where i: "picosplay_insert picoquic_stream_data_node_compare (data_nodes q') t a = Some t'"
        "represents t' (us @ a # vs)" "chunks D q' (us @ a # vs)" "covered q' (us @ a # vs) = covered q (us @ vs) \<union> {unat ofs..<e}"
        using insert_chunk [OF st(1) c1(1) n(1) assms(2-4) eq] unfolding q'_def c1(2) by blast
      have "spare q' received = []"
        using Nil 2(3) by (auto simp: spare_def q'_def upd_node_def split: option.splits if_splits)
      moreover have "available q' = available q1" by (simp add: q'_def upd_node_def available_def)
      ultimately have "pool_ok q' (us @ a # vs) received" using st(3) 2(2) n by (auto simp: pool_ok_def)
      moreover have "ends q' a = e" "\<forall>x\<in>set (us @ vs). data_nodes q' x = data_nodes q x"
        using n same assms(2,4) by (auto simp: q'_def upd_node_def dn_length_def)
      moreover have "stock q = stock q' + 1" using 2(4) by (simp add: q'_def)
      moreover have "length bytes \<le> 1536" using assms(4,5) by simp
      ultimately show ?thesis using i r al 2(1)
        by (auto simp: add_chunk_node_def q'_def [symmetric] added_at_def store_def)
    qed
  qed
qed

section \<open>Queueing a frame\<close>

text \<open>The bytes of a frame that starts at \<open>b\<close> and carries the data of the stream up to \<open>e\<close>.\<close>

lemma frame_part_eq:
  assumes "unat b \<le> unat ofs" "unat ofs + unat len \<le> e"
  shows "frame_part b (map D [unat b..<e]) ofs len = map D [unat ofs..<unat ofs + unat len]"
proof -
  have "unat (ofs - b) = unat ofs - unat b" using assms(1) by (simp add: unat_sub word_le_nat_alt)
  then show ?thesis using assms by (simp add: frame_part_def drop_map take_map take_upt)
qed

lemma unat_end:
  assumes "chunk_ok D q a"
  shows "unat (dn_offset (data_nodes q a) + of_nat (dn_length (data_nodes q a))) = ends q a"
  using assms by (simp add: chunk_ok_def unat_word_ariths unsigned_of_nat take_bit_nat_eq_self)

text \<open>
  What the loop leaves: everything from \<open>f\<close> up to the new position is there. \<open>S\<close> is the stock
  before and \<open>m\<close> the number of chunks ahead, each of which costs one node at most.
\<close>

definition loop_done ::
    "(nat \<Rightarrow> u8) \<Rightarrow> ptr \<Rightarrow> nat \<Rightarrow> nat \<Rightarrow> nat set \<Rightarrow> nat \<Rightarrow> nat \<Rightarrow> bool \<Rightarrow> queue_result \<Rightarrow> nat \<Rightarrow> bool" where
  "loop_done D received S m C f e added r f' = (case r of (ret, q', t', added') \<Rightarrow>
     \<exists>us vs. store D q' t' (us @ vs) received \<and> f \<le> f' \<and> added' = (added \<or> covered q' (us @ vs) \<noteq> C) \<and>
       C \<subseteq> covered q' (us @ vs) \<and>
       (ret = 0 \<and> (\<forall>u\<in>set us. ends q' u \<le> f') \<and> (f' < e \<longrightarrow> (\<forall>v\<in>set vs. e \<le> begins q' v)) \<and>
          covered q' (us @ vs) = C \<union> ({f..<f'} \<inter> {..<e}) \<and> S \<le> stock q' + m \<or>
        ret = PICOQUIC_ERROR_MEMORY \<and> S < m \<and> covered q' (us @ vs) \<subseteq> C \<union> {f..<e}))"

lemma loop_done_error:
  assumes "store D q t xs received" "covered q xs = C" "f \<le> f'" "added' = added" "S < m"
  shows "loop_done D received S m C f e added (PICOQUIC_ERROR_MEMORY, q, t, added') f'"
  unfolding loop_done_def split by (rule exI [of _ xs], rule exI [of _ "[]"]) (use assms in auto)

text \<open>A later position and a larger cover that were reached through the gap before the next chunk.\<close>

lemma loop_done_step:
  assumes "loop_done D received S' m (C \<union> {f..<g}) g' e added' r f'" "added' = (added \<or> f < g)" "f \<le> g" "g \<le> g'" "g \<le> e"
    "{g..<g'} \<subseteq> C" "f < g \<longrightarrow> f \<notin> C" "g < e" "S \<le> S' + 1"
  shows "loop_done D received S (Suc m) C f e added r f'"
proof -
  obtain ret q' t' a' where r: "r = (ret, q', t', a')" by (cases r) auto
  obtain us vs where d: "store D q' t' (us @ vs) received" "g' \<le> f'" "a' = (added' \<or> covered q' (us @ vs) \<noteq> C \<union> {f..<g})"
    "C \<union> {f..<g} \<subseteq> covered q' (us @ vs)"
    "ret = 0 \<and> (\<forall>u\<in>set us. ends q' u \<le> f') \<and> (f' < e \<longrightarrow> (\<forall>v\<in>set vs. e \<le> begins q' v)) \<and>
          covered q' (us @ vs) = C \<union> {f..<g} \<union> ({g'..<f'} \<inter> {..<e}) \<and> S' \<le> stock q' + m \<or>
        ret = PICOQUIC_ERROR_MEMORY \<and> S' < m \<and> covered q' (us @ vs) \<subseteq> C \<union> {f..<g} \<union> {g'..<e}"
    using assms(1) unfolding loop_done_def r split by blast
  have "a' = (added \<or> covered q' (us @ vs) \<noteq> C)"
  proof (cases "f < g")
    case True
    then have "f \<in> covered q' (us @ vs)" using d(4) by auto
    then show ?thesis using True d(3) assms(2,7) by blast
  qed (use d(3) assms(2,3) in auto)
  moreover have e: "C \<union> {f..<g} \<union> ({g'..<f'} \<inter> {..<e}) = C \<union> ({f..<f'} \<inter> {..<e})"
    using d(2) assms(3-6,8) by (auto simp: subset_iff not_less)
  have "C \<union> {f..<g} \<union> {g'..<e} \<subseteq> C \<union> {f..<e}" using assms(3-5) by auto
  with d(5) have "ret = 0 \<and> (\<forall>u\<in>set us. ends q' u \<le> f') \<and> (f' < e \<longrightarrow> (\<forall>v\<in>set vs. e \<le> begins q' v)) \<and>
          covered q' (us @ vs) = C \<union> ({f..<f'} \<inter> {..<e}) \<and> S \<le> stock q' + Suc m \<or>
        ret = PICOQUIC_ERROR_MEMORY \<and> S < Suc m \<and> covered q' (us @ vs) \<subseteq> C \<union> {f..<e}"
    using assms(9) unfolding e by (elim disjE conjE) (simp_all, blast)
  moreover have "C \<subseteq> covered q' (us @ vs)" using d(4) by blast
  moreover have "f \<le> f'" using d(2) assms(3,4) by linarith
  ultimately show ?thesis using d(1) unfolding loop_done_def r split by blast
qed

lemma queue_input_loop_ok:
  assumes "store D q t (us @ vs) received" "\<forall>u\<in>set us. ends q u \<le> unat f" "\<forall>v\<in>set vs. unat f \<le> begins q v"
    "unat b \<le> unat f" "bytes = map D [unat b..<unat e]" "unat e < 2 ^ 62" "unat e - unat b \<le> 1536"
  shows "\<exists>r f'. queue_input_loop b e bytes received q t f (hd_ptr vs) 0 added = Some (r, f') \<and>
    loop_done D received (stock q) (length vs) (covered q (us @ vs)) (unat f) (unat e) added r (unat f')"
  using assms(1-4)
proof (induction vs arbitrary: us q t f added)
  case Nil
  have "loop_done D received (stock q) 0 (covered q us) (unat f) (unat e) added (0, q, t, added) (unat f)"
    unfolding loop_done_def split by (rule exI [of _ us], rule exI [of _ "[]"]) (use Nil in simp)
  then show ?case by (subst queue_input_loop.simps) simp
next
  case (Cons v vs)
  have st: "represents t (us @ v # vs)" "chunks D q (us @ v # vs)" "pool_ok q (us @ v # vs) received"
    using Cons.prems(1) by (simp_all add: store_def)
  have v: "chunk_ok D q v" "\<forall>w\<in>set vs. ends q v \<le> begins q w" "unat f \<le> begins q v"
    using st(2) Cons.prems(3) by (simp_all add: chunks_append chunks_Cons)
  show ?case
  proof (cases "f < e \<and> dn_offset (data_nodes q v) < e")
    case False
    have "loop_done D received (stock q) (length (v # vs)) (covered q (us @ v # vs)) (unat f) (unat e) added (0, q, t, added) (unat f)"
      unfolding loop_done_def split using Cons.prems v(2) chunk_ok_def [of D q v] False
      by (intro exI [of _ us] exI [of _ "v # vs"]) (fastforce simp: word_less_nat_alt not_less)
    then show ?thesis using False by (subst queue_input_loop.simps) auto
  next
    case True
    define g where "g = begins q v"
    define len where "len = (if dn_offset (data_nodes q v) > f then dn_offset (data_nodes q v) - f else 0)"
    define C where "C = covered q (us @ v # vs)"
    have g: "unat f \<le> g" "g < unat e" using v(3) True by (simp_all add: g_def word_less_nat_alt)
    have len: "unat len = g - unat f" "len > 0 \<longleftrightarrow> unat f < g"
      using v(3) by (auto simp: len_def g_def unat_sub word_less_nat_alt word_le_nat_alt)
    define step where "step = (if len > 0 then add_chunk_node q t f (frame_part b bytes f len) added received else Some (0, q, t, added))"
    have part: "frame_part b bytes f len = map D [unat f..<g]"
      using frame_part_eq [of b f len "unat e" D] Cons.prems(4) g len(1) assms(5) by simp
    have fC: "unat f < g \<longrightarrow> unat f \<notin> C"
    proof
      assume "unat f < g"
      then have "\<forall>w\<in>set vs. unat f < begins q w" using v(1,2) by (auto simp: chunk_ok_def g_def)
      then show "unat f \<notin> C" using Cons.prems(2) \<open>unat f < g\<close> by (fastforce simp: C_def covered_def g_def)
    qed
    have vC: "{g..<ends q v} \<subseteq> C" by (auto simp: C_def g_def)
    obtain ret1 q1 t1 added1 us1 where s1: "step = Some (ret1, q1, t1, added1)" "store D q1 t1 (us1 @ v # vs) received"
      "\<forall>x\<in>set (v # vs). data_nodes q1 x = data_nodes q x"
      "ret1 = 0 \<and> added1 = (added \<or> unat f < g) \<and> covered q1 (us1 @ v # vs) = C \<union> {unat f..<g} \<and> (\<forall>u\<in>set us1. ends q1 u \<le> g) \<and>
         stock q \<le> stock q1 + 1 \<or>
       ret1 = PICOQUIC_ERROR_MEMORY \<and> stock q = 0 \<and> added1 = added \<and> covered q1 (us1 @ v # vs) = C"
    proof (cases "unat f < g")
      case False
      then show ?thesis using that [of 0 q t added us] Cons.prems(1,2) g len by (auto simp: step_def C_def)
    next
      case True
      have len1536: "g - unat f \<le> 1536" using assms(7) Cons.prems(4) g(2) by linarith
      have ge: "\<forall>w\<in>set (v # vs). g \<le> begins q w" using v(1,2) by (auto simp: g_def chunk_ok_def)
      from add_chunk_node_ok [OF Cons.prems(1) True _ part len1536 Cons.prems(2) ge, of added] g(2) assms(6)
      obtain ret1 q1 t1 a1 where a: "step = Some (ret1, q1, t1, a1)"
        "added_at D received q us (v # vs) (unat f) g added (ret1, q1, t1, a1)"
        using len(2) True by (auto simp: step_def)
      have same: "\<forall>x\<in>set (us @ v # vs). data_nodes q1 x = data_nodes q x" using a(2) by (simp add: added_at_def)
      have cv: "covered q1 (us @ v # vs) = C" using chunks_same(2) [OF same] by (simp add: C_def)
      from a(2) consider (ok) x where "ret1 = 0" "a1" "store D q1 t1 (us @ x # v # vs) received" "ends q1 x = g"
          "covered q1 (us @ x # v # vs) = C \<union> {unat f..<g}" "stock q \<le> stock q1 + 1"
        | (err) "ret1 = PICOQUIC_ERROR_MEMORY" "a1 = added" "store D q1 t1 (us @ v # vs) received" "stock q = 0"
        by (auto simp: added_at_def C_def)
      then show ?thesis
      proof cases
        case ok
        have "\<forall>u\<in>set (us @ [x]). ends q1 u \<le> g" using ok(4) same Cons.prems(2) g(1) by fastforce
        then show ?thesis using that [of ret1 q1 t1 a1 "us @ [x]"] a(1) ok same True by simp
      next
        case err
        then show ?thesis using that [of ret1 q1 t1 a1 us] a(1) same cv by simp
      qed
    qed
    define e1 where "e1 = dn_offset (data_nodes q1 v) + of_nat (dn_length (data_nodes q1 v))"
    have e1: "unat e1 = ends q v" "g \<le> ends q v" using unat_end [of D q1 v] s1(3) v(1) by (simp_all add: e1_def chunk_ok_def g_def)
    have nx: "picosplay_next t1 v = Some (hd_ptr vs)"
      using splay_store.next_law [of t1 us1 v vs] s1(2) by (simp add: store_def)
    have run: "queue_input_loop b e bytes received q t f (Some v) 0 added =
        queue_input_loop b e bytes received q1 t1 e1 (hd_ptr vs) ret1 added1"
      using True s1(1) nx unfolding step_def len_def
      by (subst queue_input_loop.simps) (simp add: e1_def Let_def split: if_splits)
    from s1(4) show ?thesis
    proof (elim disjE conjE)
      assume ok: "ret1 = 0" "added1 = (added \<or> unat f < g)" "covered q1 (us1 @ v # vs) = C \<union> {unat f..<g}"
        "\<forall>u\<in>set us1. ends q1 u \<le> g" "stock q \<le> stock q1 + 1"
      have p: "\<forall>u\<in>set (us1 @ [v]). ends q1 u \<le> unat e1" "\<forall>w\<in>set vs. unat e1 \<le> begins q1 w" "unat b \<le> unat e1"
        using ok(4) e1 s1(3) v(2) Cons.prems(4) g(1) by fastforce+
      obtain r f' where r: "queue_input_loop b e bytes received q1 t1 e1 (hd_ptr vs) 0 added1 = Some (r, f')"
        "loop_done D received (stock q1) (length vs) (covered q1 (us1 @ v # vs)) (unat e1) (unat e) added1 r (unat f')"
        using Cons.IH [of q1 t1 "us1 @ [v]" e1 added1] s1(2) p by auto
      have "loop_done D received (stock q) (Suc (length vs)) C (unat f) (unat e) added r (unat f')"
        by (rule loop_done_step [OF r(2) [unfolded ok(3)] ok(2) g(1)]) (use e1 g vC fC ok(5) in auto)
      then show ?thesis using run r(1) ok(1) by (simp add: C_def)
    next
      assume err: "ret1 = PICOQUIC_ERROR_MEMORY" "added1 = added" "covered q1 (us1 @ v # vs) = C" "stock q = 0"
      have "unat f \<le> unat e1" using e1 g(1) by simp
      from loop_done_error [OF s1(2) err(3) this err(2), of "stock q" "length (v # vs)"] err(4)
      have "loop_done D received (stock q) (length (v # vs)) C (unat f) (unat e) added (ret1, q1, t1, added1) (unat e1)" unfolding err(1) by simp
      moreover have "queue_input_loop b e bytes received q1 t1 e1 (hd_ptr vs) ret1 added1 = Some ((ret1, q1, t1, added1), e1)"
        by (subst queue_input_loop.simps) (simp add: err(1) split: option.split)
      ultimately show ?thesis using run by (simp add: C_def)
    qed
  qed
qed

text \<open>Where the search puts the frame: the chunks before it and after it, and the first byte that may be missing.\<close>

lemma queue_start:
  assumes "represents t xs" "chunks D q xs" "unat f0 < 2 ^ 62"
  shows "\<exists>us vs f. xs = us @ vs \<and>
    (do { prev \<leftarrow> picosplay_find_previous picoquic_stream_data_node_compare (data_nodes q) t (data_node_zero\<lparr>dn_offset := f0\<rparr>);
          case prev of
            None \<Rightarrow> do { nx \<leftarrow> picosplay_first t; Some (f0, nx) }
          | Some p \<Rightarrow> do {
              let prev_end = dn_offset (data_nodes q p) + of_nat (dn_length (data_nodes q p));
              nx \<leftarrow> picosplay_next t p;
              Some (if f0 > prev_end then f0 else prev_end, nx) } }) = Some (f, hd_ptr vs) \<and>
    (\<forall>u\<in>set us. ends q u \<le> unat f) \<and> (\<forall>v\<in>set vs. unat f \<le> begins q v) \<and> unat f0 \<le> unat f \<and> {unat f0..<unat f} \<subseteq> covered q xs"
proof -
  define us where "us = takeWhile (\<lambda>a. begins q a \<le> unat f0) xs"
  define vs where "vs = dropWhile (\<lambda>a. begins q a \<le> unat f0) xs"
  have xs: "xs = us @ vs" by (simp add: us_def vs_def)
  have small: "begins q a < 2 ^ 62" if "a \<in> set xs" for a
  proof -
    have "ends q a < 2 ^ 62" using assms(2) that by (auto simp: chunks_def chunk_ok_def)
    then show ?thesis by linarith
  qed
  have cmp: "\<forall>c\<in>set xs. picoquic_stream_data_node_compare (data_node_zero\<lparr>dn_offset := f0\<rparr>) (data_nodes q c) =
      int (unat f0) - int (begins q c)"
    using compare_offsets [OF small, of _ "data_node_zero\<lparr>dn_offset := f0\<rparr>"] assms(3) by simp
  have prev: "picosplay_find_previous picoquic_stream_data_node_compare (data_nodes q) t (data_node_zero\<lparr>dn_offset := f0\<rparr>) =
      Some (last_ptr us)" unfolding us_def
    by (rule splay_store.find_previous_keyed [where key = "begins q" and val = "data_nodes q" and
        cmp = picoquic_stream_data_node_compare and v = "data_node_zero\<lparr>dn_offset := f0\<rparr>", OF assms(1) chunks_begins [OF assms(2)] cmp])
  have st: "sorted_wrt (\<lambda>a b. begins q a < begins q b) xs" by (rule chunks_begins [OF assms(2)])
  have vs: "\<forall>v\<in>set vs. unat f0 < begins q v"
  proof (cases vs)
    case (Cons w ws)
    have "w = hd (dropWhile (\<lambda>a. begins q a \<le> unat f0) xs)" "dropWhile (\<lambda>a. begins q a \<le> unat f0) xs \<noteq> []"
      using Cons by (simp_all add: vs_def)
    then have "\<not> begins q w \<le> unat f0" using hd_dropWhile by metis
    then show ?thesis using st unfolding xs Cons by (fastforce simp: sorted_wrt_append)
  qed simp
  show ?thesis
  proof (cases us rule: rev_cases)
    case Nil
    then have "picosplay_first t = Some (hd_ptr vs)" using splay_store.first_law [of t xs] assms(1) xs by simp
    then show ?thesis using prev vs xs Nil by (intro exI [of _ us] exI [of _ vs] exI [of _ f0]) (auto simp: less_imp_le)
  next
    case (snoc ys p)
    have "p \<in> set us" by (simp add: snoc)
    from set_takeWhileD [OF this [unfolded us_def]] have bp: "begins q p \<le> unat f0" by blast
    have p: "chunk_ok D q p" "\<forall>u\<in>set ys. ends q u \<le> begins q p" "\<forall>v\<in>set vs. ends q p \<le> begins q v"
      using assms(2) unfolding xs snoc by (auto simp: chunks_append chunks_Cons)
    define pe where "pe = dn_offset (data_nodes q p) + of_nat (dn_length (data_nodes q p))"
    have pe: "unat pe = ends q p" unfolding pe_def by (rule unat_end [OF p(1)])
    define f where "f = (if f0 > pe then f0 else pe)"
    have f: "unat f = max (unat f0) (ends q p)" by (auto simp: f_def pe word_less_nat_alt max_def)
    have nx: "picosplay_next t p = Some (hd_ptr vs)" using splay_store.next_law [of t ys p vs] assms(1) xs snoc by simp
    have "{unat f0..<unat f} \<subseteq> {begins q p..<ends q p}" using f bp by auto
    then have "{unat f0..<unat f} \<subseteq> covered q xs" by (auto simp: xs snoc)
    moreover have "\<forall>u\<in>set us. ends q u \<le> unat f" using p(2) f snoc by (fastforce simp: chunk_ok_def)
    moreover have "\<forall>v\<in>set vs. unat f \<le> begins q v" using p(3) vs f by auto
    ultimately show ?thesis using prev nx f snoc xs
      by (intro exI [of _ us] exI [of _ vs] exI [of _ f]) (simp add: f_def pe_def Let_def)
  qed
qed

lemma queue_network_input_ok:
  assumes "store D q t xs received" "bytes = map D [unat ofs..<unat ofs + n]" "unat ofs + n < 2 ^ 62" "n \<le> 1536"
    "unat consumed < 2 ^ 62"
  shows "\<exists>ret q' t' added' xs'. picoquic_queue_network_input q t consumed ofs bytes received added = Some (ret, q', t', added') \<and>
    store D q' t' xs' received \<and> added' = (added \<or> covered q' xs' \<noteq> covered q xs) \<and> covered q xs \<subseteq> covered q' xs' \<and>
    (ret = 0 \<and> covered q' xs' = covered q xs \<union> {max (unat ofs) (unat consumed)..<unat ofs + n} \<or>
     ret = PICOQUIC_ERROR_MEMORY \<and> stock q \<le> length xs \<and> covered q' xs' \<subseteq> covered q xs \<union> {max (unat ofs) (unat consumed)..<unat ofs + n})"
proof -
  define e where "e = ofs + of_nat (length bytes)"
  have e: "unat e = unat ofs + n" using assms(2,3) by (simp add: e_def unat_word_ariths unsigned_of_nat take_bit_nat_eq_self)
  define f0 where "f0 = (if ofs < consumed then consumed else ofs)"
  have f0: "unat f0 = max (unat ofs) (unat consumed)" by (auto simp: f0_def word_less_nat_alt max_def)
  show ?thesis
  proof (cases "f0 < e")
    case False
    then have "{unat f0..<unat ofs + n} = {}" using e by (simp add: word_less_nat_alt)
    then show ?thesis using False assms(1) unfolding f0 [symmetric]
      by (intro exI [of _ 0] exI [of _ q] exI [of _ t] exI [of _ added] exI [of _ xs])
        (simp add: picoquic_queue_network_input_def f0_def [symmetric] e_def [symmetric] Let_def)
  next
    case True
    have fe: "unat f0 < unat e" using True by (simp add: word_less_nat_alt)
    have st: "represents t xs" "chunks D q xs" using assms(1) by (simp_all add: store_def)
    have f062: "unat f0 < 2 ^ 62" using fe e assms(3) by simp
    define C where "C = covered q xs"
    obtain us vs f where p: "xs = us @ vs"
      "(do { prev \<leftarrow> picosplay_find_previous picoquic_stream_data_node_compare (data_nodes q) t (data_node_zero\<lparr>dn_offset := f0\<rparr>);
          case prev of
            None \<Rightarrow> do { nx \<leftarrow> picosplay_first t; Some (f0, nx) }
          | Some p \<Rightarrow> do {
              let prev_end = dn_offset (data_nodes q p) + of_nat (dn_length (data_nodes q p));
              nx \<leftarrow> picosplay_next t p;
              Some (if f0 > prev_end then f0 else prev_end, nx) } }) = Some (f, hd_ptr vs)"
      "\<forall>u\<in>set us. ends q u \<le> unat f" "\<forall>v\<in>set vs. unat f \<le> begins q v" "unat f0 \<le> unat f" "{unat f0..<unat f} \<subseteq> C"
      using queue_start [OF st f062] unfolding C_def by blast
    have bf: "unat ofs \<le> unat f" using p(5) f0 by simp
    have b: "bytes = map D [unat ofs..<unat e]" using assms(2) e by simp
    have "unat e < 2 ^ 62" "unat e - unat ofs \<le> 1536" using e assms(3,4) by simp_all
    from queue_input_loop_ok [OF assms(1) [unfolded p(1)] p(3,4) bf b this, of added]
    obtain ret q1 t1 a1 f' where l: "queue_input_loop ofs e bytes received q t f (hd_ptr vs) 0 added = Some ((ret, q1, t1, a1), f')"
      "loop_done D received (stock q) (length vs) C (unat f) (unat e) added (ret, q1, t1, a1) (unat f')" unfolding C_def p(1) by auto
    have lv: "length vs \<le> length xs" using p(1) by simp
    have run: "picoquic_queue_network_input q t consumed ofs bytes received added =
        (if ret = 0 \<and> f' < e then add_chunk_node q1 t1 f' (frame_part ofs bytes f' (e - f')) a1 received else Some (ret, q1, t1, a1))"
      using True p(2) l(1)
      by (auto simp: picoquic_queue_network_input_def f0_def [symmetric] e_def [symmetric] Let_def split: Option.bind_splits)
    obtain us' vs' where d: "store D q1 t1 (us' @ vs') received" "unat f \<le> unat f'" "a1 = (added \<or> covered q1 (us' @ vs') \<noteq> C)"
      "C \<subseteq> covered q1 (us' @ vs')"
      "ret = 0 \<and> (\<forall>u\<in>set us'. ends q1 u \<le> unat f') \<and> (unat f' < unat e \<longrightarrow> (\<forall>v\<in>set vs'. unat e \<le> begins q1 v)) \<and>
          covered q1 (us' @ vs') = C \<union> ({unat f..<unat f'} \<inter> {..<unat e}) \<and> stock q \<le> stock q1 + length vs \<or>
        ret = PICOQUIC_ERROR_MEMORY \<and> stock q < length vs \<and> covered q1 (us' @ vs') \<subseteq> C \<union> {unat f..<unat e}"
      using l(2) unfolding loop_done_def split by blast
    show ?thesis
    proof (cases "ret = 0 \<and> f' < e")
      case False
      have "ret = 0 \<Longrightarrow> C \<union> ({unat f..<unat f'} \<inter> {..<unat e}) = C \<union> {unat f0..<unat e}"
        using False p(5,6) d(2) by (auto simp: word_less_nat_alt not_less)
      moreover have "C \<union> {unat f..<unat e} \<subseteq> C \<union> {unat f0..<unat e}" using p(5) by auto
      ultimately have "ret = 0 \<and> covered q1 (us' @ vs') = C \<union> {unat f0..<unat e} \<or>
          ret = PICOQUIC_ERROR_MEMORY \<and> stock q \<le> length xs \<and> covered q1 (us' @ vs') \<subseteq> C \<union> {unat f0..<unat e}"
        using d(5) lv by (elim disjE) (simp, auto)
      moreover have "picoquic_queue_network_input q t consumed ofs bytes received added = Some (ret, q1, t1, a1)"
        using run False by (simp only: if_False)
      ultimately show ?thesis using d(1,3,4) unfolding f0 [symmetric] C_def [symmetric] e [symmetric] by blast
    next
      case last: True
      then have f'e: "unat f' < unat e" by (simp add: word_less_nat_alt)
      have cov: "covered q1 (us' @ vs') = C \<union> {unat f..<unat f'}" using d(5) last f'e by auto
      have len: "unat (e - f') = unat e - unat f'" using f'e by (simp add: unat_sub word_le_nat_alt)
      have part: "frame_part ofs bytes f' (e - f') = map D [unat f'..<unat e]"
        using frame_part_eq [of ofs f' "e - f'" "unat e" D] bf d(2) len f'e b by simp
      have "unat e < 2 ^ 62" "unat e - unat f' \<le> 1536" using e assms(3,4) bf d(2) by simp_all
      note bnd = this
      have pos: "\<forall>u\<in>set us'. ends q1 u \<le> unat f'" "\<forall>v\<in>set vs'. unat e \<le> begins q1 v" using d(5) last f'e by auto
      from add_chunk_node_ok [OF d(1) f'e bnd(1) part bnd(2) pos, of a1]
      obtain ret2 q2 t2 a2 where a: "add_chunk_node q1 t1 f' (frame_part ofs bytes f' (e - f')) a1 received = Some (ret2, q2, t2, a2)"
        "added_at D received q1 us' vs' (unat f') (unat e) a1 (ret2, q2, t2, a2)" by auto
      have run2: "picoquic_queue_network_input q t consumed ofs bytes received added = Some (ret2, q2, t2, a2)"
        using run last a(1) by simp
      have same: "\<forall>x\<in>set (us' @ vs'). data_nodes q2 x = data_nodes q1 x" using a(2) by (simp add: added_at_def)
      from a(2) consider (ok) x where "ret2 = 0" "a2" "store D q2 t2 (us' @ x # vs') received"
          "covered q2 (us' @ x # vs') = covered q1 (us' @ vs') \<union> {unat f'..<unat e}"
        | (err) "ret2 = PICOQUIC_ERROR_MEMORY" "a2 = a1" "store D q2 t2 (us' @ vs') received" "covered q2 (us' @ vs') = covered q1 (us' @ vs')" "stock q1 = 0"
        using chunks_same(2) [OF same] by (auto simp: added_at_def)
      then show ?thesis
      proof cases
        case ok
        have "C \<union> {unat f..<unat f'} \<union> {unat f'..<unat e} = C \<union> {unat f0..<unat e}"
          using p(5,6) d(2) f'e by (auto simp: subset_iff not_less)
        then have c2: "covered q2 (us' @ x # vs') = C \<union> {unat f0..<unat e}" using ok(4) cov by simp
        have "\<exists>n. n \<in> {unat f0..<unat e} \<and> n \<notin> C"
        proof -
          have "unat f' \<notin> covered q1 (us' @ vs')" using pos f'e by (fastforce simp: covered_def)
          then show ?thesis using cov p(5) d(2) f'e by (intro exI [of _ "unat f'"]) auto
        qed
        then have "covered q2 (us' @ x # vs') \<noteq> C" using c2 by blast
        then show ?thesis using run2 ok(1-3) c2 unfolding f0 [symmetric] C_def [symmetric] e [symmetric]
          by (intro exI [of _ ret2] exI [of _ q2] exI [of _ t2] exI [of _ a2] exI [of _ "us' @ x # vs'"]) simp
      next
        case err
        have "stock q \<le> length xs" using d(5) err(5) last lv by auto
        moreover have "C \<union> {unat f..<unat f'} \<subseteq> C \<union> {unat f0..<unat e}" using p(5) f'e by auto
        ultimately show ?thesis using run2 err cov d(3) unfolding f0 [symmetric] C_def [symmetric] e [symmetric]
          by (intro exI [of _ ret2] exI [of _ q2] exI [of _ t2] exI [of _ a2] exI [of _ "us' @ vs'"]) simp
      qed
    qed
  qed
qed

end
