(* ===== verification/StreamDelivery.thy ===== *)
theory StreamDelivery
  imports StreamInput StreamFacts
begin

text \<open>
  Delivery in order: how the callbacks and the loop over the queued chunks act on a stream, and what
  the application has received after any sequence of STREAM frames.
\<close>

section \<open>Reading and writing streams\<close>

lemma find_stream_upd:
  assumes "\<And>s. stream_id (f s) = stream_id s"
  shows "picoquic_find_stream (upd_stream m f cnx) n =
    (if m = n then map_option f (picoquic_find_stream cnx n) else picoquic_find_stream cnx n)"
proof -
  have "List.find (\<lambda>s. stream_id s = n) (map (\<lambda>s. if stream_id s = m then f s else s) ss) =
      (if m = n then map_option f (List.find (\<lambda>s. stream_id s = n) ss) else List.find (\<lambda>s. stream_id s = n) ss)" for ss
    by (induction ss) (auto simp: assms)
  then show ?thesis by (simp add: picoquic_find_stream_def upd_stream_def)
qed

lemma find_stream_id: "picoquic_find_stream cnx n = Some s \<Longrightarrow> stream_id s = n"
  by (auto simp: picoquic_find_stream_def find_Some_iff)

lemma find_stream_cong [simp]:
  "picoquic_find_stream (cnx\<lparr>pool := q\<rparr>) n = picoquic_find_stream cnx n"
  "picoquic_find_stream (cnx\<lparr>callbacks := l\<rparr>) n = picoquic_find_stream cnx n"
  "picoquic_find_stream (cnx\<lparr>data_received := v\<rparr>) n = picoquic_find_stream cnx n"
  "picoquic_find_stream (cnx\<lparr>latest_progress_time := v\<rparr>) n = picoquic_find_stream cnx n"
  "picoquic_find_stream (cnx\<lparr>max_stream_data_needed := b\<rparr>) n = picoquic_find_stream cnx n"
  "picoquic_find_stream (cnx\<lparr>ack_after_fin := a\<rparr>) n = picoquic_find_stream cnx n"
  by (simp_all add: picoquic_find_stream_def)

lemma upd_stream_simps [simp]:
  "pool (upd_stream m f cnx) = pool cnx" "callbacks (upd_stream m f cnx) = callbacks cnx"
  "callback_fn (upd_stream m f cnx) = callback_fn cnx" "data_received (upd_stream m f cnx) = data_received cnx"
  "cnx_maxdata_local (upd_stream m f cnx) = cnx_maxdata_local cnx"
  by (simp_all add: upd_stream_def)

lemma connection_error_simps [simp]:
  "fst (picoquic_connection_error cnx e t) = PICOQUIC_ERROR_DETECTED"
  "picoquic_find_stream (snd (picoquic_connection_error cnx e t)) n = picoquic_find_stream cnx n"
  "pool (snd (picoquic_connection_error cnx e t)) = pool cnx"
  "callbacks (snd (picoquic_connection_error cnx e t)) = callbacks cnx"
  "callback_fn (snd (picoquic_connection_error cnx e t)) = callback_fn cnx"
  "data_received (snd (picoquic_connection_error cnx e t)) = data_received cnx"
  "cnx_maxdata_local (snd (picoquic_connection_error cnx e t)) = cnx_maxdata_local cnx"
  by (simp_all add: picoquic_connection_error_def picoquic_connection_error_ex_def picoquic_find_stream_def Let_def)

section \<open>What the application has received\<close>

definition bytes_delivered :: "u64 \<Rightarrow> app_call list \<Rightarrow> u8 list" where
  "bytes_delivered n log = concat (map (\<lambda>(m, _, b). if m = n then b else []) log)"

lemma bytes_delivered_simps [simp]:
  "bytes_delivered n [] = []" "bytes_delivered n (xs @ ys) = bytes_delivered n xs @ bytes_delivered n ys"
  "bytes_delivered n [(n, e, b)] = b"
  by (simp_all add: bytes_delivered_def)

text \<open>A stream whose data goes to the application through the callback.\<close>

definition to_application :: "stream_cnx \<Rightarrow> stream_head \<Rightarrow> bool" where
  "to_application cnx s \<longleftrightarrow> callback_fn cnx \<noteq> None \<and> direct_receive_fn s = None \<and> \<not> stop_sending_requested s \<and> \<not> is_discarded s"

text \<open>What stays the same in the connection while data is delivered to the stream \<open>n\<close>.\<close>

definition same_cnx :: "stream_cnx \<Rightarrow> stream_cnx \<Rightarrow> bool" where
  "same_cnx cnx cnx' \<longleftrightarrow> callback_fn cnx' = callback_fn cnx \<and> data_received cnx' = data_received cnx \<and>
     cnx_maxdata_local cnx' = cnx_maxdata_local cnx"

lemma same_cnx_refl [simp]: "same_cnx cnx cnx" by (simp add: same_cnx_def)
lemma same_cnx_trans: "same_cnx a b \<Longrightarrow> same_cnx b c \<Longrightarrow> same_cnx a c" by (simp add: same_cnx_def)
lemma to_application_same: "same_cnx cnx cnx' \<Longrightarrow> to_application cnx' s = to_application cnx s"
  by (simp add: to_application_def same_cnx_def)

definition chunk_fin :: "stream_head \<Rightarrow> nat \<Rightarrow> bool" where
  "chunk_fin s len \<longleftrightarrow> consumed_offset s + of_nat len \<ge> fin_offset s \<and> fin_received s \<and> \<not> fin_signalled s"

lemma chunk_callback_ok:
  assumes "picoquic_find_stream cnx n = Some s" "to_application cnx s"
  shows "\<exists>cnx'. picoquic_stream_data_chunk_callback cnx n b = Some cnx' \<and> same_cnx cnx cnx' \<and> pool cnx' = pool cnx \<and>
    picoquic_find_stream cnx' n = Some (s\<lparr>consumed_offset := consumed_offset s + of_nat (length b),
      fin_signalled := (fin_signalled s \<or> chunk_fin s (length b))\<rparr>) \<and>
    callbacks cnx' = callbacks cnx @ (if b \<noteq> [] \<or> chunk_fin s (length b)
      then [(n, if chunk_fin s (length b) then callback_stream_fin else callback_stream_data, b)] else [])"
proof -
  define c1 where "c1 = upd_stream n (\<lambda>s. s\<lparr>consumed_offset := consumed_offset s + of_nat (length b)\<rparr>) cnx"
  define s1 where "s1 = s\<lparr>consumed_offset := consumed_offset s + of_nat (length b)\<rparr>"
  define fin where "fin = chunk_fin s (length b)"
  have s1: "picoquic_find_stream c1 n = Some s1" using assms(1) by (simp add: c1_def s1_def find_stream_upd)
  have f: "(consumed_offset s1 \<ge> fin_offset s1 \<and> fin_received s1 \<and> \<not> fin_signalled s1) = fin"
    by (simp add: s1_def fin_def chunk_fin_def)
  define c2 where "c2 = (if fin then upd_stream n (\<lambda>s. s\<lparr>fin_signalled := True\<rparr>) c1 else c1)"
  have c2: "picoquic_find_stream c2 n = Some (s1\<lparr>fin_signalled := (fin_signalled s \<or> fin)\<rparr>)" "pool c2 = pool cnx"
    "callbacks c2 = callbacks cnx" "same_cnx cnx c2" "\<not> fin \<Longrightarrow> c2 = c1"
    using s1 by (auto simp: c2_def find_stream_upd s1_def c1_def same_cnx_def)
  obtain app where app: "callback_fn cnx = Some app" using assms(2) by (auto simp: to_application_def)
  have "callback_fn c2 = Some app" using c2(4) app by (simp add: same_cnx_def)
  moreover have "\<not> stop_sending_requested s1" "\<not> is_discarded s1" using assms(2) by (simp_all add: to_application_def s1_def)
  ultimately have "picoquic_stream_data_chunk_callback cnx n b =
      (if b \<noteq> [] \<or> fin then
         let log = callbacks cnx @ [(n, if fin then callback_stream_fin else callback_stream_data, b)]
         in Some (if app log \<noteq> 0 then snd (picoquic_connection_error (c2\<lparr>callbacks := log\<rparr>) PICOQUIC_TRANSPORT_INTERNAL_ERROR 0)
                  else c2\<lparr>callbacks := log\<rparr>)
       else Some c2)"
    using s1 f c2(3,5) by (simp add: picoquic_stream_data_chunk_callback_def c1_def [symmetric] c2_def [symmetric] Let_def call_application_def)
  then show ?thesis using c2 unfolding fin_def [symmetric]
    by (auto simp: Let_def same_cnx_def s1_def)
qed

section \<open>The loop over the queue\<close>

definition fins_signalled :: "u64 \<Rightarrow> app_call list \<Rightarrow> nat" where
  "fins_signalled n log = length (filter (\<lambda>(m, e, _). m = n \<and> e = callback_stream_fin) log)"

lemma fins_signalled_simps [simp]:
  "fins_signalled n [] = 0" "fins_signalled n (xs @ ys) = fins_signalled n xs + fins_signalled n ys"
  "fins_signalled n [(n, e, b)] = (if e = callback_stream_fin then 1 else 0)"
  by (simp_all add: fins_signalled_def)

text \<open>The fields of a stream that delivery leaves alone.\<close>

definition at_rest :: "stream_head \<Rightarrow> stream_head" where
  "at_rest s = s\<lparr>stream_data_tree := picosplay_init_tree empty_memory, consumed_offset := 0, fin_signalled := False\<rparr>"

lemma at_rest_eqD:
  assumes "at_rest s' = at_rest s"
  shows "stream_id s' = stream_id s" "fin_received s' = fin_received s" "fin_offset s' = fin_offset s"
    "direct_receive_fn s' = direct_receive_fn s" "stop_sending_requested s' = stop_sending_requested s"
    "is_discarded s' = is_discarded s" "maxdata_local s' = maxdata_local s" "reset_received s' = reset_received s"
  using arg_cong [OF assms, of stream_id] arg_cong [OF assms, of fin_received] arg_cong [OF assms, of fin_offset]
    arg_cong [OF assms, of direct_receive_fn] arg_cong [OF assms, of stop_sending_requested]
    arg_cong [OF assms, of is_discarded] arg_cong [OF assms, of maxdata_local] arg_cong [OF assms, of reset_received]
  by (simp_all add: at_rest_def)

lemma at_rest_upd [simp]:
  "at_rest (s\<lparr>stream_data_tree := t\<rparr>) = at_rest s"
  "at_rest (s\<lparr>consumed_offset := c, fin_signalled := f\<rparr>) = at_rest s"
  by (simp_all add: at_rest_def)

text \<open>
  From the offset \<open>c\<close> on, the application got the bytes up to \<open>consumed_offset s'\<close>; at most one of the
  calls said that the stream is finished, and then it is.
\<close>

definition delivers :: "(nat \<Rightarrow> u8) \<Rightarrow> u64 \<Rightarrow> stream_cnx \<Rightarrow> stream_head \<Rightarrow> stream_cnx \<Rightarrow> stream_head \<Rightarrow> bool" where
  "delivers D n cnx s cnx' s' \<longleftrightarrow> same_cnx cnx cnx' \<and> picoquic_find_stream cnx' n = Some s' \<and>
     at_rest s' = at_rest s \<and>
     unat (consumed_offset s) \<le> unat (consumed_offset s') \<and> unat (consumed_offset s') < 2 ^ 62 \<and>
     bytes_delivered n (callbacks cnx') =
       bytes_delivered n (callbacks cnx) @ map D [unat (consumed_offset s)..<unat (consumed_offset s')] \<and>
     (fin_signalled s \<longrightarrow> fin_signalled s') \<and>
     (fin_signalled s' \<longrightarrow> fin_signalled s \<or> fin_received s \<and> consumed_offset s' \<ge> fin_offset s) \<and>
     fins_signalled n (callbacks cnx') =
       fins_signalled n (callbacks cnx) + (if fin_signalled s' \<and> \<not> fin_signalled s then 1 else 0)"

lemma delivers_refl:
  assumes "picoquic_find_stream cnx n = Some s" "unat (consumed_offset s) < 2 ^ 62"
  shows "delivers D n cnx s cnx s"
  using assms by (simp add: delivers_def)

lemma map_upt_append: "a \<le> b \<Longrightarrow> b \<le> c \<Longrightarrow> map f [a..<b] @ map f [b..<c] = map f [a..<(c::nat)]"
  by (metis map_append upt_add_eq_append le_add_diff_inverse)

lemma delivers_trans:
  assumes "delivers D n a r b s" "delivers D n b s c t"
  shows "delivers D n a r c t"
proof -
  have le: "unat (consumed_offset r) \<le> unat (consumed_offset s)" "unat (consumed_offset s) \<le> unat (consumed_offset t)"
    using assms by (simp_all add: delivers_def)
  have "at_rest t = at_rest r" "at_rest s = at_rest r" using assms by (simp_all add: delivers_def)
  note q = this at_rest_eqD [OF this(2)]
  have "consumed_offset s \<le> consumed_offset t" using le(2) by (simp add: word_le_nat_alt)
  then have f: "fin_signalled t \<longrightarrow> fin_signalled r \<or> fin_received r \<and> consumed_offset t \<ge> fin_offset r"
    using assms q unfolding delivers_def by auto
  have b: "bytes_delivered n (callbacks c) = bytes_delivered n (callbacks a) @ map D [unat (consumed_offset r)..<unat (consumed_offset t)]"
    using assms map_upt_append [OF le, of D] unfolding delivers_def by simp
  have fs: "fins_signalled n (callbacks c) = fins_signalled n (callbacks a) + (if fin_signalled t \<and> \<not> fin_signalled r then 1 else 0)"
    using assms unfolding delivers_def by (cases "fin_signalled r"; cases "fin_signalled s"; cases "fin_signalled t") simp_all
  have o: "same_cnx a c" "picoquic_find_stream c n = Some t" "unat (consumed_offset t) < 2 ^ 62" "fin_signalled r \<longrightarrow> fin_signalled t"
    using assms same_cnx_trans [of a b c] unfolding delivers_def by simp_all
  show ?thesis unfolding delivers_def using o q(1) f b fs le by simp
qed

lemma delivers_chunk:
  assumes "picoquic_find_stream cnx n = Some s" "to_application cnx s" "unat (consumed_offset s) \<le> e" "e < 2 ^ 62"
    "b = map D [unat (consumed_offset s)..<e]"
  shows "\<exists>cnx' s'. picoquic_stream_data_chunk_callback cnx n b = Some cnx' \<and> delivers D n cnx s cnx' s' \<and>
    unat (consumed_offset s') = e \<and> pool cnx' = pool cnx \<and> stream_data_tree s' = stream_data_tree s \<and>
    fin_signalled s' = (fin_signalled s \<or> chunk_fin s (length b))"
proof -
  obtain cnx' where c: "picoquic_stream_data_chunk_callback cnx n b = Some cnx'" "same_cnx cnx cnx'" "pool cnx' = pool cnx"
    "picoquic_find_stream cnx' n = Some (s\<lparr>consumed_offset := consumed_offset s + of_nat (length b),
      fin_signalled := (fin_signalled s \<or> chunk_fin s (length b))\<rparr>)"
    "callbacks cnx' = callbacks cnx @ (if b \<noteq> [] \<or> chunk_fin s (length b)
      then [(n, if chunk_fin s (length b) then callback_stream_fin else callback_stream_data, b)] else [])"
    using chunk_callback_ok [OF assms(1,2), of b] by blast
  define s' where "s' = s\<lparr>consumed_offset := consumed_offset s + of_nat (length b),
      fin_signalled := (fin_signalled s \<or> chunk_fin s (length b))\<rparr>"
  have u: "unat (consumed_offset s') = e" using assms(3-5)
    by (simp add: s'_def unat_word_ariths unsigned_of_nat take_bit_nat_eq_self)
  have "delivers D n cnx s cnx' s'" unfolding delivers_def
  proof (intro conjI)
    show "bytes_delivered n (callbacks cnx') =
       bytes_delivered n (callbacks cnx) @ map D [unat (consumed_offset s)..<unat (consumed_offset s')]"
      unfolding u using c(5) assms(5) by auto
    show "fins_signalled n (callbacks cnx') =
       fins_signalled n (callbacks cnx) + (if fin_signalled s' \<and> \<not> fin_signalled s then 1 else 0)"
      unfolding c(5) by (auto simp: s'_def chunk_fin_def)
    show "fin_signalled s' \<longrightarrow> fin_signalled s \<or> fin_received s \<and> consumed_offset s' \<ge> fin_offset s"
      by (auto simp: s'_def chunk_fin_def)
  qed (use c u assms in \<open>simp_all add: s'_def\<close>)
  then show ?thesis using c u by (intro exI [of _ cnx'] exI [of _ s']) (simp add: s'_def)
qed

lemma recycle_store:
  assumes "store D q t (a # xs) received" "represents t' xs"
  shows "store D (picoquic_stream_data_node_recycle q a) t' xs received"
    "covered (picoquic_stream_data_node_recycle q a) ys = covered q ys"
    "data_nodes (picoquic_stream_data_node_recycle q a) = data_nodes q"
proof -
  have d: "data_nodes (picoquic_stream_data_node_recycle q a) = data_nodes q"
    by (simp add: picoquic_stream_data_node_recycle_def)
  then show "covered (picoquic_stream_data_node_recycle q a) ys = covered q ys"
    "data_nodes (picoquic_stream_data_node_recycle q a) = data_nodes q" by (simp_all add: covered_def)
  have "chunks D (picoquic_stream_data_node_recycle q a) xs"
    using assms(1) chunks_same(1) [of xs "picoquic_stream_data_node_recycle q a" q] d by (simp add: store_def chunks_Cons)
  moreover have "pool_ok (picoquic_stream_data_node_recycle q a) xs received"
    using assms(1) d unfolding store_def pool_ok_def available_def spare_def
    by (cases received) (auto simp: picoquic_stream_data_node_recycle_def)
  ultimately show "store D (picoquic_stream_data_node_recycle q a) t' xs received" using assms(2) by (simp add: store_def)
qed

lemma stream_data_loop_ok:
  assumes "picoquic_find_stream cnx n = Some s" "to_application cnx s" "store D (pool cnx) (stream_data_tree s) xs received"
    "unat (consumed_offset s) < 2 ^ 62"
  shows "\<exists>cnx' s' ys. stream_data_loop cnx n = Some cnx' \<and> delivers D n cnx s cnx' s' \<and>
    store D (pool cnx') (stream_data_tree s') ys received \<and> (\<forall>y\<in>set ys. unat (consumed_offset s') < begins (pool cnx') y) \<and>
    {..<unat (consumed_offset s)} \<union> covered (pool cnx) xs = {..<unat (consumed_offset s')} \<union> covered (pool cnx') ys"
  using assms
proof (induction xs arbitrary: cnx s)
  case Nil
  then have "picosplay_first (stream_data_tree s) = Some None"
    using splay_store.first_law [of "stream_data_tree s" "[]"] by (simp add: store_def)
  then have "stream_data_loop cnx n = Some cnx" using Nil.prems(1) by (subst stream_data_loop.simps) simp
  then show ?case using Nil.prems delivers_refl [OF Nil.prems(1,4)] by fastforce
next
  case (Cons a xs)
  have st: "represents (stream_data_tree s) (a # xs)" "chunk_ok D (pool cnx) a" "\<forall>b\<in>set xs. ends (pool cnx) a \<le> begins (pool cnx) b"
    using Cons.prems(3) by (simp_all add: store_def chunks_Cons)
  have first: "picosplay_first (stream_data_tree s) = Some (Some a)"
    using splay_store.first_law [OF st(1)] by simp
  define c where "c = unat (consumed_offset s)"
  show ?case
  proof (cases "dn_offset (data_nodes (pool cnx) a) \<le> consumed_offset s")
    case False
    then have "stream_data_loop cnx n = Some cnx" using Cons.prems(1) first by (subst stream_data_loop.simps) simp
    moreover have "\<forall>y\<in>set (a # xs). c < begins (pool cnx) y"
      using False st(2,3) by (fastforce simp: c_def word_le_nat_alt chunk_ok_def)
    ultimately show ?thesis using Cons.prems delivers_refl [OF Cons.prems(1,4)] unfolding c_def by blast
  next
    case True
    define bs where "bs = map D [begins (pool cnx) a..<ends (pool cnx) a]"
    have b: "dn_bytes (data_nodes (pool cnx) a) = Some bs" "begins (pool cnx) a \<le> c"
      using st(2) True by (simp_all add: chunk_ok_def bs_def c_def word_le_nat_alt)
    have lb: "length bs = ends (pool cnx) a - begins (pool cnx) a" "ends (pool cnx) a < 2 ^ 62"
      using st(2) by (simp_all add: bs_def chunk_ok_def)
    define start where "start = unat (consumed_offset s - dn_offset (data_nodes (pool cnx) a))"
    have start: "start = c - begins (pool cnx) a" using True by (simp add: start_def c_def unat_sub)
    define step where "step = (if length bs \<ge> start then picoquic_stream_data_chunk_callback cnx n (drop start bs) else Some cnx)"
    obtain cnx1 s1 where s1: "step = Some cnx1" "delivers D n cnx s cnx1 s1" "pool cnx1 = pool cnx"
      "stream_data_tree s1 = stream_data_tree s" "unat (consumed_offset s1) = max c (ends (pool cnx) a)"
    proof (cases "length bs \<ge> start")
      case True
      have "drop start bs = map D [unat (consumed_offset s)..<ends (pool cnx) a]"
        using b(2) by (simp add: bs_def drop_map start c_def)
      moreover have "unat (consumed_offset s) \<le> ends (pool cnx) a" using True lb b(2) start by (simp add: c_def)
      ultimately obtain cnx1 s1 where "picoquic_stream_data_chunk_callback cnx n (drop start bs) = Some cnx1"
        "delivers D n cnx s cnx1 s1" "unat (consumed_offset s1) = ends (pool cnx) a" "pool cnx1 = pool cnx"
        "stream_data_tree s1 = stream_data_tree s"
        using delivers_chunk [OF Cons.prems(1,2) _ lb(2), of "drop start bs" D] by blast
      moreover have "max c (ends (pool cnx) a) = ends (pool cnx) a" using True lb b(2) start by simp
      ultimately show ?thesis using True by (intro that [of cnx1 s1]) (simp_all add: step_def)
    next
      case False
      then have "step = Some cnx" "max c (ends (pool cnx) a) = c" using lb b(2) start by (simp_all add: step_def)
      then show ?thesis by (intro that [of cnx s]) (use delivers_refl [OF Cons.prems(1,4)] in \<open>simp_all add: c_def\<close>)
    qed
    have f1: "picoquic_find_stream cnx1 n = Some s1" "to_application cnx1 s1" "unat (consumed_offset s1) < 2 ^ 62"
      using s1(2) Cons.prems(2) at_rest_eqD [of s1 s] by (auto simp: delivers_def to_application_def same_cnx_def)
    obtain t where t: "picosplay_delete_hint (stream_data_tree s) (Some a) = Some t" "represents t xs"
      using splay_store.delete_law [of "stream_data_tree s" "[]" a xs] st(1) by auto
    define q2 where "q2 = picoquic_stream_data_node_recycle (pool cnx) a"
    note rec = recycle_store [OF Cons.prems(3) t(2), folded q2_def]
    define s2 where "s2 = s1\<lparr>stream_data_tree := t\<rparr>"
    define cnx2 where "cnx2 = upd_stream n (\<lambda>s. s\<lparr>stream_data_tree := t\<rparr>) (cnx1\<lparr>pool := q2\<rparr>)"
    have f2: "picoquic_find_stream cnx2 n = Some s2" using f1(1) by (simp add: cnx2_def find_stream_upd s2_def)
    have p2: "pool cnx2 = q2" by (simp add: cnx2_def)
    have d2: "delivers D n cnx1 s1 cnx2 s2" using f2 f1(3) by (simp add: delivers_def cnx2_def s2_def same_cnx_def)
    have a2: "to_application cnx2 s2" using f1(2) by (simp add: to_application_def cnx2_def s2_def)
    have run: "stream_data_loop cnx n = stream_data_loop cnx2 n"
      using Cons.prems(1) first True b(1) s1(1,3,4) f1(1) t(1) unfolding step_def start_def
      by (subst stream_data_loop.simps) (simp add: cnx2_def q2_def Let_def)
    have "store D (pool cnx2) (stream_data_tree s2) xs received" "unat (consumed_offset s2) < 2 ^ 62"
      using rec(1) f1(3) by (simp_all add: p2 s2_def)
    from Cons.IH [OF f2 a2 this] obtain cnx' s' ys where i: "stream_data_loop cnx2 n = Some cnx'" "delivers D n cnx2 s2 cnx' s'"
      "store D (pool cnx') (stream_data_tree s') ys received" "\<forall>y\<in>set ys. unat (consumed_offset s') < begins (pool cnx') y"
      "{..<unat (consumed_offset s2)} \<union> covered (pool cnx2) xs = {..<unat (consumed_offset s')} \<union> covered (pool cnx') ys" by blast
    have "{..<c} \<union> covered (pool cnx) (a # xs) = {..<max c (ends (pool cnx) a)} \<union> covered (pool cnx) xs"
      using b(2) by (auto simp: subset_iff)
    then have "{..<c} \<union> covered (pool cnx) (a # xs) = {..<unat (consumed_offset s')} \<union> covered (pool cnx') ys"
      using i(5) s1(5) rec(2) by (simp add: s2_def p2)
    moreover have "delivers D n cnx s cnx' s'" by (rule delivers_trans [OF delivers_trans [OF s1(2) d2] i(2)])
    ultimately show ?thesis using run i unfolding c_def by metis
  qed
qed

text \<open>The whole callback: afterwards the first byte that is not there stops the stream.\<close>

lemma stream_data_callback_ok:
  assumes "picoquic_find_stream cnx n = Some s" "to_application cnx s" "store D (pool cnx) (stream_data_tree s) xs received"
    "unat (consumed_offset s) < 2 ^ 62"
  shows "\<exists>cnx' s' ys. picoquic_stream_data_callback cnx n = Some cnx' \<and> delivers D n cnx s cnx' s' \<and>
    store D (pool cnx') (stream_data_tree s') ys received \<and> (\<forall>y\<in>set ys. unat (consumed_offset s') < begins (pool cnx') y) \<and>
    {..<unat (consumed_offset s)} \<union> covered (pool cnx) xs = {..<unat (consumed_offset s')} \<union> covered (pool cnx') ys \<and>
    (fin_received s' \<and> consumed_offset s' \<ge> fin_offset s' \<longrightarrow> fin_signalled s')"
proof -
  obtain cnx1 s1 ys where l: "stream_data_loop cnx n = Some cnx1" "delivers D n cnx s cnx1 s1"
    "store D (pool cnx1) (stream_data_tree s1) ys received" "\<forall>y\<in>set ys. unat (consumed_offset s1) < begins (pool cnx1) y"
    "{..<unat (consumed_offset s)} \<union> covered (pool cnx) xs = {..<unat (consumed_offset s1)} \<union> covered (pool cnx1) ys"
    using stream_data_loop_ok [OF assms] by blast
  have f1: "picoquic_find_stream cnx1 n = Some s1" "to_application cnx1 s1" "unat (consumed_offset s1) < 2 ^ 62"
    using l(2) assms(2) at_rest_eqD [of s1 s] by (auto simp: delivers_def to_application_def same_cnx_def)
  obtain cnx2 s2 where c: "picoquic_stream_data_chunk_callback cnx1 n [] = Some cnx2" "delivers D n cnx1 s1 cnx2 s2"
    "unat (consumed_offset s2) = unat (consumed_offset s1)" "pool cnx2 = pool cnx1" "stream_data_tree s2 = stream_data_tree s1"
    "fin_signalled s2 = (fin_signalled s1 \<or> chunk_fin s1 0)"
    using delivers_chunk [OF f1(1,2) order_refl f1(3), of "[]" D] by auto
  have "consumed_offset s2 = consumed_offset s1" using c(3) by (simp only: word_unat_eq_iff)
  moreover have "at_rest s2 = at_rest s1" using c(2) by (simp add: delivers_def)
  ultimately have "fin_received s2 \<and> consumed_offset s2 \<ge> fin_offset s2 \<longrightarrow> fin_signalled s2"
    using c(6) at_rest_eqD [of s2 s1] by (auto simp: chunk_fin_def)
  moreover have "delivers D n cnx s cnx2 s2" by (rule delivers_trans [OF l(2) c(2)])
  ultimately show ?thesis using l c
    by (intro exI [of _ cnx2] exI [of _ s2] exI [of _ ys]) (simp add: picoquic_stream_data_callback_def)
qed

end
