(* ===== verification/StreamProps.thy ===== *)
theory StreamProps
  imports StreamDelivery
begin

text \<open>
  The properties of the streams: the application gets the stream in order and exactly once whatever
  the order of the frames, flow control, the end of the stream, and the list of output streams.
\<close>

section \<open>A frame in the middle of a stream\<close>

text \<open>
  The stream \<open>n\<close> has received the offsets \<open>R\<close> of the data \<open>D\<close>; the application has everything before
  the first gap, and the chunks \<open>xs\<close> hold the rest.
\<close>

definition stream_at ::
    "(nat \<Rightarrow> u8) \<Rightarrow> u64 \<Rightarrow> nat set \<Rightarrow> nat list \<Rightarrow> ptr \<Rightarrow> stream_cnx \<Rightarrow> stream_head \<Rightarrow> bool" where
  "stream_at D n R xs received cnx s \<longleftrightarrow> picoquic_find_stream cnx n = Some s \<and> to_application cnx s \<and>
     store D (pool cnx) (stream_data_tree s) xs received \<and> unat (consumed_offset s) < 2 ^ 62 \<and>
     (\<forall>y\<in>set xs. unat (consumed_offset s) < begins (pool cnx) y) \<and>
     R = {..<unat (consumed_offset s)} \<union> covered (pool cnx) xs \<and>
     bytes_delivered n (callbacks cnx) = map D [0..<unat (consumed_offset s)]"

lemma stream_at_gap:
  assumes "stream_at D n R xs received cnx s"
  shows "(LEAST k. k \<notin> R) = unat (consumed_offset s)"
proof (rule Least_equality)
  show "unat (consumed_offset s) \<notin> R" using assms by (fastforce simp: stream_at_def covered_def)
  show "k \<notin> R \<Longrightarrow> unat (consumed_offset s) \<le> k" for k using assms by (auto simp: stream_at_def not_less)
qed

lemma stream_at_delivers:
  assumes "delivers D n cnx s cnx' s'" "to_application cnx s" "bytes_delivered n (callbacks cnx) = map D [0..<unat (consumed_offset s)]"
    "store D (pool cnx') (stream_data_tree s') ys received" "\<forall>y\<in>set ys. unat (consumed_offset s') < begins (pool cnx') y"
  shows "stream_at D n ({..<unat (consumed_offset s')} \<union> covered (pool cnx') ys) ys received cnx' s'"
proof -
  have "to_application cnx' s'" using assms(1,2) at_rest_eqD [of s' s] by (auto simp: delivers_def to_application_def same_cnx_def)
  moreover have "bytes_delivered n (callbacks cnx') = map D [0..<unat (consumed_offset s')]"
    using assms(1,3) map_upt_append [of 0 "unat (consumed_offset s)" "unat (consumed_offset s')" D] by (simp add: delivers_def)
  ultimately show ?thesis using assms by (simp add: stream_at_def delivers_def)
qed

text \<open>What a frame does; the stream keeps everything but its data and the sign that it is finished.\<close>

definition frame_taken ::
    "(nat \<Rightarrow> u8) \<Rightarrow> u64 \<Rightarrow> nat set \<Rightarrow> nat list \<Rightarrow> ptr \<Rightarrow> stream_cnx \<Rightarrow> stream_head \<Rightarrow> bool \<Rightarrow> (int \<times> stream_cnx) \<Rightarrow> bool" where
  "frame_taken D n R old received cnx s notify r = (case r of (ret, cnx') \<Rightarrow>
     ret = PICOQUIC_ERROR_DETECTED \<and> stock (pool cnx) \<le> length old \<or>
     ret = 0 \<and> (\<exists>s' xs. stream_at D n R xs received cnx' s' \<and> delivers D n cnx s cnx' s' \<and>
       ((notify \<or> consumed_offset s' \<noteq> consumed_offset s) \<and> fin_received s' \<and> consumed_offset s' \<ge> fin_offset s' \<longrightarrow>
         fin_signalled s')))"

lemma stream_input_queued_ok:
  assumes "stream_at D n R xs received cnx s" "bytes = map D [unat ofs..<unat ofs + l]" "unat ofs + l < 2 ^ 62" "l \<le> 1536"
  shows "\<exists>r. stream_input_queued cnx n ofs bytes received notify now = Some r \<and>
    frame_taken D n (R \<union> {unat ofs..<unat ofs + l}) xs received cnx s notify r"
proof -
  have at: "picoquic_find_stream cnx n = Some s" "to_application cnx s" "store D (pool cnx) (stream_data_tree s) xs received"
    "unat (consumed_offset s) < 2 ^ 62" "\<forall>y\<in>set xs. unat (consumed_offset s) < begins (pool cnx) y"
    "R = {..<unat (consumed_offset s)} \<union> covered (pool cnx) xs"
    "bytes_delivered n (callbacks cnx) = map D [0..<unat (consumed_offset s)]"
    using assms(1) by (simp_all add: stream_at_def)
  from queue_network_input_ok [OF at(3) assms(2-4) at(4), of False] obtain ret q t added ys where
    q: "picoquic_queue_network_input (pool cnx) (stream_data_tree s) (consumed_offset s) ofs bytes received False = Some (ret, q, t, added)"
      "store D q t ys received" "added = (covered q ys \<noteq> covered (pool cnx) xs)"
      "ret = 0 \<and> covered q ys = covered (pool cnx) xs \<union> {max (unat ofs) (unat (consumed_offset s))..<unat ofs + l} \<or>
       ret = PICOQUIC_ERROR_MEMORY \<and> stock (pool cnx) \<le> length xs" by auto
  define c1 where "c1 = upd_stream n (\<lambda>s. s\<lparr>stream_data_tree := t\<rparr>) (cnx\<lparr>pool := q\<rparr>)"
  show ?thesis
  proof (cases "ret = 0")
    case False
    then show ?thesis using at(1) q(1,4)
      by (auto simp: stream_input_queued_def frame_taken_def c1_def [symmetric] picoquic_connection_error_def
          picoquic_connection_error_ex_def Let_def)
  next
    case True
    define c2 where "c2 = (if added then c1\<lparr>latest_progress_time := now\<rparr> else c1)"
    define s1 where "s1 = s\<lparr>stream_data_tree := t\<rparr>"
    have f: "picoquic_find_stream c2 n = Some s1" "to_application c2 s1" "pool c2 = q"
      using at(1,2) by (simp_all add: c2_def c1_def find_stream_upd s1_def to_application_def)
    have d1: "delivers D n cnx s c2 s1" using f(1) at(4) by (simp add: delivers_def s1_def c2_def c1_def same_cnx_def)
    have R: "R \<union> {unat ofs..<unat ofs + l} = {..<unat (consumed_offset s1)} \<union> covered q ys"
      using q(4) True at(6) by (auto simp: s1_def)
    have app: "callback_fn c2 \<noteq> None" using f(2) by (simp add: to_application_def)
    have run: "stream_input_queued cnx n ofs bytes received notify now =
        (if notify \<or> added then Option.bind (picoquic_stream_data_callback c2 n) (\<lambda>cnx. Some (0, cnx)) else Some (0, c2))"
      using at(1) q(1) True app by (cases added) (auto simp: stream_input_queued_def c1_def [symmetric] c2_def Let_def)
    show ?thesis
    proof (cases "notify \<or> added")
      case called: True
      have "store D (pool c2) (stream_data_tree s1) ys received" "unat (consumed_offset s1) < 2 ^ 62"
        using q(2) at(4) by (simp_all add: f s1_def)
      from stream_data_callback_ok [OF f(1,2) this] obtain cnx' s' zs where
        l: "picoquic_stream_data_callback c2 n = Some cnx'" "delivers D n c2 s1 cnx' s'"
          "store D (pool cnx') (stream_data_tree s') zs received" "\<forall>y\<in>set zs. unat (consumed_offset s') < begins (pool cnx') y"
          "{..<unat (consumed_offset s1)} \<union> covered (pool c2) ys = {..<unat (consumed_offset s')} \<union> covered (pool cnx') zs"
          "fin_received s' \<and> consumed_offset s' \<ge> fin_offset s' \<longrightarrow> fin_signalled s'" by blast
      have dd: "delivers D n cnx s cnx' s'" by (rule delivers_trans [OF d1 l(2)])
      have "stream_at D n (R \<union> {unat ofs..<unat ofs + l}) zs received cnx' s'"
        using stream_at_delivers [OF dd at(2,7) l(3,4)] R l(5) f(3) by simp
      then have "frame_taken D n (R \<union> {unat ofs..<unat ofs + l}) xs received cnx s notify (0, cnx')"
        using dd l(6) unfolding frame_taken_def by blast
      then show ?thesis using run called l(1) by simp
    next
      case quiet: False
      then have "covered q ys = covered (pool cnx) xs" using q(3) by simp
      moreover have "\<forall>y\<in>set ys. unat (consumed_offset s1) < begins (pool c2) y"
      proof
        fix y assume y: "y \<in> set ys"
        have "begins q y < ends q y" using q(2) y by (auto simp: store_def chunks_def chunk_ok_def)
        with y have "begins q y \<in> covered q ys" by (auto simp: covered_def)
        then have "begins q y \<in> covered (pool cnx) xs" using \<open>covered q ys = _\<close> by simp
        then show "unat (consumed_offset s1) < begins (pool c2) y" using at(5) f(3) by (fastforce simp: covered_def s1_def)
      qed
      then have "stream_at D n (R \<union> {unat ofs..<unat ofs + l}) ys received c2 s1"
        using stream_at_delivers [OF d1 at(2,7), of ys received] q(2) R f(3) by (simp add: s1_def)
      then have "frame_taken D n (R \<union> {unat ofs..<unat ofs + l}) xs received cnx s notify (0, c2)"
        using d1 quiet unfolding frame_taken_def split by (intro disjI2 conjI refl exI [of _ s1] exI [of _ ys]) (simp_all add: s1_def)
      then show ?thesis using run quiet by simp
    qed
  qed
qed

lemma stream_input_data_ok:
  assumes "stream_at D n R xs received cnx s" "bytes = map D [unat ofs..<unat ofs + l]" "unat ofs + l < 2 ^ 62" "l \<le> 1536"
  shows "\<exists>r. stream_input_data cnx n ofs fin bytes received notify now = Some r \<and>
    frame_taken D n (R \<union> {unat ofs..<unat ofs + l}) xs received cnx s
      (notify \<and> (unat (consumed_offset s) < unat ofs \<or> unat (consumed_offset s) \<le> unat ofs + l)) r"
proof -
  have at: "picoquic_find_stream cnx n = Some s" "to_application cnx s" "store D (pool cnx) (stream_data_tree s) xs received"
    "unat (consumed_offset s) < 2 ^ 62" "\<forall>y\<in>set xs. unat (consumed_offset s) < begins (pool cnx) y"
    "R = {..<unat (consumed_offset s)} \<union> covered (pool cnx) xs"
    "bytes_delivered n (callbacks cnx) = map D [0..<unat (consumed_offset s)]"
    using assms(1) by (simp_all add: stream_at_def)
  have app: "callback_fn cnx \<noteq> None" "direct_receive_fn s = None" using at(2) by (simp_all add: to_application_def)
  define c where "c = unat (consumed_offset s)"
  have e: "unat (ofs + of_nat (length bytes)) = unat ofs + l" using assms(2,3)
    by (simp add: unat_word_ariths unsigned_of_nat take_bit_nat_eq_self)
  consider (ahead) "c < unat ofs" | (old) "unat ofs \<le> c" "unat ofs + l < c" | (fits) "unat ofs \<le> c" "c \<le> unat ofs + l" by linarith
  then show ?thesis
  proof cases
    case ahead
    then have "stream_input_data cnx n ofs fin bytes received notify now = stream_input_queued cnx n ofs bytes received notify now"
      using at(1) app by (simp add: stream_input_data_def c_def word_le_nat_alt)
    then show ?thesis using stream_input_queued_ok [OF assms, of notify now] ahead unfolding c_def
      by (auto simp: frame_taken_def)
  next
    case old
    then have "stream_input_data cnx n ofs fin bytes received notify now = Some (0, cnx)"
      using at(1) app e by (simp add: stream_input_data_def c_def word_le_nat_alt)
    moreover have "R \<union> {unat ofs..<unat ofs + l} = R" using old at(6) by (auto simp: c_def)
    moreover have "delivers D n cnx s cnx s" by (rule delivers_refl [OF at(1,4)])
    ultimately show ?thesis using assms(1) old unfolding frame_taken_def c_def by (auto simp: not_le)
  next
    case fits
    define start where "start = unat (consumed_offset s - ofs)"
    have "start = c - unat ofs" using fits by (simp add: start_def c_def unat_sub word_le_nat_alt)
    then have b: "drop start bytes = map D [unat (consumed_offset s)..<unat ofs + l]"
      using assms(2) fits by (simp add: drop_map c_def)
    from delivers_chunk [OF at(1,2) fits(2) [unfolded c_def] assms(3) b] obtain c1 s1 where
      d1: "picoquic_stream_data_chunk_callback cnx n (drop start bytes) = Some c1" "delivers D n cnx s c1 s1"
        "unat (consumed_offset s1) = unat ofs + l" "pool c1 = pool cnx" "stream_data_tree s1 = stream_data_tree s" by blast
    have f: "picoquic_find_stream c1 n = Some s1" "to_application c1 s1" "unat (consumed_offset s1) < 2 ^ 62"
      "store D (pool c1) (stream_data_tree s1) xs received"
      using d1 at(2,3) at_rest_eqD [of s1 s] by (auto simp: delivers_def to_application_def same_cnx_def)
    from stream_data_callback_ok [OF f(1,2,4,3)] obtain cnx' s' zs where
      l: "picoquic_stream_data_callback c1 n = Some cnx'" "delivers D n c1 s1 cnx' s'"
        "store D (pool cnx') (stream_data_tree s') zs received" "\<forall>y\<in>set zs. unat (consumed_offset s') < begins (pool cnx') y"
        "{..<unat (consumed_offset s1)} \<union> covered (pool c1) xs = {..<unat (consumed_offset s')} \<union> covered (pool cnx') zs"
        "fin_received s' \<and> consumed_offset s' \<ge> fin_offset s' \<longrightarrow> fin_signalled s'" by blast
    have dd: "delivers D n cnx s cnx' s'" by (rule delivers_trans [OF d1(2) l(2)])
    have "R \<union> {unat ofs..<unat ofs + l} = {..<unat ofs + l} \<union> covered (pool cnx) xs" using fits at(6) by (auto simp: c_def)
    then have "stream_at D n (R \<union> {unat ofs..<unat ofs + l}) zs received cnx' s'"
      using stream_at_delivers [OF dd at(2,7) l(3,4)] l(5) d1(3,4) by simp
    then have "frame_taken D n (R \<union> {unat ofs..<unat ofs + l}) xs received cnx s b (0, cnx')" for b
      using dd l(6) unfolding frame_taken_def by blast
    moreover have "stream_input_data cnx n ofs fin bytes received notify now = Some (0, cnx')"
      using at(1) app e fits d1(1) l(1) by (simp add: stream_input_data_def c_def word_le_nat_alt start_def)
    ultimately show ?thesis by blast
  qed
qed

end
