(* ===== verification/StreamCredit.thy ===== *)
theory StreamCredit
  imports StreamInput "HOL-Library.Sublist"
begin

text \<open>
  Identifiers and credit: the tree of streams stays sorted with unique identifiers below the next free
  one, and the offsets that were granted are never exceeded, whatever frames the peer sends.
\<close>

section \<open>What an operation leaves of the account\<close>

definition account_key :: "stream_head \<Rightarrow> u64 \<times> u64 \<times> u64" where
  "account_key s = (stream_id s, fin_offset s, maxdata_local s)"

text \<open>Operations that at most delete streams keep the rest of the account.\<close>

definition keeps :: "stream_cnx \<Rightarrow> stream_cnx \<Rightarrow> bool" where
  "keeps cnx cnx' \<longleftrightarrow> subseq (map account_key (stream_tree cnx')) (map account_key (stream_tree cnx)) \<and>
     data_received cnx' = data_received cnx \<and> cnx_maxdata_local cnx' = cnx_maxdata_local cnx \<and>
     next_stream_id cnx' = next_stream_id cnx \<and> client_mode cnx' = client_mode cnx"

lemma keeps_refl [simp]: "keeps cnx cnx"
  by (simp add: keeps_def)

lemma keeps_trans: "keeps a b \<Longrightarrow> keeps b c \<Longrightarrow> keeps a c"
  by (auto simp: keeps_def intro: subseq_order.trans)

lemma keeps_upd_stream [simp]:
  assumes "\<And>s. account_key (f s) = account_key s"
  shows "keeps a (upd_stream n f cnx) = keeps a cnx"
proof -
  have "map account_key (map (\<lambda>s. if stream_id s = n then f s else s) ss) = map account_key ss" for ss
    by (induction ss) (auto simp: assms)
  then show ?thesis by (simp add: keeps_def upd_stream_def del: map_map)
qed

lemma account_key_upd [simp]:
  "account_key (s\<lparr>next_output_stream := x\<rparr>) = account_key s"
  "account_key (s\<lparr>previous_output_stream := x\<rparr>) = account_key s"
  "account_key (s\<lparr>consumed_offset := c\<rparr>) = account_key s"
  "account_key (s\<lparr>maxdata_remote := c\<rparr>) = account_key s"
  "account_key (s\<lparr>remote_error := c\<rparr>) = account_key s"
  "account_key (s\<lparr>remote_stop_error := c\<rparr>) = account_key s"
  "account_key (s\<lparr>stream_data_tree := t\<rparr>) = account_key s"
  "account_key (s\<lparr>fin_requested := b\<rparr>) = account_key s"
  "account_key (s\<lparr>fin_sent := b\<rparr>) = account_key s"
  "account_key (s\<lparr>fin_received := b\<rparr>) = account_key s"
  "account_key (s\<lparr>fin_signalled := b\<rparr>) = account_key s"
  "account_key (s\<lparr>reset_received := b\<rparr>) = account_key s"
  "account_key (s\<lparr>reset_signalled := b\<rparr>) = account_key s"
  "account_key (s\<lparr>stop_sending_received := b\<rparr>) = account_key s"
  "account_key (s\<lparr>stop_sending_signalled := b\<rparr>) = account_key s"
  "account_key (s\<lparr>max_stream_updated := b\<rparr>) = account_key s"
  "account_key (s\<lparr>is_output_stream := b\<rparr>) = account_key s"
  "account_key (s\<lparr>is_closed := b\<rparr>) = account_key s"
  by (simp_all add: account_key_def)

lemma keeps_fields [simp]:
  "keeps a (cnx\<lparr>pool := q\<rparr>) = keeps a cnx"
  "keeps a (cnx\<lparr>callbacks := l\<rparr>) = keeps a cnx"
  "keeps a (cnx\<lparr>latest_progress_time := v\<rparr>) = keeps a cnx"
  "keeps a (cnx\<lparr>max_stream_data_needed := b\<rparr>) = keeps a cnx"
  "keeps a (cnx\<lparr>ack_after_fin := g\<rparr>) = keeps a cnx"
  "keeps a (cnx\<lparr>first_output_stream := p\<rparr>) = keeps a cnx"
  "keeps a (cnx\<lparr>last_output_stream := p\<rparr>) = keeps a cnx"
  "keeps a (cnx\<lparr>stream_mallocs := m\<rparr>) = keeps a cnx"
  "keeps a (cnx\<lparr>local_error := v\<rparr>) = keeps a cnx"
  "keeps a (cnx\<lparr>cnx_state := st\<rparr>) = keeps a cnx"
  "keeps a (cnx\<lparr>offending_frame_type := v\<rparr>) = keeps a cnx"
  "keeps a (cnx\<lparr>max_stream_id_bidir_local_computed := v\<rparr>) = keeps a cnx"
  "keeps a (cnx\<lparr>max_stream_id_unidir_local_computed := v\<rparr>) = keeps a cnx"
  by (simp_all add: keeps_def)

lemma keeps_connection_error [simp]: "keeps a (snd (picoquic_connection_error cnx e t)) = keeps a cnx"
  by (simp add: picoquic_connection_error_def picoquic_connection_error_ex_def Let_def)

lemma keeps_error_eq: "picoquic_connection_error cnx e t = (r, cnx') \<Longrightarrow> keeps a cnx' = keeps a cnx"
  by (metis keeps_connection_error snd_conv)

lemma keeps_insert_output: "picoquic_insert_output_stream cnx n = Some cnx' \<Longrightarrow> keeps a cnx \<Longrightarrow> keeps a cnx'"
  by (auto simp: picoquic_insert_output_stream_def Let_def split: Option.bind_splits if_splits option.splits)

lemma keeps_remove_output: "picoquic_remove_output_stream cnx n = Some cnx' \<Longrightarrow> keeps a cnx \<Longrightarrow> keeps a cnx'"
  by (auto simp: picoquic_remove_output_stream_def Let_def split: Option.bind_splits if_splits option.splits)

lemma keeps_update_max_id: "picoquic_update_max_stream_ID_local cnx n = Some cnx' \<Longrightarrow> keeps a cnx \<Longrightarrow> keeps a cnx'"
  by (auto simp: picoquic_update_max_stream_ID_local_def split: Option.bind_splits if_splits)

lemma keeps_delete_stream: "picoquic_delete_stream cnx n = Some cnx' \<Longrightarrow> keeps a cnx \<Longrightarrow> keeps a cnx'"
  by (auto simp: picoquic_delete_stream_def keeps_def split: Option.bind_splits
      intro: subseq_order.trans [OF subseq_map [OF subseq_filter_left]])

lemma keeps_delete_if_closed: "picoquic_delete_stream_if_closed cnx n = Some (r, cnx') \<Longrightarrow> keeps a cnx \<Longrightarrow> keeps a cnx'"
  by (auto simp: picoquic_delete_stream_if_closed_def split: Option.bind_splits if_splits
      dest!: keeps_update_max_id keeps_delete_stream)

lemma keeps_call_application: "call_application cnx e = Some (r, cnx') \<Longrightarrow> keeps a cnx \<Longrightarrow> keeps a cnx'"
  by (auto simp: call_application_def Let_def split: Option.bind_splits)

lemma keeps_chunk_callback: "picoquic_stream_data_chunk_callback cnx n b = Some cnx' \<Longrightarrow> keeps a cnx \<Longrightarrow> keeps a cnx'"
  by (auto simp: picoquic_stream_data_chunk_callback_def Let_def dest!: keeps_call_application
      split: Option.bind_splits if_splits)

lemma keeps_data_loop:
  assumes "stream_data_loop cnx n = Some cnx'" "keeps a cnx"
  shows "keeps a cnx'"
proof -
  have "keeps a cnx \<longrightarrow> keeps a cnx'"
  proof (rule stream_data_loop.raw_induct [where P = "\<lambda>cnx n cnx'. keeps a cnx \<longrightarrow> keeps a cnx'", OF _ assms(1)])
    fix f :: "stream_cnx \<Rightarrow> u64 \<Rightarrow> stream_cnx option" and cnx n cnx'
    assume ih: "\<And>cnx n cnx'. f cnx n = Some cnx' \<Longrightarrow> keeps a cnx \<longrightarrow> keeps a cnx'"
    assume "do {
     s \<leftarrow> picoquic_find_stream cnx n;
     data \<leftarrow> picosplay_first (stream_data_tree s);
     case data of
       None \<Rightarrow> Some cnx
     | Some a \<Rightarrow>
         let d = data_nodes (pool cnx) a in
         if dn_offset d \<le> consumed_offset s then do {
           let start = unat (consumed_offset s - dn_offset d);
           b \<leftarrow> dn_bytes d;
           cnx \<leftarrow> (if length b \<ge> start then picoquic_stream_data_chunk_callback cnx n (drop start b) else Some cnx);
           s \<leftarrow> picoquic_find_stream cnx n;
           t \<leftarrow> picosplay_delete_hint (stream_data_tree s) (Some a);
           f (upd_stream n (\<lambda>s. s\<lparr>stream_data_tree := t\<rparr>)
                (cnx\<lparr>pool := picoquic_stream_data_node_recycle (pool cnx) a\<rparr>)) n
         } else Some cnx
     } = Some cnx'"
    then show "keeps a cnx \<longrightarrow> keeps a cnx'"
      by (auto simp: Let_def split: Option.bind_splits if_splits option.splits dest!: keeps_chunk_callback dest: ih)
  qed
  then show ?thesis using assms(2) by simp
qed

lemma keeps_data_callback: "picoquic_stream_data_callback cnx n = Some cnx' \<Longrightarrow> keeps a cnx \<Longrightarrow> keeps a cnx'"
  by (auto simp: picoquic_stream_data_callback_def split: Option.bind_splits dest!: keeps_data_loop keeps_chunk_callback)

lemma keeps_input_direct:
  "stream_input_direct cnx n g offset fin b = Some (r, cnx') \<Longrightarrow> keeps a cnx \<Longrightarrow> keeps a cnx'"
  by (auto simp: stream_input_direct_def Let_def split: Option.bind_splits if_splits dest!: keeps_error_eq)

lemma keeps_input_queued:
  "stream_input_queued cnx n offset b rd notify now = Some (r, cnx') \<Longrightarrow> keeps a cnx \<Longrightarrow> keeps a cnx'"
  by (auto simp: stream_input_queued_def Let_def split: Option.bind_splits if_splits dest!: keeps_error_eq keeps_data_callback)

lemma keeps_input_data:
  "stream_input_data cnx n offset fin b rd notify now = Some (r, cnx') \<Longrightarrow> keeps a cnx \<Longrightarrow> keeps a cnx'"
  by (auto simp: stream_input_data_def Let_def split: Option.bind_splits if_splits option.splits
      dest!: keeps_input_direct keeps_input_queued keeps_chunk_callback keeps_data_callback)

lemma keeps_input_close: "stream_input_close cnx n = Some cnx' \<Longrightarrow> keeps a cnx \<Longrightarrow> keeps a cnx'"
  by (auto simp: stream_input_close_def Let_def split: Option.bind_splits if_splits dest!: keeps_delete_if_closed)

lemma keeps_signal_reset: "signal_stream_reset cnx n = Some cnx' \<Longrightarrow> keeps a cnx \<Longrightarrow> keeps a cnx'"
  by (auto simp: signal_stream_reset_def Let_def split: Option.bind_splits if_splits
      dest!: keeps_delete_if_closed keeps_call_application)

lemma keeps_signal_stop: "signal_stop_sending cnx n = Some cnx' \<Longrightarrow> keeps a cnx \<Longrightarrow> keeps a cnx'"
  by (auto simp: signal_stop_sending_def Let_def split: Option.bind_splits if_splits dest!: keeps_call_application)

section \<open>The account\<close>

definition account_ok :: "stream_cnx \<Rightarrow> bool" where
  "account_ok cnx \<longleftrightarrow> sorted_wrt (\<lambda>s t. stream_id s < stream_id t) (stream_tree cnx) \<and>
     (\<forall>s\<in>set (stream_tree cnx). stream_id s < next_stream_id cnx (STREAM_TYPE_FROM_ID (stream_id s)) \<and>
        fin_offset s \<le> maxdata_local s) \<and>
     (\<forall>t<4. STREAM_TYPE_FROM_ID (next_stream_id cnx t) = t) \<and>
     (\<Sum>s\<leftarrow>stream_tree cnx. unat (fin_offset s)) \<le> unat (data_received cnx) \<and>
     data_received cnx \<le> cnx_maxdata_local cnx"

lemma sum_list_subseq: "subseq xs ys \<Longrightarrow> sum_list xs \<le> (sum_list ys :: nat)"
  by (induction rule: list_emb.induct) auto

lemma sorted_wrt_subseq: "subseq xs ys \<Longrightarrow> sorted_wrt P ys \<Longrightarrow> sorted_wrt P xs"
  by (induction rule: list_emb.induct) (auto dest: list_emb_set)

lemma account_ok_keeps:
  assumes "keeps cnx cnx'" "account_ok cnx"
  shows "account_ok cnx'"
proof -
  define ks where "ks c = map account_key (stream_tree c)" for c :: stream_cnx
  have acc: "account_ok c \<longleftrightarrow> sorted_wrt (\<lambda>s t. fst s < fst t) (ks c) \<and>
     (\<forall>(n, f, m)\<in>set (ks c). n < next_stream_id c (STREAM_TYPE_FROM_ID n) \<and> f \<le> m) \<and>
     (\<forall>t<4. STREAM_TYPE_FROM_ID (next_stream_id c t) = t) \<and>
     sum_list (map (\<lambda>(n, f, m). unat f) (ks c)) \<le> unat (data_received c) \<and> data_received c \<le> cnx_maxdata_local c" for c
    by (simp add: account_ok_def ks_def account_key_def sorted_wrt_map o_def)
  have sub: "subseq (ks cnx') (ks cnx)" using assms(1) by (simp add: keeps_def ks_def)
  have "sum_list (map (\<lambda>(n, f, m). unat f) (ks cnx')) \<le> sum_list (map (\<lambda>(n, f, m). unat f) (ks cnx))"
    by (rule sum_list_subseq [OF subseq_map [OF sub]])
  moreover have "set (ks cnx') \<subseteq> set (ks cnx)" using sub by (auto dest: list_emb_set)
  ultimately show ?thesis
    using assms sorted_wrt_subseq [OF sub, of "\<lambda>s t. fst s < fst t"] unfolding acc by (auto simp: keeps_def)
qed

section \<open>Creating streams\<close>

lemma unat_and_3: "unat (n AND 3) = unat (n :: u64) mod 4"
proof -
  have "n AND 3 = take_bit 2 n" by (simp add: take_bit_eq_mask mask_eq_exp_minus_1)
  then have "unat (n AND 3) = take_bit 2 (unat n)" by (simp only: unsigned_take_bit_eq)
  then show ?thesis by (simp add: take_bit_eq_mod)
qed

lemma STREAM_TYPE_lt: "STREAM_TYPE_FROM_ID n < 4"
proof -
  have "unat (STREAM_TYPE_FROM_ID n) = unat n mod 4"
    by (simp add: STREAM_TYPE_FROM_ID_def unat_and_3)
  then show ?thesis by (simp add: word_less_nat_alt)
qed

lemma STREAM_TYPE_id: "t < 4 \<Longrightarrow> STREAM_TYPE_FROM_ID t = t"
  by (rule word_unat_eq_iff [THEN iffD2]) (simp add: STREAM_TYPE_FROM_ID_def unat_and_3 word_less_nat_alt)

lemma STREAM_TYPE_next: "STREAM_TYPE_FROM_ID (NEXT_STREAM_ID_FOR_TYPE n) = STREAM_TYPE_FROM_ID n"
proof (rule word_unat_eq_iff [THEN iffD2])
  have "(unat n + 4) mod 18446744073709551616 mod 4 = (unat n + 4) mod 4" by (rule mod_mod_cancel) simp
  then show "unat (STREAM_TYPE_FROM_ID (NEXT_STREAM_ID_FOR_TYPE n)) = unat (STREAM_TYPE_FROM_ID n)"
    by (simp add: STREAM_TYPE_FROM_ID_def NEXT_STREAM_ID_FOR_TYPE_def unat_and_3 unat_word_ariths)
qed

lemma keeps_next_stream_id: "keeps a b \<Longrightarrow> keeps (a\<lparr>next_stream_id := g\<rparr>) (b\<lparr>next_stream_id := g\<rparr>)"
  by (simp add: keeps_def)

lemma account_ok_insert:
  assumes "account_ok cnx" "m = next_stream_id cnx (STREAM_TYPE_FROM_ID m)" "m < 2 ^ 62" "stream_id s = m" "fin_offset s = 0"
  shows "account_ok ((tree_insert_stream s cnx)\<lparr>next_stream_id :=
    (next_stream_id cnx)(STREAM_TYPE_FROM_ID m := NEXT_STREAM_ID_FOR_TYPE m)\<rparr>)"
proof -
  define us where "us = takeWhile (\<lambda>o'. stream_id o' \<le> stream_id s) (stream_tree cnx)"
  define vs where "vs = dropWhile (\<lambda>o'. stream_id o' \<le> stream_id s) (stream_tree cnx)"
  have split: "stream_tree cnx = us @ vs" by (simp add: us_def vs_def)
  have st: "sorted_wrt (\<lambda>s t. stream_id s < stream_id t) (us @ vs)"
    "\<forall>s\<in>set (us @ vs). stream_id s < next_stream_id cnx (STREAM_TYPE_FROM_ID (stream_id s)) \<and> fin_offset s \<le> maxdata_local s"
    using assms(1) by (simp_all add: account_ok_def split)
  have ne: "stream_id u \<noteq> m" if "u \<in> set (us @ vs)" for u using st(2) that assms(2) by fastforce
  have "\<forall>u\<in>set us. stream_id u < m"
  proof
    fix u assume u: "u \<in> set us"
    then have "stream_id u \<le> m" using set_takeWhileD assms(4) unfolding us_def by metis
    then show "stream_id u < m" using ne [of u] u by simp
  qed
  moreover have "\<forall>v\<in>set vs. m < stream_id v"
  proof (cases vs)
    case (Cons w ws)
    then have "dropWhile (\<lambda>o'. stream_id o' \<le> stream_id s) (stream_tree cnx) = w # ws" by (simp add: vs_def)
    then have "m < stream_id w" using hd_dropWhile [of "\<lambda>o'. stream_id o' \<le> stream_id s" "stream_tree cnx"] assms(4) by simp
    then show ?thesis using st(1) unfolding Cons by (auto simp: sorted_wrt_append intro: less_trans)
  qed simp
  moreover have tree: "stream_tree (tree_insert_stream s cnx) = us @ s # vs" by (simp add: tree_insert_stream_def us_def vs_def)
  moreover have nm: "m < NEXT_STREAM_ID_FOR_TYPE m" using assms(3)
    by (simp add: NEXT_STREAM_ID_FOR_TYPE_def word_less_nat_alt unat_word_ariths)
  moreover have "stream_id u < NEXT_STREAM_ID_FOR_TYPE m" if "u \<in> set (us @ vs)" "STREAM_TYPE_FROM_ID (stream_id u) = STREAM_TYPE_FROM_ID m" for u
    using st(2) that assms(2) nm by (metis less_trans)
  ultimately show ?thesis using assms st STREAM_TYPE_next [of m]
    by (simp add: account_ok_def split sorted_wrt_append tree tree_insert_stream_def)
qed

lemma account_ok_create:
  assumes "picoquic_create_stream cnx m = Some (r, cnx')" "account_ok cnx" "m = next_stream_id cnx (STREAM_TYPE_FROM_ID m)" "m < 2 ^ 62"
  shows "account_ok cnx'"
proof (cases "stream_mallocs cnx")
  case Nil
  then show ?thesis using assms account_ok_keeps [of cnx cnx] by (simp add: picoquic_create_stream_def)
next
  case (Cons b ms)
  show ?thesis
  proof (cases b)
    case False
    then show ?thesis using assms(1,2) Cons account_ok_keeps [of cnx cnx'] by (auto simp: picoquic_create_stream_def)
  next
    case True
    define c where "c = cnx\<lparr>stream_mallocs := ms\<rparr>"
    have c: "account_ok c" "next_stream_id c = next_stream_id cnx" using account_ok_keeps [OF _ assms(2), of c] by (simp_all add: c_def)
    obtain s out where s: "stream_setup c m = (s, out)" by fastforce
    have sid: "stream_id s = m" "fin_offset s = 0" using s by (auto simp: stream_setup_def new_stream_def split: if_splits)
    define c1 where "c1 = tree_insert_stream s c"
    have "next_stream_id c1 = next_stream_id cnx" by (simp add: c1_def tree_insert_stream_def c(2))
    define X where "X = (if out then picoquic_insert_output_stream c1 m
                  else do {
                    cnx \<leftarrow> picoquic_remove_output_stream c1 m;
                    (_, cnx) \<leftarrow> picoquic_delete_stream_if_closed cnx m;
                    Some cnx
                  })"
    have "Option.bind X (\<lambda>c2. Some (Some m, if m \<ge> next_stream_id c2 (STREAM_TYPE_FROM_ID m)
        then c2\<lparr>next_stream_id := (next_stream_id c2)(STREAM_TYPE_FROM_ID m := NEXT_STREAM_ID_FOR_TYPE m)\<rparr> else c2)) = Some (r, cnx')"
      using assms(1) Cons True s unfolding X_def c1_def c_def by (simp add: picoquic_create_stream_def Let_def)
    then obtain c2 where c2: "X = Some c2" "cnx' = (if m \<ge> next_stream_id c2 (STREAM_TYPE_FROM_ID m)
        then c2\<lparr>next_stream_id := (next_stream_id c2)(STREAM_TYPE_FROM_ID m := NEXT_STREAM_ID_FOR_TYPE m)\<rparr> else c2)"
      by (cases X) auto
    have k: "keeps c1 c2" using c2(1) unfolding X_def by (auto split: if_splits Option.bind_splits dest!: keeps_insert_output keeps_remove_output keeps_delete_if_closed)
    then have nx: "next_stream_id c2 = next_stream_id cnx" using \<open>next_stream_id c1 = _\<close> by (simp add: keeps_def)
    have cnx': "cnx' = c2\<lparr>next_stream_id := (next_stream_id cnx)(STREAM_TYPE_FROM_ID m := NEXT_STREAM_ID_FOR_TYPE m)\<rparr>"
      using c2(2) assms(3) unfolding nx by simp
    have "m = next_stream_id c (STREAM_TYPE_FROM_ID m)" using assms(3) c(2) by simp
    from account_ok_insert [OF c(1) this assms(4) sid] keeps_next_stream_id [OF k]
    show ?thesis unfolding cnx' c1_def c(2) by (rule account_ok_keeps [rotated])
  qed
qed

lemma account_ok_create_missing:
  assumes "create_missing_loop cnx n st = Some (r, cnx')" "n < 2 ^ 62"
  shows "account_ok cnx \<longrightarrow> account_ok cnx'"
proof -
  have "n < 2 ^ 62 \<longrightarrow> account_ok cnx \<longrightarrow> account_ok (snd (r, cnx'))"
  proof (rule create_missing_loop.raw_induct
      [where P = "\<lambda>cnx n st r. n < 2 ^ 62 \<longrightarrow> account_ok cnx \<longrightarrow> account_ok (snd r)", OF _ assms(1)])
    fix f :: "stream_cnx \<Rightarrow> u64 \<Rightarrow> u64 option \<Rightarrow> (u64 option \<times> stream_cnx) option" and cnx n st r
    assume ih: "\<And>cnx n st r. f cnx n st = Some r \<Longrightarrow> n < 2 ^ 62 \<longrightarrow> account_ok cnx \<longrightarrow> account_ok (snd r)"
    assume run: "(if n \<ge> next_stream_id cnx (STREAM_TYPE_FROM_ID n) then do {
        (stream, cnx) \<leftarrow> picoquic_create_stream cnx (next_stream_id cnx (STREAM_TYPE_FROM_ID n));
        case stream of
          None \<Rightarrow> Some (None, snd (picoquic_connection_error cnx PICOQUIC_TRANSPORT_INTERNAL_ERROR 0))
        | Some m \<Rightarrow>
            f (if \<not> IS_BIDIR_STREAM_ID n \<and> \<not> IS_LOCAL_STREAM_ID n (client_mode cnx)
               then upd_stream m (\<lambda>s. s\<lparr>fin_requested := True, fin_sent := True\<rparr>) cnx else cnx)
              n stream
      } else Some (st, cnx)) = Some r"
    show "n < 2 ^ 62 \<longrightarrow> account_ok cnx \<longrightarrow> account_ok (snd r)"
    proof (intro impI)
      assume n: "n < 2 ^ 62" and ok: "account_ok cnx"
      define m where "m = next_stream_id cnx (STREAM_TYPE_FROM_ID n)"
      have "STREAM_TYPE_FROM_ID m = STREAM_TYPE_FROM_ID n" using ok STREAM_TYPE_lt by (simp add: account_ok_def m_def)
      then have m: "m = next_stream_id cnx (STREAM_TYPE_FROM_ID m)" by (simp add: m_def)
      show "account_ok (snd r)"
      proof (cases "n \<ge> m")
        case True
        then obtain s c where c: "picoquic_create_stream cnx m = Some (s, c)"
          "(case s of None \<Rightarrow> Some (None, snd (picoquic_connection_error c PICOQUIC_TRANSPORT_INTERNAL_ERROR 0))
            | Some m \<Rightarrow> f (if \<not> IS_BIDIR_STREAM_ID n \<and> \<not> IS_LOCAL_STREAM_ID n (client_mode c)
               then upd_stream m (\<lambda>s. s\<lparr>fin_requested := True, fin_sent := True\<rparr>) c else c) n s) = Some r"
          using run unfolding m_def [symmetric] by (auto split: Option.bind_splits)
        have "account_ok c" by (rule account_ok_create [OF c(1) ok m]) (use True n in simp)
        note k = account_ok_keeps [OF _ this]
        show ?thesis
        proof (cases s)
          case None
          then show ?thesis using c(2) k [of "snd r"] by auto
        next
          case (Some x)
          have "account_ok (if \<not> IS_BIDIR_STREAM_ID n \<and> \<not> IS_LOCAL_STREAM_ID n (client_mode c)
               then upd_stream x (\<lambda>s. s\<lparr>fin_requested := True, fin_sent := True\<rparr>) c else c)"
            by (rule k) (simp add: account_key_def)
          then show ?thesis using c(2) Some ih n by auto
        qed
      next
        case False
        then show ?thesis using run ok by (auto simp: m_def)
      qed
    qed
  qed
  then show ?thesis using assms(2) by simp
qed

lemma account_ok_find_or_create:
  assumes "picoquic_find_or_create_stream cnx n b = Some (r, cnx')" "account_ok cnx" "n < 2 ^ 62"
  shows "account_ok cnx'"
proof -
  have "account_ok (snd (picoquic_connection_error cnx e t))" for e t
    by (rule account_ok_keeps [OF _ assms(2)]) simp
  then show ?thesis using assms account_ok_create_missing [of cnx n None r cnx']
    by (auto simp: picoquic_find_or_create_stream_def picoquic_create_missing_streams_def Let_def split: option.splits if_splits)
qed

section \<open>Frames\<close>

lemma flow_control_check:
  assumes "picoquic_find_stream cnx n = Some s" "fin_offset s < e"
  shows "picoquic_flow_control_check_stream_offset cnx n e =
    Some (if unat e \<le> unat (maxdata_local s) \<and>
             unat (data_received cnx) + (unat e - unat (fin_offset s)) \<le> unat (cnx_maxdata_local cnx)
          then (0, upd_stream n (\<lambda>s. s\<lparr>fin_offset := e\<rparr>) (cnx\<lparr>data_received := data_received cnx + (e - fin_offset s)\<rparr>))
          else picoquic_connection_error cnx PICOQUIC_TRANSPORT_FLOW_CONTROL_ERROR 0)"
proof -
  have d: "unat (e - fin_offset s) = unat e - unat (fin_offset s)" using assms(2) by (simp add: unat_sub)
  have "e - fin_offset s > cnx_maxdata_local cnx \<or> cnx_maxdata_local cnx - (e - fin_offset s) < data_received cnx \<longleftrightarrow>
      \<not> unat (data_received cnx) + (unat e - unat (fin_offset s)) \<le> unat (cnx_maxdata_local cnx)"
  proof (cases "e - fin_offset s > cnx_maxdata_local cnx")
    case True
    then have "unat (cnx_maxdata_local cnx) < unat e - unat (fin_offset s)" unfolding d [symmetric] by (simp add: word_less_nat_alt)
    with True show ?thesis by simp
  next
    case False
    then have le: "unat e - unat (fin_offset s) \<le> unat (cnx_maxdata_local cnx)"
      unfolding d [symmetric] by (simp add: word_le_nat_alt not_less)
    then have "unat (cnx_maxdata_local cnx - (e - fin_offset s)) = unat (cnx_maxdata_local cnx) - (unat e - unat (fin_offset s))"
      using False by (simp add: unat_sub d)
    then show ?thesis using False le by (auto simp: word_less_nat_alt)
  qed
  then show ?thesis using assms
    by (auto simp: picoquic_flow_control_check_stream_offset_def Let_def word_less_nat_alt word_le_nat_alt)
qed

lemma sum_upd_stream:
  assumes "sorted_wrt (\<lambda>s t. stream_id s < stream_id t) ss" "List.find (\<lambda>s. stream_id s = n) ss = Some s"
  shows "(\<Sum>s\<leftarrow>map (\<lambda>s. if stream_id s = n then s\<lparr>fin_offset := e\<rparr> else s) ss. unat (fin_offset s)) + unat (fin_offset s) =
    (\<Sum>s\<leftarrow>ss. unat (fin_offset s)) + unat e"
  using assms
proof (induction ss)
  case (Cons t ss)
  show ?case
  proof (cases "stream_id t = n")
    case True
    then have "\<forall>u\<in>set ss. stream_id u \<noteq> n" using Cons.prems(1) by fastforce
    then have "map (\<lambda>s. if stream_id s = n then s\<lparr>fin_offset := e\<rparr> else s) ss = ss" by (simp add: map_idI)
    then show ?thesis using True Cons.prems(2) by (simp del: map_map)
  next
    case False
    then show ?thesis using Cons by (simp del: map_map)
  qed
qed simp

lemma account_ok_flow_control:
  assumes "picoquic_flow_control_check_stream_offset cnx n e = Some (r, cnx')" "account_ok cnx"
  shows "account_ok cnx'"
proof -
  obtain s where s: "picoquic_find_stream cnx n = Some s"
    using assms(1) by (auto simp: picoquic_flow_control_check_stream_offset_def split: Option.bind_splits)
  have err: "account_ok (snd (picoquic_connection_error cnx c t))" for c t by (rule account_ok_keeps [OF _ assms(2)]) simp
  define fits where "fits \<longleftrightarrow> unat e \<le> unat (maxdata_local s) \<and>
      unat (data_received cnx) + (unat e - unat (fin_offset s)) \<le> unat (cnx_maxdata_local cnx)"
  define c where "c = upd_stream n (\<lambda>s. s\<lparr>fin_offset := e\<rparr>) (cnx\<lparr>data_received := data_received cnx + (e - fin_offset s)\<rparr>)"
  consider "cnx' = cnx" | t where "cnx' = snd (picoquic_connection_error cnx t 0)" | "fin_offset s < e" "fits" "cnx' = c"
  proof (cases "fin_offset s < e")
    case True
    then have "(if fits then (0, c) else picoquic_connection_error cnx PICOQUIC_TRANSPORT_FLOW_CONTROL_ERROR 0) = (r, cnx')"
      using assms(1) flow_control_check [OF s True, folded fits_def c_def] by simp
    then show ?thesis using that(2,3) True by (metis Pair_inject snd_conv)
  next
    case False
    then have "(if e > maxdata_local s then picoquic_connection_error cnx PICOQUIC_TRANSPORT_FLOW_CONTROL_ERROR 0 else (0, cnx)) = (r, cnx')"
      using assms(1) s by (simp add: picoquic_flow_control_check_stream_offset_def split: if_splits)
    then show ?thesis using that(1,2) by (metis Pair_inject snd_conv)
  qed
  then show ?thesis
  proof cases
    case 3
    note fits = 3(2) [unfolded fits_def]
    have d: "unat (e - fin_offset s) = unat e - unat (fin_offset s)" "unat (fin_offset s) \<le> unat e"
      using 3(1) by (simp_all add: unat_sub word_less_nat_alt less_imp_le)
    have new: "unat (data_received cnx + (e - fin_offset s)) = unat (data_received cnx) + (unat e - unat (fin_offset s))"
    proof -
      have lt: "unat (cnx_maxdata_local cnx) < 2 ^ LENGTH(64)" by (rule unsigned_less)
      have "unat (data_received cnx) + unat (e - fin_offset s) < 2 ^ LENGTH(64)"
        using fits lt unfolding d(1) by linarith
      then show ?thesis by (simp add: unat_word_ariths d(1))
    qed
    define tree where "tree = map (\<lambda>s. if stream_id s = n then s\<lparr>fin_offset := e\<rparr> else s) (stream_tree cnx)"
    have st: "sorted_wrt (\<lambda>s t. stream_id s < stream_id t) (stream_tree cnx)" using assms(2) by (simp add: account_ok_def)
    have "(\<Sum>s\<leftarrow>tree. unat (fin_offset s)) + unat (fin_offset s) = (\<Sum>s\<leftarrow>stream_tree cnx. unat (fin_offset s)) + unat e"
      unfolding tree_def using sum_upd_stream [OF st, of n s e] s by (simp add: picoquic_find_stream_def del: map_map)
    then have "(\<Sum>s\<leftarrow>tree. unat (fin_offset s)) \<le> unat (data_received cnx) + (unat e - unat (fin_offset s))"
      using assms(2) d(2) unfolding account_ok_def by linarith
    moreover have "sorted_wrt (\<lambda>s t. stream_id s < stream_id t) tree"
    proof -
      have "(\<lambda>(s :: stream_head) (t :: stream_head). stream_id (if stream_id s = n then s\<lparr>fin_offset := e\<rparr> else s) <
          stream_id (if stream_id t = n then t\<lparr>fin_offset := e\<rparr> else t)) = (\<lambda>s t. stream_id s < stream_id t)"
        by (intro ext) simp
      with st show ?thesis unfolding tree_def sorted_wrt_map by (simp only:)
    qed
    moreover have "\<forall>u\<in>set tree. stream_id u < next_stream_id cnx (STREAM_TYPE_FROM_ID (stream_id u)) \<and> fin_offset u \<le> maxdata_local u"
    proof
      fix u assume "u \<in> set tree"
      then obtain v where v: "v \<in> set (stream_tree cnx)" "u = (if stream_id v = n then v\<lparr>fin_offset := e\<rparr> else v)" by (auto simp: tree_def)
      have "v = s" if "stream_id v = n"
      proof -
        have "s \<in> set (stream_tree cnx)" "stream_id s = n" using s by (auto simp: picoquic_find_stream_def find_Some_iff)
        moreover have "distinct (map stream_id (stream_tree cnx))"
        proof -
          have "sorted_wrt (<) (map stream_id (stream_tree cnx))" using st by (simp add: sorted_wrt_map)
          then show ?thesis by (simp add: strict_sorted_iff)
        qed
        ultimately show ?thesis using v(1) that by (metis distinct_map inj_onD)
      qed
      then show "stream_id u < next_stream_id cnx (STREAM_TYPE_FROM_ID (stream_id u)) \<and> fin_offset u \<le> maxdata_local u"
        using v assms(2) fits by (auto simp: account_ok_def word_le_nat_alt)
    qed
    moreover have "stream_tree c = tree" "data_received c = data_received cnx + (e - fin_offset s)"
      "cnx_maxdata_local c = cnx_maxdata_local cnx" "next_stream_id c = next_stream_id cnx"
      by (simp_all add: c_def upd_stream_def tree_def)
    ultimately show ?thesis using assms(2) new fits d(2) 3(3) by (simp add: account_ok_def word_le_nat_alt)
  qed (use assms(2) err in auto)
qed

lemma account_ok_input_check:
  assumes "stream_input_check cnx n fin e now = Some (r, cnx')" "account_ok cnx"
  shows "account_ok cnx'"
proof -
  obtain s where s: "picoquic_find_stream cnx n = Some s" using assms(1) by (auto simp: stream_input_check_def split: Option.bind_splits)
  note k = account_ok_keeps [OF _ assms(2)]
  show ?thesis
  proof (cases "fin_received s")
    case True
    then have "keeps cnx cnx'" using assms(1) s
      by (auto simp: stream_input_check_def case_prod_beta split: if_splits)
    then show ?thesis by (rule k)
  next
    case False
    define X where "X = (if fin then
                 picoquic_update_max_stream_ID_local
                   ((upd_stream n (\<lambda>s. s\<lparr>fin_received := True\<rparr>) cnx)\<lparr>latest_progress_time := now\<rparr>) n
               else Some cnx)"
    obtain c where c: "X = Some c"
      "(if e > fin_offset s then picoquic_flow_control_check_stream_offset c n e else Some (0, c)) = Some (fst (fst (r, cnx')), cnx') \<or>
       (\<exists>r'. (if e > fin_offset s then picoquic_flow_control_check_stream_offset c n e else Some (0, c)) = Some (r', cnx'))"
      using assms(1) s False by (auto simp: stream_input_check_def X_def [symmetric] split: Option.bind_splits)
    have "keeps cnx c" using c(1) by (auto simp: X_def split: if_splits dest!: keeps_update_max_id)
    then have "account_ok c" by (rule k)
    then show ?thesis using c(2) account_ok_flow_control by (auto split: if_splits)
  qed
qed

lemma account_ok_network_input:
  assumes "picoquic_stream_network_input cnx n ofs fin b rd now = Some (ret, cnx')" "account_ok cnx" "n < 2 ^ 62"
  shows "account_ok cnx'"
proof -
  obtain st c where c: "picoquic_find_or_create_stream cnx n True = Some (st, c)"
    using assms(1) by (auto simp: picoquic_stream_network_input_def split: Option.bind_splits)
  have a: "account_ok c" by (rule account_ok_find_or_create [OF c assms(2,3)])
  show ?thesis
  proof (cases st)
    case None
    then show ?thesis using assms(1) c a by (simp add: picoquic_stream_network_input_def split: if_splits)
  next
    case (Some x)
    obtain r c1 where c1: "stream_input_check c n fin (ofs + of_nat (length b)) now = Some (r, c1)"
      using assms(1) c Some by (auto simp: picoquic_stream_network_input_def split: Option.bind_splits)
    have a1: "account_ok c1" by (rule account_ok_input_check [OF c1 a])
    have "keeps c1 cnx'" using assms(1) c Some c1
      by (cases r) (auto simp: picoquic_stream_network_input_def split: Option.bind_splits if_splits
          dest!: keeps_input_data keeps_input_close)
    then show ?thesis by (rule account_ok_keeps [OF _ a1])
  qed
qed

lemma varint_small: "picoquic_varint_decode bs = (l, v) \<Longrightarrow> v < 2 ^ 62"
  using varint_decode_bound [of bs] by simp

lemma frames_varint_small: "picoquic_frames_varint_decode bs = Some (v, rest) \<Longrightarrow> v < 2 ^ 62"
  using varint_small [of bs] by (auto simp: frames_varint_decode_eq split: prod.splits if_splits)

lemma parse_stream_id_small:
  assumes "picoquic_parse_stream_header bytes h0 = (ret, h)" "sh_stream_id h0 < 2 ^ 62"
  shows "sh_stream_id h < 2 ^ 62"
proof -
  define step where "step = (if length bytes > 1 then
      let (l, v) = picoquic_varint_decode (drop 1 bytes) in (l, h0\<lparr>sh_fin := (hd bytes AND 1 \<noteq> 0), sh_stream_id := v\<rparr>)
    else (0, h0\<lparr>sh_fin := (hd bytes AND 1 \<noteq> 0)\<rparr>))"
  obtain l1 h1 where s1: "step = (l1, h1)" by fastforce
  have "sh_stream_id h1 < 2 ^ 62"
    using s1 assms(2) varint_small [of "drop 1 bytes"] by (auto simp: step_def split: if_splits prod.splits)
  moreover have "sh_stream_id h = sh_stream_id h1"
    using assms(1) s1 unfolding picoquic_parse_stream_header_def step_def
    by (simp add: Let_def) (auto split: if_splits prod.splits)
  ultimately show ?thesis by simp
qed

lemma account_ok_decode_stream:
  assumes "picoquic_decode_stream_frame cnx bytes rd now = Some (rest, cnx')" "account_ok cnx"
  shows "account_ok cnx'"
proof -
  obtain ret h where h: "picoquic_parse_stream_header bytes
             \<lparr>sh_stream_id = 0, sh_offset = 0, sh_data_length = 0, sh_fin = False, sh_consumed = 0\<rparr> = (ret, h)"
    by fastforce
  have err: "account_ok (snd (picoquic_connection_error cnx c t))" for c t by (rule account_ok_keeps [OF _ assms(2)]) simp
  show ?thesis
  proof (cases "ret \<noteq> 0 \<or> sh_offset h + of_nat (sh_data_length h) \<ge> 2 ^ 62")
    case True
    then show ?thesis using assms h err by (auto simp: picoquic_decode_stream_frame_def split: if_splits)
  next
    case False
    then show ?thesis using assms h account_ok_network_input parse_stream_id_small [of bytes]
      by (fastforce simp: picoquic_decode_stream_frame_def Let_def split: Option.bind_splits if_splits)
  qed
qed

lemma account_ok_update_max_id:
  "picoquic_update_max_stream_ID_local cnx n = Some cnx' \<Longrightarrow> account_ok cnx \<Longrightarrow> account_ok cnx'"
  using account_ok_keeps [OF keeps_update_max_id [OF _ keeps_refl]] by blast

lemma account_ok_decode_reset:
  assumes "picoquic_decode_stream_reset_frame cnx bytes = Some (rest, cnx')" "account_ok cnx"
  shows "account_ok cnx'"
proof -
  define P where "P = do { (n, bytes) \<leftarrow> picoquic_frames_varint_decode (tl bytes);
                (error_code, bytes) \<leftarrow> picoquic_frames_varint_decode bytes;
                (final_offset, bytes) \<leftarrow> picoquic_frames_varint_decode bytes;
                Some (n, error_code, final_offset, bytes) }"
  show ?thesis
  proof (cases P)
    case None
    then show ?thesis using assms account_ok_keeps [OF _ assms(2)] by (auto simp: picoquic_decode_stream_reset_frame_def P_def)
  next
    case (Some p)
    then obtain n err e r where p: "P = Some (n, err, e, r)" by (cases p) auto
    have "\<exists>r. picoquic_frames_varint_decode (tl bytes) = Some (n, r)" using p by (auto simp: P_def split: Option.bind_splits)
    then have n: "n < 2 ^ 62" using frames_varint_small by blast
    obtain st c where c: "picoquic_find_or_create_stream cnx n True = Some (st, c)"
      using assms(1) p by (auto simp: picoquic_decode_stream_reset_frame_def P_def [symmetric] split: Option.bind_splits)
    have a: "account_ok c" by (rule account_ok_find_or_create [OF c assms(2) n])
    note k = account_ok_keeps [OF _ a]
    show ?thesis
    proof (cases st)
      case None
      then show ?thesis using assms(1) c p a by (simp add: picoquic_decode_stream_reset_frame_def P_def [symmetric])
    next
      case (Some x)
      obtain s where s: "picoquic_find_stream c n = Some s"
        using assms(1) c p Some by (auto simp: picoquic_decode_stream_reset_frame_def P_def [symmetric] split: Option.bind_splits)
      show ?thesis
      proof (cases "(fin_received s \<or> reset_received s) \<and> e \<noteq> fin_offset s")
        case True
        then have "cnx' = snd (picoquic_connection_error c PICOQUIC_TRANSPORT_FINAL_OFFSET_ERROR 0x04)"
          using assms(1) c p Some s by (simp add: picoquic_decode_stream_reset_frame_def P_def [symmetric])
        then show ?thesis using k by simp
      next
        case False
        obtain ret c1 where c1: "picoquic_flow_control_check_stream_offset c n e = Some (ret, c1)"
          using assms(1) c p Some s False
          by (auto simp: picoquic_decode_stream_reset_frame_def P_def [symmetric] split: Option.bind_splits)
        have a1: "account_ok c1" by (rule account_ok_flow_control [OF c1 a])
        have "keeps c1 cnx'" using assms(1) c p Some s False c1
          by (auto simp: picoquic_decode_stream_reset_frame_def P_def [symmetric] Let_def split: Option.bind_splits if_splits
              dest!: keeps_update_max_id keeps_signal_reset)
        then show ?thesis by (rule account_ok_keeps [OF _ a1])
      qed
    qed
  qed
qed

end
