(* ===== verification/Reassembly.thy ===== *)
theory Reassembly
  imports StreamProps StreamCredit
begin

text \<open>
  Whole STREAM frames: the checks of the final offset and of flow control, delivery, and the end of the
  stream, for any sequence of frames of a stream in any order and with any overlap.
\<close>

section \<open>The checks\<close>

text \<open>
  What the peer may send, in natural numbers: with the final offset known, nothing beyond it, and the
  same one; otherwise no more than the limits of the stream and of the connection.
\<close>

definition frame_allowed :: "stream_cnx \<Rightarrow> stream_head \<Rightarrow> bool \<Rightarrow> u64 \<Rightarrow> bool" where
  "frame_allowed cnx s fin e \<longleftrightarrow>
     (if fin_received s then (if fin then e = fin_offset s else e \<le> fin_offset s)
      else unat e \<le> unat (fin_offset s) \<or>
        unat e \<le> unat (maxdata_local s) \<and>
        unat (data_received cnx) + (unat e - unat (fin_offset s)) \<le> unat (cnx_maxdata_local cnx))"

text \<open>The stream after a frame up to \<open>e\<close> has passed the checks.\<close>

definition checked :: "stream_head \<Rightarrow> bool \<Rightarrow> u64 \<Rightarrow> stream_head \<Rightarrow> bool" where
  "checked s fin e s' \<longleftrightarrow>
     (\<exists>u. s' = s\<lparr>fin_received := (fin_received s \<or> fin), fin_offset := max (fin_offset s) e, max_stream_updated := u\<rparr>)"

definition same_log :: "stream_cnx \<Rightarrow> stream_cnx \<Rightarrow> bool" where
  "same_log cnx cnx' \<longleftrightarrow> pool cnx' = pool cnx \<and> callbacks cnx' = callbacks cnx \<and> callback_fn cnx' = callback_fn cnx"

lemma update_max_stream_id:
  assumes "picoquic_find_stream cnx n = Some s"
  shows "\<exists>cnx' u. picoquic_update_max_stream_ID_local cnx n = Some cnx' \<and> same_log cnx cnx' \<and>
    picoquic_find_stream cnx' n = Some (s\<lparr>max_stream_updated := u\<rparr>) \<and> data_received cnx' = data_received cnx \<and>
    cnx_maxdata_local cnx' = cnx_maxdata_local cnx"
proof -
  have f: "picoquic_find_stream (cnx\<lparr>max_stream_id_bidir_local_computed := x\<rparr>) n = Some s"
    "picoquic_find_stream (cnx\<lparr>max_stream_id_unidir_local_computed := x\<rparr>) n = Some s" for x
    using assms by (simp_all add: picoquic_find_stream_def)
  define due where "due \<longleftrightarrow> client_mode cnx \<noteq> IS_CLIENT_STREAM_ID n \<and> \<not> max_stream_updated s \<and>
      consumed_offset s \<ge> fin_offset s \<and> (fin_received s \<or> reset_received s)"
  define bidir where "bidir \<longleftrightarrow> IS_BIDIR_STREAM_ID n"
  define sent where "sent \<longleftrightarrow> fin_sent s \<or> reset_sent s"
  have "picoquic_update_max_stream_ID_local cnx n = Some (
      if due \<and> bidir \<and> sent then
        upd_stream n (\<lambda>s. s\<lparr>max_stream_updated := True\<rparr>)
          (cnx\<lparr>max_stream_id_bidir_local_computed := max_stream_id_bidir_local_computed cnx + 4\<rparr>)
      else if due \<and> \<not> bidir then
        upd_stream n (\<lambda>s. s\<lparr>max_stream_updated := True\<rparr>)
          (cnx\<lparr>max_stream_id_unidir_local_computed := max_stream_id_unidir_local_computed cnx + 4\<rparr>)
      else cnx)"
    using assms by (auto simp: picoquic_update_max_stream_ID_local_def due_def bidir_def sent_def)
  then consider "picoquic_update_max_stream_ID_local cnx n = Some cnx"
    | x where "picoquic_update_max_stream_ID_local cnx n =
        Some (upd_stream n (\<lambda>s. s\<lparr>max_stream_updated := True\<rparr>) (cnx\<lparr>max_stream_id_bidir_local_computed := x\<rparr>))"
    | x where "picoquic_update_max_stream_ID_local cnx n =
        Some (upd_stream n (\<lambda>s. s\<lparr>max_stream_updated := True\<rparr>) (cnx\<lparr>max_stream_id_unidir_local_computed := x\<rparr>))"
    by (split if_split_asm; (split if_split_asm)?; blast)
  then show ?thesis
  proof cases
    case 1
    have "s = s\<lparr>max_stream_updated := max_stream_updated s\<rparr>" by simp
    with assms have "picoquic_find_stream cnx n = Some (s\<lparr>max_stream_updated := max_stream_updated s\<rparr>)" by simp
    with 1 show ?thesis by (intro exI [of _ cnx] exI [of _ "max_stream_updated s"]) (simp add: same_log_def)
  qed (auto simp: same_log_def find_stream_upd f)
qed

lemma stream_input_check_ok:
  assumes "picoquic_find_stream cnx n = Some s"
  shows "\<exists>ret notify cnx'. stream_input_check cnx n fin e now = Some ((ret, notify), cnx') \<and> same_log cnx cnx' \<and>
    (if frame_allowed cnx s fin e
     then ret = 0 \<and> notify = (fin \<and> \<not> fin_received s) \<and>
       (\<exists>s'. picoquic_find_stream cnx' n = Some s' \<and> checked s fin e s')
     else ret = PICOQUIC_ERROR_DETECTED)"
proof (cases "fin_received s")
  case True
  have m: "e \<le> fin_offset s \<Longrightarrow> checked s fin e s"
    using True unfolding checked_def by (intro exI [of _ "max_stream_updated s"]) (simp add: max_def)
  have "stream_input_check cnx n fin e now = Some (if frame_allowed cnx s fin e then ((0, False), cnx) else
      ((PICOQUIC_ERROR_DETECTED, False), snd (picoquic_connection_error cnx PICOQUIC_TRANSPORT_FINAL_OFFSET_ERROR 0)))"
    using True assms by (auto simp: stream_input_check_def frame_allowed_def not_less case_prod_beta)
  then show ?thesis using True m assms by (auto simp: frame_allowed_def same_log_def)
next
  case False
  define cnx1 where "cnx1 = (if fin then picoquic_update_max_stream_ID_local
      ((upd_stream n (\<lambda>s. s\<lparr>fin_received := True\<rparr>) cnx)\<lparr>latest_progress_time := now\<rparr>) n else Some cnx)"
  obtain c u where c: "cnx1 = Some c" "same_log cnx c" "picoquic_find_stream c n = Some (s\<lparr>fin_received := fin, max_stream_updated := u\<rparr>)"
    "data_received c = data_received cnx" "cnx_maxdata_local c = cnx_maxdata_local cnx"
  proof (cases fin)
    case True
    have "picoquic_find_stream ((upd_stream n (\<lambda>s. s\<lparr>fin_received := True\<rparr>) cnx)\<lparr>latest_progress_time := now\<rparr>) n =
        Some (s\<lparr>fin_received := True\<rparr>)" using assms by (simp add: find_stream_upd)
    from update_max_stream_id [OF this] show ?thesis using that True by (auto simp: cnx1_def same_log_def)
  next
    case f: False
    have "s\<lparr>fin_received := False, max_stream_updated := max_stream_updated s\<rparr> = s" using False by simp
    then show ?thesis using that [of cnx "max_stream_updated s"] f assms by (simp add: cnx1_def same_log_def)
  qed
  define r where "r = (if e > fin_offset s then picoquic_flow_control_check_stream_offset c n e else Some (0, c))"
  have run: "stream_input_check cnx n fin e now = map_option (\<lambda>(r, c). ((r, fin), c)) r"
    using assms False c(1) unfolding stream_input_check_def cnx1_def [symmetric] r_def by (auto split: Option.bind_splits)
  show ?thesis
  proof (cases "e > fin_offset s")
    case gt: True
    define s1 where "s1 = s\<lparr>fin_received := fin, max_stream_updated := u\<rparr>"
    have al: "frame_allowed cnx s fin e \<longleftrightarrow> unat e \<le> unat (maxdata_local s) \<and>
             unat (data_received cnx) + (unat e - unat (fin_offset s)) \<le> unat (cnx_maxdata_local cnx)"
      using False gt by (auto simp: frame_allowed_def word_less_nat_alt)
    have "r = Some (if frame_allowed cnx s fin e
        then (0, upd_stream n (\<lambda>s. s\<lparr>fin_offset := e\<rparr>) (c\<lparr>data_received := data_received c + (e - fin_offset s)\<rparr>))
        else picoquic_connection_error c PICOQUIC_TRANSPORT_FLOW_CONTROL_ERROR 0)"
      using flow_control_check [OF c(3)] gt c(4,5) unfolding al by (simp add: r_def)
    moreover have "checked s fin e (s1\<lparr>fin_offset := e\<rparr>)" using False gt unfolding checked_def by (intro exI [of _ u]) (simp add: max_def s1_def)
    moreover have "fst (picoquic_connection_error c PICOQUIC_TRANSPORT_FLOW_CONTROL_ERROR 0) = PICOQUIC_ERROR_DETECTED" by simp
    ultimately show ?thesis using run c(2,3) False
      by (cases "picoquic_connection_error c PICOQUIC_TRANSPORT_FLOW_CONTROL_ERROR 0")
        (auto simp: same_log_def find_stream_upd s1_def dest!: arg_cong [of _ _ snd])
  next
    case le: False
    then have "checked s fin e (s\<lparr>fin_received := fin, max_stream_updated := u\<rparr>)" using False unfolding checked_def by (intro exI [of _ u]) (simp add: max_def)
    moreover have "frame_allowed cnx s fin e" using False le by (simp add: frame_allowed_def word_less_nat_alt not_less)
    ultimately show ?thesis using run le c False by (auto simp: r_def)
  qed
qed

text \<open>The end of the handling of a frame, for a stream that is still sending.\<close>

definition still_sending :: "u64 \<Rightarrow> stream_head \<Rightarrow> bool" where
  "still_sending n s \<longleftrightarrow> IS_BIDIR_STREAM_ID n \<and> \<not> fin_sent s \<and> \<not> reset_sent s \<and> \<not> is_closed s"

lemma stream_input_close_ok:
  assumes "picoquic_find_stream cnx n = Some s" "still_sending n s"
  shows "\<exists>cnx'. stream_input_close cnx n = Some cnx' \<and> same_log cnx cnx' \<and> picoquic_find_stream cnx' n = Some s"
proof -
  have "picoquic_delete_stream_if_closed cnx n = Some (False, cnx)"
    using assms find_stream_id [OF assms(1)]
    by (simp add: picoquic_delete_stream_if_closed_def picoquic_is_stream_closed_def picoquic_is_stream_acked_def still_sending_def)
  then show ?thesis using assms(1) by (auto simp: stream_input_close_def same_log_def Let_def)
qed

lemma still_sending_at_rest: "at_rest s' = at_rest s \<Longrightarrow> still_sending n s' = still_sending n s"
proof -
  have "still_sending n (at_rest t) = still_sending n t" for t by (simp add: still_sending_def at_rest_def)
  then show "at_rest s' = at_rest s \<Longrightarrow> still_sending n s' = still_sending n s" by metis
qed

section \<open>A whole frame\<close>

lemma tr_unique: "tr h up p T \<Longrightarrow> tr h up p T' \<Longrightarrow> T = T'"
proof (induction T arbitrary: up p T')
  case Leaf
  then show ?case by (cases T') auto
next
  case (Node l a r)
  then show ?case by (cases T') fastforce+
qed

lemma represents_unique:
  assumes "represents t xs" "represents t ys"
  shows "xs = ys"
  using assms tr_unique unfolding represents_def by blast

lemma stream_at_same:
  assumes "stream_at D n R xs received cnx s" "same_log cnx cnx'" "picoquic_find_stream cnx' n = Some s'"
    "to_application cnx' s'" "consumed_offset s' = consumed_offset s" "stream_data_tree s' = stream_data_tree s"
  shows "stream_at D n R xs received cnx' s'"
  using assms by (simp add: stream_at_def same_log_def)

text \<open>The frame from \<open>ofs\<close> on with \<open>l\<close> bytes of the stream, in a packet.\<close>

definition fits_packet :: "u64 \<Rightarrow> nat \<Rightarrow> bool" where
  "fits_packet ofs l \<longleftrightarrow> unat ofs + l < 2 ^ 62 \<and> l \<le> 1536"

text \<open>
  The end of the stream: what was received lies below the final offset seen so far. \<open>F\<close> holds the ends
  that the accepted frames with the FIN bit claimed. The application is told at most once, and only with everything
  received; when all of \<open>F\<close> is the final offset, it is told as soon as it has everything.
\<close>

definition end_ok :: "u64 \<Rightarrow> nat set \<Rightarrow> nat set \<Rightarrow> stream_cnx \<Rightarrow> stream_head \<Rightarrow> bool" where
  "end_ok n R F cnx s \<longleftrightarrow> R \<subseteq> {..<unat (fin_offset s)} \<and> (fin_received s \<longleftrightarrow> F \<noteq> {}) \<and>
     (fin_signalled s \<longrightarrow> fin_received s \<and> consumed_offset s \<ge> fin_offset s) \<and>
     (F \<subseteq> {unat (fin_offset s)} \<and> fin_received s \<and> consumed_offset s \<ge> fin_offset s \<longrightarrow> fin_signalled s) \<and>
     fins_signalled n (callbacks cnx) = (if fin_signalled s then 1 else 0)"

abbreviation fin_at :: "bool \<Rightarrow> nat \<Rightarrow> nat set" where
  "fin_at fin e \<equiv> (if fin then {e} else {})"

lemma end_ok_frame:
  assumes "end_ok n R F cnx s" "checked s fin e s1" "callbacks c1 = callbacks cnx" "delivers D n c1 s1 cnx' s'"
    "frame_allowed cnx s fin e" "R' \<subseteq> R \<union> {..<unat e}" "consumed_offset s \<le> fin_offset s"
    "(fin \<and> \<not> fin_received s \<and> consumed_offset s1 \<le> e \<or> consumed_offset s' \<noteq> consumed_offset s1) \<and>
       fin_received s' \<and> consumed_offset s' \<ge> fin_offset s' \<longrightarrow> fin_signalled s'"
  shows "end_ok n R' (F \<union> fin_at fin (unat e)) cnx' s'"
proof -
  have s1: "fin_received s1 = (fin_received s \<or> fin)" "fin_offset s1 = max (fin_offset s) e" "fin_signalled s1 = fin_signalled s"
    "consumed_offset s1 = consumed_offset s"
    using assms(2) by (auto simp: checked_def)
  have s': "fin_received s' = fin_received s1" "fin_offset s' = fin_offset s1"
    using at_rest_eqD [of s' s1] assms(4) by (simp_all add: delivers_def)
  have fixed: "fin_received s \<Longrightarrow> fin_offset s1 = fin_offset s"
    using assms(5) by (auto simp: s1 frame_allowed_def max_def split: if_splits)
  have le: "consumed_offset s1 \<le> consumed_offset s'" using assms(4) by (simp add: delivers_def word_le_nat_alt)
  have "fin_received s' \<and> consumed_offset s' \<ge> fin_offset s'" if "fin_signalled s'"
  proof -
    have "fin_signalled s1 \<or> fin_received s1 \<and> consumed_offset s' \<ge> fin_offset s1" using that assms(4) by (simp add: delivers_def)
    moreover have "fin_signalled s \<Longrightarrow> fin_received s \<and> fin_offset s \<le> consumed_offset s" using assms(1) unfolding end_ok_def by blast
    ultimately show ?thesis using fixed le unfolding s' s1(3,4) by (auto simp: s1(1))
  qed
  moreover have "fin_signalled s'"
    if F: "F \<union> fin_at fin (unat e) \<subseteq> {unat (fin_offset s')}" and a: "fin_received s' \<and> consumed_offset s' \<ge> fin_offset s'"
  proof (cases "consumed_offset s' \<noteq> consumed_offset s1 \<or> \<not> fin_received s")
    case True
    have "fin \<Longrightarrow> fin_offset s \<le> e" using F unfolding s' s1 by (auto simp: max_def word_le_nat_alt split: if_splits)
    then have "\<not> fin_received s \<Longrightarrow> fin \<and> consumed_offset s1 \<le> e"
      using a assms(7) unfolding s' s1 by (auto intro: order_trans)
    then show ?thesis using True a assms(8) by blast
  next
    case False
    then have "F \<subseteq> {unat (fin_offset s)}" using F fixed unfolding s' by auto
    then have "fin_signalled s" using False a assms(1) fixed unfolding s' end_ok_def by (simp add: s1(4))
    then show ?thesis using assms(4) s1(3) by (simp add: delivers_def)
  qed
  moreover have "fin_received s' \<longleftrightarrow> F \<union> fin_at fin (unat e) \<noteq> {}" using assms(1) unfolding s' s1 end_ok_def by auto
  moreover have "R' \<subseteq> {..<unat (fin_offset s')}"
  proof -
    have "unat (fin_offset s) \<le> unat (fin_offset s')" "unat e \<le> unat (fin_offset s')"
      unfolding s' s1 by (simp_all add: max_def word_le_nat_alt)
    then show ?thesis using assms(1,6) unfolding end_ok_def by (auto dest!: subsetD)
  qed
  moreover have "fins_signalled n (callbacks cnx') = (if fin_signalled s' then 1 else 0)"
    using assms(1,3,4) s1(3) unfolding end_ok_def delivers_def by (simp split: if_splits)
  ultimately show ?thesis by (simp add: end_ok_def)
qed

lemma network_input_ok:
  assumes "stream_at D n R xs received cnx s" "still_sending n s" "fits_packet ofs l"
  defines "e \<equiv> ofs + of_nat l" and "R' \<equiv> R \<union> {unat ofs..<unat ofs + l}"
  shows "\<exists>ret cnx'. picoquic_stream_network_input cnx n ofs fin (map D [unat ofs..<unat ofs + l]) received now = Some (ret, cnx') \<and>
    (ret = 0 \<or> ret = PICOQUIC_ERROR_DETECTED) \<and>
    (\<not> frame_allowed cnx s fin e \<longrightarrow> ret = PICOQUIC_ERROR_DETECTED \<and> callbacks cnx' = callbacks cnx) \<and>
    (frame_allowed cnx s fin e \<and> length xs < stock (pool cnx) \<longrightarrow> ret = 0) \<and>
    (ret = 0 \<longrightarrow> (\<exists>xs' s'. stream_at D n R' xs' received cnx' s' \<and>
      (\<forall>F. end_ok n R F cnx s \<longrightarrow> end_ok n R' (F \<union> fin_at fin (unat ofs + l)) cnx' s')))"
proof -
  have f: "picoquic_find_stream cnx n = Some s" using assms(1) by (simp add: stream_at_def)
  have e: "unat e = unat ofs + l" using assms(3)
    by (simp add: e_def fits_packet_def unat_word_ariths unsigned_of_nat take_bit_nat_eq_self)
  obtain ret1 notify c1 where c: "stream_input_check cnx n fin e now = Some ((ret1, notify), c1)" "same_log cnx c1"
    "if frame_allowed cnx s fin e
     then ret1 = 0 \<and> notify = (fin \<and> \<not> fin_received s) \<and> (\<exists>s'. picoquic_find_stream c1 n = Some s' \<and> checked s fin e s')
     else ret1 = PICOQUIC_ERROR_DETECTED"
    using stream_input_check_ok [OF f, of fin e now] by blast
  define run where "run = picoquic_stream_network_input cnx n ofs fin (map D [unat ofs..<unat ofs + l]) received now"
  have run: "run = (if ret1 \<noteq> 0 then Some (ret1, c1) else do {
        (ret, cnx) \<leftarrow> stream_input_data c1 n ofs fin (map D [unat ofs..<unat ofs + l]) received notify now;
        if ret \<noteq> 0 then Some (ret, cnx) else do { cnx \<leftarrow> stream_input_close cnx n; Some (0, cnx) } })"
    using f c(1) by (simp add: run_def picoquic_stream_network_input_def picoquic_find_or_create_stream_def e_def)
  show ?thesis
  proof (cases "frame_allowed cnx s fin e")
    case False
    then have "ret1 = PICOQUIC_ERROR_DETECTED" using c(3) by simp
    then show ?thesis using run c(2) False unfolding run_def by (simp add: same_log_def)
  next
    case True
    then obtain s1 where s1: "picoquic_find_stream c1 n = Some s1" "checked s fin e s1" and n: "ret1 = 0" "notify = (fin \<and> \<not> fin_received s)"
      using c(3) by auto
    have eq: "consumed_offset s1 = consumed_offset s" "stream_data_tree s1 = stream_data_tree s" "to_application c1 s1 = to_application cnx s"
      "still_sending n s1 = still_sending n s"
      using s1(2) c(2) unfolding checked_def by (auto simp: to_application_def same_log_def still_sending_def)
    have at1: "stream_at D n R xs received c1 s1"
      using assms(1) by (intro stream_at_same [OF assms(1) c(2) s1(1) _ eq(1,2)]) (simp add: eq stream_at_def)
    have fit: "unat ofs + l < 2 ^ 62" "l \<le> 1536" using assms(3) by (simp_all add: fits_packet_def)
    obtain ret2 c2 where d: "stream_input_data c1 n ofs fin (map D [unat ofs..<unat ofs + l]) received notify now = Some (ret2, c2)"
      "frame_taken D n R' xs received c1 s1 (notify \<and> (unat (consumed_offset s1) < unat ofs \<or> unat (consumed_offset s1) \<le> unat ofs + l)) (ret2, c2)"
      using stream_input_data_ok [OF at1 refl fit, of fin notify now] unfolding R'_def by auto
    show ?thesis
    proof (cases "ret2 = 0")
      case False
      then have "ret2 = PICOQUIC_ERROR_DETECTED" "stock (pool cnx) \<le> length xs"
        using d(2) c(2) by (auto simp: frame_taken_def same_log_def)
      then show ?thesis using run n(1) d(1) True unfolding run_def by simp
    next
      case ok: True
      then obtain s' xs' where t: "stream_at D n R' xs' received c2 s'" "delivers D n c1 s1 c2 s'"
        "(notify \<and> (unat (consumed_offset s1) < unat ofs \<or> unat (consumed_offset s1) \<le> unat ofs + l) \<or>
           consumed_offset s' \<noteq> consumed_offset s1) \<and> fin_received s' \<and> consumed_offset s' \<ge> fin_offset s' \<longrightarrow> fin_signalled s'"
        using d(2) by (auto simp: frame_taken_def)
      have "still_sending n s'"
        using t(2) assms(2) still_sending_at_rest [of s' s1 n] eq(4) by (simp add: delivers_def)
      then obtain c3 where c3: "stream_input_close c2 n = Some c3" "same_log c2 c3" "picoquic_find_stream c3 n = Some s'"
        using stream_input_close_ok [of c2 n s'] t(1) by (auto simp: stream_at_def)
      have at3: "stream_at D n R' xs' received c3 s'"
        using t(1) c3(2) by (intro stream_at_same [OF t(1) c3(2,3)]) (auto simp: stream_at_def to_application_def same_log_def)
      have "end_ok n R' (F \<union> fin_at fin (unat ofs + l)) c3 s'" if "end_ok n R F cnx s" for F
      proof -
        have "{..<unat (consumed_offset s)} \<subseteq> {..<unat (fin_offset s)}"
          using that assms(1) by (auto simp: stream_at_def end_ok_def)
        then have "consumed_offset s \<le> fin_offset s" by (simp add: word_le_nat_alt)
        moreover have "R' \<subseteq> R \<union> {..<unat e}" by (auto simp: R'_def e)
        moreover have "callbacks c1 = callbacks cnx" using c(2) by (simp add: same_log_def)
        ultimately have "end_ok n R' (F \<union> fin_at fin (unat e)) c2 s'"
          by (intro end_ok_frame [OF that s1(2) _ t(2) True]) (use that t(3) in \<open>auto simp: n(2) word_le_nat_alt e\<close>)
        moreover have cb: "callbacks c3 = callbacks c2" using c3(2) by (simp add: same_log_def)
        ultimately show ?thesis unfolding end_ok_def e cb by blast
      qed
      then have "\<exists>xs' s'. stream_at D n R' xs' received c3 s' \<and>
          (\<forall>F. end_ok n R F cnx s \<longrightarrow> end_ok n R' (F \<union> fin_at fin (unat ofs + l)) c3 s')" using at3 by blast
      moreover have "run = Some (0, c3)" using run n(1) d(1) ok c3(1) by simp
      ultimately show ?thesis using True unfolding run_def by simp
    qed
  qed
qed

section \<open>Histories\<close>

text \<open>
  \<open>receiving D n R F xs r cnx s\<close>: the accepted frames of the stream \<open>n\<close> carried the offsets
  \<open>R\<close> of the data \<open>D\<close>, and those with the FIN bit ended at the offsets \<open>F\<close>; \<open>xs\<close> are the chunks queued, and \<open>r\<close> is the node of the current packet.
  Between two frames anything may happen in the rest of the connection, which may also allocate and free
  nodes, as long as nothing touches the receiving side of the stream.
\<close>

inductive receiving ::
    "(nat \<Rightarrow> u8) \<Rightarrow> u64 \<Rightarrow> nat set \<Rightarrow> nat set \<Rightarrow> nat list \<Rightarrow> ptr \<Rightarrow> stream_cnx \<Rightarrow> stream_head \<Rightarrow> bool" for D n where
  opened: "\<lbrakk>picoquic_find_stream cnx n = Some s; to_application cnx s; consumed_offset s = 0;
      \<not> fin_received s; \<not> fin_signalled s; represents (stream_data_tree s) []; pool_ok (pool cnx) [] r;
      bytes_delivered n (callbacks cnx) = []; fins_signalled n (callbacks cnx) = 0\<rbrakk>
    \<Longrightarrow> receiving D n {} {} [] r cnx s"
| elsewhere: "\<lbrakk>receiving D n R F xs r cnx s; picoquic_find_stream cnx' n = Some s'; to_application cnx' s';
      consumed_offset s' = consumed_offset s; stream_data_tree s' = stream_data_tree s; fin_offset s' = fin_offset s;
      fin_received s' = fin_received s; fin_signalled s' = fin_signalled s;
      bytes_delivered n (callbacks cnx') = bytes_delivered n (callbacks cnx);
      fins_signalled n (callbacks cnx') = fins_signalled n (callbacks cnx);
      pool_ok (pool cnx') xs r'; \<forall>x\<in>set xs. data_nodes (pool cnx') x = data_nodes (pool cnx) x\<rbrakk>
    \<Longrightarrow> receiving D n R F xs r' cnx' s'"
| frame: "\<lbrakk>receiving D n R F xs r cnx s; still_sending n s; fits_packet ofs l;
      picoquic_stream_network_input cnx n ofs fin (map D [unat ofs..<unat ofs + l]) r now = Some (0, cnx');
      picoquic_find_stream cnx' n = Some s'; represents (stream_data_tree s') xs'\<rbrakk>
    \<Longrightarrow> receiving D n (R \<union> {unat ofs..<unat ofs + l}) (F \<union> fin_at fin (unat ofs + l)) xs' r cnx' s'"

lemma receiving_at: "receiving D n R F xs r cnx s \<Longrightarrow> stream_at D n R xs r cnx s \<and> end_ok n R F cnx s"
proof (induction rule: receiving.induct)
  case (opened cnx s r)
  then show ?case by (simp add: stream_at_def end_ok_def store_def)
next
  case (elsewhere R F xs r cnx s cnx' s' r')
  have "store D (pool cnx') (stream_data_tree s') xs r'"
    using elsewhere chunks_same(1) [of xs "pool cnx'" "pool cnx" D] by (simp add: stream_at_def store_def)
  moreover have "covered (pool cnx') xs = covered (pool cnx) xs" using elsewhere chunks_same(2) by blast
  moreover have "end_ok n R F cnx' s'" using elsewhere by (auto simp: end_ok_def)
  ultimately show ?case using elsewhere by (simp add: stream_at_def)
next
  case (frame R F xs r cnx s ofs l fin now cnx' s' xs')
  from frame.IH network_input_ok [of D n R xs r cnx s ofs l fin now] frame.hyps
  obtain ys t where t: "stream_at D n (R \<union> {unat ofs..<unat ofs + l}) ys r cnx' t" "end_ok n (R \<union> {unat ofs..<unat ofs + l}) (F \<union> fin_at fin (unat ofs + l)) cnx' t"
    by auto
  have "t = s'" using t(1) frame.hyps by (simp add: stream_at_def)
  moreover have "ys = xs'" using t(1) frame.hyps represents_unique by (auto simp: stream_at_def store_def)
  ultimately show ?case using t by simp
qed

lemma receiving_step:
  assumes "receiving D n R F xs r cnx s" "still_sending n s" "fits_packet ofs l"
    "picoquic_stream_network_input cnx n ofs fin (map D [unat ofs..<unat ofs + l]) r now = Some (0, cnx')"
  shows "\<exists>xs' s'. receiving D n (R \<union> {unat ofs..<unat ofs + l}) (F \<union> fin_at fin (unat ofs + l)) xs' r cnx' s' \<and> picoquic_find_stream cnx' n = Some s'"
proof -
  have at: "stream_at D n R xs r cnx s" using receiving_at [OF assms(1)] by simp
  obtain xs' s' where "stream_at D n (R \<union> {unat ofs..<unat ofs + l}) xs' r cnx' s'"
    using network_input_ok [OF at assms(2,3), of fin now] assms(4) by auto
  then have "picoquic_find_stream cnx' n = Some s'" "represents (stream_data_tree s') xs'" by (simp_all add: stream_at_def store_def)
  with receiving.frame [OF assms] show ?thesis by blast
qed

lemma receiving_in_order:
  assumes "receiving D n R F xs r cnx s"
  shows "bytes_delivered n (callbacks cnx) = map D [0..<LEAST k. k \<notin> R]"
  using receiving_at [OF assms] stream_at_gap [of D n R xs r cnx s] by (simp add: stream_at_def)

lemma receiving_end:
  assumes "receiving D n R F xs r cnx s"
  shows "fins_signalled n (callbacks cnx) \<le> 1"
    "fins_signalled n (callbacks cnx) = 1 \<Longrightarrow> F \<noteq> {} \<and> {..<unat (fin_offset s)} \<subseteq> R"
    "F \<subseteq> {unat (fin_offset s)} \<Longrightarrow>
       fins_signalled n (callbacks cnx) = (if F \<noteq> {} \<and> {..<unat (fin_offset s)} \<subseteq> R then 1 else 0)"
proof -
  have at: "stream_at D n R xs r cnx s" "end_ok n R F cnx s" using receiving_at [OF assms] by simp_all
  have "{..<unat (fin_offset s)} \<subseteq> R \<longleftrightarrow> fin_offset s \<le> consumed_offset s"
  proof
    have "unat (consumed_offset s) \<notin> R" using at(1) by (fastforce simp: stream_at_def covered_def)
    moreover assume "{..<unat (fin_offset s)} \<subseteq> R"
    ultimately show "fin_offset s \<le> consumed_offset s" by (auto simp: word_le_nat_alt not_less dest!: subsetD)
  next
    show "fin_offset s \<le> consumed_offset s \<Longrightarrow> {..<unat (fin_offset s)} \<subseteq> R" using at(1) by (auto simp: stream_at_def word_le_nat_alt)
  qed
  then show "fins_signalled n (callbacks cnx) \<le> 1"
    "fins_signalled n (callbacks cnx) = 1 \<Longrightarrow> F \<noteq> {} \<and> {..<unat (fin_offset s)} \<subseteq> R"
    "F \<subseteq> {unat (fin_offset s)} \<Longrightarrow>
       fins_signalled n (callbacks cnx) = (if F \<noteq> {} \<and> {..<unat (fin_offset s)} \<subseteq> R then 1 else 0)"
    using at(2) by (auto simp: end_ok_def split: if_splits)
qed

text \<open>A FIN below what the application has already received.\<close>

lemma early_fin:
  assumes "receiving D n R F xs r cnx s" "still_sending n s" "fits_packet ofs l" "\<not> fin_received s"
    "unat ofs + l < unat (consumed_offset s)"
  shows "\<exists>cnx' s'. picoquic_stream_network_input cnx n ofs True (map D [unat ofs..<unat ofs + l]) r now = Some (0, cnx') \<and>
    picoquic_find_stream cnx' n = Some s' \<and> fin_received s' \<and> \<not> fin_signalled s' \<and> fin_offset s' = fin_offset s \<and>
    callbacks cnx' = callbacks cnx"
proof -
  have at: "stream_at D n R xs r cnx s" "end_ok n R F cnx s" using receiving_at [OF assms(1)] by simp_all
  then have f: "picoquic_find_stream cnx n = Some s" "to_application cnx s" by (simp_all add: stream_at_def)
  define e where "e = ofs + of_nat l"
  have e: "unat e = unat ofs + l" using assms(3)
    by (simp add: e_def fits_packet_def unat_word_ariths unsigned_of_nat take_bit_nat_eq_self)
  have "{..<unat (consumed_offset s)} \<subseteq> {..<unat (fin_offset s)}" using at by (auto simp: stream_at_def end_ok_def)
  then have le: "e < fin_offset s" using assms(5) by (simp add: word_less_nat_alt e)
  then have "frame_allowed cnx s True e" using assms(4) by (simp add: frame_allowed_def word_less_nat_alt)
  with stream_input_check_ok [OF f(1), of True e now] assms(4) obtain c1 s1 where
    c: "stream_input_check cnx n True e now = Some ((0, True), c1)" "same_log cnx c1" "picoquic_find_stream c1 n = Some s1"
      "checked s True e s1" by auto
  have s1: "fin_received s1" "fin_offset s1 = fin_offset s" "fin_signalled s1 = fin_signalled s" "consumed_offset s1 = consumed_offset s"
    "to_application c1 s1" "still_sending n s1"
    using c(2,4) le f(2) assms(2) by (auto simp: checked_def to_application_def same_log_def still_sending_def max_def)
  have "stream_input_data c1 n ofs True (map D [unat ofs..<unat ofs + l]) r True now = Some (0, c1)"
    using c(3) s1(4,5) assms(5) e
    by (auto simp: stream_input_data_def to_application_def word_le_nat_alt e_def [symmetric])
  moreover obtain c2 where c2: "stream_input_close c1 n = Some c2" "same_log c1 c2" "picoquic_find_stream c2 n = Some s1"
    using stream_input_close_ok [OF c(3) s1(6)] by blast
  ultimately have "picoquic_stream_network_input cnx n ofs True (map D [unat ofs..<unat ofs + l]) r now = Some (0, c2)"
    using f(1) c(1) by (simp add: picoquic_stream_network_input_def picoquic_find_or_create_stream_def e_def)
  moreover have "\<not> fin_signalled s" using at(2) assms(4) by (auto simp: end_ok_def)
  ultimately show ?thesis using c2(2,3) c(2) s1 by (auto simp: same_log_def)
qed

lemma receiving_next_frame:
  assumes "receiving D n R F xs r cnx s" "still_sending n s" "fits_packet ofs l"
  shows "\<exists>ret cnx'. picoquic_stream_network_input cnx n ofs fin (map D [unat ofs..<unat ofs + l]) r now = Some (ret, cnx') \<and>
    (ret = 0 \<or> ret = PICOQUIC_ERROR_DETECTED) \<and>
    (\<not> frame_allowed cnx s fin (ofs + of_nat l) \<longrightarrow> ret = PICOQUIC_ERROR_DETECTED \<and> callbacks cnx' = callbacks cnx) \<and>
    (frame_allowed cnx s fin (ofs + of_nat l) \<and> length xs < stock (pool cnx) \<longrightarrow> ret = 0) \<and>
    (ret = 0 \<longrightarrow> bytes_delivered n (callbacks cnx') = map D [0..<LEAST k. k \<notin> R \<union> {unat ofs..<unat ofs + l}])"
proof -
  have at: "stream_at D n R xs r cnx s" using receiving_at [OF assms(1)] by simp
  have "bytes_delivered n (callbacks c) = map D [0..<LEAST k. k \<notin> S]" if "stream_at D n S ys r c t" for S ys c t
    using that stream_at_gap [OF that] by (simp add: stream_at_def)
  then show ?thesis using network_input_ok [OF at assms(2,3), of fin now] by blast
qed

end
