(* ===== verification/StreamTheorems.thy ===== *)
theory StreamTheorems
  imports Reassembly
begin

text \<open>
  The properties of the streams, and a small connection at which they are applied.
\<close>

section \<open>A connection\<close>

text \<open>
  A server whose client has opened the bidirectional stream 0; 100 bytes are granted to the stream and
  150 to the connection, and there are four data nodes.
\<close>

definition example_limits :: stream_limits where
  "example_limits = \<lparr>initial_max_stream_data_bidi_local = 100, initial_max_stream_data_bidi_remote = 100,
     initial_max_stream_data_uni = 100\<rparr>"

definition example_pool :: data_pool where
  "example_pool = \<lparr>data_nodes = (\<lambda>_. data_node_zero), free_data_nodes = [1, 2, 3, 4], nb_data_nodes_in_pool = 4,
     nb_data_nodes_allocated = 4, mallocs = []\<rparr>"

definition example_cnx :: "stream_head list \<Rightarrow> stream_cnx" where
  "example_cnx streams = \<lparr>client_mode = False, cnx_state = picoquic_state_ready, local_error = 0, offending_frame_type = 0,
     local_parameters = example_limits, remote_parameters = example_limits, cnx_maxdata_local = 150, cnx_maxdata_remote = 150,
     max_max_stream_data_remote = 0, data_received = 0, sent_blocked_frame = False, stream_blocked_bidir_sent = False,
     stream_blocked_unidir_sent = False, max_stream_data_needed = False, latest_progress_time = 0,
     next_stream_id = (\<lambda>t. if t = 0 then 4 else t), max_stream_id_bidir_local = 16, max_stream_id_bidir_local_computed = 16,
     max_stream_id_unidir_local = 18, max_stream_id_unidir_local_computed = 18, max_stream_id_bidir_remote = 17,
     max_stream_id_unidir_remote = 19, high_priority_stream_id = 1, ack_after_fin = (\<lambda>_. False),
     first_output_stream = None, last_output_stream = None, stream_tree = streams, stream_mallocs = [True, True],
     pool = example_pool, callback_fn = Some (\<lambda>_. 0), callbacks = []\<rparr>"

definition example_stream :: "u64 \<Rightarrow> stream_head" where
  "example_stream n = new_stream n 100 100"

abbreviation example_data :: "nat \<Rightarrow> u8" where "example_data \<equiv> \<lambda>k. of_nat (k + 65)"

lemma example_opened: "receiving example_data 0 {} {} [] None (example_cnx [example_stream 0]) (example_stream 0)"
proof (rule receiving.opened)
  show "represents (stream_data_tree (example_stream 0)) []"
    by (simp add: example_stream_def new_stream_def represents_init)
qed (simp_all add: picoquic_find_stream_def example_cnx_def example_stream_def new_stream_def to_application_def
    pool_ok_def available_def spare_def example_pool_def)

lemma example_sending: "still_sending 0 (example_stream 0)"
  by (simp add: still_sending_def example_stream_def new_stream_def IS_BIDIR_STREAM_ID_def)

text \<open>The bytes from 3 on arrive first; then the whole stream, with its end.\<close>

definition example_first :: stream_cnx where
  "example_first = snd (the (picoquic_stream_network_input (example_cnx [example_stream 0]) 0 3 False [68, 69] None 7))"

definition example_second :: stream_cnx where
  "example_second = snd (the (picoquic_stream_network_input example_first 0 0 True [65, 66, 67, 68, 69] None 8))"

lemma Some_pair: "map_option fst x = Some a \<Longrightarrow> x = Some (a, snd (the x))"
  by auto

lemma example_history: "\<exists>xs s. receiving example_data 0 ({} \<union> {3..<5} \<union> {0..<5}) {5} xs None example_second s \<and>
    picoquic_find_stream example_second 0 = Some s"
proof -
  have run1: "picoquic_stream_network_input (example_cnx [example_stream 0]) 0 3 False [68, 69] None 7 = Some (0, example_first)"
    unfolding example_first_def by (rule Some_pair) code_simp
  have run2: "picoquic_stream_network_input example_first 0 0 True [65, 66, 67, 68, 69] None 8 = Some (0, example_second)"
    unfolding example_second_def by (rule Some_pair) code_simp
  have "picoquic_stream_network_input (example_cnx [example_stream 0]) 0 3 False (map example_data [unat (3 :: u64)..<unat (3 :: u64) + 2]) None 7 =
      Some (0, example_first)" using run1 by (simp add: upt_rec)
  from receiving_step [OF example_opened example_sending _ this] obtain xs s where
    s: "receiving example_data 0 ({} \<union> {3..<5}) {} xs None example_first s" "picoquic_find_stream example_first 0 = Some s"
    by (auto simp: fits_packet_def)
  have "map_option (still_sending 0) (picoquic_find_stream example_first 0) = Some True" by code_simp
  then have sending: "still_sending 0 s" using s(2) by simp
  have "picoquic_stream_network_input example_first 0 0 True (map example_data [unat (0 :: u64)..<unat (0 :: u64) + 5]) None 8 =
      Some (0, example_second)" using run2 by (simp add: upt_rec)
  from receiving_step [OF s(1) sending _ this] show ?thesis by (auto simp: fits_packet_def)
qed

section \<open>Delivery in order\<close>

text \<open>
  C4: whatever the order, the overlap and the repetition of the STREAM frames of a stream, the
  application has received exactly the bytes of the stream up to the first byte that is still missing,
  in order and each once. \<open>R\<close> is the set of offsets received so far; between the frames the rest of
  the connection may do anything that leaves the receiving side of the stream alone.
\<close>

theorem stream_bytes_in_order:
  assumes "receiving D n R F xs r cnx s"
  shows "bytes_delivered n (callbacks cnx) = map D [0..<LEAST k. k \<notin> R]"
  by (rule receiving_in_order [OF assms])

theorem stream_bytes_in_order_witness: "bytes_delivered 0 (callbacks example_second) = [65, 66, 67, 68, 69]"
proof -
  obtain xs s where "receiving example_data 0 ({} \<union> {3..<5} \<union> {0..<5}) {5} xs None example_second s"
    using example_history by blast
  from stream_bytes_in_order [OF this] have "bytes_delivered 0 (callbacks example_second) =
      map example_data [0..<LEAST k. k \<notin> {} \<union> {3..<5} \<union> {0..<5}]" .
  moreover have "(LEAST k. k \<notin> {} \<union> {3..<5} \<union> {0..<5 :: nat}) = 5" by (rule Least_equality) auto
  ultimately show ?thesis by (simp add: upt_rec)
qed

text \<open>
  C6: the application is told at most once that the stream is finished, and never before a frame with the FIN bit has been
  accepted and everything below the final offset has been received. When the FIN bits agree with
  the final offset, it is told exactly then. \<open>F\<close> holds the ends of the accepted frames with the FIN bit. They
  can disagree because of the case of the next theorem: a FIN that ends below data that was already received is not
  refused, and the final offset stays that of the data.
\<close>

theorem stream_end_signalled_once:
  assumes "receiving D n R F xs r cnx s"
  shows "fins_signalled n (callbacks cnx) \<le> 1 \<and>
    (fins_signalled n (callbacks cnx) = 1 \<longrightarrow> F \<noteq> {} \<and> {..<unat (fin_offset s)} \<subseteq> R) \<and>
    (F \<subseteq> {unat (fin_offset s)} \<longrightarrow>
       fins_signalled n (callbacks cnx) = (if F \<noteq> {} \<and> {..<unat (fin_offset s)} \<subseteq> R then 1 else 0))"
  using receiving_end [OF assms] by blast

theorem stream_end_signalled_once_witness: "fins_signalled 0 (callbacks example_second) = 1"
proof -
  obtain xs s where s: "receiving example_data 0 ({} \<union> {3..<5} \<union> {0..<5}) {5} xs None example_second s"
    "picoquic_find_stream example_second 0 = Some s"
    using example_history by blast
  have "map_option fin_offset (picoquic_find_stream example_second 0) = Some 5" by code_simp
  then have "fin_offset s = 5" using s(2) by simp
  with stream_end_signalled_once [OF s(1)] show ?thesis by (auto simp: subset_iff)
qed

text \<open>
  Also a FIN that ends below what the application has already received contradicts the size of the stream, but
  the code does not refuse it: the frame is accepted, the final offset is not changed, and as the data is old
  nothing is delivered, so that the application is not told that the stream is finished although it has everything
  up to the final offset.
\<close>

theorem early_fin_not_signalled:
  assumes "receiving D n R F xs r cnx s" "still_sending n s" "fits_packet ofs l" "\<not> fin_received s"
    "unat ofs + l < unat (consumed_offset s)"
  shows "\<exists>cnx' s'. picoquic_stream_network_input cnx n ofs True (map D [unat ofs..<unat ofs + l]) r now = Some (0, cnx') \<and>
    picoquic_find_stream cnx' n = Some s' \<and> fin_received s' \<and> \<not> fin_signalled s' \<and> fin_offset s' = fin_offset s \<and>
    callbacks cnx' = callbacks cnx"
  by (rule early_fin [OF assms])

text \<open>Five bytes without an end, and then a FIN at offset 2.\<close>

theorem early_fin_not_signalled_witness:
  "\<exists>c c' s'. picoquic_stream_network_input (example_cnx [example_stream 0]) 0 0 False [65, 66, 67, 68, 69] None 7 = Some (0, c) \<and>
     picoquic_stream_network_input c 0 0 True [65, 66] None 8 = Some (0, c') \<and> picoquic_find_stream c' 0 = Some s' \<and>
     fin_received s' \<and> \<not> fin_signalled s' \<and> callbacks c' = callbacks c"
proof -
  define c where "c = snd (the (picoquic_stream_network_input (example_cnx [example_stream 0]) 0 0 False [65, 66, 67, 68, 69] None 7))"
  have run: "picoquic_stream_network_input (example_cnx [example_stream 0]) 0 0 False [65, 66, 67, 68, 69] None 7 = Some (0, c)"
    unfolding c_def by (rule Some_pair) code_simp
  have "picoquic_stream_network_input (example_cnx [example_stream 0]) 0 0 False (map example_data [unat (0 :: u64)..<unat (0 :: u64) + 5]) None 7 =
      Some (0, c)" using run by (simp add: upt_rec)
  from receiving_step [OF example_opened example_sending _ this] obtain R F xs s where
    s: "receiving example_data 0 R F xs None c s" "picoquic_find_stream c 0 = Some s"
    by (auto simp: fits_packet_def)
  have "map_option (\<lambda>s. still_sending 0 s \<and> \<not> fin_received s \<and> consumed_offset s = 5) (picoquic_find_stream c 0) = Some True"
    unfolding c_def by code_simp
  then have "still_sending 0 s" "\<not> fin_received s" "unat (0 :: u64) + 2 < unat (consumed_offset s)" using s(2) by simp_all
  from early_fin_not_signalled [OF s(1) this(1) _ this(2,3), of 8] run show ?thesis
    by (auto simp: fits_packet_def upt_rec)
qed

text \<open>
  C5: in such a history the next STREAM frame is handled without fault, and either accepted or
  refused with \<open>PICOQUIC_ERROR_DETECTED\<close>. A frame beyond the limits or against the known final
  offset is refused and nothing is delivered; any other one is accepted, unless memory runs out, which
  needs at least as many nodes as chunks are queued. An accepted frame brings the application to the first
  gap of what has then been received.
\<close>

theorem stream_frame_handled:
  assumes "receiving D n R F xs r cnx s" "still_sending n s" "fits_packet ofs l"
  shows "\<exists>ret cnx'. picoquic_stream_network_input cnx n ofs fin (map D [unat ofs..<unat ofs + l]) r now = Some (ret, cnx') \<and>
    (ret = 0 \<or> ret = PICOQUIC_ERROR_DETECTED) \<and>
    (\<not> frame_allowed cnx s fin (ofs + of_nat l) \<longrightarrow> ret = PICOQUIC_ERROR_DETECTED \<and> callbacks cnx' = callbacks cnx) \<and>
    (frame_allowed cnx s fin (ofs + of_nat l) \<and> length xs < stock (pool cnx) \<longrightarrow> ret = 0) \<and>
    (ret = 0 \<longrightarrow> bytes_delivered n (callbacks cnx') = map D [0..<LEAST k. k \<notin> R \<union> {unat ofs..<unat ofs + l}])"
  by (rule receiving_next_frame [OF assms])

theorem stream_frame_handled_witness:
  "\<exists>cnx'. picoquic_stream_network_input (example_cnx [example_stream 0]) 0 0 True [65, 66, 67] None 7 = Some (0, cnx') \<and>
     bytes_delivered 0 (callbacks cnx') = [65, 66, 67]"
proof -
  have a: "frame_allowed (example_cnx [example_stream 0]) (example_stream 0) True (0 + of_nat 3)"
    by (simp add: frame_allowed_def example_stream_def new_stream_def example_cnx_def)
  have s: "stock (pool (example_cnx [example_stream 0])) = 4" by (simp add: stock_def example_cnx_def example_pool_def)
  have l: "(LEAST k. k \<notin> {} \<union> {unat (0 :: u64)..<unat (0 :: u64) + 3}) = 3" by (rule Least_equality) auto
  show ?thesis
    using stream_frame_handled [OF example_opened example_sending, of 0 3 True 7] a s
    unfolding l by (auto simp: fits_packet_def upt_rec numeral_3_eq_3)
qed

section \<open>Credit\<close>

text \<open>
  C7: STREAM and RESET_STREAM frames, with every stream they create or delete, keep the account of
  the connection: identifiers stay sorted, unique and below the next one of their type, no final offset
  exceeds the limit of its stream, and the sum of the final offsets is at most the data counted, which
  never exceeds what the connection has granted.
\<close>

theorem stream_account_kept:
  "account_ok cnx \<Longrightarrow>
     (\<forall>bytes rd now rest cnx'. picoquic_decode_stream_frame cnx bytes rd now = Some (rest, cnx') \<longrightarrow> account_ok cnx') \<and>
     (\<forall>bytes rest cnx'. picoquic_decode_stream_reset_frame cnx bytes = Some (rest, cnx') \<longrightarrow> account_ok cnx')"
  using account_ok_decode_stream account_ok_decode_reset by blast

theorem stream_account_kept_witness:
  "\<exists>rest cnx'. picoquic_decode_stream_frame (example_cnx []) [0x0F, 2, 1, 2, 65, 66] None 5 = Some (rest, cnx') \<and> account_ok cnx'"
proof -
  have ok: "account_ok (example_cnx [])" 
  proof -
    have "STREAM_TYPE_FROM_ID (if t = 0 then 4 else t) = t" if "t < 4" for t
      using STREAM_TYPE_id [OF that] STREAM_TYPE_next [of 0] by (simp add: STREAM_TYPE_FROM_ID_def NEXT_STREAM_ID_FOR_TYPE_def)
    then show ?thesis by (simp add: account_ok_def example_cnx_def)
  qed
  obtain rest cnx' where "picoquic_decode_stream_frame (example_cnx []) [0x0F, 2, 1, 2, 65, 66] None 5 = Some (rest, cnx')"
  proof -
    have "map_option fst (picoquic_decode_stream_frame (example_cnx []) [0x0F, 2, 1, 2, 65, 66] None 5) = Some (Some [])" by code_simp
    then show ?thesis using that by auto
  qed
  with stream_account_kept [OF ok] show ?thesis by blast
qed

section \<open>Deviations\<close>

text \<open>
  C29: a redundant RESET_STREAM for a stream that is already deleted makes the decoder fail without
  closing the connection, so that the rest of its packet is not processed; a redundant STOP_SENDING or
  STREAM frame for the same stream is ignored and the packet goes on.
\<close>

theorem redundant_reset_fails:
  assumes "picoquic_find_stream cnx n = None" "n < next_stream_id cnx (STREAM_TYPE_FROM_ID n)" "bs \<noteq> []"
    "picoquic_frames_varint_decode (tl bs) = Some (n, b1)" "picoquic_frames_varint_decode b1 = Some (err, b2)"
    "picoquic_frames_varint_decode b2 = Some (final, rest)"
  shows "picoquic_decode_stream_reset_frame cnx bs = Some (None, cnx) \<and>
    picoquic_decode_stop_sending_frame cnx bs = Some (Some b2, cnx) \<and>
    picoquic_stream_network_input cnx n ofs fin data rd now = Some (0, cnx)"
  using assms
  by (simp add: picoquic_decode_stream_reset_frame_def picoquic_decode_stop_sending_frame_def picoquic_stream_network_input_def
      picoquic_find_or_create_stream_def picoquic_create_missing_streams_def)

theorem redundant_reset_fails_witness:
  "picoquic_decode_stream_reset_frame (example_cnx []) [4, 0, 7, 5] = Some (None, example_cnx [])"
proof -
  have "picoquic_frames_varint_decode (tl [4, 0, 7, 5]) = Some (0, [7, 5])" "picoquic_frames_varint_decode [7, 5] = Some (7, [5])"
    "picoquic_frames_varint_decode [5] = Some (5, [])" by code_simp+
  from redundant_reset_fails [of "example_cnx []" 0, OF _ _ _ this] show ?thesis
    by (simp add: example_cnx_def picoquic_find_stream_def STREAM_TYPE_FROM_ID_def)
qed

text \<open>
  C30: a FIN that leaves a gap before it makes the peer's next unidirectional stream available at once: the
  count of completed streams is raised before \<open>fin_offset\<close> is, so the stream looks complete although
  bytes are still missing.
\<close>

theorem stream_credit_too_early:
  assumes "picoquic_find_stream cnx n = Some s" "client_mode cnx \<noteq> IS_CLIENT_STREAM_ID n" "\<not> IS_BIDIR_STREAM_ID n"
    "\<not> fin_received s" "\<not> max_stream_updated s" "consumed_offset s \<ge> fin_offset s" "consumed_offset s < e"
    "frame_allowed cnx s True e"
  shows "\<exists>cnx' s'. stream_input_check cnx n True e now = Some ((0, True), cnx') \<and>
    max_stream_id_unidir_local_computed cnx' = max_stream_id_unidir_local_computed cnx + 4 \<and>
    picoquic_find_stream cnx' n = Some s' \<and> fin_offset s' = e \<and> consumed_offset s' < fin_offset s'"
proof -
  define c where "c = upd_stream n (\<lambda>s. s\<lparr>max_stream_updated := True\<rparr>)
      (((upd_stream n (\<lambda>s. s\<lparr>fin_received := True\<rparr>) cnx)\<lparr>latest_progress_time := now\<rparr>)
        \<lparr>max_stream_id_unidir_local_computed := max_stream_id_unidir_local_computed cnx + 4\<rparr>)"
  have f: "picoquic_find_stream ((upd_stream n (\<lambda>s. s\<lparr>fin_received := True\<rparr>) cnx)\<lparr>latest_progress_time := now\<rparr>) n =
      Some (s\<lparr>fin_received := True\<rparr>)" using assms(1) by (simp add: find_stream_upd)
  have find: "picoquic_find_stream (d\<lparr>max_stream_id_unidir_local_computed := x\<rparr>) n = picoquic_find_stream d n" for d x
    by (simp add: picoquic_find_stream_def)
  have c: "picoquic_find_stream c n = Some (s\<lparr>fin_received := True, max_stream_updated := True\<rparr>)"
    using assms(1) by (simp add: c_def find_stream_upd find)
  have id: "picoquic_update_max_stream_ID_local
      ((upd_stream n (\<lambda>s. s\<lparr>fin_received := True\<rparr>) cnx)\<lparr>latest_progress_time := now\<rparr>) n = Some c"
    using assms(2,3,5,6) f by (simp add: picoquic_update_max_stream_ID_local_def c_def upd_stream_def)
  have e: "fin_offset s < e" using assms(6,7) by simp
  have "picoquic_flow_control_check_stream_offset c n e =
      Some (0, upd_stream n (\<lambda>s. s\<lparr>fin_offset := e\<rparr>) (c\<lparr>data_received := data_received c + (e - fin_offset s)\<rparr>))"
    using flow_control_check [OF c] e assms(4,8) by (simp add: frame_allowed_def c_def word_less_nat_alt)
  then show ?thesis using assms(1,4,7) e id c
    by (auto simp: stream_input_check_def find_stream_upd) (simp add: c_def upd_stream_def)
qed

theorem stream_credit_too_early_witness:
  "\<exists>cnx'. stream_input_check (example_cnx [example_stream 2]) 2 True 10 0 = Some ((0, True), cnx') \<and>
     max_stream_id_unidir_local_computed cnx' = 22"
  using stream_credit_too_early [of "example_cnx [example_stream 2]" 2 "example_stream 2" 10 0]
  by (auto simp: picoquic_find_stream_def example_cnx_def example_stream_def new_stream_def IS_CLIENT_STREAM_ID_def
      IS_BIDIR_STREAM_ID_def frame_allowed_def)

text \<open>
  C31: a high priority stream that becomes ready to send while no other stream is does not become the
  last one of the list of output streams; the next stream that becomes ready then overwrites the head, and
  the high priority stream can no longer be reached although it is marked as being in the list.
\<close>

theorem high_priority_stream_lost:
  assumes "picoquic_find_stream cnx n = Some s" "picoquic_find_stream cnx m = Some t" "n \<noteq> m"
    "\<not> is_output_stream s" "\<not> is_output_stream t" "n = high_priority_stream_id cnx"
    "first_output_stream cnx = None" "last_output_stream cnx = None"
  shows "\<exists>cnx' s' t'. Option.bind (picoquic_insert_output_stream cnx n) (\<lambda>c. picoquic_insert_output_stream c m) = Some cnx' \<and>
    first_output_stream cnx' = Some m \<and> last_output_stream cnx' = Some m \<and>
    picoquic_find_stream cnx' m = Some t' \<and> next_output_stream t' = None \<and> previous_output_stream t' = None \<and>
    picoquic_find_stream cnx' n = Some s' \<and> is_output_stream s'"
proof -
  have find: "picoquic_find_stream (d\<lparr>first_output_stream := x\<rparr>) k = picoquic_find_stream d k"
    "picoquic_find_stream (d\<lparr>last_output_stream := x\<rparr>) k = picoquic_find_stream d k" for d x k
    by (simp_all add: picoquic_find_stream_def)
  have sel: "first_output_stream (upd_stream k f d) = first_output_stream d" "last_output_stream (upd_stream k f d) = last_output_stream d"
    "high_priority_stream_id (upd_stream k f d) = high_priority_stream_id d" for k f d
    by (simp_all add: upd_stream_def)
  show ?thesis using assms
    by (simp add: picoquic_insert_output_stream_def Let_def find_stream_upd find sel)
qed

theorem high_priority_stream_lost_witness:
  "\<exists>cnx'. Option.bind (picoquic_insert_output_stream (example_cnx [example_stream 1, example_stream 5]) 1)
       (\<lambda>c. picoquic_insert_output_stream c 5) = Some cnx' \<and> first_output_stream cnx' = Some 5 \<and> last_output_stream cnx' = Some 5"
  using high_priority_stream_lost [of "example_cnx [example_stream 1, example_stream 5]" 1 "example_stream 1" 5 "example_stream 5"]
  by (auto simp: picoquic_find_stream_def example_cnx_def example_stream_def new_stream_def)

text \<open>
  C32: MAX_STREAMS with the value 0, which a peer may send and which must be ignored, is taken for the
  largest limit: the rank is decremented below zero, the limit is raised to the last identifier of 64 bits,
  and the connection is closed with STREAM_LIMIT_ERROR.
\<close>

theorem max_streams_zero_raises_limit:
  assumes "max_stream_id_bidir_remote cnx < 0xFFFFFFFFFFFFFFFC" "stream_tree cnx = []" "cnx_state cnx = picoquic_state_ready"
  shows "\<exists>cnx'. picoquic_decode_max_streams_frame cnx [0x12, 0] 0x12 = Some (None, cnx') \<and>
    max_stream_id_bidir_remote cnx' \<ge> 0xFFFFFFFFFFFFFFFC \<and>
    cnx_state cnx' = picoquic_state_disconnecting \<and> local_error cnx' = PICOQUIC_TRANSPORT_STREAM_LIMIT_ERROR"
proof -
  define m where "m = STREAM_ID_FROM_RANK 0 (client_mode cnx) False"
  have "STREAM_ID_FROM_RANK 0 b False \<ge> 0xFFFFFFFFFFFFFFFC \<and> STREAM_ID_FROM_RANK 0 b False \<ge> 2 ^ 62" for b
    by (cases b) (simp only:, code_simp)+
  then have m: "m \<ge> 0xFFFFFFFFFFFFFFFC" "m \<ge> 2 ^ 62" by (simp_all only: m_def)
  have d: "picoquic_frames_varint_decode [0] = Some (0, [])" by code_simp
  have "max_stream_id_bidir_remote cnx < m" using assms(1) m(1) by (rule less_le_trans)
  then have "picoquic_decode_max_streams_frame cnx [0x12, 0] 0x12 = Some (None, snd (picoquic_connection_error
      (cnx\<lparr>max_stream_id_bidir_remote := m, stream_blocked_bidir_sent := False\<rparr>) PICOQUIC_TRANSPORT_STREAM_LIMIT_ERROR 0x12))"
    using m(2) assms(2) d by (simp add: picoquic_decode_max_streams_frame_def m_def [symmetric] picoquic_add_output_streams_def)
  then show ?thesis using m(1) assms(3) by (simp add: picoquic_connection_error_def picoquic_connection_error_ex_def)
qed

theorem max_streams_zero_raises_limit_witness:
  "\<exists>cnx'. picoquic_decode_max_streams_frame (example_cnx []) [0x12, 0] 0x12 = Some (None, cnx') \<and>
     cnx_state cnx' = picoquic_state_disconnecting"
  using max_streams_zero_raises_limit [of "example_cnx []"] by (auto simp: example_cnx_def)

end
