(* ===== verification/Picohash.thy ===== *)
theory Picohash
  imports Prelude "HOL-Library.Monad_Syntax"
begin

text \<open>
  The hash tables, from \<open>picoquic/picohash.c\<close>: an array of bins, each a linked list of items.

  An item is found at its address in \<open>hash_mem\<close>; the key that an item points to stands in the item, so
  a key does not change while it is in a table. \<open>hash_mallocs\<close> is what \<open>malloc\<close> will return, call by
  call; \<open>freed_items\<close> and \<open>freed_keys\<close> record the calls of \<open>free\<close>. A run that does not return,
  divides by 0 or follows a wild pointer is \<open>None\<close>.
\<close>

section \<open>Tables\<close>

type_synonym hash_ptr = "nat option"

record 'k picohash_item =
  item_hash :: u64
  next_in_bin :: hash_ptr
  item_key :: 'k

record 'k picohash_table =
  hash_bin :: "hash_ptr list"
  nb_bin :: nat
  nb_items :: u64
  picohash_hash :: "'k \<Rightarrow> u64"
  picohash_compare :: "'k \<Rightarrow> 'k \<Rightarrow> int"
  hash_mem :: "nat \<Rightarrow> 'k picohash_item"
  hash_mallocs :: "nat option list"
  freed_items :: "nat list"
  freed_keys :: "'k list"

text \<open>\<open>mem\<close> and \<open>ms\<close> are the heap, \<open>malloc_ok\<close> tells whether the two allocations of the table succeed.\<close>

definition picohash_create ::
    "bool \<Rightarrow> nat option list \<Rightarrow> (nat \<Rightarrow> 'k picohash_item) \<Rightarrow> nat \<Rightarrow> ('k \<Rightarrow> u64) \<Rightarrow> ('k \<Rightarrow> 'k \<Rightarrow> int) \<Rightarrow>
       'k picohash_table option" where
  "picohash_create malloc_ok ms m nb hash compare =
     (if malloc_ok
      then Some \<lparr>hash_bin = replicate nb None, nb_bin = nb, nb_items = 0, picohash_hash = hash, picohash_compare = compare,
                 hash_mem = m, hash_mallocs = ms, freed_items = [], freed_keys = []\<rparr>
      else None)"

text \<open>The bin of a hash; the remainder is cut to 32 bits.\<close>

definition bin_of :: "'k picohash_table \<Rightarrow> u64 \<Rightarrow> nat option" where
  "bin_of t hash =
     (let bin = take_bit 32 (unat hash mod nb_bin t)
      in if nb_bin t = 0 \<or> bin \<ge> length (hash_bin t) then None else Some bin)"

text \<open>For evaluation: the remainder of integers, whose numerals are binary.\<close>

lemma bin_of_code [code]:
  "bin_of t hash =
     (let bin = nat (take_bit 32 (uint hash mod int (nb_bin t)))
      in if nb_bin t = 0 \<or> bin \<ge> length (hash_bin t) then None else Some bin)"
proof -
  have "int (take_bit 32 (unat hash mod nb_bin t)) = take_bit 32 (uint hash mod int (nb_bin t))"
    by (simp add: of_nat_take_bit of_nat_mod)
  then have "take_bit 32 (unat hash mod nb_bin t) = nat (take_bit 32 (uint hash mod int (nb_bin t)))" by simp
  then show ?thesis by (simp add: bin_of_def Let_def)
qed

partial_function (option) retrieve_loop :: "'k picohash_table \<Rightarrow> 'k \<Rightarrow> hash_ptr \<Rightarrow> hash_ptr option" where
  "retrieve_loop t key item =
     (case item of
        None \<Rightarrow> Some None
      | Some a \<Rightarrow>
          if picohash_compare t key (item_key (hash_mem t a)) = 0 then Some item
          else retrieve_loop t key (next_in_bin (hash_mem t a)))"

declare retrieve_loop.simps [code]

definition picohash_retrieve :: "'k picohash_table \<Rightarrow> 'k \<Rightarrow> hash_ptr option" where
  "picohash_retrieve t key = do {
     bin \<leftarrow> bin_of t (picohash_hash t key);
     retrieve_loop t key (hash_bin t ! bin)
   }"

definition picohash_insert :: "'k picohash_table \<Rightarrow> 'k \<Rightarrow> (int \<times> 'k picohash_table) option" where
  "picohash_insert t key = do {
     let hash = picohash_hash t key;
     bin \<leftarrow> bin_of t hash;
     case hash_mallocs t of
       Some a # ms \<Rightarrow>
         Some (0, t\<lparr>hash_mallocs := ms,
                    hash_mem := (hash_mem t)(a := \<lparr>item_hash = hash, next_in_bin = hash_bin t ! bin, item_key = key\<rparr>),
                    hash_bin := (hash_bin t)[bin := Some a],
                    nb_items := nb_items t + 1\<rparr>)
     | None # ms \<Rightarrow> Some (-1, t\<lparr>hash_mallocs := ms\<rparr>)
     | [] \<Rightarrow> Some (-1, t)
   }"

text \<open>The search for the item before the one to be removed.\<close>

partial_function (option) unlink_loop :: "'k picohash_table \<Rightarrow> nat \<Rightarrow> hash_ptr \<Rightarrow> 'k picohash_table option" where
  "unlink_loop t item previous =
     (case previous of
        None \<Rightarrow> Some t
      | Some p \<Rightarrow>
          if next_in_bin (hash_mem t p) = Some item
          then Some (t\<lparr>hash_mem := (hash_mem t)(p := (hash_mem t p)\<lparr>next_in_bin := next_in_bin (hash_mem t item)\<rparr>),
                       nb_items := nb_items t - 1\<rparr>)
          else unlink_loop t item (next_in_bin (hash_mem t p)))"

declare unlink_loop.simps [code]

definition picohash_delete_item :: "'k picohash_table \<Rightarrow> nat \<Rightarrow> bool \<Rightarrow> 'k picohash_table option" where
  "picohash_delete_item t item delete_key_too = do {
     bin \<leftarrow> bin_of t (item_hash (hash_mem t item));
     t \<leftarrow> (if hash_bin t ! bin = Some item
          then Some (t\<lparr>hash_bin := (hash_bin t)[bin := next_in_bin (hash_mem t item)], nb_items := nb_items t - 1\<rparr>)
          else unlink_loop t item (hash_bin t ! bin));
     let t = (if delete_key_too then t\<lparr>freed_keys := item_key (hash_mem t item) # freed_keys t\<rparr> else t);
     Some (t\<lparr>freed_items := item # freed_items t\<rparr>)
   }"

definition picohash_delete_key :: "'k picohash_table \<Rightarrow> 'k \<Rightarrow> bool \<Rightarrow> 'k picohash_table option" where
  "picohash_delete_key t key delete_key_too = do {
     item \<leftarrow> picohash_retrieve t key;
     case item of
       Some a \<Rightarrow> picohash_delete_item t a delete_key_too
     | None \<Rightarrow> Some (if delete_key_too then t\<lparr>freed_keys := key # freed_keys t\<rparr> else t)
   }"

text \<open>The items of a bin that are freed one after the other, and the table with them.\<close>

partial_function (option) delete_bin_loop :: "'k picohash_table \<Rightarrow> bool \<Rightarrow> hash_ptr \<Rightarrow> 'k picohash_table option" where
  "delete_bin_loop t delete_key_too item =
     (case item of
        None \<Rightarrow> Some t
      | Some a \<Rightarrow>
          let t = (if delete_key_too then t\<lparr>freed_keys := item_key (hash_mem t a) # freed_keys t\<rparr> else t)
          in delete_bin_loop (t\<lparr>freed_items := a # freed_items t\<rparr>) delete_key_too (next_in_bin (hash_mem t a)))"

declare delete_bin_loop.simps [code]

fun delete_bins :: "'k picohash_table \<Rightarrow> bool \<Rightarrow> hash_ptr list \<Rightarrow> 'k picohash_table option" where
  "delete_bins t delete_key_too [] = Some t"
| "delete_bins t delete_key_too (b # bs) =
     do { t \<leftarrow> delete_bin_loop t delete_key_too b; delete_bins t delete_key_too bs }"

definition picohash_delete :: "'k picohash_table \<Rightarrow> bool \<Rightarrow> 'k picohash_table option" where
  "picohash_delete t delete_key_too = delete_bins t delete_key_too (take (nb_bin t) (hash_bin t))"

section \<open>Hash functions\<close>

definition picohash_hash_mix :: "u64 \<Rightarrow> u64 \<Rightarrow> u64" where
  "picohash_hash_mix hash h2 =
     (let h2 = h2 XOR (push_bit 17 hash XOR drop_bit 37 hash)
      in hash XOR (push_bit 31 h2 XOR drop_bit 17 h2))"

definition picohash_bytes :: "u8 list \<Rightarrow> u64" where
  "picohash_bytes key =
     foldl (\<lambda>hash b. let hash = hash XOR ucast b in hash XOR (push_bit 31 hash XOR drop_bit 17 hash)) 0xDEADBEEF key"

section \<open>The interface\<close>

text \<open>
  What the users of a hash table rely on: \<open>repr t A\<close> says that \<open>t\<close> is well formed and that its items
  are at the addresses \<open>A\<close>; \<open>same\<close> is the comparison of keys; \<open>alloc t\<close> is what the next \<open>malloc\<close>
  returns, NULL or an address that is not in use. The laws are about valid keys.
\<close>

locale key_table =
  fixes valid :: "'k \<Rightarrow> bool"
    and repr :: "'t \<Rightarrow> nat set \<Rightarrow> bool"
    and key_at :: "'t \<Rightarrow> nat \<Rightarrow> 'k"
    and same :: "'k \<Rightarrow> 'k \<Rightarrow> bool"
    and lookup :: "'t \<Rightarrow> 'k \<Rightarrow> nat option option"
    and add :: "'t \<Rightarrow> 'k \<Rightarrow> (int \<times> 't) option"
    and remove :: "'t \<Rightarrow> nat \<Rightarrow> 't option"
    and alloc :: "'t \<Rightarrow> nat option"
  assumes valid_key: "repr t A \<Longrightarrow> a \<in> A \<Longrightarrow> valid (key_at t a)"
    and same_sym: "valid k \<Longrightarrow> valid l \<Longrightarrow> same k l \<Longrightarrow> same l k"
    and same_trans: "valid k \<Longrightarrow> valid l \<Longrightarrow> valid m \<Longrightarrow> same k l \<Longrightarrow> same l m \<Longrightarrow> same k m"
    and lookup_law: "repr t A \<Longrightarrow> valid k \<Longrightarrow> \<exists>p. lookup t k = Some p \<and>
      (case p of None \<Rightarrow> \<forall>a\<in>A. \<not> same k (key_at t a) | Some a \<Rightarrow> a \<in> A \<and> same k (key_at t a))"
    and add_law: "repr t A \<Longrightarrow> valid k \<Longrightarrow> alloc t \<notin> Some ` A \<Longrightarrow> \<exists>ret t'. add t k = Some (ret, t') \<and>
      (\<forall>a\<in>A. key_at t' a = key_at t a) \<and>
      (case alloc t of None \<Rightarrow> ret = -1 \<and> repr t' A | Some a \<Rightarrow> ret = 0 \<and> repr t' (insert a A) \<and> key_at t' a = k)"
    and remove_law: "repr t A \<Longrightarrow> a \<in> A \<Longrightarrow> \<exists>t'. remove t a = Some t' \<and> repr t' (A - {a}) \<and>
      alloc t' = alloc t \<and> (\<forall>b\<in>A. key_at t' b = key_at t b)"
begin

text \<open>A key is present when some item has the same key.\<close>

definition present :: "'t \<Rightarrow> nat set \<Rightarrow> 'k \<Rightarrow> bool" where
  "present t A k \<longleftrightarrow> (\<exists>a\<in>A. same k (key_at t a))"

text \<open>No key is there twice.\<close>

definition unique :: "'t \<Rightarrow> nat set \<Rightarrow> bool" where
  "unique t A \<longleftrightarrow> (\<forall>a\<in>A. \<forall>b\<in>A. same (key_at t a) (key_at t b) \<longrightarrow> a = b)"

lemma lookup_present:
  assumes "repr t A" "valid k"
  shows "\<exists>p. lookup t k = Some p \<and> (p \<noteq> None \<longleftrightarrow> present t A k)"
  using lookup_law [OF assms] unfolding present_def by (fastforce split: option.splits)

lemma lookup_unique:
  assumes "repr t A" "unique t A" "a \<in> A" "same k (key_at t a)" "valid k"
  shows "lookup t k = Some (Some a)"
proof -
  have "present t A k" using assms(3,4) by (auto simp: present_def)
  then obtain b where b: "lookup t k = Some (Some b)" "b \<in> A" "same k (key_at t b)"
    using lookup_law [OF assms(1,5)] unfolding present_def by (auto split: option.splits)
  have "same (key_at t a) (key_at t b)"
    using assms(3-5) b(2,3) same_sym same_trans valid_key [OF assms(1)] by blast
  then show ?thesis using assms(2,3) b by (auto simp: unique_def)
qed

text \<open>Adding a key that is absent keeps the keys unique and makes it, and nothing else, present.\<close>

lemma add_absent:
  assumes "repr t A" "unique t A" "valid k" "lookup t k = Some None" "alloc t = Some a" "a \<notin> A" "same k k"
  shows "\<exists>t'. add t k = Some (0, t') \<and> repr t' (insert a A) \<and> unique t' (insert a A) \<and> key_at t' a = k \<and>
    (\<forall>b\<in>A. key_at t' b = key_at t b) \<and> (\<forall>l. present t' (insert a A) l \<longleftrightarrow> same l k \<or> present t A l)"
proof -
  obtain t' where t': "add t k = Some (0, t')" "\<forall>a\<in>A. key_at t' a = key_at t a" "repr t' (insert a A)" "key_at t' a = k"
    using add_law [OF assms(1,3)] assms(5,6) by auto
  have "\<not> present t A k" using lookup_present [OF assms(1,3)] assms(4) by simp
  then have no: "\<forall>b\<in>A. \<not> same k (key_at t b)" by (auto simp: present_def)
  then have "\<forall>b\<in>A. \<not> same (key_at t b) k" using same_sym valid_key [OF assms(1)] assms(3) by blast
  then have "unique t' (insert a A)" using assms(2) t'(2,4) no by (auto simp: unique_def)
  moreover have "\<forall>l. present t' (insert a A) l \<longleftrightarrow> same l k \<or> present t A l" using t'(2,4) by (auto simp: present_def)
  ultimately show ?thesis using t' by blast
qed

lemma remove_present:
  assumes "repr t A" "unique t A" "a \<in> A"
  shows "\<exists>t'. remove t a = Some t' \<and> repr t' (A - {a}) \<and> unique t' (A - {a}) \<and> alloc t' = alloc t \<and>
    (\<forall>b\<in>A. key_at t' b = key_at t b) \<and>
    (\<forall>l. valid l \<longrightarrow> (present t' (A - {a}) l \<longleftrightarrow> present t A l \<and> \<not> same l (key_at t a)))"
proof -
  obtain t' where t': "remove t a = Some t'" "repr t' (A - {a})" "\<forall>b\<in>A. key_at t' b = key_at t b" "alloc t' = alloc t"
    using remove_law [OF assms(1,3)] by blast
  have "unique t' (A - {a})" using assms(2) t'(3) by (auto simp: unique_def)
  moreover have "present t' (A - {a}) l \<longleftrightarrow> present t A l \<and> \<not> same l (key_at t a)" if l: "valid l" for l
  proof
    assume "present t' (A - {a}) l"
    then obtain b where b: "b \<in> A" "b \<noteq> a" "same l (key_at t b)" using t'(3) by (auto simp: present_def)
    then have "\<not> same l (key_at t a)"
      using assms(2,3) same_sym same_trans l valid_key [OF assms(1)] unfolding unique_def by meson
    with b show "present t A l \<and> \<not> same l (key_at t a)" by (auto simp: present_def)
  next
    assume "present t A l \<and> \<not> same l (key_at t a)"
    then show "present t' (A - {a}) l" using t'(3) by (auto simp: present_def)
  qed
  ultimately show ?thesis using t' by blast
qed

end

text \<open>What a table relies on: valid keys that compare equal are equivalent and have the same hash.\<close>

locale hash_key =
  fixes valid :: "'k \<Rightarrow> bool"
    and hash :: "'k \<Rightarrow> u64"
    and compare :: "'k \<Rightarrow> 'k \<Rightarrow> int"
  assumes compare_sym: "valid k \<Longrightarrow> valid l \<Longrightarrow> compare k l = 0 \<Longrightarrow> compare l k = 0"
    and compare_trans: "valid k \<Longrightarrow> valid l \<Longrightarrow> valid m \<Longrightarrow> compare k l = 0 \<Longrightarrow> compare l m = 0 \<Longrightarrow> compare k m = 0"
    and compare_hash: "valid k \<Longrightarrow> valid l \<Longrightarrow> compare k l = 0 \<Longrightarrow> hash k = hash l"

end
