(* ===== verification/PicohashLaws.thy ===== *)
theory PicohashLaws
  imports Picohash
begin

text \<open>
  The hash table fulfils the interface: every item is in the bin of its hash, the bins are disjoint
  linked lists, and keys that compare equal have the same hash.
\<close>

section \<open>Linked lists\<close>

fun chain :: "(nat \<Rightarrow> 'k picohash_item) \<Rightarrow> hash_ptr \<Rightarrow> nat list \<Rightarrow> bool" where
  "chain m p [] \<longleftrightarrow> p = None"
| "chain m p (a # as) \<longleftrightarrow> p = Some a \<and> chain m (next_in_bin (m a)) as"

lemma chain_cong: "\<forall>a\<in>set as. next_in_bin (m' a) = next_in_bin (m a) \<Longrightarrow> chain m' p as = chain m p as"
  by (induction as arbitrary: p) auto

lemma chain_append:
  "chain m p (as @ b # bs) \<Longrightarrow> chain m (Some b) (b # bs)"
  by (induction as arbitrary: p) auto

section \<open>The invariant\<close>

definition table_ok :: "'k picohash_table \<Rightarrow> nat list list \<Rightarrow> bool" where
  "table_ok t bss \<longleftrightarrow> 0 < nb_bin t \<and> nb_bin t \<le> 2 ^ 32 \<and> length (hash_bin t) = nb_bin t \<and> length bss = nb_bin t \<and>
     (\<forall>b<nb_bin t. chain (hash_mem t) (hash_bin t ! b) (bss ! b)) \<and>
     (\<forall>b<nb_bin t. \<forall>a\<in>set (bss ! b). item_hash (hash_mem t a) = picohash_hash t (item_key (hash_mem t a)) \<and>
        bin_of t (picohash_hash t (item_key (hash_mem t a))) = Some b) \<and>
     (\<forall>b<nb_bin t. distinct (bss ! b))"

definition items_of :: "nat list list \<Rightarrow> nat set" where
  "items_of bss = \<Union> (set ` set bss)"

lemma items_of_iff: "length bss = n \<Longrightarrow> a \<in> items_of bss \<longleftrightarrow> (\<exists>b<n. a \<in> set (bss ! b))"
  by (simp add: items_of_def) (metis in_set_conv_nth)

lemma table_okD:
  assumes "table_ok t bss" "b < nb_bin t"
  shows table_ok_chain: "chain (hash_mem t) (hash_bin t ! b) (bss ! b)"
    and table_ok_distinct: "distinct (bss ! b)"
    and table_ok_hash: "a \<in> set (bss ! b) \<Longrightarrow> item_hash (hash_mem t a) = picohash_hash t (item_key (hash_mem t a))"
    and table_ok_bin: "a \<in> set (bss ! b) \<Longrightarrow> bin_of t (picohash_hash t (item_key (hash_mem t a))) = Some b"
  using assms by (auto simp: table_ok_def)

lemma table_ok_lengths:
  "table_ok t bss \<Longrightarrow> 0 < nb_bin t \<and> nb_bin t \<le> 2 ^ 32 \<and> length (hash_bin t) = nb_bin t \<and> length bss = nb_bin t"
  by (simp add: table_ok_def)

lemma bin_of_total:
  assumes "table_ok t bss"
  shows "\<exists>b. bin_of t h = Some b \<and> b < nb_bin t"
proof -
  note n = table_ok_lengths [OF assms]
  have "unat h mod nb_bin t < nb_bin t" using n by simp
  then have "take_bit 32 (unat h mod nb_bin t) = unat h mod nb_bin t"
    using n by (intro take_bit_nat_eq_self) linarith
  then show ?thesis using n \<open>unat h mod nb_bin t < nb_bin t\<close> by (simp add: bin_of_def Let_def)
qed

text \<open>An item is in one bin only, since its bin is that of its hash.\<close>

lemma bins_disjoint:
  "table_ok t bss \<Longrightarrow> a \<in> set (bss ! b) \<Longrightarrow> a \<in> set (bss ! c) \<Longrightarrow> b < nb_bin t \<Longrightarrow> c < nb_bin t \<Longrightarrow> b = c"
  using table_ok_bin [of t bss b a] table_ok_bin [of t bss c a] by simp

text \<open>An operation that keeps the keys, the hashes and the bins of the items keeps the table.\<close>

lemma table_ok_step:
  assumes "table_ok t bss" "nb_bin t' = nb_bin t" "picohash_hash t' = picohash_hash t"
    "length (hash_bin t') = nb_bin t" "length bss' = nb_bin t"
    "\<And>b. b < nb_bin t \<Longrightarrow> chain (hash_mem t') (hash_bin t' ! b) (bss' ! b)"
    "\<And>b. b < nb_bin t \<Longrightarrow> distinct (bss' ! b)"
    "\<And>b a. b < nb_bin t \<Longrightarrow> a \<in> set (bss' ! b) \<Longrightarrow>
       item_hash (hash_mem t' a) = picohash_hash t (item_key (hash_mem t' a)) \<and>
       bin_of t (picohash_hash t (item_key (hash_mem t' a))) = Some b"
  shows "table_ok t' bss'"
proof -
  have "bin_of t' = bin_of t" using assms(2,4) table_ok_lengths [OF assms(1)] by (simp add: bin_of_def fun_eq_iff)
  then show ?thesis using assms table_ok_lengths [OF assms(1)] unfolding table_ok_def by simp
qed

section \<open>Lookup\<close>

lemma retrieve_loop_chain:
  assumes "chain (hash_mem t) p as"
  shows "retrieve_loop t key p = Some (find (\<lambda>a. picohash_compare t key (item_key (hash_mem t a)) = 0) as)"
  using assms
proof (induction as arbitrary: p)
  case Nil
  then show ?case by (subst retrieve_loop.simps) simp
next
  case (Cons a as)
  then show ?case by (subst retrieve_loop.simps) auto
qed

lemma retrieve_law:
  assumes "table_ok t bss" and same_hash: "\<And>a. a \<in> items_of bss \<Longrightarrow>
    picohash_compare t key (item_key (hash_mem t a)) = 0 \<Longrightarrow> picohash_hash t key = picohash_hash t (item_key (hash_mem t a))"
  shows "\<exists>p. picohash_retrieve t key = Some p \<and>
    (case p of None \<Rightarrow> \<forall>a\<in>items_of bss. picohash_compare t key (item_key (hash_mem t a)) \<noteq> 0
     | Some a \<Rightarrow> a \<in> items_of bss \<and> picohash_compare t key (item_key (hash_mem t a)) = 0)"
proof -
  obtain b where b: "bin_of t (picohash_hash t key) = Some b" "b < nb_bin t" using bin_of_total [OF assms(1)] by blast
  have l: "length bss = nb_bin t" using assms by (simp add: table_ok_def)
  define P where "P a \<longleftrightarrow> picohash_compare t key (item_key (hash_mem t a)) = 0" for a
  have run: "picohash_retrieve t key = Some (find P (bss ! b))"
    using retrieve_loop_chain [OF table_ok_chain [OF assms(1) b(2)], of key] b(1)
    by (simp add: picohash_retrieve_def P_def [abs_def])
  have only: "a \<in> set (bss ! b)" if a: "a \<in> items_of bss" "P a" for a
  proof -
    obtain d where d: "d < nb_bin t" "a \<in> set (bss ! d)" using a(1) l by (auto simp: items_of_iff)
    have "picohash_hash t key = picohash_hash t (item_key (hash_mem t a))" using a same_hash by (simp add: P_def)
    then show ?thesis using table_ok_bin [OF assms(1) d] b(1) d(2) by simp
  qed
  show ?thesis
  proof (cases "find P (bss ! b)")
    case None
    then have "\<forall>a\<in>set (bss ! b). \<not> P a" by (simp add: find_None_iff)
    then show ?thesis using run None only by (auto simp: P_def [symmetric])
  next
    case (Some a)
    then have "a \<in> set (bss ! b)" "P a" by (auto simp: find_Some_iff)
    then show ?thesis using run Some b(2) l by (auto simp: items_of_iff P_def)
  qed
qed

section \<open>Insertion\<close>

definition next_alloc :: "'k picohash_table \<Rightarrow> nat option" where
  "next_alloc t = (case hash_mallocs t of [] \<Rightarrow> None | m # _ \<Rightarrow> m)"

lemma insert_law:
  assumes "table_ok t bss" "next_alloc t \<notin> Some ` items_of bss"
  shows "\<exists>ret t'. picohash_insert t key = Some (ret, t') \<and>
    (\<forall>a\<in>items_of bss. item_key (hash_mem t' a) = item_key (hash_mem t a)) \<and>
    picohash_hash t' = picohash_hash t \<and> picohash_compare t' = picohash_compare t \<and>
    (case next_alloc t of
       None \<Rightarrow> ret = -1 \<and> table_ok t' bss
     | Some a \<Rightarrow> ret = 0 \<and> item_key (hash_mem t' a) = key \<and> nb_items t' = nb_items t + 1 \<and>
         (\<exists>bss'. table_ok t' bss' \<and> items_of bss' = insert a (items_of bss)))"
proof -
  obtain b where b: "bin_of t (picohash_hash t key) = Some b" "b < nb_bin t" using bin_of_total [OF assms(1)] by blast
  note l = table_ok_lengths [OF assms(1)]
  show ?thesis
  proof (cases "next_alloc t")
    case None
    have "table_ok (t\<lparr>hash_mallocs := ms\<rparr>) bss" for ms
      by (rule table_ok_step [OF assms(1)]) (use assms(1) l in \<open>simp_all add: table_ok_chain table_ok_distinct table_ok_hash table_ok_bin\<close>)
    then show ?thesis using None assms(1) b(1)
      by (cases "hash_mallocs t") (auto simp: picohash_insert_def next_alloc_def Let_def split: option.splits)
  next
    case (Some a)
    then obtain ms where m: "hash_mallocs t = Some a # ms" by (auto simp: next_alloc_def split: list.splits)
    define t' where "t' = t\<lparr>hash_mallocs := ms,
        hash_mem := (hash_mem t)(a := \<lparr>item_hash = picohash_hash t key, next_in_bin = hash_bin t ! b, item_key = key\<rparr>),
        hash_bin := (hash_bin t)[b := Some a], nb_items := nb_items t + 1\<rparr>"
    define bss' where "bss' = bss[b := a # bss ! b]"
    have fresh: "a \<notin> set (bss ! c)" if "c < nb_bin t" for c
      using assms(2) Some that l items_of_iff [of bss "nb_bin t" a] by auto
    have at: "bss' ! c = (if c = b then a # bss ! c else bss ! c)" if "c < nb_bin t" for c
      using l that by (simp add: bss'_def)
    have "table_ok t' bss'"
    proof (rule table_ok_step [OF assms(1)])
      fix c assume c: "c < nb_bin t"
      have "chain (hash_mem t') (hash_bin t ! c) (bss ! c)"
        using table_ok_chain [OF assms(1) c] fresh [OF c] chain_cong [of "bss ! c" "hash_mem t'" "hash_mem t"] by (auto simp: t'_def)
      then show "chain (hash_mem t') (hash_bin t' ! c) (bss' ! c)"
        using c l by (cases "c = b") (simp_all add: at t'_def)
      show "distinct (bss' ! c)" using table_ok_distinct [OF assms(1) c] c fresh [OF c] by (cases "c = b") (simp_all add: at)
      fix x assume x: "x \<in> set (bss' ! c)"
      show "item_hash (hash_mem t' x) = picohash_hash t (item_key (hash_mem t' x)) \<and>
          bin_of t (picohash_hash t (item_key (hash_mem t' x))) = Some c"
      proof (cases "x = a")
        case True
        then have "c = b" using x c fresh by (simp add: at split: if_splits)
        then show ?thesis using True b(1) by (simp add: t'_def)
      next
        case False
        then have "x \<in> set (bss ! c)" using x c by (simp add: at split: if_splits)
        then show ?thesis using False table_ok_hash [OF assms(1) c] table_ok_bin [OF assms(1) c] by (simp add: t'_def)
      qed
    qed (use l in \<open>simp_all add: t'_def bss'_def\<close>)
    moreover have "x \<in> items_of bss' \<longleftrightarrow> x = a \<or> x \<in> items_of bss" for x
      using l b(2) by (auto simp: items_of_iff bss'_def nth_list_update split: if_splits)
    then have "items_of bss' = insert a (items_of bss)" by blast
    moreover have "a \<notin> items_of bss" using assms(2) Some by auto
    ultimately show ?thesis using b(1) m Some
      by (intro exI [of _ 0] exI [of _ t']) (auto simp: picohash_insert_def Let_def t'_def)
  qed
qed

section \<open>Removal\<close>

text \<open>Making the item \<open>q\<close> point behind the item \<open>a\<close>.\<close>

definition unlinked :: "(nat \<Rightarrow> 'k picohash_item) \<Rightarrow> nat \<Rightarrow> nat \<Rightarrow> nat \<Rightarrow> 'k picohash_item" where
  "unlinked m q a = m(q := (m q)\<lparr>next_in_bin := next_in_bin (m a)\<rparr>)"

lemma unlinked_same [simp]:
  "item_key (unlinked m q a x) = item_key (m x)" "item_hash (unlinked m q a x) = item_hash (m x)"
  by (simp_all add: unlinked_def)

lemma unlink_loop_chain:
  assumes "chain (hash_mem t) (Some p) (p # as)" "a \<in> set as" "distinct (p # as)"
  shows "\<exists>q\<in>set (p # as). q \<noteq> a \<and>
    unlink_loop t a (Some p) = Some (t\<lparr>hash_mem := unlinked (hash_mem t) q a, nb_items := nb_items t - 1\<rparr>) \<and>
    chain (unlinked (hash_mem t) q a) (Some p) (p # remove1 a as)"
  using assms
proof (induction as arbitrary: p)
  case Nil
  then show ?case by simp
next
  case (Cons b as)
  have next_p: "next_in_bin (hash_mem t p) = Some b" and rest: "chain (hash_mem t) (Some b) (b # as)" using Cons.prems(1) by auto
  show ?case
  proof (cases "b = a")
    case True
    have "chain (unlinked (hash_mem t) p a) (next_in_bin (hash_mem t a)) as = chain (hash_mem t) (next_in_bin (hash_mem t a)) as"
      using Cons.prems(3) by (intro chain_cong) (auto simp: unlinked_def)
    then have "chain (unlinked (hash_mem t) p a) (Some p) (p # as)" using rest True by (simp add: unlinked_def)
    moreover have "unlink_loop t a (Some p) = Some (t\<lparr>hash_mem := unlinked (hash_mem t) p a, nb_items := nb_items t - 1\<rparr>)"
      using next_p True by (subst unlink_loop.simps) (simp add: unlinked_def)
    ultimately show ?thesis using True Cons.prems(3) by auto
  next
    case False
    then obtain q where q: "q \<in> set (b # as)" "q \<noteq> a"
      "unlink_loop t a (Some b) = Some (t\<lparr>hash_mem := unlinked (hash_mem t) q a, nb_items := nb_items t - 1\<rparr>)"
      "chain (unlinked (hash_mem t) q a) (Some b) (b # remove1 a as)"
      using Cons.IH [OF rest] Cons.prems(2,3) by auto
    have "q \<noteq> p" using q(1) Cons.prems(3) by auto
    then have "chain (unlinked (hash_mem t) q a) (Some p) (p # remove1 a (b # as))"
      using q(4) next_p False by (simp add: unlinked_def)
    moreover have "unlink_loop t a (Some p) = unlink_loop t a (Some b)"
      using next_p False by (subst unlink_loop.simps) simp
    ultimately show ?thesis using q by auto
  qed
qed

lemma delete_item_law:
  assumes "table_ok t bss" "a \<in> items_of bss"
  shows "\<exists>t' bss'. picohash_delete_item t a free_key = Some t' \<and> table_ok t' bss' \<and> items_of bss' = items_of bss - {a} \<and>
    (\<forall>x. item_key (hash_mem t' x) = item_key (hash_mem t x)) \<and> nb_items t' = nb_items t - 1 \<and>
    freed_items t' = a # freed_items t \<and> hash_mallocs t' = hash_mallocs t \<and>
    freed_keys t' = (if free_key then item_key (hash_mem t a) # freed_keys t else freed_keys t) \<and>
    picohash_hash t' = picohash_hash t \<and> picohash_compare t' = picohash_compare t"
proof -
  note l = table_ok_lengths [OF assms(1)]
  obtain b where b: "b < nb_bin t" "a \<in> set (bss ! b)" using assms(2) l by (auto simp: items_of_iff)
  have bin: "bin_of t (item_hash (hash_mem t a)) = Some b"
    using table_ok_hash [OF assms(1) b] table_ok_bin [OF assms(1) b] by simp
  note ch = table_ok_chain [OF assms(1) b(1)]
  note di = table_ok_distinct [OF assms(1) b(1)]
  obtain p as where pas: "bss ! b = p # as" "hash_bin t ! b = Some p" using b(2) ch by (cases "bss ! b") auto
  obtain m' p' where step: "(if hash_bin t ! b = Some a
        then Some (t\<lparr>hash_bin := (hash_bin t)[b := next_in_bin (hash_mem t a)], nb_items := nb_items t - 1\<rparr>)
        else unlink_loop t a (hash_bin t ! b)) =
      Some (t\<lparr>hash_mem := m', hash_bin := (hash_bin t)[b := p'], nb_items := nb_items t - 1\<rparr>)"
    and m': "chain m' p' (remove1 a (bss ! b))"
      "\<forall>x. item_key (m' x) = item_key (hash_mem t x) \<and> item_hash (m' x) = item_hash (hash_mem t x)"
      "\<forall>x. x \<notin> set (bss ! b) \<longrightarrow> m' x = hash_mem t x"
  proof (cases "p = a")
    case True
    then show thesis using that [of "next_in_bin (hash_mem t a)" "hash_mem t"] pas ch by auto
  next
    case False
    then obtain q where q: "q \<in> set (bss ! b)"
      "unlink_loop t a (Some p) = Some (t\<lparr>hash_mem := unlinked (hash_mem t) q a, nb_items := nb_items t - 1\<rparr>)"
      "chain (unlinked (hash_mem t) q a) (Some p) (p # remove1 a as)"
      using unlink_loop_chain [of t p as a] ch di b(2) pas by auto
    have same: "(hash_bin t)[b := Some p] = hash_bin t" using pas(2) b(1) l by (metis list_update_id)
    show thesis
    proof (rule that [of "Some p" "unlinked (hash_mem t) q a"])
      show "(if hash_bin t ! b = Some a
          then Some (t\<lparr>hash_bin := (hash_bin t)[b := next_in_bin (hash_mem t a)], nb_items := nb_items t - 1\<rparr>)
          else unlink_loop t a (hash_bin t ! b)) =
        Some (t\<lparr>hash_mem := unlinked (hash_mem t) q a, hash_bin := (hash_bin t)[b := Some p], nb_items := nb_items t - 1\<rparr>)"
        unfolding same using q(2) pas(2) False by (cases t) simp
      show "chain (unlinked (hash_mem t) q a) (Some p) (remove1 a (bss ! b))" using q(3) pas(1) False by simp
    qed (use q(1) in \<open>auto simp: unlinked_def\<close>)
  qed
  define t' where "t' = t\<lparr>hash_mem := m', hash_bin := (hash_bin t)[b := p'], nb_items := nb_items t - 1,
    freed_keys := (if free_key then item_key (hash_mem t a) # freed_keys t else freed_keys t), freed_items := a # freed_items t\<rparr>"
  define bss' where "bss' = bss[b := remove1 a (bss ! b)]"
  have at: "bss' ! c = (if c = b then remove1 a (bss ! c) else bss ! c)" if "c < nb_bin t" for c
    using l that by (simp add: bss'_def)
  have sub: "x \<in> set (bss ! c)" if "c < nb_bin t" "x \<in> set (bss' ! c)" for x c
    using that set_remove1_subset [of a "bss ! c"] by (auto simp: at split: if_splits)
  have run: "picohash_delete_item t a free_key = Some t'"
    using bin step m'(2) by (simp add: picohash_delete_item_def t'_def Let_def)
  have "table_ok t' bss'"
  proof (rule table_ok_step [OF assms(1)])
    fix c assume c: "c < nb_bin t"
    show "distinct (bss' ! c)" using table_ok_distinct [OF assms(1) c] c by (cases "c = b") (simp_all add: at)
    show "chain (hash_mem t') (hash_bin t' ! c) (bss' ! c)"
    proof (cases "c = b")
      case True
      then show ?thesis using m'(1) c l by (simp add: at) (simp add: t'_def)
    next
      case False
      then have "\<forall>x\<in>set (bss ! c). m' x = hash_mem t x" using m'(3) bins_disjoint [OF assms(1)] b(1) c by blast
      then show ?thesis using table_ok_chain [OF assms(1) c] chain_cong [of "bss ! c" m' "hash_mem t"] False c
        by (simp add: at) (simp add: t'_def)
    qed
    fix x assume "x \<in> set (bss' ! c)"
    then have "x \<in> set (bss ! c)" using sub c by blast
    then show "item_hash (hash_mem t' x) = picohash_hash t (item_key (hash_mem t' x)) \<and>
        bin_of t (picohash_hash t (item_key (hash_mem t' x))) = Some c"
      using table_ok_hash [OF assms(1) c] table_ok_bin [OF assms(1) c] m'(2) by (simp add: t'_def)
  qed (use l in \<open>simp_all add: t'_def bss'_def\<close>)
  moreover have "x \<in> items_of bss' \<longleftrightarrow> x \<in> items_of bss \<and> x \<noteq> a" for x
  proof -
    have "x \<in> set (bss' ! c) \<longleftrightarrow> x \<in> set (bss ! c) \<and> x \<noteq> a" if c: "c < nb_bin t" for c
    proof (cases "c = b")
      case True
      then show ?thesis using di c by (simp add: at)
    next
      case False
      then show ?thesis using bins_disjoint [OF assms(1) _ b(2) c b(1)] c by (auto simp: at)
    qed
    then show ?thesis using l by (auto simp: items_of_iff bss'_def)
  qed
  then have "items_of bss' = items_of bss - {a}" by blast
  ultimately show ?thesis using run m'(2) by (intro exI [of _ t'] exI [of _ bss']) (auto simp: t'_def)
qed

section \<open>Deletion of the table\<close>

lemma delete_bin_loop_chain:
  assumes "chain (hash_mem t) p as"
  shows "delete_bin_loop t free_key p = Some (t\<lparr>freed_items := rev as @ freed_items t,
    freed_keys := (if free_key then rev (map (\<lambda>a. item_key (hash_mem t a)) as) else []) @ freed_keys t\<rparr>)"
  using assms
proof (induction as arbitrary: p t)
  case Nil
  then show ?case by (subst delete_bin_loop.simps) (cases t, simp)
next
  case (Cons a as)
  then show ?case by (subst delete_bin_loop.simps) (cases t, simp)
qed

lemma delete_bins_chains:
  assumes "list_all2 (chain m) bs bss" "hash_mem t = m"
  shows "delete_bins t free_key bs = Some (t\<lparr>freed_items := rev (concat bss) @ freed_items t,
    freed_keys := (if free_key then rev (map (\<lambda>a. item_key (m a)) (concat bss)) else []) @ freed_keys t\<rparr>)"
  using assms
proof (induction bs bss arbitrary: t rule: list_all2_induct)
  case Nil
  then show ?case by (cases t) simp
next
  case (Cons b bs as bss)
  then show ?case by (simp add: delete_bin_loop_chain)
qed

lemma distinct_concat_nth:
  assumes "\<forall>b<length xss. distinct (xss ! b)"
    "\<forall>b<length xss. \<forall>c<length xss. b \<noteq> c \<longrightarrow> set (xss ! b) \<inter> set (xss ! c) = {}"
  shows "distinct (concat xss)"
  using assms
proof (induction xss)
  case (Cons xs xss)
  have "distinct (concat xss)"
  proof (rule Cons.IH)
    show "\<forall>b<length xss. distinct (xss ! b)" using Cons.prems(1) by (auto dest: spec [of _ "Suc _"])
    have "set ((xs # xss) ! Suc b) \<inter> set ((xs # xss) ! Suc c) = {}" if "b < length xss" "c < length xss" "b \<noteq> c" for b c
      using Cons.prems(2) [rule_format, of "Suc b" "Suc c"] that by simp
    then show "\<forall>b<length xss. \<forall>c<length xss. b \<noteq> c \<longrightarrow> set (xss ! b) \<inter> set (xss ! c) = {}" by simp
  qed
  moreover have "set xs \<inter> set (xss ! c) = {}" if "c < length xss" for c
    using Cons.prems(2) that by (force dest: spec [of _ 0] spec [of _ "Suc c"])
  then have "set xs \<inter> set (concat xss) = {}" by (auto simp: in_set_conv_nth) (metis in_set_conv_nth disjoint_iff)
  ultimately show ?case using Cons.prems(1) by (force dest: spec [of _ 0])
qed simp

lemma concat_distinct:
  assumes "table_ok t bss"
  shows "distinct (concat bss)"
proof -
  note l = table_ok_lengths [OF assms]
  have "\<forall>b<length bss. distinct (bss ! b)" using table_ok_distinct [OF assms] l by simp
  moreover have "\<forall>b<length bss. \<forall>c<length bss. b \<noteq> c \<longrightarrow> set (bss ! b) \<inter> set (bss ! c) = {}"
    using bins_disjoint [OF assms] l by (metis disjoint_iff)
  ultimately show ?thesis by (rule distinct_concat_nth)
qed

text \<open>Every item of the table, and nothing else, is freed, and it is freed once.\<close>

lemma picohash_delete_frees:
  assumes "table_ok t bss"
  shows "\<exists>t' frees. picohash_delete t free_key = Some t' \<and> freed_items t' = frees @ freed_items t \<and>
    distinct frees \<and> set frees = items_of bss \<and>
    freed_keys t' = (if free_key then map (\<lambda>a. item_key (hash_mem t a)) frees else []) @ freed_keys t"
proof -
  note l = table_ok_lengths [OF assms]
  have "list_all2 (chain (hash_mem t)) (take (nb_bin t) (hash_bin t)) bss"
    using l table_ok_chain [OF assms] by (simp add: list_all2_conv_all_nth)
  from delete_bins_chains [OF this refl, of free_key] show ?thesis
    using concat_distinct [OF assms]
    by (intro exI [of _ "rev (concat bss)"] exI conjI) (auto simp: picohash_delete_def items_of_def rev_map)
qed

section \<open>The table as a set of keys\<close>

definition holds_items ::
    "('k \<Rightarrow> bool) \<Rightarrow> ('k \<Rightarrow> u64) \<Rightarrow> ('k \<Rightarrow> 'k \<Rightarrow> int) \<Rightarrow> 'k picohash_table \<Rightarrow> nat set \<Rightarrow> bool" where
  "holds_items valid hash compare t A \<longleftrightarrow>
     picohash_hash t = hash \<and> picohash_compare t = compare \<and> (\<forall>a\<in>A. valid (item_key (hash_mem t a))) \<and>
     (\<exists>bss. table_ok t bss \<and> items_of bss = A)"

lemma holds_items_create:
  assumes "0 < nb" "nb \<le> 2 ^ 32" "picohash_create malloc_ok ms m nb hash compare = Some t"
  shows "holds_items valid hash compare t {}"
proof -
  have "table_ok t (replicate nb [])" using assms by (auto simp: picohash_create_def table_ok_def split: if_splits)
  moreover have "items_of (replicate nb []) = ({} :: nat set)" by (simp add: items_of_def)
  ultimately show ?thesis using assms(3) by (auto simp: picohash_create_def holds_items_def split: if_splits)
qed

lemma holds_items_finite: "holds_items valid hash compare t A \<Longrightarrow> finite A"
  by (auto simp: holds_items_def items_of_def)

lemma insert_holds_items:
  assumes "holds_items valid hash compare t A" "valid k" "next_alloc t \<notin> Some ` A"
  shows "\<exists>ret t'. picohash_insert t k = Some (ret, t') \<and>
      (\<forall>a\<in>A. item_key (hash_mem t' a) = item_key (hash_mem t a)) \<and>
      (case next_alloc t of None \<Rightarrow> ret = -1 \<and> holds_items valid hash compare t' A
       | Some a \<Rightarrow> ret = 0 \<and> holds_items valid hash compare t' (insert a A) \<and> item_key (hash_mem t' a) = k)"
proof -
  obtain bss where b: "table_ok t bss" "items_of bss = A" "picohash_hash t = hash" "picohash_compare t = compare"
    "\<forall>a\<in>A. valid (item_key (hash_mem t a))" using assms(1) by (auto simp: holds_items_def)
  have "next_alloc t \<notin> Some ` items_of bss" using b(2) assms(3) by simp
  from insert_law [OF b(1) this, of k] obtain ret t' where t': "picohash_insert t k = Some (ret, t')"
    "\<forall>a\<in>A. item_key (hash_mem t' a) = item_key (hash_mem t a)" "picohash_hash t' = hash" "picohash_compare t' = compare"
    "case next_alloc t of None \<Rightarrow> ret = -1 \<and> table_ok t' bss
     | Some a \<Rightarrow> ret = 0 \<and> item_key (hash_mem t' a) = k \<and> nb_items t' = nb_items t + 1 \<and>
         (\<exists>bss'. table_ok t' bss' \<and> items_of bss' = insert a A)"
    using b(2-4) by auto
  show ?thesis
  proof (cases "next_alloc t")
    case None
    then show ?thesis using t' b(2,5) by (auto simp: holds_items_def)
  next
    case (Some a)
    then show ?thesis using t' b(5) assms(2) by (auto simp: holds_items_def)
  qed
qed

lemma delete_holds_items:
  assumes "holds_items valid hash compare t A" "a \<in> A"
  shows "\<exists>t'. picohash_delete_item t a free_key = Some t' \<and> holds_items valid hash compare t' (A - {a}) \<and>
      next_alloc t' = next_alloc t \<and> (\<forall>b\<in>A. item_key (hash_mem t' b) = item_key (hash_mem t b))"
proof -
  obtain bss where b: "table_ok t bss" "items_of bss = A" "picohash_hash t = hash" "picohash_compare t = compare"
    "\<forall>a\<in>A. valid (item_key (hash_mem t a))" using assms(1) by (auto simp: holds_items_def)
  have "a \<in> items_of bss" using b(2) assms(2) by simp
  from delete_item_law [OF b(1) this, of free_key] obtain t' bss' where t': "picohash_delete_item t a free_key = Some t'"
    "table_ok t' bss'" "items_of bss' = A - {a}" "\<forall>x. item_key (hash_mem t' x) = item_key (hash_mem t x)"
    "hash_mallocs t' = hash_mallocs t" "picohash_hash t' = hash" "picohash_compare t' = compare"
    using b(2-4) by auto
  then have "holds_items valid hash compare t' (A - {a})" using b(5) by (auto simp: holds_items_def)
  then show ?thesis using t' by (simp add: next_alloc_def)
qed

sublocale hash_key \<subseteq> table: key_table valid "holds_items valid hash compare" "\<lambda>t a. item_key (hash_mem t a)"
  "\<lambda>k l. compare k l = 0" picohash_retrieve picohash_insert "\<lambda>t a. picohash_delete_item t a free_key" next_alloc
proof
  show "holds_items valid hash compare t A \<Longrightarrow> a \<in> A \<Longrightarrow> valid (item_key (hash_mem t a))" for t A a
    by (simp add: holds_items_def)
  show "valid k \<Longrightarrow> valid l \<Longrightarrow> compare k l = 0 \<Longrightarrow> compare l k = 0" for k l by (rule compare_sym)
  show "valid k \<Longrightarrow> valid l \<Longrightarrow> valid m \<Longrightarrow> compare k l = 0 \<Longrightarrow> compare l m = 0 \<Longrightarrow> compare k m = 0" for k l m
    by (rule compare_trans)
next
  fix t A k
  assume "holds_items valid hash compare t A" "valid k"
  then show "\<exists>p. picohash_retrieve t k = Some p \<and>
      (case p of None \<Rightarrow> \<forall>a\<in>A. compare k (item_key (hash_mem t a)) \<noteq> 0
       | Some a \<Rightarrow> a \<in> A \<and> compare k (item_key (hash_mem t a)) = 0)"
    using retrieve_law [of t _ k] compare_hash [of k] by (auto simp: holds_items_def)
next
  fix t A k
  assume "holds_items valid hash compare t A" "valid k" "next_alloc t \<notin> Some ` A"
  then show "\<exists>ret t'. picohash_insert t k = Some (ret, t') \<and>
      (\<forall>a\<in>A. item_key (hash_mem t' a) = item_key (hash_mem t a)) \<and>
      (case next_alloc t of None \<Rightarrow> ret = -1 \<and> holds_items valid hash compare t' A
       | Some a \<Rightarrow> ret = 0 \<and> holds_items valid hash compare t' (insert a A) \<and> item_key (hash_mem t' a) = k)"
    by (rule insert_holds_items)
next
  fix t A a
  assume "holds_items valid hash compare t A" "a \<in> A"
  then show "\<exists>t'. picohash_delete_item t a free_key = Some t' \<and> holds_items valid hash compare t' (A - {a}) \<and>
      next_alloc t' = next_alloc t \<and> (\<forall>b\<in>A. item_key (hash_mem t' b) = item_key (hash_mem t b))"
    by (rule delete_holds_items)
qed

end
