(* ===== verification/ConnectionIds.thy ===== *)
theory ConnectionIds
  imports FrameCodec PicohashLaws
begin

text \<open>
  Connection identifiers and socket addresses, from \<open>picoquic/util.c\<close>, and the keys that
  \<open>picoquic/quicctx.c\<close> builds of them to find the connection of a packet.

  Characters are their ASCII codes. A function that fills a buffer through a pointer returns the bytes
  it writes at the start of the buffer.
\<close>

section \<open>Hexadecimal digits\<close>

definition hex_to_char :: "u8 \<Rightarrow> u8" where
  "hex_to_char d = [48, 49, 50, 51, 52, 53, 54, 55, 56, 57, 97, 98, 99, 100, 101, 102] ! unat d"

definition picoquic_parse_hexa_digit :: "u8 \<Rightarrow> int" where
  "picoquic_parse_hexa_digit x =
     (if x \<ge> 48 \<and> x \<le> 57 then uint x - 48
      else if x \<ge> 65 \<and> x \<le> 70 then uint x - 65 + 10
      else if x \<ge> 97 \<and> x \<le> 102 then uint x - 97 + 10
      else -1)"

text \<open>
  The loop of \<open>picoquic_parse_hexa\<close>: the bytes that have been stored so far, and the value \<open>ret\<close> of
  the function, which is 0 after a wrong digit although bytes have been stored.
\<close>

fun parse_hexa_loop :: "u8 list \<Rightarrow> u8 list \<Rightarrow> nat \<times> u8 list" where
  "parse_hexa_loop out (x # y # xs) =
     (let a = picoquic_parse_hexa_digit x; b = picoquic_parse_hexa_digit y
      in if a < 0 \<or> b < 0 then (0, out)
         else parse_hexa_loop (out @ [word_of_int (push_bit 4 a OR b)]) xs)"
| "parse_hexa_loop out xs = (length out, out)"

definition picoquic_parse_hexa :: "u8 list \<Rightarrow> nat \<Rightarrow> nat \<times> u8 list" where
  "picoquic_parse_hexa hex_input output_max =
     (let input_length = length hex_input
      in if input_length > 0 \<and> input_length AND 1 = 0 \<and> 2 * output_max \<ge> input_length
         then parse_hexa_loop [] hex_input else (0, []))"

section \<open>Connection identifiers\<close>

text \<open>The bytes in use.\<close>

definition cid_bytes :: "connection_id \<Rightarrow> u8 list" where
  "cid_bytes c = take (unat (cid_len c)) (cid_id c)"

text \<open>The string without the final zero, which takes one byte of the buffer.\<close>

definition picoquic_print_connection_id_hexa :: "nat \<Rightarrow> connection_id \<Rightarrow> u8 list option" where
  "picoquic_print_connection_id_hexa buf_len c =
     (if buf_len < unat (cid_len c) * 2 + 1 then None
      else Some (concat (map (\<lambda>b. [hex_to_char (drop_bit 4 b), hex_to_char (b AND 0x0f)]) (cid_bytes c))))"

definition picoquic_parse_connection_id_hexa :: "u8 list \<Rightarrow> u8 \<times> connection_id" where
  "picoquic_parse_connection_id_hexa hex_input =
     (let (n, out) = picoquic_parse_hexa hex_input 18;
          c = \<lparr>cid_id = out @ replicate (20 - length out) 0, cid_len = of_nat n\<rparr>;
          c = (if cid_len c = 0 then \<lparr>cid_id = replicate 20 0, cid_len = 0\<rparr> else c)
      in (cid_len c, c))"

definition picoquic_create_packet_header_cnxid_lengths :: "u8 \<Rightarrow> u8 \<Rightarrow> u8" where
  "picoquic_create_packet_header_cnxid_lengths dest_len srce_len =
     push_bit 4 (if dest_len < 4 then 0 else dest_len - 3) OR (if srce_len < 4 then 0 else srce_len - 3)"

definition picoquic_format_connection_id :: "nat \<Rightarrow> connection_id \<Rightarrow> u8 \<times> u8 list" where
  "picoquic_format_connection_id bytes_max c =
     (if unat (cid_len c) > bytes_max \<or> cid_len c = 0 then (0, []) else (cid_len c, cid_bytes c))"

text \<open>The bytes of the array behind the copied ones keep their values.\<close>

definition picoquic_parse_connection_id :: "u8 list \<Rightarrow> u8 \<Rightarrow> connection_id \<Rightarrow> u8 \<times> connection_id" where
  "picoquic_parse_connection_id bytes len c =
     (if unat len \<le> PICOQUIC_CONNECTION_ID_MAX_SIZE
      then (len, \<lparr>cid_id = take (unat len) bytes @ drop (unat len) (cid_id c), cid_len = len\<rparr>)
      else (0, c\<lparr>cid_len := 0\<rparr>))"

definition picoquic_is_connection_id_null :: "connection_id \<Rightarrow> bool" where
  "picoquic_is_connection_id_null c \<longleftrightarrow> cid_len c = 0"

text \<open>\<open>memcmp\<close>: only the sign of the result is specified.\<close>

fun memcmp :: "u8 list \<Rightarrow> u8 list \<Rightarrow> int" where
  "memcmp (x # xs) (y # ys) = (if x = y then memcmp xs ys else if x < y then -1 else 1)"
| "memcmp _ _ = 0"

definition picoquic_compare_connection_id :: "connection_id \<Rightarrow> connection_id \<Rightarrow> int" where
  "picoquic_compare_connection_id c1 c2 =
     (if cid_len c1 = cid_len c2 then memcmp (cid_bytes c1) (cid_bytes c2)
      else if cid_len c1 > cid_len c2 then 1 else -1)"

text \<open>The two loops run over the first 8 bytes and over the others.\<close>

definition picoquic_connection_id_hash :: "connection_id \<Rightarrow> u64" where
  "picoquic_connection_id_hash c =
     (let val64 = foldl (\<lambda>v b. push_bit 8 v + ucast b) 0 (take 8 (cid_bytes c))
      in foldl (\<lambda>v b. let top = drop_bit 56 v in push_bit 8 v + ucast b + top * 0x10001) val64 (drop 8 (cid_bytes c)))"

definition picoquic_val64_connection_id :: "connection_id \<Rightarrow> u64" where
  "picoquic_val64_connection_id c =
     (if cid_len c < 8
      then foldl (\<lambda>v _. push_bit 8 v) (foldl (\<lambda>v b. push_bit 8 v OR ucast b) 0 (cid_bytes c)) [unat (cid_len c)..<8]
      else foldl (\<lambda>v b. push_bit 8 v OR ucast b) 0 (take 8 (cid_id c)))"

definition picoquic_set64_connection_id :: "u64 \<Rightarrow> connection_id" where
  "picoquic_set64_connection_id val64 =
     \<lparr>cid_id = map (\<lambda>i. ucast (drop_bit (8 * (7 - i)) val64 AND 0xFF)) [0..<8] @ replicate 12 0, cid_len = 8\<rparr>"

section \<open>Addresses\<close>

text \<open>
  \<open>struct sockaddr_storage\<close>, as far as the functions look at it. The port is at the same place for
  both families; the IPv4 address has 4 bytes, the IPv6 address 16.
\<close>

record sockaddr =
  sa_family :: u16
  sa_port :: u16
  sin_addr :: "u8 list"
  sin6_addr :: "u8 list"

abbreviation AF_INET :: u16 where "AF_INET \<equiv> 2"
abbreviation AF_INET6 :: u16 where "AF_INET6 \<equiv> 10"

definition picoquic_hash_addr :: "sockaddr \<Rightarrow> u64" where
  "picoquic_hash_addr addr =
     (if sa_family addr = AF_INET then picohash_bytes (take 4 (sin_addr addr)) + 128 * ucast (sa_port addr)
      else picohash_bytes (take 16 (sin6_addr addr)) + 128 * ucast (sa_port addr))"

definition picoquic_compare_addr :: "sockaddr \<Rightarrow> sockaddr \<Rightarrow> int" where
  "picoquic_compare_addr expected actual =
     (if sa_family expected = sa_family actual then
        if sa_family expected = AF_INET then
          if sa_port expected = sa_port actual \<and> take 4 (sin_addr expected) = take 4 (sin_addr actual) then 0 else -1
        else
          if sa_port expected = sa_port actual \<and>
             take 16 (sin6_addr expected) = take 16 (sin6_addr actual) then 0 else -1
      else -1)"

text \<open>The sizes of \<open>sockaddr_in\<close> and \<open>sockaddr_in6\<close>.\<close>

definition picoquic_addr_length :: "sockaddr \<Rightarrow> nat" where
  "picoquic_addr_length addr =
     (if sa_family addr = AF_INET then 16 else if sa_family addr = AF_INET6 then 28 else 0)"

text \<open>
  The 16 bytes of an IPv4 address are copied: behind the address stand 8 bytes of padding, where an
  IPv6 address has its first 8 bytes. The 28 bytes of an IPv6 address cover all the fields.
\<close>

definition picoquic_store_addr :: "sockaddr \<Rightarrow> sockaddr option \<Rightarrow> sockaddr" where
  "picoquic_store_addr stored_addr addr =
     (case addr of
        None \<Rightarrow> stored_addr\<lparr>sa_family := 0\<rparr>
      | Some a \<Rightarrow>
          if picoquic_addr_length a = 0 then stored_addr\<lparr>sa_family := 0\<rparr>
          else if sa_family a = AF_INET
          then stored_addr\<lparr>sa_family := sa_family a, sa_port := sa_port a, sin_addr := sin_addr a,
                           sin6_addr := take 8 (sin6_addr a) @ drop 8 (sin6_addr stored_addr)\<rparr>
          else a)"

definition picoquic_get_ip_addr :: "sockaddr \<Rightarrow> u8 list option \<times> u8" where
  "picoquic_get_ip_addr addr =
     (if sa_family addr = AF_INET then (Some (sin_addr addr), 4)
      else if sa_family addr = AF_INET6 then (Some (sin6_addr addr), 16)
      else (None, 0))"

section \<open>The keys of the connection tables\<close>

text \<open>A connection and a path are known by their addresses.\<close>

record cnx_id_key =
  ck_cnx_id :: connection_id
  ck_cnx :: nat
  ck_l_cid :: hash_ptr

record net_id_key =
  nk_saddr :: sockaddr
  nk_cnx :: nat
  nk_path :: nat

record net_icid_key =
  ik_saddr :: sockaddr
  ik_icid :: connection_id
  ik_cnx :: nat

record net_secret_key =
  sk_saddr :: sockaddr
  sk_reset_secret :: "u8 list"
  sk_cnx :: nat

definition picoquic_cnx_id_hash :: "cnx_id_key \<Rightarrow> u64" where
  "picoquic_cnx_id_hash key = picoquic_connection_id_hash (ck_cnx_id key)"

definition picoquic_cnx_id_compare :: "cnx_id_key \<Rightarrow> cnx_id_key \<Rightarrow> int" where
  "picoquic_cnx_id_compare key1 key2 = picoquic_compare_connection_id (ck_cnx_id key1) (ck_cnx_id key2)"

definition picoquic_net_id_hash :: "net_id_key \<Rightarrow> u64" where
  "picoquic_net_id_hash key = picoquic_hash_addr (nk_saddr key)"

definition picoquic_net_id_compare :: "net_id_key \<Rightarrow> net_id_key \<Rightarrow> int" where
  "picoquic_net_id_compare key1 key2 = picoquic_compare_addr (nk_saddr key1) (nk_saddr key2)"

definition picoquic_net_icid_hash :: "net_icid_key \<Rightarrow> u64" where
  "picoquic_net_icid_hash key =
     picohash_hash_mix (picoquic_hash_addr (ik_saddr key)) (picoquic_connection_id_hash (ik_icid key))"

definition picoquic_net_icid_compare :: "net_icid_key \<Rightarrow> net_icid_key \<Rightarrow> int" where
  "picoquic_net_icid_compare key1 key2 =
     (let ret = picoquic_compare_addr (ik_saddr key1) (ik_saddr key2)
      in if ret = 0 then picoquic_compare_connection_id (ik_icid key1) (ik_icid key2) else ret)"

text \<open>The 16 bytes of the array.\<close>

definition reset_secret :: "net_secret_key \<Rightarrow> u8 list" where
  "reset_secret key = take 16 (sk_reset_secret key @ replicate 16 0)"

definition picoquic_net_secret_hash :: "net_secret_key \<Rightarrow> u64" where
  "picoquic_net_secret_hash key =
     picohash_hash_mix (picoquic_hash_addr (sk_saddr key)) (picohash_bytes (reset_secret key))"

text \<open>The build has \<open>PICOQUIC_USE_CONSTANT_TIME_MEMCMP\<close>.\<close>

definition picoquic_net_secret_compare :: "net_secret_key \<Rightarrow> net_secret_key \<Rightarrow> int" where
  "picoquic_net_secret_compare key1 key2 =
     (let ret = picoquic_compare_addr (sk_saddr key1) (sk_saddr key2)
      in if ret = 0 then picoquic_constant_time_memcmp (reset_secret key1) (reset_secret key2) 16
         else ret)"

section \<open>Facts\<close>

lemma memcmp_0_iff: "length xs = length ys \<Longrightarrow> memcmp xs ys = 0 \<longleftrightarrow> xs = ys"
  by (induction xs ys rule: memcmp.induct) auto

text \<open>Two identifiers compare equal when they have the same length and the same bytes in use.\<close>

lemma compare_connection_id_0_iff:
  "length (cid_id c) = length (cid_id d) \<Longrightarrow>
   picoquic_compare_connection_id c d = 0 \<longleftrightarrow> cid_len c = cid_len d \<and> cid_bytes c = cid_bytes d"
  by (auto simp: picoquic_compare_connection_id_def cid_bytes_def memcmp_0_iff)

lemma compare_addr_0_iff:
  "picoquic_compare_addr a b = 0 \<longleftrightarrow> sa_family a = sa_family b \<and> sa_port a = sa_port b \<and>
     (if sa_family a = AF_INET then take 4 (sin_addr a) = take 4 (sin_addr b) else take 16 (sin6_addr a) = take 16 (sin6_addr b))"
  by (simp add: picoquic_compare_addr_def)

lemma reset_secret_length [simp]: "length (reset_secret k) = 16"
  by (simp add: reset_secret_def)

lemma constant_time_memcmp_0_iff:
  "length x = l \<Longrightarrow> length y = l \<Longrightarrow> l < 2 ^ 56 \<Longrightarrow> picoquic_constant_time_memcmp x y l = 0 \<longleftrightarrow> x = y"
  using memcmp_loop_value [of x l y 0] by (auto simp: picoquic_constant_time_memcmp_def unat_eq_0)

lemma connection_id_hash_cong: "cid_bytes c = cid_bytes d \<Longrightarrow> picoquic_connection_id_hash c = picoquic_connection_id_hash d"
  by (simp add: picoquic_connection_id_hash_def)

lemma hash_addr_cong: "picoquic_compare_addr a b = 0 \<Longrightarrow> picoquic_hash_addr a = picoquic_hash_addr b"
  by (auto simp: compare_addr_0_iff picoquic_hash_addr_def split: if_splits)

lemmas key_defs = picoquic_cnx_id_hash_def picoquic_cnx_id_compare_def picoquic_net_id_hash_def picoquic_net_id_compare_def
  picoquic_net_icid_hash_def picoquic_net_icid_compare_def picoquic_net_secret_hash_def picoquic_net_secret_compare_def

text \<open>An identifier has an array of 20 bytes.\<close>

definition cid_array :: "connection_id \<Rightarrow> bool" where
  "cid_array c \<longleftrightarrow> length (cid_id c) = 20"

lemma cid_compare_0_iff:
  "cid_array c \<Longrightarrow> cid_array d \<Longrightarrow>
   picoquic_compare_connection_id c d = 0 \<longleftrightarrow> cid_len c = cid_len d \<and> cid_bytes c = cid_bytes d"
  by (simp add: compare_connection_id_0_iff cid_array_def)

section \<open>The keys are lawful\<close>

interpretation connection_id: hash_key cid_array picoquic_connection_id_hash picoquic_compare_connection_id
  by unfold_locales (auto simp: cid_compare_0_iff intro: connection_id_hash_cong)

interpretation cnx_id: hash_key "\<lambda>k. cid_array (ck_cnx_id k)" picoquic_cnx_id_hash picoquic_cnx_id_compare
  by unfold_locales (auto simp: key_defs cid_compare_0_iff intro: connection_id_hash_cong)

interpretation net_id: hash_key "\<lambda>k. True" picoquic_net_id_hash picoquic_net_id_compare
  by unfold_locales (auto simp: key_defs compare_addr_0_iff intro: hash_addr_cong split: if_splits)

interpretation net_icid: hash_key "\<lambda>k. cid_array (ik_icid k)" picoquic_net_icid_hash picoquic_net_icid_compare
proof
  fix k l m :: net_icid_key
  assume ok: "cid_array (ik_icid k)" "cid_array (ik_icid l)"
  show "picoquic_net_icid_compare k l = 0 \<Longrightarrow> picoquic_net_icid_compare l k = 0"
    using ok by (auto simp: key_defs Let_def cid_compare_0_iff compare_addr_0_iff split: if_splits)
  show "picoquic_net_icid_compare k l = 0 \<Longrightarrow> picoquic_net_icid_hash k = picoquic_net_icid_hash l"
    using ok hash_addr_cong [of "ik_saddr k" "ik_saddr l"] connection_id_hash_cong [of "ik_icid k" "ik_icid l"]
    by (simp add: key_defs Let_def cid_compare_0_iff split: if_splits)
  show "picoquic_net_icid_compare k l = 0 \<Longrightarrow> picoquic_net_icid_compare l m = 0 \<Longrightarrow> picoquic_net_icid_compare k m = 0"
    if "cid_array (ik_icid m)"
    using ok that by (auto simp: key_defs Let_def cid_compare_0_iff compare_addr_0_iff split: if_splits)
qed

interpretation net_secret: hash_key "\<lambda>k. True" picoquic_net_secret_hash picoquic_net_secret_compare
proof
  fix k l m :: net_secret_key
  show "picoquic_net_secret_compare k l = 0 \<Longrightarrow> picoquic_net_secret_compare l k = 0"
    by (auto simp: key_defs Let_def constant_time_memcmp_0_iff compare_addr_0_iff split: if_splits)
  show "picoquic_net_secret_compare k l = 0 \<Longrightarrow> picoquic_net_secret_hash k = picoquic_net_secret_hash l"
    using hash_addr_cong [of "sk_saddr k" "sk_saddr l"]
    by (simp add: key_defs Let_def constant_time_memcmp_0_iff split: if_splits)
  show "picoquic_net_secret_compare k l = 0 \<Longrightarrow> picoquic_net_secret_compare l m = 0 \<Longrightarrow> picoquic_net_secret_compare k m = 0"
    by (auto simp: key_defs Let_def constant_time_memcmp_0_iff compare_addr_0_iff split: if_splits)
qed

end
