(* ===== verification/CidSet.thy ===== *)
theory CidSet
  imports ConnectionIds
begin

text \<open>
  \<open>loglib/cidset.c\<close>: a set of connection identifiers, kept in a hash table; and the functions of
  \<open>picoquic/util.c\<close> that print, parse and convert an identifier.
\<close>

section \<open>Sets of identifiers\<close>

type_synonym cidset = "connection_id picohash_table"

definition cidset_create :: "bool \<Rightarrow> nat option list \<Rightarrow> (nat \<Rightarrow> connection_id picohash_item) \<Rightarrow> cidset option" where
  "cidset_create malloc_ok ms m =
     picohash_create malloc_ok ms m 32 picoquic_connection_id_hash picoquic_compare_connection_id"

definition cidset_delete :: "cidset \<Rightarrow> cidset option" where
  "cidset_delete cids = picohash_delete cids True"

text \<open>\<open>key_ok\<close> tells whether the allocation of the copy of the identifier succeeds.\<close>

definition cidset_insert :: "cidset \<Rightarrow> bool \<Rightarrow> connection_id \<Rightarrow> (int \<times> cidset) option" where
  "cidset_insert cids key_ok cid = do {
     item \<leftarrow> picohash_retrieve cids cid;
     if item = None then
       if key_ok then picohash_insert cids cid else Some (-1, cids)
     else Some (0, cids)
   }"

definition cidset_has_cid :: "cidset \<Rightarrow> connection_id \<Rightarrow> bool option" where
  "cidset_has_cid cids cid = do { item \<leftarrow> picohash_retrieve cids cid; Some (item \<noteq> None) }"

text \<open>The callback has a state; it stops the iteration with a value other than 0.\<close>

partial_function (option) iterate_bin ::
    "cidset \<Rightarrow> (connection_id \<Rightarrow> 'c \<Rightarrow> int \<times> 'c) \<Rightarrow> int \<times> 'c \<Rightarrow> hash_ptr \<Rightarrow> (int \<times> 'c) option" where
  "iterate_bin cids cb s item =
     (case item of
        None \<Rightarrow> Some s
      | Some a \<Rightarrow>
          if fst s = 0 then iterate_bin cids cb (cb (item_key (hash_mem cids a)) (snd s)) (next_in_bin (hash_mem cids a))
          else Some s)"

declare iterate_bin.simps [code]

fun iterate_bins :: "cidset \<Rightarrow> (connection_id \<Rightarrow> 'c \<Rightarrow> int \<times> 'c) \<Rightarrow> int \<times> 'c \<Rightarrow> hash_ptr list \<Rightarrow> (int \<times> 'c) option" where
  "iterate_bins cids cb s [] = Some s"
| "iterate_bins cids cb s (b # bs) =
     (if fst s = 0 then do { s \<leftarrow> iterate_bin cids cb s b; iterate_bins cids cb s bs } else Some s)"

definition cidset_iterate :: "cidset \<Rightarrow> (connection_id \<Rightarrow> 'c \<Rightarrow> int \<times> 'c) \<Rightarrow> 'c \<Rightarrow> (int \<times> 'c) option" where
  "cidset_iterate cids cb cbptr = iterate_bins cids cb (0, cbptr) (take (nb_bin cids) (hash_bin cids))"

section \<open>The set\<close>

text \<open>The set that a table stands for, as the byte strings of the identifiers.\<close>

definition cidset_repr :: "cidset \<Rightarrow> nat set \<Rightarrow> u8 list set \<Rightarrow> bool" where
  "cidset_repr t A X \<longleftrightarrow> holds_items cid_array picoquic_connection_id_hash picoquic_compare_connection_id t A \<and>
     connection_id.table.unique t A \<and> (\<forall>a\<in>A. cid_ok (item_key (hash_mem t a))) \<and>
     X = (\<lambda>a. cid_bytes (item_key (hash_mem t a))) ` A"

lemma cid_ok_array: "cid_ok c \<Longrightarrow> cid_array c"
  by (simp add: cid_ok_def cid_array_def)

lemma cid_bytes_length: "cid_ok c \<Longrightarrow> length (cid_bytes c) = unat (cid_len c)"
  by (simp add: cid_ok_def cid_bytes_def)

text \<open>Identifiers compare equal exactly when their byte strings are equal.\<close>

lemma cid_compare_bytes:
  "cid_ok c \<Longrightarrow> cid_ok d \<Longrightarrow> picoquic_compare_connection_id c d = 0 \<longleftrightarrow> cid_bytes c = cid_bytes d"
  using cid_bytes_length [of c] cid_bytes_length [of d] 
  by (auto simp: cid_compare_0_iff cid_ok_array word_unat_eq_iff)

lemma cidset_present:
  assumes "cidset_repr t A X" "cid_ok c"
  shows "connection_id.table.present t A c \<longleftrightarrow> cid_bytes c \<in> X"
  using assms by (auto simp: cidset_repr_def connection_id.table.present_def cid_compare_bytes)

lemma cidset_retrieve:
  assumes "cidset_repr t A X" "cid_ok c"
  shows "\<exists>p. picohash_retrieve t c = Some p \<and> (p \<noteq> None \<longleftrightarrow> cid_bytes c \<in> X)"
  using connection_id.table.lookup_present [of t A c] assms cidset_present [OF assms]
  by (auto simp: cidset_repr_def cid_ok_array)

lemma cidset_create_repr:
  "cidset_create malloc_ok ms m = Some t \<Longrightarrow> cidset_repr t {} {}"
  using holds_items_create [of 32 malloc_ok ms m picoquic_connection_id_hash picoquic_compare_connection_id t cid_array]
  by (auto simp: cidset_create_def cidset_repr_def connection_id.table.unique_def)

lemma cidset_has_cid_member:
  "cidset_repr t A X \<Longrightarrow> cid_ok c \<Longrightarrow> cidset_has_cid t c = Some (cid_bytes c \<in> X)"
  using cidset_retrieve [of t A X c] by (auto simp: cidset_has_cid_def)

lemma cidset_insert_member:
  assumes "cidset_repr t A X" "cid_ok c" "cid_bytes c \<in> X"
  shows "cidset_insert t key_ok c = Some (0, t)"
  using cidset_retrieve [OF assms(1,2)] assms(3) by (auto simp: cidset_insert_def)

lemma cidset_insert_new:
  assumes "cidset_repr t A X" "cid_ok c" "cid_bytes c \<notin> X" "next_alloc t = Some a" "a \<notin> A"
  shows "\<exists>t'. cidset_insert t True c = Some (0, t') \<and> cidset_repr t' (insert a A) (insert (cid_bytes c) X)"
proof -
  have none: "picohash_retrieve t c = Some None" using cidset_retrieve [OF assms(1,2)] assms(3) by auto
  have same: "picoquic_compare_connection_id c c = 0" using assms(2) by (simp add: cid_compare_bytes)
  obtain t' where t': "picohash_insert t c = Some (0, t')"
    "holds_items cid_array picoquic_connection_id_hash picoquic_compare_connection_id t' (insert a A)"
    "connection_id.table.unique t' (insert a A)" "item_key (hash_mem t' a) = c"
    "\<forall>b\<in>A. item_key (hash_mem t' b) = item_key (hash_mem t b)"
    using connection_id.table.add_absent [of t A c a] assms none same by (auto simp: cidset_repr_def cid_ok_array)
  then have "cidset_repr t' (insert a A) (insert (cid_bytes c) X)"
    using assms(1,2) by (auto simp: cidset_repr_def)
  then show ?thesis using t'(1) none by (auto simp: cidset_insert_def)
qed

text \<open>An insertion that runs out of memory fails and changes nothing.\<close>

lemma cidset_insert_fails:
  assumes "cidset_repr t A X" "cid_ok c" "cid_bytes c \<notin> X" "\<not> key_ok \<or> next_alloc t = None"
  shows "\<exists>t'. cidset_insert t key_ok c = Some (-1, t') \<and> cidset_repr t' A X"
proof -
  have none: "picohash_retrieve t c = Some None" using cidset_retrieve [OF assms(1,2)] assms(3) by auto
  show ?thesis
  proof (cases key_ok)
    case False
    then show ?thesis using none assms(1) by (auto simp: cidset_insert_def)
  next
    case True
    obtain t' where "picohash_insert t c = Some (-1, t')"
      "holds_items cid_array picoquic_connection_id_hash picoquic_compare_connection_id t' A"
      "\<forall>b\<in>A. item_key (hash_mem t' b) = item_key (hash_mem t b)"
      using connection_id.table.add_law [of t A c] assms True by (auto simp: cidset_repr_def cid_ok_array)
    then show ?thesis using none assms(1) True
      by (auto simp: cidset_insert_def cidset_repr_def connection_id.table.unique_def)
  qed
qed

section \<open>Iteration\<close>

text \<open>What the callback is given, one identifier after the other, until it returns a value other than 0.\<close>

fun calls :: "(connection_id \<Rightarrow> 'c \<Rightarrow> int \<times> 'c) \<Rightarrow> int \<times> 'c \<Rightarrow> connection_id list \<Rightarrow> int \<times> 'c" where
  "calls cb s [] = s"
| "calls cb s (c # cs) = (if fst s = 0 then calls cb (cb c (snd s)) cs else s)"

lemma calls_stop: "fst s \<noteq> 0 \<Longrightarrow> calls cb s cs = s"
  by (cases cs) auto

lemma calls_append: "calls cb s (cs @ ds) = calls cb (calls cb s cs) ds"
  by (induction cs arbitrary: s) (auto simp: calls_stop)

lemma iterate_bin_chain:
  "chain (hash_mem t) p as \<Longrightarrow> iterate_bin t cb s p = Some (calls cb s (map (\<lambda>a. item_key (hash_mem t a)) as))"
proof (induction as arbitrary: p s)
  case Nil
  then show ?case by (subst iterate_bin.simps) simp
next
  case (Cons a as)
  then show ?case by (subst iterate_bin.simps) auto
qed

lemma iterate_bins_chains:
  "list_all2 (chain (hash_mem t)) bs bss \<Longrightarrow>
   iterate_bins t cb s bs = Some (calls cb s (map (\<lambda>a. item_key (hash_mem t a)) (concat bss)))"
  by (induction bs bss arbitrary: s rule: list_all2_induct) (auto simp: iterate_bin_chain calls_append calls_stop)

text \<open>The callback is called for every identifier of the set, once.\<close>

lemma cidset_iterate_visits:
  assumes "cidset_repr t A X"
  shows "\<exists>cs. distinct (map cid_bytes cs) \<and> set (map cid_bytes cs) = X \<and>
    (\<forall>cb (s :: 'c). cidset_iterate t cb s = Some (calls cb (0, s) cs))"
proof -
  obtain bss where b: "table_ok t bss" "items_of bss = A" using assms by (auto simp: cidset_repr_def holds_items_def)
  note l = table_ok_lengths [OF b(1)]
  have run: "list_all2 (chain (hash_mem t)) (take (nb_bin t) (hash_bin t)) bss"
    using l table_ok_chain [OF b(1)] by (simp add: list_all2_conv_all_nth)
  define cs where "cs = map (\<lambda>a. item_key (hash_mem t a)) (concat bss)"
  have A: "set (concat bss) = A" using b(2) by (simp add: items_of_def)
  have "inj_on (\<lambda>a. cid_bytes (item_key (hash_mem t a))) A"
    using assms by (auto simp: inj_on_def cidset_repr_def connection_id.table.unique_def cid_compare_bytes)
  then have "distinct (map cid_bytes cs)" using concat_distinct [OF b(1)] A by (simp add: cs_def distinct_map o_def)
  moreover have "set (map cid_bytes cs) = X" using assms A by (auto simp: cs_def cidset_repr_def)
  moreover have "cidset_iterate t cb s = Some (calls cb (0, s) cs)" for cb and s :: 'c
    using iterate_bins_chains [OF run] by (simp add: cidset_iterate_def cs_def)
  ultimately show ?thesis by blast
qed

section \<open>Text\<close>

lemma hexa_digit_char:
  assumes "d < 16"
  shows "picoquic_parse_hexa_digit (hex_to_char d) = uint d"
proof -
  have "list_all (\<lambda>n. picoquic_parse_hexa_digit (hex_to_char (of_nat n)) = int n) [0..<16]" by code_simp
  moreover have "unat d < 16" using assms by (simp add: word_less_nat_alt)
  ultimately have "picoquic_parse_hexa_digit (hex_to_char (of_nat (unat d))) = int (unat d)" unfolding list_all_iff by (metis atLeast0LessThan lessThan_iff set_upt)
  then show ?thesis by simp
qed

lemma nibbles: "word_of_int (push_bit 4 (uint (drop_bit 4 b)) OR uint (b AND 0xf)) = (b :: u8)"
proof (rule bit_word_eqI)
  fix n assume n: "n < LENGTH(8)"
  have "(15 :: u8) = mask 4" by (simp add: mask_eq_exp_minus_1)
  then have "bit (15 :: u8) n \<longleftrightarrow> n < 4" using n by (simp only: bit_mask_iff) auto
  then show "bit (word_of_int (push_bit 4 (uint (drop_bit 4 b)) OR uint (b AND 0xf)) :: u8) n = bit b n"
    using n by (auto simp: bit_simps)
qed

lemma nibble_bounds: "drop_bit 4 b < 16" "b AND 0xf < 16" for b :: u8
proof -
  have "b AND 0xf \<le> 0xf" by (rule word_and_le1)
  then show "b AND 0xf < 16" by (rule order.strict_trans1) simp
  have "unat b < 2 ^ 8" using unsigned_less [of b, where 'a = nat] by simp
  then have "unat (drop_bit 4 b) < 16" unfolding unat_drop_bit_eq by (simp only: drop_bit_eq_div) simp
  then show "drop_bit 4 b < 16" by (simp add: word_less_nat_alt)
qed

definition hexa_text :: "u8 list \<Rightarrow> u8 list" where
  "hexa_text bs = concat (map (\<lambda>b. [hex_to_char (drop_bit 4 b), hex_to_char (b AND 0x0f)]) bs)"

lemma parse_hexa_text: "parse_hexa_loop out (hexa_text bs) = (length out + length bs, out @ bs)"
proof (induction bs arbitrary: out)
  case Nil
  then show ?case by (simp add: hexa_text_def)
next
  case (Cons b bs)
  then show ?case by (simp add: hexa_text_def hexa_digit_char nibble_bounds nibbles)
qed

lemma hexa_text_length: "length (hexa_text bs) = 2 * length bs"
  by (induction bs) (auto simp: hexa_text_def)

text \<open>What is printed for an identifier is read back if it has at most 18 bytes, and otherwise refused.\<close>

lemma print_hexa: "unat (cid_len c) * 2 + 1 \<le> n \<Longrightarrow> picoquic_print_connection_id_hexa n c = Some (hexa_text (cid_bytes c))"
  by (simp add: picoquic_print_connection_id_hexa_def hexa_text_def)

lemma cid_ok_cases:
  assumes "cid_ok c"
  shows "\<lparr>cid_id = cid_bytes c @ replicate (20 - length (cid_bytes c)) 0, cid_len = of_nat (length (cid_bytes c))\<rparr> = c"
proof -
  have "cid_bytes c @ replicate (20 - length (cid_bytes c)) 0 = cid_id c"
    unfolding cid_bytes_length [OF assms]
    using assms append_take_drop_id [of "unat (cid_len c)" "cid_id c"] by (simp add: cid_ok_def cid_bytes_def)
  then show ?thesis using cid_bytes_length [OF assms] by (cases c) simp
qed

lemma parse_printed_cid:
  assumes "cid_ok c" "cid_len c \<noteq> 0"
  shows "picoquic_parse_connection_id_hexa (hexa_text (cid_bytes c)) =
    (if unat (cid_len c) \<le> 18 then (cid_len c, c) else (0, picoquic_null_connection_id))"
proof -
  let ?n = "length (cid_bytes c)"
  have n: "?n = unat (cid_len c)" by (rule cid_bytes_length [OF assms(1)])
  have pos: "0 < ?n" using n assms(2) by (simp add: unat_gt_0)
  have "(2 * ?n) AND 1 = 0" by (simp add: and_one_eq)
  then have "picoquic_parse_hexa (hexa_text (cid_bytes c)) 18 = (if ?n \<le> 18 then (?n, cid_bytes c) else (0, []))"
    using pos by (auto simp: picoquic_parse_hexa_def parse_hexa_text hexa_text_length Let_def)
  then show ?thesis using cid_ok_cases [OF assms(1)] n assms(2)
    by (auto simp: picoquic_parse_connection_id_hexa_def picoquic_null_connection_id_def Let_def)
qed

section \<open>Theorems\<close>

text \<open>
  C33: the hash table of \<open>cidset.c\<close> implements a finite set of connection identifiers. Whatever
  the state of the table, a membership test answers whether the identifier is in the set; an
  insertion adds the identifier and nothing else when it returns 0, and changes nothing otherwise;
  it fails only when the identifier is new and one of the two allocations fails.
\<close>

theorem cidset_implements_set:
  assumes "cidset_repr t A X" "cid_ok c" "next_alloc t \<notin> Some ` A"
  shows "cidset_has_cid t c = Some (cid_bytes c \<in> X) \<and>
    (\<exists>ret t' A'. cidset_insert t key_ok c = Some (ret, t') \<and> ret \<in> {0, -1} \<and>
       cidset_repr t' A' (if ret = 0 then insert (cid_bytes c) X else X) \<and>
       (ret = 0 \<longleftrightarrow> cid_bytes c \<in> X \<or> key_ok \<and> next_alloc t \<noteq> None))"
proof -
  have "\<exists>ret t' A'. cidset_insert t key_ok c = Some (ret, t') \<and> ret \<in> {0, -1} \<and>
       cidset_repr t' A' (if ret = 0 then insert (cid_bytes c) X else X) \<and>
       (ret = 0 \<longleftrightarrow> cid_bytes c \<in> X \<or> key_ok \<and> next_alloc t \<noteq> None)"
  proof (cases "cid_bytes c \<in> X")
    case True
    then show ?thesis using cidset_insert_member [OF assms(1,2)] assms(1) by (auto simp: insert_absorb)
  next
    case False
    show ?thesis
    proof (cases "key_ok \<and> next_alloc t \<noteq> None")
      case True
      then obtain a where "next_alloc t = Some a" "a \<notin> A" using assms(3) by auto
      then show ?thesis using cidset_insert_new [OF assms(1,2) False] True by fastforce
    next
      case fail: False
      then show ?thesis using cidset_insert_fails [OF assms(1,2) False, of key_ok] False by fastforce
    qed
  qed
  then show ?thesis using cidset_has_cid_member [OF assms(1,2)] by blast
qed

definition example_cid :: connection_id where
  "example_cid = \<lparr>cid_id = [1, 2, 3, 4] @ replicate 16 0, cid_len = 4\<rparr>"

lemma example_cid_ok: "cid_ok example_cid" "cid_bytes example_cid = [1, 2, 3, 4]"
  by (simp_all add: cid_ok_def cid_bytes_def example_cid_def)

theorem cidset_implements_set_witness:
  "\<exists>t ret t' A'. cidset_create True [Some 7] (\<lambda>_. \<lparr>item_hash = 0, next_in_bin = None, item_key = example_cid\<rparr>) = Some t \<and>
     cidset_has_cid t example_cid = Some False \<and>
     cidset_insert t True example_cid = Some (ret, t') \<and> ret = 0 \<and> cidset_repr t' A' {[1, 2, 3, 4]}"
proof -
  obtain t where t: "cidset_create True [Some 7] (\<lambda>_. \<lparr>item_hash = 0, next_in_bin = None, item_key = example_cid\<rparr>) = Some t"
    by (simp add: cidset_create_def picohash_create_def)
  then have "next_alloc t = Some 7" by (auto simp: cidset_create_def picohash_create_def next_alloc_def)
  then show ?thesis
    using t cidset_implements_set [OF cidset_create_repr [OF t] example_cid_ok(1), of True] example_cid_ok(2) by fastforce
qed

text \<open>
  Also: an iteration over the set passes every identifier of the set to the callback, each of them
  once, and stops early only when the callback returns a value other than 0.
\<close>

theorem cidset_iterate_visits_each:
  assumes "cidset_repr t A X"
  shows "\<exists>cs. distinct (map cid_bytes cs) \<and> set (map cid_bytes cs) = X \<and>
    (\<forall>cb (s :: 'c). cidset_iterate t cb s = Some (calls cb (0, s) cs))"
  by (rule cidset_iterate_visits [OF assms])

theorem cidset_iterate_visits_each_witness:
  "\<exists>t. cidset_create True [] (\<lambda>_. \<lparr>item_hash = 0, next_in_bin = None, item_key = example_cid\<rparr>) = Some t \<and>
     cidset_iterate t (\<lambda>c (n :: nat). (0, n + 1)) 0 = Some (0, 0)"
proof -
  obtain t where t: "cidset_create True [] (\<lambda>_. \<lparr>item_hash = 0, next_in_bin = None, item_key = example_cid\<rparr>) = Some t"
    by (simp add: cidset_create_def picohash_create_def)
  then show ?thesis using cidset_iterate_visits_each [OF cidset_create_repr [OF t], where ?'c = nat] by fastforce
qed

text \<open>
  Also: the hexadecimal text of a connection identifier fits its buffer and is read back as the same
  identifier if it has 1 to 18 bytes; the text of an identifier of 19 or 20 bytes, which QUIC allows,
  is refused.
\<close>

theorem connection_id_text_roundtrip:
  assumes "cid_ok c" "cid_len c \<noteq> 0" "unat (cid_len c) * 2 + 1 \<le> n"
  shows "\<exists>text. picoquic_print_connection_id_hexa n c = Some text \<and> length text < n \<and>
    picoquic_parse_connection_id_hexa text =
      (if unat (cid_len c) \<le> 18 then (cid_len c, c) else (0, picoquic_null_connection_id))"
  using parse_printed_cid [OF assms(1,2)] assms(3) cid_bytes_length [OF assms(1)] by (auto simp: print_hexa hexa_text_length)

theorem connection_id_text_roundtrip_witness:
  "\<exists>text. picoquic_print_connection_id_hexa 9 example_cid = Some text \<and>
     picoquic_parse_connection_id_hexa text = (4, example_cid)"
  using connection_id_text_roundtrip [OF example_cid_ok(1), of 9] by (auto simp: example_cid_def)

end
