(* ===== verification/DoublyLinked.thy ===== *)
theory DoublyLinked
  imports Prelude
begin

text \<open>
  Doubly linked lists. The links are two functions, \<open>nx\<close> and \<open>pv\<close>; a client reads them off the nodes of
  its memory. \<open>dl nx pv p prev as q l\<close>: the nodes \<open>as\<close> are linked from \<open>p\<close> to \<open>q\<close>, the pointer behind the
  last of them; \<open>prev\<close> and \<open>l\<close> are the previous pointers of the first of them and of what stands at \<open>q\<close>.
\<close>

fun dl :: "(nat \<Rightarrow> nat option) \<Rightarrow> (nat \<Rightarrow> nat option) \<Rightarrow> nat option \<Rightarrow> nat option \<Rightarrow> nat list \<Rightarrow> nat option \<Rightarrow> nat option \<Rightarrow> bool" where
  "dl nx pv p prev [] q l \<longleftrightarrow> p = q \<and> prev = l"
| "dl nx pv p prev (a # as) q l \<longleftrightarrow> p = Some a \<and> pv a = prev \<and> dl nx pv (nx a) (Some a) as q l"

text \<open>Writing \<open>v\<close> to the link of the node at \<open>p\<close>, if there is one.\<close>

definition set_at :: "nat option \<Rightarrow> nat option \<Rightarrow> (nat \<Rightarrow> nat option) \<Rightarrow> nat \<Rightarrow> nat option" where
  "set_at p v f = (case p of None \<Rightarrow> f | Some a \<Rightarrow> f(a := v))"

lemma set_at_simps [simp]: "set_at None v f = f" "set_at (Some a) v f = f(a := v)"
  by (simp_all add: set_at_def)

lemma dl_append: "dl nx pv p prev (as @ bs) q l \<longleftrightarrow> (\<exists>r s. dl nx pv p prev as r s \<and> dl nx pv r s bs q l)"
  by (induction as arbitrary: p prev) auto

lemma dl_cong:
  "\<forall>a\<in>set as. nx' a = nx a \<and> pv' a = pv a \<Longrightarrow> dl nx' pv' p prev as q l = dl nx pv p prev as q l"
  by (induction as arbitrary: p prev) auto

lemma dl_other:
  "a \<notin> set as \<Longrightarrow> dl (nx(a := v)) pv p prev as q l = dl nx pv p prev as q l"
  "a \<notin> set as \<Longrightarrow> dl nx (pv(a := v)) p prev as q l = dl nx pv p prev as q l"
  by (rule dl_cong; auto)+

lemma dl_previous:
  "dl nx pv p prev (a # as) q l \<Longrightarrow> a \<notin> set as \<Longrightarrow> dl nx (pv(a := r)) p r (a # as) q l"
  by (simp add: dl_other)

lemma dl_next:
  "dl nx pv p prev (as @ [a]) q l \<Longrightarrow> a \<notin> set as \<Longrightarrow> dl (nx(a := r)) pv p prev (as @ [a]) r l"
  by (auto simp: dl_append dl_other)

lemma dl_last: "dl nx pv p prev (as @ [a]) q l \<Longrightarrow> l = Some a"
  by (auto simp: dl_append)

lemma dl_empty:
  assumes "dl nx pv p None as None l"
  shows "p = None \<longleftrightarrow> as = []" "l = None \<longleftrightarrow> as = []"
proof -
  show "p = None \<longleftrightarrow> as = []" using assms by (cases as) auto
  show "l = None \<longleftrightarrow> as = []" using assms by (cases as rule: rev_cases) (auto dest: dl_last)
qed

lemma dl_node:
  assumes "dl nx pv p None (xs @ a # ys) None l"
  shows "pv a = (if xs = [] then None else Some (last xs))" "nx a = (if ys = [] then None else Some (hd ys))"
    "p = Some (hd (xs @ [a]))" "l = Some (last (a # ys))"
proof -
  obtain s where x: "dl nx pv p None xs (Some a) s" "pv a = s" "dl nx pv (nx a) (Some a) ys None l"
    using assms by (auto simp: dl_append)
  show "pv a = (if xs = [] then None else Some (last xs))"
    using x(1,2) by (cases xs rule: rev_cases) (auto dest: dl_last)
  show "nx a = (if ys = [] then None else Some (hd ys))" "p = Some (hd (xs @ [a]))"
    using x by (cases ys; cases xs; simp)+
  show "l = Some (last (a # ys))"
    using x(3) by (cases ys rule: rev_cases) (auto dest: dl_last)
qed

text \<open>Taking \<open>a\<close> out of a list.\<close>

lemma dl_remove:
  assumes "dl nx pv p None (xs @ a # ys) None l" "distinct (xs @ a # ys)"
  shows "dl (set_at (pv a) (nx a) nx) (set_at (nx a) (pv a) pv) (if pv a = None then nx a else p) None (xs @ ys) None
    (if nx a = None then pv a else l)"
proof -
  define s where "s = pv a"
  define q where "q = nx a"
  have xs: "dl nx pv p None xs (Some a) s" and ys: "dl nx pv q (Some a) ys None l"
    using assms(1) by (auto simp: dl_append s_def q_def)
  define pv' where "pv' = set_at q s pv"
  have ys': "dl nx pv' q s ys None (if q = None then s else l)" and same: "\<forall>b. b \<notin> set ys \<longrightarrow> pv' b = pv b"
    using ys assms(2) dl_previous [of nx pv q "Some a" _ _ None l s] by (cases ys; auto simp: pv'_def)+
  have xs': "dl nx pv' p None xs (Some a) s"
  proof -
    have "\<forall>b\<in>set xs. nx b = nx b \<and> pv' b = pv b" using same assms(2) by auto
    then show ?thesis using xs by (simp add: dl_cong [of xs nx nx pv' pv])
  qed
  define nx' where "nx' = set_at s q nx"
  have "dl nx' pv' (if s = None then q else p) None xs q s \<and> dl nx' pv' q s ys None (if q = None then s else l)"
  proof (cases xs rule: rev_cases)
    case Nil
    then show ?thesis using xs ys' by (auto simp: nx'_def)
  next
    case (snoc zs z)
    then have s: "s = Some z" using xs' dl_last by blast
    have "dl nx' pv' q s ys None (if q = None then s else l)"
      using ys' assms(2) snoc s by (simp add: nx'_def dl_other)
    then show ?thesis using dl_next [of nx pv' p None zs z "Some a" s q] xs' s snoc assms(2) by (auto simp: nx'_def)
  qed
  then show ?thesis unfolding dl_append s_def [symmetric] q_def [symmetric] nx'_def pv'_def
    by (intro exI [of _ q] exI [of _ s]) simp
qed

text \<open>A new first, and a new last node.\<close>

lemma dl_push:
  assumes "dl nx pv p None as None l" "a \<notin> set as" "distinct as"
  shows "dl (nx(a := p)) (set_at p (Some a) (pv(a := None))) (Some a) None (a # as) None (if p = None then Some a else l)"
proof (cases as)
  case Nil
  then show ?thesis using assms(1) by simp
next
  case (Cons b bs)
  then show ?thesis using assms by (auto simp: dl_other)
qed

lemma dl_push_last:
  assumes "dl nx pv p None as None l" "a \<notin> set as" "distinct as"
  shows "dl (set_at l (Some a) (nx(a := None))) (pv(a := l)) (if l = None then Some a else p) None (as @ [a]) None (Some a)"
proof (cases as rule: rev_cases)
  case Nil
  then show ?thesis using assms(1) by simp
next
  case (snoc bs b)
  then have l: "l = Some b" using assms(1) dl_last by blast
  have "dl (nx(b := Some a)) pv p None (bs @ [b]) (Some a) (Some b)"
    using dl_next [of nx pv p None bs b None l "Some a"] assms snoc l by simp
  then have "dl (nx(a := None, b := Some a)) (pv(a := l)) p None (bs @ [b]) (Some a) (Some b)"
    using assms(2) snoc by (subst dl_cong [of _ _ "nx(b := Some a)" _ pv]) auto
  then show ?thesis using l snoc assms(2) by (auto simp: dl_append [of _ _ _ _ "bs @ [b]" "[a]", simplified])
qed

end
