(* ===== verification/IssuedTickets.thy ===== *)
theory IssuedTickets
  imports PicohashLaws DoublyLinked
begin

text \<open>
  The session tickets that a server has issued, from \<open>picoquic/quicctx.c\<close>: a hash table keyed by the
  ticket identifier, and a doubly linked list of the same tickets from the newest to the oldest, from
  whose end tickets are meant to be removed when there are more than connections.
\<close>

section \<open>State\<close>

record issued_ticket =
  next_ticket :: hash_ptr
  previous_ticket :: hash_ptr
  ticket_id :: u64
  creation_time :: u64
  ticket_rtt :: u64
  ticket_cwin :: u64
  ip_addr :: "u8 list"
  ip_addr_length :: u8

text \<open>
  A key of the table is a pointer to a ticket, and the identifier of that ticket, which does not change;
  the key that is only compared is on the stack and has no pointer here.
\<close>

record issued_key =
  key_ticket :: hash_ptr
  key_ticket_id :: u64

record issued_state =
  table_issued_tickets :: "issued_key picohash_table"
  table_issued_tickets_first :: hash_ptr
  table_issued_tickets_last :: hash_ptr
  table_issued_tickets_nb :: u64
  max_number_connections :: u32
  tickets :: "nat \<Rightarrow> issued_ticket"
  ticket_mallocs :: "nat option list"

abbreviation PICOQUIC_STORED_IP_MAX :: u8 where "PICOQUIC_STORED_IP_MAX \<equiv> 16"
abbreviation PICOQUIC_ERROR_MEMORY :: int where "PICOQUIC_ERROR_MEMORY \<equiv> 0x405"

section \<open>Operations\<close>

definition picoquic_issued_ticket_hash :: "issued_key \<Rightarrow> u64" where
  "picoquic_issued_ticket_hash key = key_ticket_id key"

definition picoquic_issued_ticket_compare :: "issued_key \<Rightarrow> issued_key \<Rightarrow> int" where
  "picoquic_issued_ticket_compare key1 key2 = (if key_ticket_id key1 = key_ticket_id key2 then 0 else 1)"

definition picoquic_retrieve_issued_ticket :: "issued_state \<Rightarrow> u64 \<Rightarrow> hash_ptr option" where
  "picoquic_retrieve_issued_ticket quic tid = do {
     item \<leftarrow> picohash_retrieve (table_issued_tickets quic) \<lparr>key_ticket = None, key_ticket_id = tid\<rparr>;
     Some (case item of None \<Rightarrow> None | Some a \<Rightarrow> key_ticket (item_key (hash_mem (table_issued_tickets quic) a)))
   }"

definition picoquic_update_issued_ticket ::
    "issued_ticket \<Rightarrow> u64 \<Rightarrow> u64 \<Rightarrow> u8 list \<Rightarrow> u8 \<Rightarrow> issued_ticket" where
  "picoquic_update_issued_ticket ticket rtt cwin addr len =
     (let len = (if len > PICOQUIC_STORED_IP_MAX then PICOQUIC_STORED_IP_MAX else len)
      in ticket\<lparr>ip_addr_length := len, ip_addr := take (unat len) addr @ drop (unat len) (ip_addr ticket),
                ticket_rtt := rtt, ticket_cwin := cwin\<rparr>)"

definition set_next :: "nat \<Rightarrow> hash_ptr \<Rightarrow> (nat \<Rightarrow> issued_ticket) \<Rightarrow> nat \<Rightarrow> issued_ticket" where
  "set_next a p m = m(a := (m a)\<lparr>next_ticket := p\<rparr>)"

definition set_previous :: "nat \<Rightarrow> hash_ptr \<Rightarrow> (nat \<Rightarrow> issued_ticket) \<Rightarrow> nat \<Rightarrow> issued_ticket" where
  "set_previous a p m = m(a := (m a)\<lparr>previous_ticket := p\<rparr>)"

definition picoquic_delete_issued_ticket :: "issued_state \<Rightarrow> hash_ptr \<Rightarrow> issued_state option" where
  "picoquic_delete_issued_ticket quic ticket = do {
     a \<leftarrow> ticket;
     let quic = (case next_ticket (tickets quic a) of
         None \<Rightarrow> quic\<lparr>table_issued_tickets_last := previous_ticket (tickets quic a)\<rparr>
       | Some n \<Rightarrow> quic\<lparr>tickets := set_previous n (previous_ticket (tickets quic a)) (tickets quic)\<rparr>);
     let quic = (case previous_ticket (tickets quic a) of
         None \<Rightarrow> quic\<lparr>table_issued_tickets_first := next_ticket (tickets quic a)\<rparr>
       | Some p \<Rightarrow> quic\<lparr>tickets := set_next p (next_ticket (tickets quic a)) (tickets quic)\<rparr>);
     t \<leftarrow> picohash_delete_key (table_issued_tickets quic)
       \<lparr>key_ticket = Some a, key_ticket_id = ticket_id (tickets quic a)\<rparr> True;
     let quic = quic\<lparr>table_issued_tickets := t\<rparr>;
     Some (if table_issued_tickets_nb quic > 0
           then quic\<lparr>table_issued_tickets_nb := table_issued_tickets_nb quic - 1\<rparr> else quic)
   }"

partial_function (option) evict_tickets :: "issued_state \<Rightarrow> issued_state option" where
  "evict_tickets quic =
     (if table_issued_tickets_nb quic > ucast (max_number_connections quic)
      then do {
        quic \<leftarrow> picoquic_delete_issued_ticket quic (table_issued_tickets_last quic);
        evict_tickets quic
      }
      else Some quic)"

declare evict_tickets.simps [code]

definition zero_ticket :: issued_ticket where
  "zero_ticket = \<lparr>next_ticket = None, previous_ticket = None, ticket_id = 0, creation_time = 0, ticket_rtt = 0,
     ticket_cwin = 0, ip_addr = replicate 16 0, ip_addr_length = 0\<rparr>"

text \<open>The result of \<open>picohash_insert\<close> is not looked at.\<close>

definition picoquic_remember_issued_ticket ::
    "issued_state \<Rightarrow> u64 \<Rightarrow> u64 \<Rightarrow> u64 \<Rightarrow> u8 list \<Rightarrow> u8 \<Rightarrow> (int \<times> issued_state) option" where
  "picoquic_remember_issued_ticket quic tid rtt cwin addr len = do {
     ticket \<leftarrow> picoquic_retrieve_issued_ticket quic tid;
     case ticket of
       Some a \<Rightarrow> Some (0, quic\<lparr>tickets := (tickets quic)(a := picoquic_update_issued_ticket (tickets quic a) rtt cwin addr len)\<rparr>)
     | None \<Rightarrow> do {
         quic \<leftarrow> evict_tickets quic;
         case ticket_mallocs quic of
           Some a # ms \<Rightarrow> do {
             let ticket = picoquic_update_issued_ticket (zero_ticket\<lparr>ticket_id := tid\<rparr>) rtt cwin addr len;
             let first = table_issued_tickets_first quic;
             let quic = quic\<lparr>ticket_mallocs := ms, tickets := (tickets quic)(a := ticket\<lparr>next_ticket := first\<rparr>),
                             table_issued_tickets_first := Some a\<rparr>;
             let quic = (case first of
                 None \<Rightarrow> quic\<lparr>table_issued_tickets_last := Some a\<rparr>
               | Some n \<Rightarrow> quic\<lparr>tickets := set_previous n (Some a) (tickets quic)\<rparr>);
             (_, t) \<leftarrow> picohash_insert (table_issued_tickets quic) \<lparr>key_ticket = Some a, key_ticket_id = tid\<rparr>;
             Some (0, quic\<lparr>table_issued_tickets := t\<rparr>)
           }
         | None # ms \<Rightarrow> Some (PICOQUIC_ERROR_MEMORY, quic\<lparr>ticket_mallocs := ms\<rparr>)
         | [] \<Rightarrow> Some (PICOQUIC_ERROR_MEMORY, quic)
       }
   }"

section \<open>Doubly linked lists\<close>

text \<open>The list of tickets as a doubly linked list of their addresses.\<close>

abbreviation dseg :: "(nat \<Rightarrow> issued_ticket) \<Rightarrow> hash_ptr \<Rightarrow> hash_ptr \<Rightarrow> nat list \<Rightarrow> hash_ptr \<Rightarrow> hash_ptr \<Rightarrow> bool" where
  "dseg m \<equiv> dl (\<lambda>a. next_ticket (m a)) (\<lambda>a. previous_ticket (m a))"

lemma dseg_cong:
  "\<forall>a\<in>set as. next_ticket (m' a) = next_ticket (m a) \<and> previous_ticket (m' a) = previous_ticket (m a) \<Longrightarrow>
   dseg m' p prev as q l = dseg m p prev as q l"
  by (rule dl_cong)

lemma set_links:
  "(\<lambda>b. previous_ticket (set_previous a r m b)) = (\<lambda>b. previous_ticket (m b))(a := r)"
  "(\<lambda>b. next_ticket (set_next a r m b)) = (\<lambda>b. next_ticket (m b))(a := r)"
  "(\<lambda>b. next_ticket (set_previous a r m b)) = (\<lambda>b. next_ticket (m b))"
  "(\<lambda>b. previous_ticket (set_next a r m b)) = (\<lambda>b. previous_ticket (m b))"
  by (auto simp: set_previous_def set_next_def)

lemma set_field_simps [simp]:
  "next_ticket (set_previous a r m b) = next_ticket (m b)" "previous_ticket (set_next a r m b) = previous_ticket (m b)"
  "ticket_id (set_previous a r m b) = ticket_id (m b)" "ticket_id (set_next a r m b) = ticket_id (m b)"
  by (simp_all add: set_previous_def set_next_def)

text \<open>Taking \<open>a\<close> out of a list.\<close>

definition unlink_ticket :: "(nat \<Rightarrow> issued_ticket) \<Rightarrow> nat \<Rightarrow> nat \<Rightarrow> issued_ticket" where
  "unlink_ticket m a =
     (let m' = (case next_ticket (m a) of None \<Rightarrow> m | Some n \<Rightarrow> set_previous n (previous_ticket (m a)) m)
      in case previous_ticket (m a) of None \<Rightarrow> m' | Some p \<Rightarrow> set_next p (next_ticket (m a)) m')"

lemma dseg_remove:
  assumes "dseg m p None (xs @ a # ys) None l" "distinct (xs @ a # ys)"
  shows "dseg (unlink_ticket m a) (if previous_ticket (m a) = None then next_ticket (m a) else p) None (xs @ ys) None
    (if next_ticket (m a) = None then previous_ticket (m a) else l)"
  using dl_remove [OF assms] by (cases "next_ticket (m a)"; cases "previous_ticket (m a)") (simp_all add: unlink_ticket_def set_links)

section \<open>The invariant\<close>

interpretation issued_key: hash_key "\<lambda>k. True" picoquic_issued_ticket_hash picoquic_issued_ticket_compare
  by unfold_locales (auto simp: picoquic_issued_ticket_hash_def picoquic_issued_ticket_compare_def split: if_splits)

definition ticket_key :: "issued_state \<Rightarrow> nat \<Rightarrow> issued_key" where
  "ticket_key q a = \<lparr>key_ticket = Some a, key_ticket_id = ticket_id (tickets q a)\<rparr>"

text \<open>\<open>as\<close> are the tickets from the newest to the oldest, \<open>A\<close> the items of the hash table.\<close>

definition issued_ok :: "issued_state \<Rightarrow> nat list \<Rightarrow> nat set \<Rightarrow> bool" where
  "issued_ok q as A \<longleftrightarrow>
     dseg (tickets q) (table_issued_tickets_first q) None as None (table_issued_tickets_last q) \<and> distinct as \<and>
     holds_items (\<lambda>k. True) picoquic_issued_ticket_hash picoquic_issued_ticket_compare (table_issued_tickets q) A \<and>
     issued_key.table.unique (table_issued_tickets q) A \<and>
     (\<lambda>x. item_key (hash_mem (table_issued_tickets q) x)) ` A = ticket_key q ` set as"

lemma issued_key_same: "picoquic_issued_ticket_compare k l = 0 \<longleftrightarrow> key_ticket_id k = key_ticket_id l"
  by (simp add: picoquic_issued_ticket_compare_def)

lemma issued_unique_iff:
  "issued_key.table.unique t A \<longleftrightarrow> (\<forall>x\<in>A. \<forall>y\<in>A.
     key_ticket_id (item_key (hash_mem t x)) = key_ticket_id (item_key (hash_mem t y)) \<longrightarrow> x = y)"
  unfolding issued_key.table.unique_def by (simp only: issued_key_same)

lemma issued_ids_distinct:
  assumes "issued_ok q as A" "a \<in> set as" "b \<in> set as" "ticket_id (tickets q a) = ticket_id (tickets q b)"
  shows "a = b"
proof -
  have keys: "(\<lambda>x. item_key (hash_mem (table_issued_tickets q) x)) ` A = ticket_key q ` set as"
    and un: "\<forall>x\<in>A. \<forall>y\<in>A. key_ticket_id (item_key (hash_mem (table_issued_tickets q) x)) =
      key_ticket_id (item_key (hash_mem (table_issued_tickets q) y)) \<longrightarrow> x = y"
    using assms(1) unfolding issued_ok_def issued_unique_iff by blast+
  obtain x y where x: "x \<in> A" "item_key (hash_mem (table_issued_tickets q) x) = ticket_key q a"
    and y: "y \<in> A" "item_key (hash_mem (table_issued_tickets q) y) = ticket_key q b"
    using keys assms(2,3) by (metis (no_types, lifting) image_iff)
  then have "x = y" using un assms(4) by (simp add: ticket_key_def)
  then show ?thesis using x y by (simp add: ticket_key_def)
qed

lemma retrieve_key:
  assumes "issued_ok q as A"
  shows "\<exists>p. picohash_retrieve (table_issued_tickets q) k = Some p \<and>
    (case p of
       None \<Rightarrow> key_ticket_id k \<notin> (\<lambda>a. ticket_id (tickets q a)) ` set as
     | Some x \<Rightarrow> x \<in> A \<and> (\<exists>a\<in>set as. ticket_id (tickets q a) = key_ticket_id k \<and>
         item_key (hash_mem (table_issued_tickets q) x) = ticket_key q a))"
proof -
  let ?key = "\<lambda>x. item_key (hash_mem (table_issued_tickets q) x)"
  have keys: "?key ` A = ticket_key q ` set as" using assms by (simp add: issued_ok_def)
  obtain p where p: "picohash_retrieve (table_issued_tickets q) k = Some p"
    "case p of None \<Rightarrow> \<forall>x\<in>A. key_ticket_id k \<noteq> key_ticket_id (?key x)
     | Some x \<Rightarrow> x \<in> A \<and> key_ticket_id k = key_ticket_id (?key x)"
    using issued_key.table.lookup_law [of "table_issued_tickets q" A k] assms
    by (auto simp: issued_ok_def issued_key_same split: option.splits)
  show ?thesis
  proof (cases p)
    case None
    have "key_ticket_id k \<noteq> ticket_id (tickets q a)" if "a \<in> set as" for a
    proof -
      obtain x where "x \<in> A" "?key x = ticket_key q a" using keys \<open>a \<in> set as\<close> by (metis (no_types, lifting) image_iff)
      then show ?thesis using p(2) None by (auto simp: ticket_key_def)
    qed
    then show ?thesis using p(1) None by auto
  next
    case (Some x)
    then obtain a where "a \<in> set as" "?key x = ticket_key q a" using p(2) keys by (auto simp: image_iff set_eq_iff)
    then show ?thesis using p Some by (auto simp: ticket_key_def)
  qed
qed

lemma retrieve_issued:
  assumes "issued_ok q as A"
  shows "\<exists>p. picoquic_retrieve_issued_ticket q tid = Some p \<and>
    (case p of None \<Rightarrow> tid \<notin> (\<lambda>a. ticket_id (tickets q a)) ` set as
     | Some a \<Rightarrow> a \<in> set as \<and> ticket_id (tickets q a) = tid)"
proof -
  obtain p where p: "picohash_retrieve (table_issued_tickets q) \<lparr>key_ticket = None, key_ticket_id = tid\<rparr> = Some p"
    "case p of None \<Rightarrow> tid \<notin> (\<lambda>a. ticket_id (tickets q a)) ` set as
     | Some x \<Rightarrow> \<exists>a\<in>set as. ticket_id (tickets q a) = tid \<and> item_key (hash_mem (table_issued_tickets q) x) = ticket_key q a"
    using retrieve_key [OF assms, of "\<lparr>key_ticket = None, key_ticket_id = tid\<rparr>"] by (auto split: option.splits)
  then show ?thesis
    by (cases p) (auto simp: picoquic_retrieve_issued_ticket_def ticket_key_def)
qed

lemma retrieve_at:
  assumes "issued_ok q as A" "a \<in> set as"
  shows "picoquic_retrieve_issued_ticket q (ticket_id (tickets q a)) = Some (Some a)"
  using retrieve_issued [OF assms(1), of "ticket_id (tickets q a)"] assms(2) issued_ids_distinct [OF assms(1) _ assms(2)]
  by (auto split: option.splits)

text \<open>What a ticket says, without the links.\<close>

definition ticket_values :: "issued_ticket \<Rightarrow> u64 \<times> u64 \<times> u64 \<times> u8 list \<times> u8" where
  "ticket_values t = (ticket_id t, ticket_rtt t, ticket_cwin t, ip_addr t, ip_addr_length t)"

lemma ticket_values_links [simp]:
  "ticket_values (set_previous a r m b) = ticket_values (m b)" "ticket_values (set_next a r m b) = ticket_values (m b)"
  by (simp_all add: ticket_values_def set_previous_def set_next_def)

lemma unlink_ticket_values [simp]: "ticket_values (unlink_ticket m a b) = ticket_values (m b)"
  by (simp add: unlink_ticket_def Let_def split: option.splits)

lemma ticket_values_id: "ticket_values t = ticket_values u \<Longrightarrow> ticket_id t = ticket_id u"
  by (simp add: ticket_values_def)

text \<open>What a removal leaves alone.\<close>

definition rest_kept :: "issued_state \<Rightarrow> issued_state \<Rightarrow> bool" where
  "rest_kept q q' \<longleftrightarrow> max_number_connections q' = max_number_connections q \<and> ticket_mallocs q' = ticket_mallocs q \<and>
     next_alloc (table_issued_tickets q') = next_alloc (table_issued_tickets q) \<and>
     (\<forall>b. ticket_values (tickets q' b) = ticket_values (tickets q b))"

lemma rest_kept_refl: "rest_kept q q"
  by (simp add: rest_kept_def)

lemma rest_kept_trans: "rest_kept q q' \<Longrightarrow> rest_kept q' q'' \<Longrightarrow> rest_kept q q''"
  by (simp add: rest_kept_def)

lemma delete_ticket:
  assumes "issued_ok q (xs @ a # ys) A"
  shows "\<exists>q' A'. picoquic_delete_issued_ticket q (Some a) = Some q' \<and> issued_ok q' (xs @ ys) A' \<and> A' \<subseteq> A \<and>
    table_issued_tickets_nb q' = (if table_issued_tickets_nb q > 0 then table_issued_tickets_nb q - 1 else 0) \<and>
    rest_kept q q'"
proof -
  let ?t = "table_issued_tickets q"
  have di: "distinct (xs @ a # ys)" and ds: "dseg (tickets q) (table_issued_tickets_first q) None (xs @ a # ys) None (table_issued_tickets_last q)"
    using assms by (simp_all add: issued_ok_def)
  obtain x b where x: "picohash_retrieve ?t (ticket_key q a) = Some (Some x)" "x \<in> A" "b \<in> set (xs @ a # ys)"
      "ticket_id (tickets q b) = ticket_id (tickets q a)" "item_key (hash_mem ?t x) = ticket_key q b"
    using retrieve_key [OF assms, of "ticket_key q a"] by (fastforce simp: ticket_key_def split: option.splits)
  have "b = a" using issued_ids_distinct [OF assms, of b a] x(3,4) by simp
  obtain t' where t': "picohash_delete_item ?t x True = Some t'"
    "holds_items (\<lambda>k. True) picoquic_issued_ticket_hash picoquic_issued_ticket_compare t' (A - {x})"
    "issued_key.table.unique t' (A - {x})" "next_alloc t' = next_alloc ?t"
    "\<forall>y\<in>A. item_key (hash_mem t' y) = item_key (hash_mem ?t y)"
    using issued_key.table.remove_present [of ?t A x True] assms x(2) by (auto simp: issued_ok_def)
  define q' where "q' = q\<lparr>table_issued_tickets := t', tickets := unlink_ticket (tickets q) a,
    table_issued_tickets_first := (if previous_ticket (tickets q a) = None then next_ticket (tickets q a) else table_issued_tickets_first q),
    table_issued_tickets_last := (if next_ticket (tickets q a) = None then previous_ticket (tickets q a) else table_issued_tickets_last q),
    table_issued_tickets_nb := (if table_issued_tickets_nb q > 0 then table_issued_tickets_nb q - 1 else table_issued_tickets_nb q)\<rparr>"
  have step: "picoquic_delete_issued_ticket q (Some a) = Some q'"
  proof -
    have "next_ticket (tickets q a) \<noteq> Some a" using ds di by (cases ys) (auto simp: dl_append)
    moreover have "picohash_delete_key ?t (ticket_key q a) True = Some t'" using x(1) t'(1) by (simp add: picohash_delete_key_def)
    moreover have "n \<noteq> a \<Longrightarrow> previous_ticket (set_previous n p m a) = previous_ticket (m a)" for n p m by (simp add: set_previous_def)
    ultimately show ?thesis
      by (cases q; cases "next_ticket (tickets q a)"; cases "previous_ticket (tickets q a)")
        (auto simp: picoquic_delete_issued_ticket_def q'_def ticket_key_def unlink_ticket_def Let_def)
  qed
  have "dseg (tickets q') (table_issued_tickets_first q') None (xs @ ys) None (table_issued_tickets_last q')"
    using dseg_remove [OF ds di] by (simp add: q'_def)
  moreover have "(\<lambda>y. item_key (hash_mem t' y)) ` (A - {x}) = ticket_key q ` set (xs @ ys)"
  proof -
    have un: "\<forall>y\<in>A. item_key (hash_mem ?t y) = ticket_key q a \<longrightarrow> y = x"
      using assms x(2,5) \<open>b = a\<close> unfolding issued_ok_def issued_unique_iff by metis
    have "(\<lambda>y. item_key (hash_mem t' y)) ` (A - {x}) = (\<lambda>y. item_key (hash_mem ?t y)) ` (A - {x})"
      using t'(5) by (intro image_cong) auto
    also have "\<dots> = (\<lambda>y. item_key (hash_mem ?t y)) ` A - {ticket_key q a}" using un x(5) \<open>b = a\<close> by auto
    also have "\<dots> = ticket_key q ` set (xs @ a # ys) - {ticket_key q a}" using assms by (simp add: issued_ok_def)
    also have "\<dots> = ticket_key q ` set (xs @ ys)" using di by (auto simp: ticket_key_def)
    finally show ?thesis .
  qed
  moreover have "ticket_key q' = ticket_key q"
    using ticket_values_id [OF unlink_ticket_values] by (simp add: ticket_key_def q'_def fun_eq_iff)
  ultimately have "issued_ok q' (xs @ ys) (A - {x})" using t' di by (simp add: issued_ok_def q'_def)
  then show ?thesis using step t'(4) by (intro exI [of _ q'] exI [of _ "A - {x}"]) (auto simp: q'_def word_gt_0 rest_kept_def)
qed

section \<open>Eviction\<close>

lemma unat_ucast_u32 [simp]: "unat (ucast (w :: u32) :: u64) = unat w"
proof -
  have "unat w < 2 ^ 64" using unsigned_less [of w, where 'a = nat] by simp
  then show ?thesis by (simp add: unsigned_ucast_eq take_bit_nat_eq_self)
qed

text \<open>The tickets above the maximum are removed, the oldest ones.\<close>

lemma evict_oldest:
  assumes "issued_ok q as A" "unat (table_issued_tickets_nb q) \<le> length as"
  shows "\<exists>q' A'. evict_tickets q = Some q' \<and> A' \<subseteq> A \<and>
    issued_ok q' (take (length as - (unat (table_issued_tickets_nb q) - unat (max_number_connections q))) as) A' \<and>
    unat (table_issued_tickets_nb q') = min (unat (table_issued_tickets_nb q)) (unat (max_number_connections q)) \<and>
    rest_kept q q'"
  using assms
proof (induction "unat (table_issued_tickets_nb q) - unat (max_number_connections q)" arbitrary: q as A)
  case 0
  then have "\<not> table_issued_tickets_nb q > ucast (max_number_connections q)" by (simp add: word_less_nat_alt)
  then have "evict_tickets q = Some q" by (subst evict_tickets.simps) simp
  then show ?case using 0 by (intro exI [of _ q] exI [of _ A]) (auto simp: rest_kept_refl)
next
  case (Suc n)
  let ?nb = "unat (table_issued_tickets_nb q)" and ?max = "unat (max_number_connections q)"
  have more: "table_issued_tickets_nb q > ucast (max_number_connections q)"
    using Suc.hyps(2) by (simp add: word_less_nat_alt)
  then have pos: "table_issued_tickets_nb q > 0" using word_gt_0_no by (metis order.strict_trans1 word_coorder.extremum)
  obtain bs a where as: "as = bs @ [a]" using Suc.prems(2) Suc.hyps(2) by (cases as rule: rev_cases) auto
  have last: "table_issued_tickets_last q = Some a" using Suc.prems(1) dl_last by (auto simp: issued_ok_def as)
  obtain q1 A1 where q1: "picoquic_delete_issued_ticket q (Some a) = Some q1" "issued_ok q1 bs A1" "A1 \<subseteq> A"
    "table_issued_tickets_nb q1 = table_issued_tickets_nb q - 1" "rest_kept q q1"
    using delete_ticket [of q bs a "[]" A] Suc.prems(1) pos by (auto simp: as)
  have nb1: "unat (table_issued_tickets_nb q1) = ?nb - 1" using q1(4) pos by (simp add: unat_minus_one)
  have max1: "max_number_connections q1 = max_number_connections q" using q1(5) by (simp add: rest_kept_def)
  have "n = unat (table_issued_tickets_nb q1) - unat (max_number_connections q1)" using Suc.hyps(2) nb1 max1 by simp
  moreover have "unat (table_issued_tickets_nb q1) \<le> length bs" using Suc.prems(2) nb1 by (simp add: as)
  ultimately obtain q' A' where q': "evict_tickets q1 = Some q'" "A' \<subseteq> A1"
    "issued_ok q' (take (length bs - (?nb - 1 - ?max)) bs) A'" "unat (table_issued_tickets_nb q') = min (?nb - 1) ?max"
    "rest_kept q1 q'"
    using Suc.hyps(1) [OF _ q1(2)] unfolding nb1 max1 by blast
  have run: "evict_tickets q = Some q'" using more q1(1) q'(1) last by (subst evict_tickets.simps) simp
  have "take (length as - (?nb - ?max)) as = take (length bs - (?nb - 1 - ?max)) bs"
    using Suc.hyps(2) Suc.prems(2) by (simp add: as)
  moreover have "min (?nb - 1) ?max = min ?nb ?max" using Suc.hyps(2) by auto
  ultimately show ?case using run q' q1(3) rest_kept_trans [OF q1(5) q'(5)] by (intro exI [of _ q'] exI [of _ A']) auto
qed

section \<open>Remembering a ticket\<close>

definition remembered :: "u64 \<Rightarrow> u64 \<Rightarrow> u64 \<Rightarrow> u8 list \<Rightarrow> u8 \<Rightarrow> u8 list \<Rightarrow> u64 \<times> u64 \<times> u64 \<times> u8 list \<times> u8" where
  "remembered tid rtt cwin addr len old =
     (let len = min len 16 in (tid, rtt, cwin, take (unat len) addr @ drop (unat len) old, len))"

lemma update_values:
  "ticket_values (picoquic_update_issued_ticket t rtt cwin addr len) = remembered (ticket_id t) rtt cwin addr len (ip_addr t)"
  by (auto simp: ticket_values_def remembered_def picoquic_update_issued_ticket_def Let_def min_def not_less)

lemma remember_known:
  fixes rtt cwin :: u64 and addr :: "u8 list" and len :: u8
  assumes "issued_ok q as A" "a \<in> set as"
  defines "q' \<equiv> q\<lparr>tickets := (tickets q)(a := picoquic_update_issued_ticket (tickets q a) rtt cwin addr len)\<rparr>"
  shows "picoquic_remember_issued_ticket q (ticket_id (tickets q a)) rtt cwin addr len = Some (0, q')" "issued_ok q' as A"
proof -
  obtain b where b: "picoquic_retrieve_issued_ticket q (ticket_id (tickets q a)) = Some (Some b)" "b \<in> set as"
    "ticket_id (tickets q b) = ticket_id (tickets q a)"
    using retrieve_issued [OF assms(1), of "ticket_id (tickets q a)"] assms(2) by (auto split: option.splits)
  then have "b = a" using issued_ids_distinct [OF assms(1)] assms(2) by blast
  then show "picoquic_remember_issued_ticket q (ticket_id (tickets q a)) rtt cwin addr len = Some (0, q')"
    using b(1) by (simp add: picoquic_remember_issued_ticket_def q'_def)
  have "ticket_key q' = ticket_key q"
    by (auto simp: fun_eq_iff ticket_key_def q'_def picoquic_update_issued_ticket_def Let_def)
  moreover have "dseg (tickets q') p r as s l = dseg (tickets q) p r as s l" for p r s l
    by (rule dseg_cong) (auto simp: q'_def picoquic_update_issued_ticket_def Let_def)
  ultimately show "issued_ok q' as A" using assms(1) by (simp add: issued_ok_def q'_def)
qed

lemma insert_mallocs: "picohash_insert t k = Some (r, t') \<Longrightarrow> hash_mallocs t' = tl (hash_mallocs t)"
  by (auto simp: picohash_insert_def Let_def split: list.splits option.splits bind_splits)

lemma remember_new:
  assumes "issued_ok q as A" "unat (table_issued_tickets_nb q) \<le> length as" "tid \<notin> (\<lambda>a. ticket_id (tickets q a)) ` set as"
    "ticket_mallocs q = Some a # ms" "a \<notin> set as" "next_alloc (table_issued_tickets q) = Some x" "x \<notin> A"
  shows "\<exists>q' A'. picoquic_remember_issued_ticket q tid rtt cwin addr len = Some (0, q') \<and> A' \<subseteq> insert x A \<and>
    issued_ok q' (a # take (length as - (unat (table_issued_tickets_nb q) - unat (max_number_connections q))) as) A' \<and>
    unat (table_issued_tickets_nb q') = min (unat (table_issued_tickets_nb q)) (unat (max_number_connections q)) \<and>
    max_number_connections q' = max_number_connections q \<and> ticket_mallocs q' = ms \<and>
    (table_issued_tickets_nb q = 0 \<longrightarrow> hash_mallocs (table_issued_tickets q') = tl (hash_mallocs (table_issued_tickets q))) \<and>
    ticket_values (tickets q' a) = remembered tid rtt cwin addr len (replicate 16 0) \<and>
    (\<forall>b\<in>set as. ticket_values (tickets q' b) = ticket_values (tickets q b))"
proof -
  have none: "picoquic_retrieve_issued_ticket q tid = Some None"
    using retrieve_issued [OF assms(1), of tid] assms(3) by (force split: option.splits)
  obtain q1 A1 bs where q1: "evict_tickets q = Some q1" "A1 \<subseteq> A" "issued_ok q1 bs A1"
    "bs = take (length as - (unat (table_issued_tickets_nb q) - unat (max_number_connections q))) as"
    "unat (table_issued_tickets_nb q1) = min (unat (table_issued_tickets_nb q)) (unat (max_number_connections q))" "rest_kept q q1"
    using evict_oldest [OF assms(1,2)] by blast
  have kept: "max_number_connections q1 = max_number_connections q" "ticket_mallocs q1 = ticket_mallocs q"
    "next_alloc (table_issued_tickets q1) = Some x" "\<forall>b. ticket_values (tickets q1 b) = ticket_values (tickets q b)"
    using q1(6) assms(6) by (auto simp: rest_kept_def)
  have sub: "set bs \<subseteq> set as" using q1(4) by (simp add: set_take_subset)
  let ?t = "table_issued_tickets q1" and ?k = "\<lparr>key_ticket = Some a, key_ticket_id = tid\<rparr>"
  have ids: "ticket_id (tickets q1 b) = ticket_id (tickets q b)" for b by (rule ticket_values_id) (simp add: kept(4))
  have absent: "picohash_retrieve ?t ?k = Some None"
    using retrieve_key [OF q1(3), of ?k] assms(3) sub ids by (fastforce split: option.splits)
  obtain t' where t': "picohash_insert ?t ?k = Some (0, t')"
    "holds_items (\<lambda>k. True) picoquic_issued_ticket_hash picoquic_issued_ticket_compare t' (insert x A1)"
    "issued_key.table.unique t' (insert x A1)" "item_key (hash_mem t' x) = ?k"
    "\<forall>y\<in>A1. item_key (hash_mem t' y) = item_key (hash_mem ?t y)"
  proof -
    have "holds_items (\<lambda>k. True) picoquic_issued_ticket_hash picoquic_issued_ticket_compare ?t A1"
      and "issued_key.table.unique ?t A1" and "x \<notin> A1"
      using q1(2,3) assms(7) by (auto simp: issued_ok_def)
    then show thesis
      using issued_key.table.add_absent [of ?t A1 ?k x, OF _ _ TrueI absent kept(3)] that by (auto simp: issued_key_same)
  qed
  let ?new = "picoquic_update_issued_ticket (zero_ticket\<lparr>ticket_id := tid\<rparr>) rtt cwin addr len"
  let ?first = "table_issued_tickets_first q1"
  define m where "m = (tickets q1)(a := ?new\<lparr>next_ticket := ?first\<rparr>)"
  define m' where "m' = (case ?first of None \<Rightarrow> m | Some n \<Rightarrow> set_previous n (Some a) m)"
  define q' where "q' = q1\<lparr>ticket_mallocs := ms, tickets := m', table_issued_tickets_first := Some a,
    table_issued_tickets_last := (if ?first = None then Some a else table_issued_tickets_last q1), table_issued_tickets := t'\<rparr>"
  have run: "picoquic_remember_issued_ticket q tid rtt cwin addr len = Some (0, q')"
    using none q1(1) kept(2) assms(4) t'(1)
    by (cases q1; cases ?first) (simp_all add: picoquic_remember_issued_ticket_def q'_def m'_def m_def Let_def)
  have new: "previous_ticket ?new = None" by (simp add: picoquic_update_issued_ticket_def zero_ticket_def Let_def)
  have vals: "ticket_values (m' b) = (if b = a then ticket_values ?new else ticket_values (tickets q1 b))" for b
    by (auto simp: m'_def m_def ticket_values_def set_previous_def split: option.splits)
  have links: "dseg m' (Some a) None (a # bs) None (table_issued_tickets_last q')"
  proof -
    have bs: "dseg (tickets q1) ?first None bs None (table_issued_tickets_last q1)" "distinct bs" "a \<notin> set bs"
      using q1(3) sub assms(5) by (auto simp: issued_ok_def)
    have m: "dseg m ?first None bs None (table_issued_tickets_last q1)"
      using bs(1,3) dseg_cong [of bs m "tickets q1"] by (auto simp: m_def)
    show ?thesis
    proof (cases bs)
      case Nil
      then show ?thesis using bs(1) new by (simp add: m'_def m_def q'_def)
    next
      case (Cons n cs)
      then have "dseg m' ?first (Some a) bs None (table_issued_tickets_last q1)"
        using m bs(2) dl_previous [OF m [unfolded Cons], of "Some a"] by (simp add: m'_def set_links)
      moreover have "next_ticket (m' a) = ?first" "previous_ticket (m' a) = None"
        using bs Cons new by (auto simp: m'_def m_def set_previous_def)
      ultimately show ?thesis using bs(1) Cons by (simp add: q'_def)
    qed
  qed
  have key: "ticket_key q' b = (if b = a then ?k else ticket_key q1 b)" for b
    by (auto simp: ticket_key_def q'_def m'_def m_def set_previous_def picoquic_update_issued_ticket_def zero_ticket_def Let_def
        split: option.splits)
  have "(\<lambda>y. item_key (hash_mem t' y)) ` insert x A1 = insert ?k ((\<lambda>y. item_key (hash_mem ?t y)) ` A1)"
    unfolding image_insert t'(4) using t'(5) by (intro arg_cong [of _ _ "insert ?k"] image_cong) auto
  also have "\<dots> = insert ?k (ticket_key q1 ` set bs)" using q1(3) by (simp add: issued_ok_def)
  also have "\<dots> = ticket_key q' ` set (a # bs)" using sub assms(5) by (auto simp: key image_iff)
  finally have keys: "(\<lambda>y. item_key (hash_mem t' y)) ` insert x A1 = ticket_key q' ` set (a # bs)" .
  have "distinct (a # bs)" using q1(3) sub assms(5) by (auto simp: issued_ok_def)
  then have ok: "issued_ok q' (a # bs) (insert x A1)" using links keys t'(2,3) by (simp add: issued_ok_def q'_def)
  have "hash_mallocs t' = tl (hash_mallocs (table_issued_tickets q))" if "table_issued_tickets_nb q = 0"
  proof -
    have "evict_tickets q = Some q" using that by (subst evict_tickets.simps) simp
    then show ?thesis using q1(1) insert_mallocs [OF t'(1)] by simp
  qed
  moreover have "ticket_values (tickets q' a) = remembered tid rtt cwin addr len (replicate 16 0)"
    using vals [of a] by (simp add: q'_def update_values zero_ticket_def)
  moreover have "\<forall>b\<in>set as. ticket_values (tickets q' b) = ticket_values (tickets q b)"
    using vals kept(4) assms(5) by (auto simp: q'_def)
  ultimately show ?thesis using run ok q1(2,4,5) kept(1)
    by (intro exI [of _ q'] exI [of _ "insert x A1"]) (auto simp: q'_def)
qed

section \<open>The number of tickets\<close>

text \<open>
  A server that has just been created: the table has one bin for each connection; \<open>n\<close> tickets can be
  allocated, at the addresses from 0.
\<close>

definition issued_start :: "u32 \<Rightarrow> nat \<Rightarrow> issued_state option" where
  "issued_start max_nb n = do {
     t \<leftarrow> picohash_create True (map Some [0..<n]) (\<lambda>_. \<lparr>item_hash = 0, next_in_bin = None, item_key = \<lparr>key_ticket = None, key_ticket_id = 0\<rparr>\<rparr>)
       (unat max_nb) picoquic_issued_ticket_hash picoquic_issued_ticket_compare;
     Some \<lparr>table_issued_tickets = t, table_issued_tickets_first = None, table_issued_tickets_last = None, table_issued_tickets_nb = 0,
       max_number_connections = max_nb, tickets = \<lambda>_. zero_ticket, ticket_mallocs = map Some [0..<n]\<rparr>
   }"

fun remember_all :: "issued_state \<Rightarrow> u64 list \<Rightarrow> issued_state option" where
  "remember_all q [] = Some q"
| "remember_all q (tid # tids) =
     do { (_, q) \<leftarrow> picoquic_remember_issued_ticket q tid 0 0 [] 0; remember_all q tids }"

text \<open>The state after \<open>k\<close> new tickets, as long as the count of the tickets is 0.\<close>

definition counted_none :: "issued_state \<Rightarrow> nat \<Rightarrow> nat \<Rightarrow> u64 set \<Rightarrow> bool" where
  "counted_none q k n X \<longleftrightarrow> (\<exists>A. issued_ok q (rev [0..<k]) A \<and> A \<subseteq> {0..<k}) \<and> table_issued_tickets_nb q = 0 \<and>
     ticket_mallocs q = map Some [k..<n] \<and> hash_mallocs (table_issued_tickets q) = map Some [k..<n] \<and>
     (\<lambda>a. ticket_id (tickets q a)) ` {0..<k} = X"

lemma start_counted_none:
  assumes "0 < m"
  shows "\<exists>q. issued_start m n = Some q \<and> counted_none q 0 n {}"
proof -
  let ?m0 = "\<lambda>_ :: nat. \<lparr>item_hash = 0, next_in_bin = None, item_key = \<lparr>key_ticket = None, key_ticket_id = 0\<rparr>\<rparr>"
  obtain t where t: "picohash_create True (map Some [0..<n]) ?m0 (unat m) picoquic_issued_ticket_hash picoquic_issued_ticket_compare = Some t"
    "hash_mallocs t = map Some [0..<n]" by (simp add: picohash_create_def)
  have "0 < unat m" "unat m \<le> 2 ^ 32" using assms unsigned_less [of m, where 'a = nat] by (simp_all add: unat_gt_0 word_gt_0)
  from holds_items_create [OF this t(1), of "\<lambda>k. True"] show ?thesis
    using t by (auto simp: issued_start_def counted_none_def issued_ok_def issued_unique_iff)
qed

lemma remember_counted_none:
  assumes "counted_none q k n X" "tid \<notin> X" "k < n"
  shows "\<exists>q'. picoquic_remember_issued_ticket q tid rtt cwin addr len = Some (0, q') \<and> counted_none q' (Suc k) n (insert tid X)"
proof -
  obtain A where q: "issued_ok q (rev [0..<k]) A" "A \<subseteq> {0..<k}" "table_issued_tickets_nb q = 0"
    "ticket_mallocs q = map Some [k..<n]" "hash_mallocs (table_issued_tickets q) = map Some [k..<n]"
    "(\<lambda>a. ticket_id (tickets q a)) ` {0..<k} = X"
    using assms(1) by (auto simp: counted_none_def)
  have k: "[k..<n] = k # [Suc k..<n]" using assms(3) by (rule upt_conv_Cons)
  have free: "k \<notin> A" using q(2) by auto
  obtain q' A' where q': "picoquic_remember_issued_ticket q tid rtt cwin addr len = Some (0, q')" "A' \<subseteq> insert k A"
    "issued_ok q' (k # rev [0..<k]) A'" "table_issued_tickets_nb q' = 0" "ticket_mallocs q' = map Some [Suc k..<n]"
    "hash_mallocs (table_issued_tickets q') = map Some [Suc k..<n]"
    "ticket_values (tickets q' k) = remembered tid rtt cwin addr len (replicate 16 0)"
    "\<forall>b\<in>set (rev [0..<k]). ticket_values (tickets q' b) = ticket_values (tickets q b)"
    using remember_new [OF q(1), of tid k "map Some [Suc k..<n]" k rtt cwin addr len, OF _ _ _ _ _ free] q(3-6) assms(2)
    by (auto simp: k next_alloc_def unat_eq_0)
  have "ticket_id (tickets q' k) = tid" using q'(7) by (simp add: ticket_values_def remembered_def Let_def)
  moreover have "ticket_id (tickets q' b) = ticket_id (tickets q b)" if "b < k" for b
    by (rule ticket_values_id) (use q'(8) that in simp)
  ultimately have "(\<lambda>a. ticket_id (tickets q' a)) ` {0..<Suc k} = insert tid X"
    using q(6) by (auto simp: atLeast0_lessThan_Suc)
  moreover have "A' \<subseteq> {0..<Suc k}" using q'(2) q(2) by fastforce
  ultimately show ?thesis using q' by (auto simp: counted_none_def intro!: exI [of _ q'] exI [of _ A'])
qed

lemma remember_all_counted_none:
  assumes "counted_none q k n X" "distinct tids" "set tids \<inter> X = {}" "k + length tids \<le> n"
  shows "\<exists>q'. remember_all q tids = Some q' \<and> counted_none q' (k + length tids) n (X \<union> set tids)"
  using assms
proof (induction tids arbitrary: q k X)
  case (Cons tid tids)
  obtain q1 where q1: "picoquic_remember_issued_ticket q tid 0 0 [] 0 = Some (0, q1)" "counted_none q1 (Suc k) n (insert tid X)"
    using remember_counted_none [OF Cons.prems(1), of tid 0 0 "[]" 0] Cons.prems(3,4) by auto
  then show ?case using Cons.IH [OF q1(2)] Cons.prems by auto
qed simp

section \<open>Theorems\<close>

text \<open>
  C35: a ticket that a server remembers is found again under its identifier, with the round trip time,
  the window and the address that were given, cut to 16 bytes; the list, the hash table and the other
  tickets stay as they are. A ticket that is already known is updated where it is; a new one goes to
  the front of the list, after the oldest tickets above the maximum are removed.
\<close>

theorem issued_ticket_remembered:
  assumes "issued_ok q as A" "unat (table_issued_tickets_nb q) \<le> length as"
    "ticket_mallocs q = Some a # ms" "a \<notin> set as" "next_alloc (table_issued_tickets q) = Some x" "x \<notin> A"
  shows "\<exists>q' as' A' b old. picoquic_remember_issued_ticket q tid rtt cwin addr len = Some (0, q') \<and> issued_ok q' as' A' \<and>
    as' = (if tid \<in> (\<lambda>c. ticket_id (tickets q c)) ` set as then as
      else a # take (length as - (unat (table_issued_tickets_nb q) - unat (max_number_connections q))) as) \<and>
    picoquic_retrieve_issued_ticket q' tid = Some (Some b) \<and> b \<in> set as' \<and>
    ticket_values (tickets q' b) = remembered tid rtt cwin addr len old \<and>
    (\<forall>c\<in>set as - {b}. ticket_values (tickets q' c) = ticket_values (tickets q c))"
proof (cases "tid \<in> (\<lambda>c. ticket_id (tickets q c)) ` set as")
  case True
  then obtain b where b: "b \<in> set as" "tid = ticket_id (tickets q b)" by blast
  let ?q = "q\<lparr>tickets := (tickets q)(b := picoquic_update_issued_ticket (tickets q b) rtt cwin addr len)\<rparr>"
  note known = remember_known [OF assms(1) b(1), of rtt cwin addr len]
  have vals: "ticket_values (tickets ?q b) = remembered tid rtt cwin addr len (ip_addr (tickets q b))"
    using b(2) by (simp add: update_values)
  then have "picoquic_retrieve_issued_ticket ?q tid = Some (Some b)"
    using retrieve_at [OF known(2) b(1)] by (simp add: ticket_values_def remembered_def Let_def)
  then show ?thesis using known True b vals
    by (intro exI [of _ ?q] exI [of _ as] exI [of _ A] exI [of _ b] exI [of _ "ip_addr (tickets q b)"]) simp
next
  case False
  from remember_new [OF assms(1,2) False assms(3-6), of rtt cwin addr len]
  obtain q' A' where q': "picoquic_remember_issued_ticket q tid rtt cwin addr len = Some (0, q')"
    "issued_ok q' (a # take (length as - (unat (table_issued_tickets_nb q) - unat (max_number_connections q))) as) A'"
    "ticket_values (tickets q' a) = remembered tid rtt cwin addr len (replicate 16 0)"
    "\<forall>b\<in>set as. ticket_values (tickets q' b) = ticket_values (tickets q b)"
    by blast
  have "picoquic_retrieve_issued_ticket q' tid = Some (Some a)"
    using retrieve_at [OF q'(2), of a] q'(3) by (simp add: ticket_values_def remembered_def Let_def)
  then show ?thesis using q' False
    by (intro exI [of _ q'] exI [of _ "a # take (length as - (unat (table_issued_tickets_nb q) - unat (max_number_connections q))) as"]
      exI [of _ A'] exI [of _ a] exI [of _ "replicate 16 0"]) simp
qed

definition example_issued :: issued_state where
  "example_issued = the (issued_start 2 3)"

lemma example_issued_start: "issued_start 2 3 = Some example_issued" "counted_none example_issued 0 3 {}"
  using start_counted_none [of 2 3] by (auto simp: example_issued_def)

theorem issued_ticket_remembered_witness:
  "\<exists>q' b. picoquic_remember_issued_ticket example_issued 77 5000 20000 [10, 0, 0, 1] 4 = Some (0, q') \<and>
     picoquic_retrieve_issued_ticket q' 77 = Some (Some b) \<and> ticket_rtt (tickets q' b) = 5000"
proof -
  obtain A where "issued_ok example_issued [] A" "A \<subseteq> {}" "table_issued_tickets_nb example_issued = 0"
    "ticket_mallocs example_issued = Some 0 # map Some [1..<3]" "next_alloc (table_issued_tickets example_issued) = Some 0"
    using example_issued_start(2) by (auto simp: counted_none_def next_alloc_def upt_rec numeral_eq_Suc)
  then show ?thesis
    using issued_ticket_remembered [of example_issued "[]" A 0 "map Some [1..<3]" 0 77 5000 20000 "[10, 0, 0, 1]" 4]
    by (fastforce simp: ticket_values_def remembered_def Let_def)
qed

text \<open>
  C39: the bound on the number of issued tickets has no effect. The count of the tickets is never
  raised, so it stays 0 and no ticket is ever removed: after any number of different tickets, all of
  them are in the list, whatever the maximum number of connections is.
\<close>

theorem issued_tickets_never_evicted:
  assumes "0 < m" "distinct tids"
  shows "\<exists>q q' as A. issued_start m (length tids) = Some q \<and> remember_all q tids = Some q' \<and> issued_ok q' as A \<and>
    length as = length tids \<and> (\<lambda>a. ticket_id (tickets q' a)) ` set as = set tids \<and>
    table_issued_tickets_nb q' = 0"
proof -
  obtain q where q: "issued_start m (length tids) = Some q" "counted_none q 0 (length tids) {}"
    using start_counted_none [OF assms(1)] by blast
  obtain q' where "remember_all q tids = Some q'" "counted_none q' (length tids) (length tids) (set tids)"
    using remember_all_counted_none [OF q(2) assms(2)] by auto
  then show ?thesis using q(1) by (auto simp: counted_none_def intro!: exI [of _ "rev [0..<length tids]"])
qed

theorem issued_tickets_never_evicted_witness:
  "\<exists>q q' as A. issued_start 1 4 = Some q \<and> remember_all q [5, 6, 7, 8] = Some q' \<and> issued_ok q' as A \<and> length as = 4"
proof -
  have four: "length [5, 6, 7, 8 :: u64] = 4" by simp
  have "(0 :: u32) < 1" "distinct [5, 6, 7, 8 :: u64]" by simp_all
  from issued_tickets_never_evicted [OF this] show ?thesis unfolding four by blast
qed

end
