(* ===== verification/TokenReuse.thy ===== *)
theory TokenReuse
  imports SortedStore IntFormat
begin

text \<open>
  The tokens that a server has accepted, from \<open>picoquic/quicctx.c\<close>: a token that is presented again
  before it expires is refused. The tokens stand in a splay tree, ordered by their expiry time and
  then by their last 8 bytes.
\<close>

section \<open>State\<close>

text \<open>The node of the tree is the first field of a token, so a token and its node have one address.\<close>

record registered_token =
  token_time :: u64
  token_hash :: u64
  token_count :: int

record token_state =
  token_reuse_tree :: splay_tree
  registered :: "nat \<Rightarrow> registered_token"
  token_mallocs :: "nat option list"
  freed_tokens :: "nat list"

section \<open>Operations\<close>

definition picoquic_registered_token_compare :: "registered_token \<Rightarrow> registered_token \<Rightarrow> int" where
  "picoquic_registered_token_compare l r =
     (let ret = sint (token_time l - token_time r)
      in if ret = 0 then sint (token_hash l - token_hash r) else ret)"

definition picoquic_registered_token_check_reuse :: "token_state \<Rightarrow> u8 list \<Rightarrow> u64 \<Rightarrow> (int \<times> token_state) option" where
  "picoquic_registered_token_check_reuse quic token expiry_time =
     (if length token \<ge> 8 then
        case token_mallocs quic of
          Some a # ms \<Rightarrow> do {
            let rt = \<lparr>token_time = expiry_time, token_hash = picoparse_64 (drop (length token - 8) token), token_count = 1\<rparr>;
            let quic = quic\<lparr>token_mallocs := ms, registered := (registered quic)(a := rt)\<rparr>;
            (rt_n, t) \<leftarrow> picosplay_find picoquic_registered_token_compare (registered quic) (token_reuse_tree quic) rt;
            case rt_n of
              Some b \<Rightarrow>
                Some (-1, quic\<lparr>token_reuse_tree := t, freed_tokens := a # freed_tokens quic,
                  registered := (registered quic)(b := (registered quic b)\<lparr>token_count := token_count (registered quic b) + 1\<rparr>)\<rparr>)
            | None \<Rightarrow> do {
                t \<leftarrow> picosplay_insert picoquic_registered_token_compare (registered quic) t a;
                Some (0, quic\<lparr>token_reuse_tree := t\<rparr>)
              }
          }
        | None # ms \<Rightarrow> Some (-1, quic\<lparr>token_mallocs := ms\<rparr>)
        | [] \<Rightarrow> Some (-1, quic)
      else Some (-1, quic))"

text \<open>Deleting a node frees the token.\<close>

partial_function (option) picoquic_registered_token_clear :: "token_state \<Rightarrow> u64 \<Rightarrow> token_state option" where
  "picoquic_registered_token_clear quic expiry_time_max = do {
     first \<leftarrow> picosplay_first (token_reuse_tree quic);
     case first of
       None \<Rightarrow> Some quic
     | Some a \<Rightarrow>
         if token_time (registered quic a) \<ge> expiry_time_max then Some quic
         else do {
           t \<leftarrow> picosplay_delete_hint (token_reuse_tree quic) (Some a);
           picoquic_registered_token_clear (quic\<lparr>token_reuse_tree := t, freed_tokens := a # freed_tokens quic\<rparr>) expiry_time_max
         }
   }"

declare picoquic_registered_token_clear.simps [code]

section \<open>The order\<close>

text \<open>By expiry time, then by hash.\<close>

definition earlier :: "registered_token \<Rightarrow> registered_token \<Rightarrow> bool" where
  "earlier l r \<longleftrightarrow> token_time l < token_time r \<or> token_time l = token_time r \<and> token_hash l < token_hash r"

definition same_token :: "registered_token \<Rightarrow> registered_token \<Rightarrow> bool" where
  "same_token l r \<longleftrightarrow> token_time l = token_time r \<and> token_hash l = token_hash r"

text \<open>
  The comparison subtracts and looks at the sign, which is right as long as the expiry times, and the
  hashes of the tokens that expire at the same time, are less than \<open>2 ^ 63\<close> apart.
\<close>

definition comparable :: "registered_token \<Rightarrow> registered_token \<Rightarrow> bool" where
  "comparable l r \<longleftrightarrow> \<bar>uint (token_time l) - uint (token_time r)\<bar> < 2 ^ 63 \<and>
     (token_time l = token_time r \<longrightarrow> \<bar>uint (token_hash l) - uint (token_hash r)\<bar> < 2 ^ 63)"

lemma sint_diff_near:
  fixes x y :: u64
  assumes "\<bar>uint x - uint y\<bar> < 2 ^ 63"
  shows "sint (x - y) = uint x - uint y"
proof -
  have "x - y = word_of_int (uint x - uint y)" by simp
  then have "sint (x - y) = signed_take_bit 63 (uint x - uint y)" by (simp only: signed_of_int) simp
  also have "\<dots> = uint x - uint y" using assms by (intro signed_take_bit_int_eq_self) auto
  finally show ?thesis .
qed

lemma compare_comparable:
  assumes "comparable l r"
  shows "picoquic_registered_token_compare l r < 0 \<longleftrightarrow> earlier l r"
    and "picoquic_registered_token_compare l r = 0 \<longleftrightarrow> same_token l r"
    and "picoquic_registered_token_compare l r > 0 \<longleftrightarrow> earlier r l"
  using assms sint_diff_near [of "token_time l" "token_time r"] sint_diff_near [of "token_hash l" "token_hash r"]
  by (auto simp: picoquic_registered_token_compare_def comparable_def earlier_def same_token_def Let_def word_less_def
      word_uint_eq_iff)

lemma comparable_sym: "comparable l r \<Longrightarrow> comparable r l"
  by (auto simp: comparable_def abs_minus_commute)

lemma earlier_trans: "earlier a b \<Longrightarrow> earlier b c \<Longrightarrow> earlier a c"
  by (auto simp: earlier_def)

lemma earlier_cases: "earlier a b \<or> same_token a b \<or> earlier b a"
  by (auto simp: earlier_def same_token_def)

lemma earlier_not_same: "earlier a b \<Longrightarrow> \<not> same_token a b \<and> \<not> same_token b a \<and> \<not> earlier b a"
  by (auto simp: earlier_def same_token_def)

lemma same_token_earlier: "same_token a b \<Longrightarrow> earlier a c = earlier b c \<and> earlier c a = earlier c b"
  by (auto simp: earlier_def same_token_def)

lemma descending_earlier:
  assumes "sorted_wrt (\<lambda>a b. earlier (f a) (f b)) xs" "\<forall>c\<in>set xs. comparable v (f c)"
  shows "descending (\<lambda>c. picoquic_registered_token_compare v (f c)) xs"
proof -
  have "sgn (picoquic_registered_token_compare v (f b)) \<le> sgn (picoquic_registered_token_compare v (f a))"
    if "a \<in> set xs" "b \<in> set xs" "earlier (f a) (f b)" for a b
    using compare_comparable [of v "f a"] compare_comparable [of v "f b"] assms(2) that
      earlier_trans [of v "f a" "f b"] same_token_earlier [of v "f a" "f b"] earlier_not_same [of "f a" "f b"]
    by (auto simp: sgn_if not_less order.order_iff_strict)
  then show ?thesis using assms(1) unfolding descending_def by (induction xs) auto
qed

lemma insert_sorted_wrt:
  assumes "sorted_wrt R xs" "transp R" "\<forall>c\<in>set xs. R new c \<or> R c new"
  shows "sorted_wrt R (takeWhile (\<lambda>c. \<not> R new c) xs @ new # dropWhile (\<lambda>c. \<not> R new c) xs)"
  using assms
proof (induction xs)
  case (Cons x xs)
  show ?case
  proof (cases "R new x")
    case True
    then have "\<forall>c\<in>set xs. R new c" using Cons.prems(1,2) by (auto dest: transpD)
    then show ?thesis using True Cons.prems(1) by simp
  next
    case False
    have "set (takeWhile (\<lambda>c. \<not> R new c) xs @ dropWhile (\<lambda>c. \<not> R new c) xs) = set xs" by (simp only: takeWhile_dropWhile_id)
    then have "set (takeWhile (\<lambda>c. \<not> R new c) xs) \<subseteq> set xs" "set (dropWhile (\<lambda>c. \<not> R new c) xs) \<subseteq> set xs" by (auto dest: set_takeWhileD set_dropWhileD)
    then show ?thesis using False Cons by auto
  qed
qed simp

section \<open>The invariant\<close>

definition tokens_ok :: "token_state \<Rightarrow> nat list \<Rightarrow> bool" where
  "tokens_ok q xs \<longleftrightarrow> represents (token_reuse_tree q) xs \<and> sorted_wrt (\<lambda>a b. earlier (registered q a) (registered q b)) xs"

lemma tokens_distinct: "tokens_ok q xs \<Longrightarrow> distinct xs"
  by (auto simp: tokens_ok_def dest: represents_distinct)

definition presented :: "u8 list \<Rightarrow> u64 \<Rightarrow> registered_token" where
  "presented token expiry_time =
     \<lparr>token_time = expiry_time, token_hash = picoparse_64 (drop (length token - 8) token), token_count = 1\<rparr>"

lemma check_reuse:
  assumes "tokens_ok q xs" "8 \<le> length token" "token_mallocs q = Some a # ms" "a \<notin> set xs"
    "\<forall>c\<in>set xs. comparable (presented token e) (registered q c)"
  shows "\<exists>ret q' xs'. picoquic_registered_token_check_reuse q token e = Some (ret, q') \<and> tokens_ok q' xs' \<and> token_mallocs q' = ms \<and>
    (if \<exists>c\<in>set xs. same_token (presented token e) (registered q c)
     then ret = -1 \<and> xs' = xs \<and> (\<forall>c\<in>set xs. same_token (registered q' c) (registered q c))
     else ret = 0 \<and> set xs' = insert a (set xs) \<and> registered q' a = presented token e \<and>
       (\<forall>c\<in>set xs. registered q' c = registered q c))"
proof -
  let ?v = "presented token e" and ?cmp = picoquic_registered_token_compare
  define f where "f = (registered q)(a := ?v)"
  have f: "f c = registered q c" if "c \<in> set xs" for c using that assms(4) by (auto simp: f_def)
  have s: "sorted_wrt (\<lambda>a b. earlier (f a) (f b)) xs"
    using assms(1) f unfolding tokens_ok_def by (subst sorted_wrt_cong_on [of xs _ "\<lambda>a b. earlier (registered q a) (registered q b)"]) auto
  have near: "\<forall>c\<in>set xs. comparable ?v (f c)" using assms(5) f by simp
  have de: "descending (\<lambda>c. ?cmp ?v (f c)) xs" by (rule descending_earlier [OF s near])
  have r: "represents (token_reuse_tree q) xs" using assms(1) by (simp add: tokens_ok_def)
  obtain p t where p: "picosplay_find ?cmp f (token_reuse_tree q) ?v = Some (p, t)" "represents t xs"
    "case p of None \<Rightarrow> \<forall>c\<in>set xs. ?cmp ?v (f c) \<noteq> 0 | Some c \<Rightarrow> c \<in> set xs \<and> ?cmp ?v (f c) = 0"
    using splay_store.find_law [where t = "token_reuse_tree q" and xs = xs and cmp = ?cmp and v = ?v and val = f, OF r de] by blast
  show ?thesis
  proof (cases p)
    case (Some c)
    then have c: "c \<in> set xs" "same_token ?v (registered q c)"
      using p(3) compare_comparable(2) [of ?v "f c"] near f by auto
    define q' where "q' = q\<lparr>token_mallocs := ms, token_reuse_tree := t, freed_tokens := a # freed_tokens q,
      registered := f(c := (f c)\<lparr>token_count := token_count (f c) + 1\<rparr>)\<rparr>"
    have run: "picoquic_registered_token_check_reuse q token e = Some (-1, q')"
      using assms(2,3) p(1) Some unfolding presented_def f_def
      by (cases q) (simp add: picoquic_registered_token_check_reuse_def q'_def f_def presented_def)
    have same: "token_time (registered q' b) = token_time (f b) \<and> token_hash (registered q' b) = token_hash (f b)" for b
      by (simp add: q'_def)
    then have "earlier (registered q' b) (registered q' d) = earlier (f b) (f d)" for b d by (simp add: earlier_def)
    then have "tokens_ok q' xs" using s p(2) by (simp add: tokens_ok_def) (simp add: q'_def)
    moreover have "\<forall>b\<in>set xs. same_token (registered q' b) (registered q b)" using same f by (auto simp: same_token_def)
    ultimately show ?thesis using run c by (intro exI [of _ "-1"] exI [of _ q'] exI [of _ xs]) (auto simp: q'_def)
  next
    case None
    then have new: "\<forall>c\<in>set xs. \<not> same_token ?v (registered q c)" using p(3) compare_comparable(2) near f by fastforce
    define ys where "ys = insert_at (\<lambda>c. ?cmp (f a) (f c) < 0) a xs"
    have fa: "f a = ?v" by (simp add: f_def)
    obtain t' where t': "picosplay_insert ?cmp f t a = Some t'" "represents t' ys"
      using splay_store.insert_law [where t = t and xs = xs and new = a and cmp = ?cmp and val = f] p(2) assms(4) de unfolding ys_def fa by blast
    define q' where "q' = q\<lparr>token_mallocs := ms, registered := f, token_reuse_tree := t'\<rparr>"
    have run: "picoquic_registered_token_check_reuse q token e = Some (0, q')"
      using assms(2,3) p(1) None t'(1) unfolding presented_def f_def
      by (cases q) (simp add: picoquic_registered_token_check_reuse_def q'_def f_def presented_def)
    have left: "?cmp (f a) (f c) < 0 \<longleftrightarrow> earlier (f a) (f c)" if "c \<in> set xs" for c
      using compare_comparable(1) near that fa by simp
    then have ys: "ys = takeWhile (\<lambda>c. \<not> earlier (f a) (f c)) xs @ a # dropWhile (\<lambda>c. \<not> earlier (f a) (f c)) xs"
      unfolding ys_def insert_at_def by (simp cong: takeWhile_cong dropWhile_cong)
    have "sorted_wrt (\<lambda>b c. earlier (f b) (f c)) ys"
      unfolding ys using s new f fa earlier_cases [of ?v] by (intro insert_sorted_wrt) (auto intro: transpI earlier_trans)
    then have "tokens_ok q' ys" using t'(2) by (simp add: tokens_ok_def q'_def)
    moreover have "set ys = insert a (set xs)"
      using takeWhile_dropWhile_id [of "\<lambda>c. \<not> earlier (f a) (f c)" xs] unfolding ys by (metis Un_insert_right list.simps(15) set_append)
    ultimately show ?thesis using run new f fa by (intro exI [of _ 0] exI [of _ q'] exI [of _ ys]) (auto simp: q'_def)
  qed
qed

section \<open>Expiry\<close>

text \<open>The tokens that have expired are the first ones; they are removed and freed, the others stay.\<close>

lemma clear_expired:
  assumes "tokens_ok q xs"
  shows "\<exists>q'. picoquic_registered_token_clear q e = Some q' \<and> registered q' = registered q \<and> token_mallocs q' = token_mallocs q \<and>
    tokens_ok q' (filter (\<lambda>a. e \<le> token_time (registered q a)) xs) \<and>
    freed_tokens q' = rev (filter (\<lambda>a. token_time (registered q a) < e) xs) @ freed_tokens q"
  using assms
proof (induction xs arbitrary: q)
  case Nil
  then have "picosplay_first (token_reuse_tree q) = Some None" using picosplay_first_represents by (fastforce simp: tokens_ok_def)
  then show ?case using Nil by (subst picoquic_registered_token_clear.simps) simp
next
  case (Cons a xs)
  have first: "picosplay_first (token_reuse_tree q) = Some (Some a)"
    using Cons.prems picosplay_first_represents by (fastforce simp: tokens_ok_def)
  have later: "token_time (registered q a) \<le> token_time (registered q b)" if "b \<in> set xs" for b
    using Cons.prems that by (auto simp: tokens_ok_def earlier_def)
  show ?case
  proof (cases "e \<le> token_time (registered q a)")
    case True
    then have "\<forall>b\<in>set (a # xs). e \<le> token_time (registered q b)" using later by force
    then have "filter (\<lambda>a. e \<le> token_time (registered q a)) (a # xs) = a # xs"
      "filter (\<lambda>a. token_time (registered q a) < e) (a # xs) = []" by (auto simp: filter_id_conv filter_empty_conv not_less)
    then show ?thesis using first True Cons.prems by (subst picoquic_registered_token_clear.simps) simp
  next
    case False
    obtain t where t: "picosplay_delete_hint (token_reuse_tree q) (Some a) = Some t" "represents t xs"
      using picosplay_delete_hint_represents [of "token_reuse_tree q" "[]" a xs] Cons.prems by (auto simp: tokens_ok_def)
    define q1 where "q1 = q\<lparr>token_reuse_tree := t, freed_tokens := a # freed_tokens q\<rparr>"
    have ok: "tokens_ok q1 xs" using Cons.prems t(2) by (simp add: tokens_ok_def q1_def)
    have "picoquic_registered_token_clear q e = picoquic_registered_token_clear q1 e"
      using first False t(1) by (subst picoquic_registered_token_clear.simps) (simp add: q1_def)
    then show ?thesis using Cons.IH [OF ok] False by (auto simp: q1_def not_le)
  qed
qed

section \<open>Theorems\<close>

definition token_start :: "nat \<Rightarrow> token_state" where
  "token_start n = \<lparr>token_reuse_tree = picosplay_init_tree (\<lambda>_. \<lparr>parent = None, left = None, right = None\<rparr>),
     registered = \<lambda>_. \<lparr>token_time = 0, token_hash = 0, token_count = 0\<rparr>, token_mallocs = map Some [0..<n], freed_tokens = []\<rparr>"

lemma token_start_ok: "tokens_ok (token_start n) []"
  by (simp add: tokens_ok_def token_start_def represents_init)

text \<open>
  C34: a token is accepted exactly once. As long as the expiry times, and the hashes of the tokens
  with the same expiry time, are less than \<open>2 ^ 63\<close> apart, a token of at least 8 bytes is accepted if
  no registered token has its expiry time and its last 8 bytes, and is then registered itself; it is
  refused if there is such a token, and the registered tokens stay the same. The tree stays sorted.
\<close>

theorem token_accepted_once:
  assumes "tokens_ok q xs" "8 \<le> length token" "token_mallocs q = Some a # ms" "a \<notin> set xs"
    "\<forall>c\<in>set xs. comparable (presented token e) (registered q c)"
  shows "\<exists>ret q' xs'. picoquic_registered_token_check_reuse q token e = Some (ret, q') \<and> tokens_ok q' xs' \<and> token_mallocs q' = ms \<and>
    (if \<exists>c\<in>set xs. same_token (presented token e) (registered q c)
     then ret = -1 \<and> xs' = xs \<and> (\<forall>c\<in>set xs. same_token (registered q' c) (registered q c))
     else ret = 0 \<and> set xs' = insert a (set xs) \<and> registered q' a = presented token e \<and>
       (\<forall>c\<in>set xs. registered q' c = registered q c))"
  by (rule check_reuse [OF assms])

theorem token_accepted_once_witness:
  "\<exists>q'. picoquic_registered_token_check_reuse (token_start 2) [1, 2, 3, 4, 5, 6, 7, 8, 9] 1000 = Some (0, q')"
  using token_accepted_once [OF token_start_ok, of "[1, 2, 3, 4, 5, 6, 7, 8, 9]" 2 0 "[Some 1]" 1000]
  by (auto simp: token_start_def upt_rec)

text \<open>
  Also: clearing the tokens that have expired returns, frees each token whose expiry time is before
  the given time, once, and keeps exactly the others.
\<close>

theorem expired_tokens_cleared:
  assumes "tokens_ok q xs"
  shows "\<exists>q'. picoquic_registered_token_clear q e = Some q' \<and> registered q' = registered q \<and> token_mallocs q' = token_mallocs q \<and>
    tokens_ok q' (filter (\<lambda>a. e \<le> token_time (registered q a)) xs) \<and>
    freed_tokens q' = rev (filter (\<lambda>a. token_time (registered q a) < e) xs) @ freed_tokens q"
  by (rule clear_expired [OF assms])

theorem expired_tokens_cleared_witness:
  "\<exists>q'. picoquic_registered_token_clear (token_start 2) 1000 = Some q' \<and> freed_tokens q' = []"
  using expired_tokens_cleared [OF token_start_ok, of 2 1000] by (auto simp: token_start_def)

text \<open>A server that is presented one token after the other, all with one expiry time.\<close>

fun check_all :: "token_state \<Rightarrow> u8 list list \<Rightarrow> u64 \<Rightarrow> (int list \<times> token_state) option" where
  "check_all q [] e = Some ([], q)"
| "check_all q (token # tokens) e = do {
     (r, q) \<leftarrow> picoquic_registered_token_check_reuse q token e;
     (rs, q) \<leftarrow> check_all q tokens e;
     Some (r # rs, q)
   }"

text \<open>
  Where the root has no right child and the new value is not smaller than its value, no other node is looked at, so that
  the new node comes last whatever the other comparisons say, and becomes such a root itself.
\<close>

definition last_root :: "splay_tree \<Rightarrow> nat list \<Rightarrow> nat \<Rightarrow> bool" where
  "last_root t xs a \<longleftrightarrow> represents t xs \<and> root t = Some a \<and> right (mem t a) = None"

lemma last_root_member: "last_root t xs a \<Longrightarrow> a \<in> set xs"
  by (force simp: last_root_def represents_def dest: tr_root_mem)

lemma represents_last_root:
  assumes "represents t (xs @ [a])" "root t = Some a"
  shows "last_root t (xs @ [a]) a"
proof -
  obtain T where T: "tr (mem t) None (Some a) T" "inorder T = xs @ [a]" "distinct (xs @ [a])"
    using assms represents_distinct [OF assms(1)] by (auto simp: represents_def)
  then obtain l r where n: "T = Node l a r" by (cases T) auto
  then have "inorder l @ a # inorder r = xs @ a # []" using T(2) by simp
  moreover have "distinct (xs @ a # [])" using T(3) by simp
  ultimately have "inorder r = []" using distinct_split_unique by metis
  then show ?thesis using assms T(1) n by (simp add: last_root_def)
qed

lemma insert_last:
  assumes "root t = None \<and> represents t xs \<or> (\<exists>r. last_root t xs r \<and> 0 \<le> cmp (val a) (val r))" "a \<notin> set xs"
  shows "\<exists>t'. picosplay_insert cmp val t a = Some t' \<and> last_root t' (xs @ [a]) a"
proof -
  have "picosplay_insert cmp val t a = picosplay_insert (\<lambda>_ _. 1) val t a"
  proof (cases "root t")
    case None
    then show ?thesis by (simp add: picosplay_insert_def)
  next
    case (Some r)
    then have r: "last_root t xs r" "0 \<le> cmp (val a) (val r)" using assms(1) by (auto simp: last_root_def)
    then have "r \<noteq> a" "right (mem t r) = None" using assms(2) last_root_member by (auto simp: last_root_def)
    then have "insert_descend P (set_right a None (set_left a None (mem t))) (Some r) None False = Some (Some r, False)"
      if "\<not> P r" for P
      using that by (subst insert_descend.simps) (simp add: insert_descend.simps)
    then show ?thesis using Some r(2) by (simp add: picosplay_insert_def not_less)
  qed
  moreover have "represents t xs" using assms(1) by (auto simp: last_root_def)
  then obtain t' where t': "picosplay_insert (\<lambda>_ _. 1) val t a = Some t'" "represents t' (xs @ [a])"
  proof -
    have "descending (\<lambda>c. 1) xs" unfolding descending_def by (induction xs) auto
    moreover have w: "takeWhile (\<lambda>c. True) xs = xs" "dropWhile (\<lambda>c. True) xs = []" by (induction xs) auto
    ultimately show ?thesis
      using picosplay_insert_descending [of t xs a "\<lambda>_ _. 1" val] assms(2) \<open>represents t xs\<close> that by (auto simp: insert_at_def w)
  qed
  moreover have "root t' = Some a" using t'(1)
    by (auto simp: picosplay_insert_def splay_to_root_def Let_def bind_eq_Some_conv)
  ultimately show ?thesis using represents_last_root by auto
qed

text \<open>The state after the token at address \<open>a\<close> was accepted last.\<close>

definition accepted_last :: "token_state \<Rightarrow> nat list \<Rightarrow> nat \<Rightarrow> registered_token \<Rightarrow> bool" where
  "accepted_last q xs a v \<longleftrightarrow> last_root (token_reuse_tree q) xs a \<and> registered q a = v"

lemma check_after_smaller:
  assumes "root (token_reuse_tree q) = None \<and> represents (token_reuse_tree q) xs \<or>
      (\<exists>r v. accepted_last q xs r v \<and> token_time v = e \<and> 0 < sint (token_hash (presented token e) - token_hash v))"
    "8 \<le> length token" "token_mallocs q = Some a # ms" "a \<notin> set xs"
  shows "\<exists>q'. picoquic_registered_token_check_reuse q token e = Some (0, q') \<and> accepted_last q' (xs @ [a]) a (presented token e) \<and>
    token_mallocs q' = ms"
proof -
  let ?v = "presented token e" and ?cmp = picoquic_registered_token_compare and ?t = "token_reuse_tree q"
  define f where "f = (registered q)(a := ?v)"
  have cmp: "0 < ?cmp ?v v" if "token_time v = e" "0 < sint (token_hash ?v - token_hash v)" for v
    using that by (simp add: picoquic_registered_token_compare_def presented_def)
  have root: "root ?t = None \<and> represents ?t xs \<or> (\<exists>r. last_root ?t xs r \<and> 0 < ?cmp (f a) (f r))"
  proof (cases "root ?t = None \<and> represents ?t xs")
    case False
    then obtain r v where r: "accepted_last q xs r v" "token_time v = e" "0 < sint (token_hash ?v - token_hash v)" using assms(1) by blast
    then have "r \<noteq> a" using assms(4) last_root_member by (auto simp: accepted_last_def)
    then have "0 < ?cmp (f a) (f r)" using r cmp by (simp add: f_def accepted_last_def)
    then show ?thesis using r(1) by (auto simp: accepted_last_def)
  qed simp
  have fa: "f a = ?v" by (simp add: f_def)
  have "find_loop (\<lambda>c. ?cmp ?v (f c)) (mem ?t) (root ?t) = Some None"
    using root unfolding fa
  proof (elim disjE exE conjE)
    fix r assume "last_root ?t xs r" "0 < ?cmp ?v (f r)"
    then show ?thesis by (subst find_loop.simps) (simp add: last_root_def find_loop.simps)
  qed (simp add: find_loop.simps)
  then have find: "picosplay_find ?cmp f ?t ?v = Some (None, ?t)" by (simp add: picosplay_find_def)
  obtain t' where t': "picosplay_insert ?cmp f ?t a = Some t'" "last_root t' (xs @ [a]) a"
    using insert_last [of ?t xs ?cmp f a] root assms(4) by (auto intro: less_imp_le)
  define q' where "q' = q\<lparr>token_mallocs := ms, registered := f, token_reuse_tree := t'\<rparr>"
  have "picoquic_registered_token_check_reuse q token e = Some (0, q')"
    using assms(2,3) find t'(1) unfolding presented_def f_def
    by (cases q) (simp add: picoquic_registered_token_check_reuse_def q'_def f_def presented_def)
  moreover have "accepted_last q' (xs @ [a]) a ?v" using t'(2) by (simp add: accepted_last_def q'_def fa)
  ultimately show ?thesis by (auto simp: q'_def)
qed

abbreviation follows :: "u64 \<Rightarrow> u8 list \<Rightarrow> u8 list \<Rightarrow> bool" where
  "follows e s t \<equiv> 0 < sint (token_hash (presented t e) - token_hash (presented s e))"

lemma check_all_chain:
  assumes "accepted_last q xs a (presented t e)" "token_mallocs q = map Some ms" "distinct ms" "set ms \<inter> set xs = {}"
    "length tokens \<le> length ms" "\<forall>t\<in>set tokens. 8 \<le> length t" "successively (follows e) (t # tokens)"
  shows "\<exists>q'. check_all q tokens e = Some (replicate (length tokens) 0, q')"
  using assms
proof (induction tokens arbitrary: q xs a t ms)
  case (Cons u tokens)
  obtain b ms' where ms: "ms = b # ms'" using Cons.prems(5) by (cases ms) auto
  have "token_time (presented t e) = e" by (simp add: presented_def)
  moreover have "follows e t u" using Cons.prems(7) by simp
  ultimately obtain q1 where q1: "picoquic_registered_token_check_reuse q u e = Some (0, q1)"
    "accepted_last q1 (xs @ [b]) b (presented u e)" "token_mallocs q1 = map Some ms'"
    using check_after_smaller [of q xs e u b "map Some ms'"] Cons.prems(1,2,4,6) ms by auto
  have "set ms' \<inter> set (xs @ [b]) = {}" using Cons.prems(3,4) ms by auto
  from Cons.IH [OF q1(2,3) _ this] obtain q' where "check_all q1 tokens e = Some (replicate (length tokens) 0, q')"
    using Cons.prems(3,5-7) ms by auto
  then show ?case using q1(1) by simp
qed simp

text \<open>
  C38: a token may be accepted again. The comparison of the hashes takes the sign of a 64 bit difference, which is not an order
  when the hashes are farther than \<open>2 ^ 63\<close> apart. Tokens with one expiry time that are presented one after the other, each
  of them greater, in this comparison, than the one before, are all accepted, whether or not some of them
  are the same. Three tokens whose hashes go around the circle of the 64 bit numbers can so be presented again and again.
\<close>

theorem tokens_accepted_again:
  assumes "\<forall>t\<in>set tokens. 8 \<le> length t" "length tokens \<le> n"
    "successively (\<lambda>s t. 0 < sint (token_hash (presented t e) - token_hash (presented s e))) tokens"
  shows "\<exists>q. check_all (token_start n) tokens e = Some (replicate (length tokens) 0, q)"
proof (cases tokens)
  case (Cons t ts)
  have n: "[0..<n] = 0 # [1..<n]" using assms(2) Cons by (simp add: upt_rec)
  obtain q where q: "picoquic_registered_token_check_reuse (token_start n) t e = Some (0, q)"
    "accepted_last q [0] 0 (presented t e)" "token_mallocs q = map Some [1..<n]"
  proof -
    have "root (token_reuse_tree (token_start n)) = None" "token_mallocs (token_start n) = Some 0 # map Some [1..<n]"
      using n by (simp_all add: token_start_def picosplay_init_tree_def)
    moreover have "represents (token_reuse_tree (token_start n)) []" by (simp add: token_start_def represents_init)
    ultimately show ?thesis
      using check_after_smaller [of "token_start n" "[]" e t 0 "map Some [1..<n]"] assms(1) Cons that by auto
  qed
  obtain q' where "check_all q ts e = Some (replicate (length ts) 0, q')"
  proof -
    have "length ts \<le> length [1..<n]" using assms(2) Cons by simp
    then show ?thesis using check_all_chain [OF q(2,3), of ts] assms(1,3) Cons that by auto
  qed
  then show ?thesis using q(1) Cons by simp
qed simp

text \<open>Tokens that end in the bytes \<open>b, 0, 0, 0, 0, 0, 0, 0\<close>: three different ones are accepted twice each.\<close>

definition short_token :: "u8 \<Rightarrow> u8 list" where
  "short_token b = b # replicate 7 0"

theorem tokens_accepted_again_witness:
  "\<exists>q. check_all (token_start 6) [short_token 0, short_token 0x60, short_token 0xC0, short_token 0, short_token 0x60, short_token 0xC0] 1000 =
     Some ([0, 0, 0, 0, 0, 0], q)"
proof -
  let ?ts = "[short_token 0, short_token 0x60, short_token 0xC0, short_token 0, short_token 0x60, short_token 0xC0]"
  have "successively (\<lambda>s t. 0 < sint (token_hash (presented t 1000) - token_hash (presented s 1000))) ?ts" by code_simp
  moreover have "\<forall>t\<in>set ?ts. 8 \<le> length t" by (simp add: short_token_def)
  ultimately show ?thesis using tokens_accepted_again [of ?ts 6 1000] by (simp add: numeral_eq_Suc)
qed

end
