(* ===== verification/TestRandom.thy ===== *)
theory TestRandom
  imports Prelude
begin

text \<open>
  The pseudo random generator of \<open>picoquic/util.c\<close>: a counter that is stepped by an odd constant and
  mixed, so that one period gives every 64-bit value once.
\<close>

section \<open>The generator\<close>

definition mix_random :: "u64 \<Rightarrow> u64" where
  "mix_random z =
     (let z = (z XOR drop_bit 30 z) * 0xbf58476d1ce4e5b9;
          z = (z XOR drop_bit 27 z) * 0x94d049bb133111eb
      in z XOR drop_bit 31 z)"

text \<open>The value and the new context.\<close>

definition picoquic_test_random :: "u64 \<Rightarrow> u64 \<times> u64" where
  "picoquic_test_random random_context =
     (let random_context = random_context + 0x9e3779b97f4a7c15 in (mix_random random_context, random_context))"

text \<open>Up to 8 bytes of a value, the lowest first.\<close>

fun random_word_bytes :: "nat \<Rightarrow> u64 \<Rightarrow> u8 list" where
  "random_word_bytes 0 v = []"
| "random_word_bytes (Suc i) v = ucast (v AND 0xFF) # random_word_bytes i (drop_bit 8 v)"

function picoquic_test_random_bytes :: "u64 \<Rightarrow> nat \<Rightarrow> u8 list \<times> u64" where
  "picoquic_test_random_bytes random_context bytes_max =
     (if bytes_max = 0 then ([], random_context)
      else let (v, random_context) = picoquic_test_random random_context;
               (bytes, random_context) = picoquic_test_random_bytes random_context (bytes_max - 8)
           in (random_word_bytes (min 8 bytes_max) v @ bytes, random_context))"
  by pat_completeness auto
termination
  by (relation "measure snd") auto

declare picoquic_test_random_bytes.simps [simp del]

partial_function (option) uniform_loop :: "u64 \<Rightarrow> u64 \<Rightarrow> (u64 \<times> u64) option" where
  "uniform_loop rnd_min random_context =
     (let (rnd, random_context) = picoquic_test_random random_context
      in if rnd < rnd_min then uniform_loop rnd_min random_context else Some (rnd, random_context))"

declare uniform_loop.simps [code]

definition picoquic_test_uniform_random :: "u64 \<Rightarrow> u64 \<Rightarrow> (u64 \<times> u64) option" where
  "picoquic_test_uniform_random random_context rnd_max =
     (if rnd_max > 0 then
        let rnd_min = UINT64_MAX mod rnd_max
        in map_option (\<lambda>(rnd, random_context). (rnd mod rnd_max, random_context)) (uniform_loop rnd_min random_context)
      else Some (0, random_context))"

section \<open>The mixing is a bijection\<close>

lemma xor_shift_inj:
  assumes "0 < k"
  shows "inj (\<lambda>z :: u64. z XOR drop_bit k z)"
proof (rule injI)
  fix x y :: u64
  assume eq: "x XOR drop_bit k x = y XOR drop_bit k y"
  have step: "(bit x n = bit y n) = (bit x (k + n) = bit y (k + n))" for n
  proof -
    have "bit (x XOR drop_bit k x) n = bit (y XOR drop_bit k y) n" using eq by simp
    then show ?thesis by (auto simp: bit_xor_iff bit_drop_bit_eq)
  qed
  have "(bit x n = bit y n) = (bit x (i * k + n) = bit y (i * k + n))" for i n
  proof (induction i)
    case (Suc i)
    then show ?case using step [of "i * k + n"] by (simp add: add.assoc)
  qed simp
  then have "(bit x n = bit y n) = (bit x (64 * k + n) = bit y (64 * k + n))" for n .
  moreover have "\<not> bit x (64 * k + n)" "\<not> bit y (64 * k + n)" for n
    using bit_imp_le_length [of x "64 * k + n"] bit_imp_le_length [of y "64 * k + n"] assms by auto
  ultimately show "x = y" by (intro bit_word_eqI) simp
qed

lemma mult_inj:
  fixes c d :: u64
  assumes "c * d = 1"
  shows "inj (\<lambda>z. z * c)"
  by (rule inj_on_inverseI [of _ "\<lambda>z. z * d"]) (simp add: mult.assoc assms)

lemma mix_random_bij: "bij mix_random"
proof -
  have "inj (\<lambda>z :: u64. z * 0xbf58476d1ce4e5b9)" by (rule mult_inj [of _ "0x96de1b173f119089"]) simp
  moreover have "inj (\<lambda>z :: u64. z * 0x94d049bb133111eb)" by (rule mult_inj [of _ "0x319642b2d24d8ec3"]) simp
  moreover have "inj (\<lambda>z :: u64. z XOR drop_bit k z)" if "0 < k" for k using that by (rule xor_shift_inj)
  ultimately have "inj ((\<lambda>z. z XOR drop_bit 31 z) \<circ> (\<lambda>z. z * 0x94d049bb133111eb) \<circ> (\<lambda>z. z XOR drop_bit 27 z) \<circ>
      (\<lambda>z. z * 0xbf58476d1ce4e5b9) \<circ> (\<lambda>z :: u64. z XOR drop_bit 30 z))"
    by (intro inj_compose) simp_all
  moreover have "mix_random = (\<lambda>z. z XOR drop_bit 31 z) \<circ> (\<lambda>z. z * 0x94d049bb133111eb) \<circ> (\<lambda>z. z XOR drop_bit 27 z) \<circ>
      (\<lambda>z. z * 0xbf58476d1ce4e5b9) \<circ> (\<lambda>z :: u64. z XOR drop_bit 30 z)"
    by (simp add: fun_eq_iff mix_random_def Let_def)
  ultimately have "inj mix_random" by simp
  then show ?thesis by (simp add: bij_def finite_UNIV_inj_surj)
qed

text \<open>The context after \<open>n\<close> calls; every value comes up.\<close>

definition context_after :: "u64 \<Rightarrow> nat \<Rightarrow> u64" where
  "context_after c n = c + of_nat n * 0x9e3779b97f4a7c15"

lemma context_after_Suc: "context_after c (Suc n) = context_after c n + 0x9e3779b97f4a7c15"
  by (simp add: context_after_def algebra_simps)

lemma context_reaches: "\<exists>n. context_after c (Suc n) = z"
proof -
  let ?g = "0x9e3779b97f4a7c15 :: u64" and ?h = "0xf1de83e19937733d :: u64"
  have inv: "?h * ?g = 1" by simp
  define k where "k = (z - c) * ?h - 1"
  have "of_nat (Suc (unat k)) * ?g = (z - c) * (?h * ?g)" by (simp add: k_def mult.assoc)
  then have "context_after c (Suc (unat k)) = z" unfolding inv by (simp add: context_after_def)
  then show ?thesis by blast
qed

lemma uniform_loop_returns:
  assumes "rnd_min \<le> mix_random (context_after c (Suc n))"
  shows "\<exists>rnd c'. uniform_loop rnd_min c = Some (rnd, c') \<and> rnd_min \<le> rnd"
  using assms
proof (induction n arbitrary: c)
  case 0
  then have le: "rnd_min \<le> mix_random (c + 0x9e3779b97f4a7c15)" by (simp add: context_after_def)
  then have "\<not> mix_random (c + 0x9e3779b97f4a7c15) < rnd_min" by (rule leD)
  with le show ?case by (subst uniform_loop.simps) (simp only: picoquic_test_random_def Let_def prod.case if_False, simp)
next
  case (Suc n)
  let ?c = "c + 0x9e3779b97f4a7c15"
  show ?case
  proof (cases "mix_random ?c < rnd_min")
    case True
    have "context_after ?c (Suc n) = context_after c (Suc (Suc n))" by (simp add: context_after_def algebra_simps)
    then show ?thesis using Suc.IH [of ?c] Suc.prems True
      by (subst uniform_loop.simps) (simp add: picoquic_test_random_def Let_def)
  next
    case False
    then have "rnd_min \<le> mix_random ?c" by simp
    with False show ?thesis by (subst uniform_loop.simps) (simp only: picoquic_test_random_def Let_def prod.case if_False, simp)
  qed
qed

text \<open>
  Also: the generator takes every 64-bit value exactly once in a period: it is a bijection of the
  contexts, and from every context every value comes up after some number of calls.
\<close>

theorem test_random_full_period:
  "bij (\<lambda>c. fst (picoquic_test_random c)) \<and> (\<exists>n. fst (picoquic_test_random (context_after c n)) = v)"
proof
  have "(\<lambda>c. fst (picoquic_test_random c)) = mix_random \<circ> (\<lambda>c. c + 0x9e3779b97f4a7c15)"
    by (simp add: fun_eq_iff picoquic_test_random_def Let_def)
  moreover have "bij (\<lambda>c :: u64. c + 0x9e3779b97f4a7c15)" by (rule bij_plus_right)
  ultimately show "bij (\<lambda>c. fst (picoquic_test_random c))" using mix_random_bij by (simp add: bij_comp)
  obtain z where "mix_random z = v" using mix_random_bij by (metis bij_pointE)
  then show "\<exists>n. fst (picoquic_test_random (context_after c n)) = v"
    using context_reaches [of c z] by (auto simp: picoquic_test_random_def context_after_Suc Let_def)
qed

text \<open>
  Also: drawing a number below a bound always returns, from every context, although the loop that
  rejects small values has no other bound; the number is below the bound, or 0 when the bound is 0.
\<close>

theorem uniform_random_returns:
  "\<exists>rnd c'. picoquic_test_uniform_random c rnd_max = Some (rnd, c') \<and> (rnd < rnd_max \<or> rnd_max = 0 \<and> rnd = 0)"
proof (cases "rnd_max > 0")
  case True
  obtain z where z: "mix_random z = UINT64_MAX" using mix_random_bij by (metis bij_pointE)
  obtain n where "context_after c (Suc n) = z" using context_reaches by blast
  moreover have "UINT64_MAX = (-1 :: u64)" by simp
  ultimately have "UINT64_MAX mod rnd_max \<le> mix_random (context_after c (Suc n))" using z by (metis word_order.extremum)
  from uniform_loop_returns [OF this] show ?thesis
    using True by (auto simp: picoquic_test_uniform_random_def Let_def word_mod_less_divisor)
next
  case False
  then have "rnd_max = 0" by (simp add: word_gt_0)
  then show ?thesis by (simp add: picoquic_test_uniform_random_def)
qed

end
