(* ===== verification/Packets.thy ===== *)
theory Packets
  imports CidSet
begin

text \<open>
  Packet headers: how \<open>picoquic/sender.c\<close> writes them, how \<open>picoquic/packet.c\<close> parses them, and how
  \<open>picoquic/quicctx.c\<close> finds the connection of a packet.

  A buffer of known length is the list of its bytes. The parser finds connections through the three
  hash tables; \<open>None\<close> stands for a run that does not return or that follows NULL.
\<close>

section \<open>Types\<close>

datatype packet_type = picoquic_packet_error | picoquic_packet_version_negotiation | picoquic_packet_initial
  | picoquic_packet_retry | picoquic_packet_handshake | picoquic_packet_0rtt_protected | picoquic_packet_1rtt_protected

datatype packet_context = picoquic_packet_context_application | picoquic_packet_context_handshake
  | picoquic_packet_context_initial

datatype epoch = picoquic_epoch_initial | picoquic_epoch_0rtt | picoquic_epoch_handshake | picoquic_epoch_1rtt

abbreviation PICOQUIC_V1_VERSION :: u32 where "PICOQUIC_V1_VERSION \<equiv> 0x00000001"
abbreviation PICOQUIC_V2_VERSION :: u32 where "PICOQUIC_V2_VERSION \<equiv> 0x709a50c4"
abbreviation PICOQUIC_MAX_PACKET_SIZE :: nat where "PICOQUIC_MAX_PACKET_SIZE \<equiv> 1536"
abbreviation PICOQUIC_ERROR_VERSION_NOT_SUPPORTED :: int where "PICOQUIC_ERROR_VERSION_NOT_SUPPORTED \<equiv> 0x432"

text \<open>The versions, with the version whose packet types they use.\<close>

definition picoquic_supported_versions :: "(u32 \<times> u32) list" where
  "picoquic_supported_versions =
     [(PICOQUIC_V1_VERSION, PICOQUIC_V1_VERSION), (PICOQUIC_V2_VERSION, PICOQUIC_V2_VERSION),
      (0xFF000022, PICOQUIC_V1_VERSION), (0xFF000021, PICOQUIC_V1_VERSION), (0xFF000020, PICOQUIC_V1_VERSION),
      (0xFF00001F, PICOQUIC_V1_VERSION), (0xFF00001D, PICOQUIC_V1_VERSION), (0xFF00001E, PICOQUIC_V1_VERSION),
      (0xFF00001C, PICOQUIC_V1_VERSION), (0xFF00001B, PICOQUIC_V1_VERSION), (0x50435131, PICOQUIC_V1_VERSION),
      (0x50435130, PICOQUIC_V1_VERSION)]"

fun version_search :: "u32 \<Rightarrow> int \<Rightarrow> (u32 \<times> u32) list \<Rightarrow> int" where
  "version_search v i [] = -1"
| "version_search v i ((w, _) # ws) = (if w = v then i else version_search v (i + 1) ws)"

definition picoquic_get_version_index :: "u32 \<Rightarrow> int" where
  "picoquic_get_version_index proposed_version = version_search proposed_version 0 picoquic_supported_versions"

definition packet_type_version :: "int \<Rightarrow> u32" where
  "packet_type_version version_index = snd (picoquic_supported_versions ! nat version_index)"

text \<open>\<open>token_bytes\<close> holds the bytes that the pointer designates. A bit field is a boolean.\<close>

record packet_header =
  dest_cnx_id :: connection_id
  srce_cnx_id :: connection_id
  ph_pn :: u32
  ph_vn :: u32
  ph_offset :: nat
  pn_offset :: nat
  ptype :: packet_type
  pnmask :: u64
  pn64 :: u64
  payload_length :: nat
  ph_version_index :: int
  ph_epoch :: epoch
  ph_pc :: packet_context
  key_phase :: bool
  ph_spin :: bool
  has_spin_bit :: bool
  has_reserved_bit_set :: bool
  has_loss_bits :: bool
  loss_bit_Q :: bool
  loss_bit_L :: bool
  quic_bit_is_zero :: bool
  token_length :: nat
  token_bytes :: "u8 list"
  pl_val :: nat
  ph_l_cid :: hash_ptr

text \<open>What \<open>picoquic_parse_packet_header\<close> starts from.\<close>

definition packet_header_zero :: packet_header where
  "packet_header_zero = \<lparr>dest_cnx_id = picoquic_null_connection_id, srce_cnx_id = picoquic_null_connection_id,
     ph_pn = 0, ph_vn = 0, ph_offset = 0, pn_offset = 0, ptype = picoquic_packet_error, pnmask = 0, pn64 = 0,
     payload_length = 0, ph_version_index = -1, ph_epoch = picoquic_epoch_initial, ph_pc = picoquic_packet_context_application,
     key_phase = False, ph_spin = False, has_spin_bit = False, has_reserved_bit_set = False, has_loss_bits = False,
     loss_bit_Q = False, loss_bit_L = False, quic_bit_is_zero = False, token_length = 0, token_bytes = [], pl_val = 0,
     ph_l_cid = None\<rparr>"

text \<open>
  The part of a connection that packet headers depend on: the identifiers of its first path, the
  parameters and flags. \<open>init_state\<close>: the state is one of the two initial states of a client.
\<close>

record packet_cnx =
  pc_client_mode :: bool
  pc_version_index :: int
  pc_proposed_version :: u32
  pc_init_state :: bool
  pc_initial_cnxid :: connection_id
  pc_remote_cnxid :: connection_id
  pc_local_cnxid :: connection_id
  pc_retry_token :: "u8 list"
  pc_key_phase_enc :: bool
  pc_do_grease_quic_bit :: bool
  pc_quic_bit_greased :: bool
  local_do_grease_quic_bit :: bool
  is_loss_bit_enabled_incoming :: bool
  is_loss_bit_enabled_outgoing :: bool
  pc_spin_policy :: nat
  current_spin :: bool

record quic_context =
  local_cnxid_length :: u8
  table_cnx_by_id :: "cnx_id_key picohash_table"
  table_cnx_by_net :: "net_id_key picohash_table"
  table_cnx_by_icid :: "net_icid_key picohash_table"
  connections :: "nat \<Rightarrow> packet_cnx"

section \<open>The connection of a packet\<close>

definition sockaddr_zero :: sockaddr where
  "sockaddr_zero = \<lparr>sa_family = 0, sa_port = 0, sin_addr = replicate 4 0, sin6_addr = replicate 16 0\<rparr>"

text \<open>The pointers to the connection and to its local identifier.\<close>

definition picoquic_cnx_by_id :: "quic_context \<Rightarrow> connection_id \<Rightarrow> (hash_ptr \<times> hash_ptr) option" where
  "picoquic_cnx_by_id quic c = do {
     item \<leftarrow> picohash_retrieve (table_cnx_by_id quic) \<lparr>ck_cnx_id = c, ck_cnx = 0, ck_l_cid = None\<rparr>;
     Some (case item of
         None \<Rightarrow> (None, None)
       | Some a \<Rightarrow> let key = item_key (hash_mem (table_cnx_by_id quic) a) in (Some (ck_cnx key), ck_l_cid key))
   }"

definition picoquic_cnx_by_net :: "quic_context \<Rightarrow> sockaddr \<Rightarrow> hash_ptr option" where
  "picoquic_cnx_by_net quic addr = do {
     item \<leftarrow> picohash_retrieve (table_cnx_by_net quic)
       \<lparr>nk_saddr = picoquic_store_addr sockaddr_zero (Some addr), nk_cnx = 0, nk_path = 0\<rparr>;
     Some (case item of None \<Rightarrow> None | Some a \<Rightarrow> Some (nk_cnx (item_key (hash_mem (table_cnx_by_net quic) a))))
   }"

definition picoquic_cnx_by_icid :: "quic_context \<Rightarrow> connection_id \<Rightarrow> sockaddr \<Rightarrow> hash_ptr option" where
  "picoquic_cnx_by_icid quic icid addr = do {
     item \<leftarrow> picohash_retrieve (table_cnx_by_icid quic)
       \<lparr>ik_saddr = picoquic_store_addr sockaddr_zero (Some addr), ik_icid = icid, ik_cnx = 0\<rparr>;
     Some (case item of None \<Rightarrow> None | Some a \<Rightarrow> Some (ik_cnx (item_key (hash_mem (table_cnx_by_icid quic) a))))
   }"

section \<open>Long headers\<close>

definition picoquic_parse_long_packet_type :: "u8 \<Rightarrow> int \<Rightarrow> packet_type" where
  "picoquic_parse_long_packet_type flags version_index =
     (let v = packet_type_version version_index; t = drop_bit 4 flags AND 3
      in if v = PICOQUIC_V1_VERSION then
           if t = 0 then picoquic_packet_initial
           else if t = 1 then picoquic_packet_0rtt_protected
           else if t = 2 then picoquic_packet_handshake
           else if t = 3 then picoquic_packet_retry
           else picoquic_packet_error
         else if v = PICOQUIC_V2_VERSION then
           if t = 1 then picoquic_packet_initial
           else if t = 2 then picoquic_packet_0rtt_protected
           else if t = 3 then picoquic_packet_handshake
           else if t = 0 then picoquic_packet_retry
           else picoquic_packet_error
         else picoquic_packet_error)"

text \<open>The decoder of identifiers, with a fault as a run that has no result.\<close>

definition decode_cid :: "u8 list \<Rightarrow> connection_id \<Rightarrow> (u8 list option \<times> connection_id) option" where
  "decode_cid bytes c = (case picoquic_frames_cid_decode bytes c of Ok r \<Rightarrow> Some r | Fault _ \<Rightarrow> None)"

text \<open>The search of a connection, by the identifier or by the address, if it is not known yet.\<close>

definition find_cnx :: "quic_context \<Rightarrow> sockaddr \<Rightarrow> packet_header \<Rightarrow> hash_ptr \<Rightarrow> (packet_header \<times> hash_ptr) option" where
  "find_cnx quic addr_from ph pcnx =
     (if pcnx \<noteq> None then Some (ph, pcnx)
      else if local_cnxid_length quic = 0 then do { p \<leftarrow> picoquic_cnx_by_net quic addr_from; Some (ph, p) }
      else if cid_len (dest_cnx_id ph) = local_cnxid_length quic then do {
        (p, l_cid) \<leftarrow> picoquic_cnx_by_id quic (dest_cnx_id ph);
        Some (ph\<lparr>ph_l_cid := l_cid\<rparr>, p)
      }
      else Some (ph, pcnx))"

text \<open>
  The switch on the packet type. \<open>bytes\<close> are the bytes behind the identifiers; the result has those
  that are left, and NULL after a malformed token length.
\<close>

definition long_header_type ::
    "u8 list \<Rightarrow> u8 list \<Rightarrow> packet_header \<Rightarrow> packet_header \<times> u8 list option" where
  "long_header_type packet bytes ph =
     (case ptype ph of
        picoquic_packet_initial \<Rightarrow>
          (let ph = ph\<lparr>ph_epoch := picoquic_epoch_initial\<rparr>;
               bad = ph\<lparr>ptype := picoquic_packet_error, ph_pc := picoquic_packet_context_application, ph_offset := length packet\<rparr>
           in case picoquic_frames_varlen_decode bytes of
                None \<Rightarrow> (bad, None)
              | Some (tok_len, rest) \<Rightarrow>
                  if length rest < unat tok_len then (bad, Some rest)
                  else (ph\<lparr>ph_pc := picoquic_packet_context_initial, token_length := unat tok_len,
                           token_bytes := take (unat tok_len) rest,
                           ph_offset := length packet - length (drop (unat tok_len) rest)\<rparr>,
                        Some (drop (unat tok_len) rest)))
      | picoquic_packet_0rtt_protected \<Rightarrow>
          (ph\<lparr>ph_pc := picoquic_packet_context_application, ph_epoch := picoquic_epoch_0rtt\<rparr>, Some bytes)
      | picoquic_packet_handshake \<Rightarrow>
          (ph\<lparr>ph_pc := picoquic_packet_context_handshake, ph_epoch := picoquic_epoch_handshake\<rparr>, Some bytes)
      | picoquic_packet_retry \<Rightarrow>
          (ph\<lparr>ph_pc := picoquic_packet_context_initial, ph_epoch := picoquic_epoch_initial\<rparr>, Some bytes)
      | _ \<Rightarrow>
          (ph\<lparr>ptype := picoquic_packet_error, ph_version_index := -1, ph_pc := picoquic_packet_context_application\<rparr>,
           Some bytes))"

text \<open>The length of the payload; \<open>(uint16_t)\<close> keeps 16 bits of it.\<close>

definition long_header_length ::
    "u8 list \<Rightarrow> u8 list option \<Rightarrow> packet_header \<Rightarrow> packet_header \<times> u8 list option \<times> nat" where
  "long_header_length packet bytes ph =
     (let left = length packet - ph_offset ph
      in if ptype ph = picoquic_packet_retry then
           if length packet > ph_offset ph then (ph, bytes, left)
           else (ph\<lparr>ptype := picoquic_packet_error\<rparr>, bytes, 0)
         else if ptype ph \<noteq> picoquic_packet_error then
           let bad = ph\<lparr>ptype := picoquic_packet_error, payload_length := take_bit 16 left, pl_val := take_bit 16 left\<rparr>
           in case Option.bind bytes picoquic_frames_varlen_decode of
                None \<Rightarrow> (bad, None, 0)
              | Some (n, rest) \<Rightarrow>
                  if length rest < unat n \<or> ph_version_index ph < 0 then (bad, Some rest, unat n)
                  else (ph, Some rest, unat n)
         else (ph, bytes, 0))"

definition parse_long_payload ::
    "quic_context \<Rightarrow> u8 list \<Rightarrow> sockaddr \<Rightarrow> u8 \<Rightarrow> u8 list \<Rightarrow> packet_header \<Rightarrow> hash_ptr \<Rightarrow> (packet_header \<times> hash_ptr) option" where
  "parse_long_payload quic packet addr_from flags bytes ph pcnx = do {
     let ph = ph\<lparr>ph_spin := False, has_spin_bit := False, quic_bit_is_zero := (flags AND 0x40 = 0),
                 ptype := picoquic_parse_long_packet_type flags (ph_version_index ph)\<rparr>;
     let (ph, bytes) = long_header_type packet bytes ph;
     let (ph, bytes, n) = long_header_length packet bytes ph;
     if ptype ph \<noteq> picoquic_packet_error then do {
       rest \<leftarrow> bytes;
       let off = length packet - length rest;
       let ph = ph\<lparr>pl_val := take_bit 16 n, payload_length := take_bit 16 n, ph_offset := off, pn_offset := off\<rparr>;
       (ph, pcnx') \<leftarrow> find_cnx quic addr_from ph pcnx;
       pcnx' \<leftarrow> (if pcnx' = None \<and> local_cnxid_length quic \<noteq> 0 \<and>
                   (ptype ph = picoquic_packet_initial \<or> ptype ph = picoquic_packet_0rtt_protected)
                then picoquic_cnx_by_icid quic (dest_cnx_id ph) addr_from
                else Some pcnx');
       Some (case pcnx' of
           Some c \<Rightarrow>
             if quic_bit_is_zero ph \<and> \<not> local_do_grease_quic_bit (connections quic c)
             then (ph\<lparr>ptype := picoquic_packet_error\<rparr>, pcnx') else (ph, pcnx')
         | None \<Rightarrow> (ph, pcnx'))
     }
     else find_cnx quic addr_from ph pcnx
   }"

text \<open>Behind the identifiers: version negotiation or a packet with a payload.\<close>

definition parse_long_body ::
    "quic_context \<Rightarrow> u8 list \<Rightarrow> sockaddr \<Rightarrow> u8 \<Rightarrow> u8 list \<Rightarrow> packet_header \<Rightarrow> hash_ptr \<Rightarrow> (packet_header \<times> hash_ptr) option" where
  "parse_long_body quic packet addr_from flags bytes ph pcnx =
     (let ph = ph\<lparr>ph_offset := length packet - length bytes\<rparr>
      in if ph_vn ph = 0 then
           let n = take_bit 16 (length packet - ph_offset ph)
           in find_cnx quic addr_from
                (ph\<lparr>ptype := picoquic_packet_version_negotiation, ph_pc := picoquic_packet_context_initial,
                    payload_length := n, pl_val := n\<rparr>) pcnx
         else parse_long_payload quic packet addr_from flags bytes ph pcnx)"

text \<open>The two identifiers and what follows them.\<close>

definition parse_long_cids ::
    "quic_context \<Rightarrow> u8 list \<Rightarrow> sockaddr \<Rightarrow> u8 \<Rightarrow> u8 list \<Rightarrow> packet_header \<Rightarrow> hash_ptr \<Rightarrow>
       (int \<times> packet_header \<times> hash_ptr) option" where
  "parse_long_cids quic packet addr_from flags bytes ph pcnx = do {
     (bytes, dest) \<leftarrow> decode_cid bytes (dest_cnx_id ph);
     let ph = ph\<lparr>dest_cnx_id := dest\<rparr>;
     case bytes of
       None \<Rightarrow> Some (-1, ph, pcnx)
     | Some bytes \<Rightarrow> do {
         (bytes, srce) \<leftarrow> decode_cid bytes (srce_cnx_id ph);
         let ph = ph\<lparr>srce_cnx_id := srce\<rparr>;
         case bytes of
           None \<Rightarrow> Some (-1, ph, pcnx)
         | Some bytes \<Rightarrow> do {
             (ph, pcnx) \<leftarrow> parse_long_body quic packet addr_from flags bytes ph pcnx;
             Some (0, ph, pcnx)
           }
       }
   }"

definition picoquic_parse_long_packet_header ::
    "quic_context \<Rightarrow> u8 list \<Rightarrow> sockaddr \<Rightarrow> packet_header \<Rightarrow> hash_ptr \<Rightarrow> (int \<times> packet_header \<times> hash_ptr) option" where
  "picoquic_parse_long_packet_header quic packet addr_from ph pcnx =
     (case picoquic_frames_uint8_decode packet of
        None \<Rightarrow> Some (-1, ph, pcnx)
      | Some (flags, bytes) \<Rightarrow>
          case picoquic_frames_uint32_decode bytes of
            None \<Rightarrow> Some (-1, ph, pcnx)
          | Some (vn, bytes) \<Rightarrow>
              let ph = ph\<lparr>ph_vn := vn\<rparr>;
                  ph = (if vn \<noteq> 0 then ph\<lparr>ph_version_index := picoquic_get_version_index vn\<rparr> else ph)
              in if vn \<noteq> 0 \<and> ph_version_index ph < 0 then
                   Some (PICOQUIC_ERROR_VERSION_NOT_SUPPORTED,
                     ph\<lparr>ptype := picoquic_packet_error, ph_pc := picoquic_packet_context_application\<rparr>, pcnx)
                 else parse_long_cids quic packet addr_from flags bytes ph pcnx)"

section \<open>Short headers\<close>

text \<open>The identifier, of the length that this endpoint or the connection uses, and the connection.\<close>

definition parse_short_cid ::
    "quic_context \<Rightarrow> u8 list \<Rightarrow> sockaddr \<Rightarrow> u8 \<Rightarrow> packet_header \<Rightarrow> hash_ptr \<Rightarrow> (packet_header \<times> hash_ptr) option" where
  "parse_short_cid quic packet addr_from len ph pcnx =
     (if length packet \<ge> 1 + unat len then
        let (n, dest) = picoquic_parse_connection_id (tl packet) len (dest_cnx_id ph);
            ph = ph\<lparr>dest_cnx_id := dest, ph_offset := 1 + unat n\<rparr>
        in if pcnx = None then
             if local_cnxid_length quic > 0 then do {
               (p, l_cid) \<leftarrow> picoquic_cnx_by_id quic (dest_cnx_id ph);
               Some (ph\<lparr>ph_l_cid := l_cid\<rparr>, p)
             }
             else do { p \<leftarrow> picoquic_cnx_by_net quic addr_from; Some (ph, p) }
           else Some (ph, pcnx)
      else Some (ph\<lparr>ptype := picoquic_packet_error, ph_offset := length packet, payload_length := 0\<rparr>, pcnx))"

text \<open>The fields of the first byte, when the connection is known.\<close>

definition parse_short_fields :: "packet_cnx \<Rightarrow> u8 list \<Rightarrow> packet_header \<Rightarrow> bool \<Rightarrow> int \<times> packet_header" where
  "parse_short_fields cnx packet ph receiving =
     (let first = hd packet;
          has_loss_bit = (receiving \<and> is_loss_bit_enabled_incoming cnx \<or> \<not> receiving \<and> is_loss_bit_enabled_outgoing cnx);
          zero = (first AND 0x40 = 0);
          ph = ph\<lparr>ph_epoch := picoquic_epoch_1rtt, ph_version_index := pc_version_index cnx, quic_bit_is_zero := zero,
            ptype := (if \<not> zero \<or> local_do_grease_quic_bit cnx then picoquic_packet_1rtt_protected else picoquic_packet_error),
            has_spin_bit := True, ph_spin := bit first 5, pn_offset := ph_offset ph, ph_pn := 0, pnmask := 0,
            key_phase := bit first 2\<rparr>;
          ph = (if has_loss_bit then ph\<lparr>has_loss_bits := True, loss_bit_L := bit first 3, loss_bit_Q := bit first 4\<rparr> else ph)
      in if length packet < ph_offset ph \<or> ptype ph = picoquic_packet_error
         then (-1, ph\<lparr>payload_length := 0\<rparr>)
         else (0, ph\<lparr>payload_length := take_bit 16 (length packet - ph_offset ph)\<rparr>))"

definition picoquic_parse_short_packet_header ::
    "quic_context \<Rightarrow> u8 list \<Rightarrow> sockaddr \<Rightarrow> packet_header \<Rightarrow> hash_ptr \<Rightarrow> bool \<Rightarrow>
       (int \<times> packet_header \<times> hash_ptr) option" where
  "picoquic_parse_short_packet_header quic packet addr_from ph pcnx receiving = do {
     let len = (case pcnx of
         Some c \<Rightarrow> if receiving then local_cnxid_length quic else cid_len (pc_remote_cnxid (connections quic c))
       | None \<Rightarrow> local_cnxid_length quic);
     (ph, pcnx) \<leftarrow> parse_short_cid quic packet addr_from len
       (ph\<lparr>ph_pc := picoquic_packet_context_application, pl_val := 0\<rparr>) pcnx;
     Some (case pcnx of
         Some c \<Rightarrow> let (ret, ph) = parse_short_fields (connections quic c) packet ph receiving in (ret, ph, pcnx)
       | None \<Rightarrow>
           (0, ph\<lparr>ptype := picoquic_packet_1rtt_protected, payload_length := take_bit 16 (length packet - ph_offset ph)\<rparr>, pcnx))
   }"

text \<open>The first byte is read without a test of the length; the callers pass at least one byte.\<close>

definition picoquic_parse_packet_header ::
    "quic_context \<Rightarrow> u8 list \<Rightarrow> sockaddr \<Rightarrow> hash_ptr \<Rightarrow> bool \<Rightarrow> (int \<times> packet_header \<times> hash_ptr) option" where
  "picoquic_parse_packet_header quic packet addr_from pcnx receiving =
     (if packet = [] then None
      else if hd packet AND 0x80 = 0x80
      then picoquic_parse_long_packet_header quic packet addr_from packet_header_zero pcnx
      else picoquic_parse_short_packet_header quic packet addr_from packet_header_zero pcnx receiving)"

section \<open>Packet numbers\<close>

definition picoquic_get_packet_number64 :: "u64 \<Rightarrow> u64 \<Rightarrow> u32 \<Rightarrow> u64" where
  "picoquic_get_packet_number64 highest pn_mask pn =
     (let expected = highest + 1;
          not_mask_plus_one = NOT pn_mask + 1;
          pn64 = (expected AND pn_mask) OR ucast pn
      in if pn64 < expected then
           let delta1 = expected - pn64; delta2 = not_mask_plus_one - delta1
           in if delta2 < delta1 then pn64 + not_mask_plus_one else pn64
         else
           let delta1 = pn64 - expected; delta2 = not_mask_plus_one - delta1
           in if delta2 \<le> delta1 \<and> pn64 AND pn_mask > 0 then pn64 - not_mask_plus_one else pn64)"

section \<open>The spin bit\<close>

definition picoquic_spinbit_basic_incoming :: "packet_cnx \<Rightarrow> packet_header \<Rightarrow> packet_cnx" where
  "picoquic_spinbit_basic_incoming cnx ph = cnx\<lparr>current_spin := (ph_spin ph \<noteq> pc_client_mode cnx)\<rparr>"

definition picoquic_spinbit_basic_outgoing :: "packet_cnx \<Rightarrow> u8" where
  "picoquic_spinbit_basic_outgoing cnx = (if current_spin cnx then 0x20 else 0)"

text \<open>\<open>rnd\<close> is what \<open>picoquic_public_random_64\<close> returns.\<close>

definition picoquic_spinbit_random_outgoing :: "u64 \<Rightarrow> u8" where
  "picoquic_spinbit_random_outgoing rnd = ucast (rnd AND 0x20)"

definition spinbit_incoming :: "packet_cnx \<Rightarrow> packet_header \<Rightarrow> packet_cnx" where
  "spinbit_incoming cnx ph = (if pc_spin_policy cnx = 0 then picoquic_spinbit_basic_incoming cnx ph else cnx)"

definition spinbit_outgoing :: "packet_cnx \<Rightarrow> u64 \<Rightarrow> u8" where
  "spinbit_outgoing cnx rnd =
     (if pc_spin_policy cnx = 0 then picoquic_spinbit_basic_outgoing cnx
      else if pc_spin_policy cnx = 1 then picoquic_spinbit_random_outgoing rnd else 0)"

section \<open>Writing headers\<close>

definition picoquic_create_long_packet_type :: "packet_type \<Rightarrow> int \<Rightarrow> u8" where
  "picoquic_create_long_packet_type pt version_index =
     (let v = packet_type_version (if version_index < 0 then 0 else version_index)
      in if v = PICOQUIC_V1_VERSION then
           (case pt of picoquic_packet_initial \<Rightarrow> 0xC3 | picoquic_packet_0rtt_protected \<Rightarrow> 0xD3
            | picoquic_packet_handshake \<Rightarrow> 0xE3 | picoquic_packet_retry \<Rightarrow> 0xF0 | _ \<Rightarrow> 0xFF)
         else if v = PICOQUIC_V2_VERSION then
           (case pt of picoquic_packet_initial \<Rightarrow> 0xD3 | picoquic_packet_0rtt_protected \<Rightarrow> 0xE3
            | picoquic_packet_handshake \<Rightarrow> 0xF3 | picoquic_packet_retry \<Rightarrow> 0xC0 | _ \<Rightarrow> 0xFF)
         else 0xFF)"

text \<open>
  The header as the list of its bytes, the offset and the length of the packet number, and the
  connection, in which a greased bit is noted. \<open>rnd1\<close> and \<open>rnd2\<close> are the random numbers that are
  drawn for the greasing and for the spin bit.
\<close>

definition short_header :: "packet_cnx \<Rightarrow> u64 \<Rightarrow> u64 \<Rightarrow> u64 \<Rightarrow> nat \<Rightarrow> u8 list \<times> nat \<times> nat \<times> packet_cnx" where
  "short_header cnx rnd1 rnd2 sequence_number header_length =
     (let K = (if pc_key_phase_enc cnx then 0x04 else 0);
          C = (if pc_do_grease_quic_bit cnx then 0x40 AND ucast rnd1 else 0x40);
          cnx = (if pc_do_grease_quic_bit cnx
                 then cnx\<lparr>pc_quic_bit_greased := (pc_quic_bit_greased cnx \<or> C = 0)\<rparr> else cnx);
          (_, cid) = picoquic_format_connection_id (PICOQUIC_MAX_PACKET_SIZE - 1) (pc_remote_cnxid cnx);
          len = 1 + length cid;
          pn_l = (if header_length > len \<and> header_length < len + 4 then header_length - len else 4);
          first = (K OR C OR spinbit_outgoing cnx rnd2) OR of_nat (pn_l - 1);
          pn = (if pn_l = 1 then [ucast sequence_number]
                else if pn_l = 2 then picoformat_16 (ucast sequence_number)
                else if pn_l = 3 then picoformat_24 (ucast sequence_number)
                else picoformat_32 (ucast sequence_number))
      in (first # cid @ pn, len, pn_l, cnx))"

definition header_dest_cnx_id :: "packet_cnx \<Rightarrow> packet_type \<Rightarrow> connection_id" where
  "header_dest_cnx_id cnx packet_type =
     (if pc_client_mode cnx \<and> (packet_type = picoquic_packet_initial \<or> packet_type = picoquic_packet_0rtt_protected) \<and>
         picoquic_is_connection_id_null (pc_remote_cnxid cnx)
      then pc_initial_cnxid cnx else pc_remote_cnxid cnx)"

definition long_header :: "packet_cnx \<Rightarrow> packet_type \<Rightarrow> u64 \<Rightarrow> u8 list \<times> nat \<times> nat \<times> packet_cnx" where
  "long_header cnx packet_type sequence_number =
     (let dest = header_dest_cnx_id cnx packet_type;
          first = picoquic_create_long_packet_type packet_type (pc_version_index cnx);
          first = (if pc_do_grease_quic_bit cnx then first AND 0xBF else first);
          vn = (if pc_init_state cnx \<and> packet_type = picoquic_packet_initial then pc_proposed_version cnx
                else fst (picoquic_supported_versions ! nat (pc_version_index cnx)));
          bytes = first # picoformat_32 vn;
          bytes = bytes @ [cid_len dest];
          bytes = bytes @ snd (picoquic_format_connection_id (PICOQUIC_MAX_PACKET_SIZE - length bytes) dest);
          bytes = bytes @ [cid_len (pc_local_cnxid cnx)];
          bytes = bytes @ snd (picoquic_format_connection_id (PICOQUIC_MAX_PACKET_SIZE - length bytes) (pc_local_cnxid cnx));
          bytes = (if packet_type = picoquic_packet_initial
                   then bytes @ picoquic_varint_encode (PICOQUIC_MAX_PACKET_SIZE - length bytes) (of_nat (length (pc_retry_token cnx)))
                        @ pc_retry_token cnx
                   else bytes)
      in if packet_type = picoquic_packet_retry then (bytes, 0, 0, cnx)
         else (bytes @ [0, 0] @ picoformat_32 (ucast sequence_number), length bytes + 2, 4, cnx))"

definition picoquic_create_packet_header ::
    "packet_cnx \<Rightarrow> packet_type \<Rightarrow> u64 \<Rightarrow> u64 \<Rightarrow> u64 \<Rightarrow> nat \<Rightarrow> u8 list \<times> nat \<times> nat \<times> packet_cnx" where
  "picoquic_create_packet_header cnx packet_type rnd1 rnd2 sequence_number header_length =
     (if packet_type = picoquic_packet_1rtt_protected
      then short_header cnx rnd1 rnd2 sequence_number header_length
      else long_header cnx packet_type sequence_number)"

text \<open>\<open>oldest\<close> is the number of the oldest packet that is not acknowledged.\<close>

definition picoquic_predict_packet_header_length :: "packet_cnx \<Rightarrow> packet_type \<Rightarrow> u64 \<Rightarrow> u64 option \<Rightarrow> nat" where
  "picoquic_predict_packet_header_length cnx packet_type send_sequence oldest =
     (if packet_type = picoquic_packet_1rtt_protected then
        let delta = (case oldest of None \<Rightarrow> send_sequence | Some o' \<Rightarrow> send_sequence - o');
            pn_l = (if sint delta < 262144
                    then if send_sequence < 1024 then if send_sequence < 16 then 1 else 2 else 3
                    else 4)
        in 1 + unat (cid_len (pc_remote_cnxid cnx)) + pn_l
      else
        let dest = (if pc_client_mode cnx \<and> (packet_type = picoquic_packet_initial \<or> packet_type = picoquic_packet_0rtt_protected) \<and>
                       picoquic_is_connection_id_null (pc_remote_cnxid cnx)
                    then pc_initial_cnxid cnx else pc_remote_cnxid cnx);
            n = 1 + 4 + 2 + unat (cid_len dest) + unat (cid_len (pc_local_cnxid cnx)) + (2 + 4)
        in if packet_type = picoquic_packet_initial
           then n + length (picoquic_varint_encode 16 (of_nat (length (pc_retry_token cnx)))) + length (pc_retry_token cnx)
           else n)"

definition picoquic_update_payload_length :: "u8 list \<Rightarrow> nat \<Rightarrow> nat \<Rightarrow> nat \<Rightarrow> u8 list" where
  "picoquic_update_payload_length bytes pnum_index header_length packet_length =
     (if hd bytes AND 0x80 \<noteq> 0 \<and> header_length > 6 \<and> packet_length > header_length \<and> packet_length < 0x4000
      then take (pnum_index - 2) bytes @ picoquic_varint_encode_16 (of_nat (packet_length - header_length))
           @ drop pnum_index bytes
      else bytes)"

end
