(* ===== verification/PacketFacts.thy ===== *)
theory PacketFacts
  imports Packets
begin

text \<open>
  What the packet header code does: the parser returns on every packet, stays inside the packet, and
  reads back what the sender wrote.
\<close>

section \<open>The connection tables\<close>

definition quic_ok :: "quic_context \<Rightarrow> bool" where
  "quic_ok quic \<longleftrightarrow>
     (\<exists>A. holds_items (\<lambda>k. cid_array (ck_cnx_id k)) picoquic_cnx_id_hash picoquic_cnx_id_compare (table_cnx_by_id quic) A) \<and>
     (\<exists>A. holds_items (\<lambda>k. True) picoquic_net_id_hash picoquic_net_id_compare (table_cnx_by_net quic) A) \<and>
     (\<exists>A. holds_items (\<lambda>k. cid_array (ik_icid k)) picoquic_net_icid_hash picoquic_net_icid_compare (table_cnx_by_icid quic) A)"

lemma cnx_by_id_returns:
  assumes "quic_ok quic" "cid_array c"
  shows "\<exists>p l. picoquic_cnx_by_id quic c = Some (p, l)"
proof -
  obtain A where "holds_items (\<lambda>k. cid_array (ck_cnx_id k)) picoquic_cnx_id_hash picoquic_cnx_id_compare (table_cnx_by_id quic) A"
    using assms(1) by (auto simp: quic_ok_def)
  from cnx_id.table.lookup_law [OF this, of "\<lparr>ck_cnx_id = c, ck_cnx = 0, ck_l_cid = None\<rparr>"] assms(2)
  show ?thesis by (auto simp: picoquic_cnx_by_id_def Let_def split: option.splits)
qed

lemma cnx_by_net_returns:
  assumes "quic_ok quic"
  shows "\<exists>p. picoquic_cnx_by_net quic addr = Some p"
proof -
  obtain A where "holds_items (\<lambda>k. True) picoquic_net_id_hash picoquic_net_id_compare (table_cnx_by_net quic) A"
    using assms(1) by (auto simp: quic_ok_def)
  from net_id.table.lookup_law [OF this TrueI,
      of "\<lparr>nk_saddr = picoquic_store_addr sockaddr_zero (Some addr), nk_cnx = 0, nk_path = 0\<rparr>"]
  show ?thesis by (fastforce simp: picoquic_cnx_by_net_def)
qed

lemma cnx_by_icid_returns:
  assumes "quic_ok quic" "cid_array c"
  shows "\<exists>p. picoquic_cnx_by_icid quic c addr = Some p"
proof -
  obtain A where "holds_items (\<lambda>k. cid_array (ik_icid k)) picoquic_net_icid_hash picoquic_net_icid_compare (table_cnx_by_icid quic) A"
    using assms(1) by (auto simp: quic_ok_def)
  from net_icid.table.lookup_law [OF this,
      of "\<lparr>ik_saddr = picoquic_store_addr sockaddr_zero (Some addr), ik_icid = c, ik_cnx = 0\<rparr>"] assms(2)
  show ?thesis by (fastforce simp: picoquic_cnx_by_icid_def)
qed

section \<open>The parser returns\<close>

text \<open>What a search of the connection leaves alone.\<close>

definition same_header :: "packet_header \<Rightarrow> packet_header \<Rightarrow> bool" where
  "same_header ph ph' \<longleftrightarrow> (\<exists>l. ph' = ph\<lparr>ph_l_cid := l\<rparr>)"

lemma same_header_fields:
  assumes "same_header ph ph'"
  shows "ptype ph' = ptype ph" "ph_offset ph' = ph_offset ph" "payload_length ph' = payload_length ph"
    "dest_cnx_id ph' = dest_cnx_id ph" "srce_cnx_id ph' = srce_cnx_id ph" "pn_offset ph' = pn_offset ph"
    "quic_bit_is_zero ph' = quic_bit_is_zero ph" "ph_vn ph' = ph_vn ph" "ph_version_index ph' = ph_version_index ph"
    "token_length ph' = token_length ph" "token_bytes ph' = token_bytes ph" "ph_epoch ph' = ph_epoch ph" "ph_pc ph' = ph_pc ph"
    "pl_val ph' = pl_val ph"
  using assms by (auto simp: same_header_def)

lemma find_cnx_returns:
  assumes "quic_ok quic" "cid_array (dest_cnx_id ph)"
  shows "\<exists>ph' p. find_cnx quic addr ph pcnx = Some (ph', p) \<and> same_header ph ph' \<and> (pcnx \<noteq> None \<longrightarrow> p = pcnx)"
proof -
  have "same_header ph ph" unfolding same_header_def by (rule exI [of _ "ph_l_cid ph"]) simp
  then show ?thesis
    using cnx_by_net_returns [OF assms(1), of addr] cnx_by_id_returns [OF assms]
    by (auto simp: find_cnx_def same_header_def)
qed

text \<open>A header is inside its packet.\<close>

definition header_inside :: "u8 list \<Rightarrow> packet_header \<Rightarrow> bool" where
  "header_inside packet ph \<longleftrightarrow> cid_array (dest_cnx_id ph) \<and> cid_array (srce_cnx_id ph) \<and>
     (ptype ph \<noteq> picoquic_packet_error \<longrightarrow> ph_offset ph + payload_length ph \<le> length packet)"

lemma cid_array_null: "cid_array picoquic_null_connection_id"
  by (simp add: cid_array_def picoquic_null_connection_id_def)

lemma decode_cid_returns:
  assumes "cid_len c = 0" "cid_array c"
  shows "\<exists>r c'. decode_cid bytes c = Some (r, c') \<and> cid_array c' \<and>
    (\<forall>rest. r = Some rest \<longrightarrow> cid_ok c' \<and> length rest < length bytes)"
proof -
  have "\<exists>r c'. picoquic_frames_cid_decode bytes c = Ok (r, c') \<and> cid_array c' \<and>
      (\<forall>rest. r = Some rest \<longrightarrow> length rest < length bytes)"
    using assms unfolding picoquic_frames_cid_decode_def picoquic_frames_uint8_decode_def cid_array_def Let_def
    by (cases bytes) auto
  then show ?thesis using cid_decode_ok [of bytes c] by (fastforce simp: decode_cid_def)
qed

lemma varlen_decode_shorter:
  "picoquic_frames_varlen_decode bytes = Some (n, rest) \<Longrightarrow> length rest \<le> length bytes"
  by (auto simp: picoquic_frames_varlen_decode_def picoquic_frames_varint_decode_def Let_def split: option.splits if_splits)

lemma long_header_type_inside:
  assumes "long_header_type packet bytes ph = (ph', b')" "length bytes \<le> length packet"
    "ph_offset ph = length packet - length bytes"
  shows "dest_cnx_id ph' = dest_cnx_id ph \<and> srce_cnx_id ph' = srce_cnx_id ph \<and>
    (ptype ph' \<noteq> picoquic_packet_error \<longrightarrow>
      (\<exists>rest. b' = Some rest \<and> length rest \<le> length packet \<and> ph_offset ph' = length packet - length rest))"
  using assms varlen_decode_shorter [of bytes]
  by (auto simp: long_header_type_def Let_def split: packet_type.splits option.splits if_splits)

lemma long_header_length_inside:
  assumes "long_header_length packet b ph = (ph', b', n)"
    "ptype ph \<noteq> picoquic_packet_error \<longrightarrow>
      (\<exists>rest. b = Some rest \<and> length rest \<le> length packet \<and> ph_offset ph = length packet - length rest)"
  shows "dest_cnx_id ph' = dest_cnx_id ph \<and> srce_cnx_id ph' = srce_cnx_id ph \<and>
    (ptype ph' \<noteq> picoquic_packet_error \<longrightarrow> (\<exists>rest. b' = Some rest \<and> length rest \<le> length packet \<and> n \<le> length rest))"
  using assms
  by (auto simp: long_header_length_def Let_def split: if_splits option.splits dest!: varlen_decode_shorter)

lemma take_bit_small: "n \<le> m \<Longrightarrow> m < 2 ^ 16 \<Longrightarrow> take_bit 16 n = (n :: nat)"
  by (simp add: take_bit_nat_eq_self)

lemma parse_long_payload_returns:
  assumes "quic_ok quic" "length packet < 2 ^ 16" "cid_array (dest_cnx_id ph)" "cid_array (srce_cnx_id ph)"
    "length bytes \<le> length packet" "ph_offset ph = length packet - length bytes"
  shows "\<exists>ph' p. parse_long_payload quic packet addr flags bytes ph pcnx = Some (ph', p) \<and> header_inside packet ph'"
proof -
  define ph0 where "ph0 = ph\<lparr>ph_spin := False, has_spin_bit := False, quic_bit_is_zero := (flags AND 0x40 = 0),
                 ptype := picoquic_parse_long_packet_type flags (ph_version_index ph)\<rparr>"
  obtain ph1 b1 where t: "long_header_type packet bytes ph0 = (ph1, b1)" by fastforce
  obtain ph2 b2 n where l: "long_header_length packet b1 ph1 = (ph2, b2, n)" by (metis prod_cases3)
  have t1: "dest_cnx_id ph1 = dest_cnx_id ph \<and> srce_cnx_id ph1 = srce_cnx_id ph \<and>
    (ptype ph1 \<noteq> picoquic_packet_error \<longrightarrow>
      (\<exists>rest. b1 = Some rest \<and> length rest \<le> length packet \<and> ph_offset ph1 = length packet - length rest))"
    using long_header_type_inside [OF t assms(5)] assms(6) by (simp add: ph0_def)
  have l1: "dest_cnx_id ph2 = dest_cnx_id ph \<and> srce_cnx_id ph2 = srce_cnx_id ph \<and>
    (ptype ph2 \<noteq> picoquic_packet_error \<longrightarrow> (\<exists>rest. b2 = Some rest \<and> length rest \<le> length packet \<and> n \<le> length rest))"
    using long_header_length_inside [OF l] t1 by simp
  show ?thesis
  proof (cases "ptype ph2 = picoquic_packet_error")
    case True
    obtain ph3 p where "find_cnx quic addr ph2 pcnx = Some (ph3, p)" "same_header ph2 ph3"
      using find_cnx_returns [OF assms(1), of ph2 addr pcnx] l1 assms(3) by auto
    then show ?thesis using True t l l1 assms(3,4)
      by (auto simp: parse_long_payload_def ph0_def [symmetric] header_inside_def same_header_fields)
  next
    case False
    then obtain rest where rest: "b2 = Some rest" "length rest \<le> length packet" "n \<le> length rest" using l1 by auto
    have n: "take_bit 16 n = n" using rest(2,3) assms(2) by (intro take_bit_small [of n "length packet"]) linarith+
    define ph3 where "ph3 = ph2\<lparr>pl_val := n, payload_length := n, ph_offset := length packet - length rest,
      pn_offset := length packet - length rest\<rparr>"
    have c3: "cid_array (dest_cnx_id ph3)" using l1 assms(3) by (simp add: ph3_def)
    obtain ph4 p where f: "find_cnx quic addr ph3 pcnx = Some (ph4, p)" "same_header ph3 ph4"
      using find_cnx_returns [OF assms(1) c3, of addr pcnx] by auto
    have in4: "header_inside packet ph4"
      using l1 assms(3,4) rest(2,3) by (auto simp: header_inside_def same_header_fields [OF f(2)] ph3_def)
    obtain p' where "picoquic_cnx_by_icid quic (dest_cnx_id ph4) addr = Some p'"
      using cnx_by_icid_returns [OF assms(1), of "dest_cnx_id ph4" addr] in4 by (auto simp: header_inside_def)
    then obtain p'' where i: "(if p = None \<and> local_cnxid_length quic \<noteq> 0 \<and>
                   (ptype ph4 = picoquic_packet_initial \<or> ptype ph4 = picoquic_packet_0rtt_protected)
                then picoquic_cnx_by_icid quic (dest_cnx_id ph4) addr else Some p) = Some p''" by (metis (full_types))
    have "parse_long_payload quic packet addr flags bytes ph pcnx =
      Some (case p'' of Some c \<Rightarrow> if quic_bit_is_zero ph4 \<and> \<not> local_do_grease_quic_bit (connections quic c)
             then (ph4\<lparr>ptype := picoquic_packet_error\<rparr>, p'') else (ph4, p'')
         | None \<Rightarrow> (ph4, p''))"
      using t l rest(1) False f(1) i n by (simp add: parse_long_payload_def ph0_def [symmetric] ph3_def [symmetric])
    then show ?thesis using in4 by (auto simp: header_inside_def split: option.splits)
  qed
qed

lemma parse_long_body_returns:
  assumes "quic_ok quic" "length packet < 2 ^ 16" "cid_array (dest_cnx_id ph)" "cid_array (srce_cnx_id ph)" "length bytes \<le> length packet"
  shows "\<exists>ph' p. parse_long_body quic packet addr flags bytes ph pcnx = Some (ph', p) \<and> header_inside packet ph'"
proof -
  define ph0 where "ph0 = ph\<lparr>ph_offset := length packet - length bytes\<rparr>"
  define n where "n = take_bit 16 (length packet - ph_offset ph0)"
  have "n \<le> length packet - ph_offset ph0" unfolding n_def by (rule take_bit_nat_less_eq_self)
  then have n: "n \<le> length bytes" using assms(5) by (simp add: ph0_def)
  define ph1 where "ph1 = ph0\<lparr>ptype := picoquic_packet_version_negotiation, ph_pc := picoquic_packet_context_initial,
                    payload_length := n, pl_val := n\<rparr>"
  show ?thesis
  proof (cases "ph_vn ph = 0")
    case True
    obtain ph2 p where "find_cnx quic addr ph1 pcnx = Some (ph2, p)" "same_header ph1 ph2"
      using find_cnx_returns [OF assms(1), of ph1 addr pcnx] assms(3) by (auto simp: ph1_def ph0_def)
    then show ?thesis using True assms(3-5) n
      by (auto simp: parse_long_body_def ph0_def [symmetric] n_def [symmetric] ph1_def [symmetric] Let_def header_inside_def same_header_fields)
        (auto simp: ph1_def ph0_def)
  next
    case False
    then show ?thesis using parse_long_payload_returns [OF assms(1,2), of ph0 bytes addr flags pcnx] assms(3-5)
      by (simp add: parse_long_body_def ph0_def [symmetric] Let_def) (simp add: ph0_def)
  qed
qed

lemma parse_long_cids_returns:
  assumes "quic_ok quic" "length packet < 2 ^ 16" "length bytes \<le> length packet" "ptype ph = picoquic_packet_error"
    "dest_cnx_id ph = picoquic_null_connection_id" "srce_cnx_id ph = picoquic_null_connection_id"
  shows "\<exists>ret ph' p. parse_long_cids quic packet addr flags bytes ph pcnx = Some (ret, ph', p) \<and> header_inside packet ph'"
proof -
  have zero: "cid_len picoquic_null_connection_id = 0" by (simp add: picoquic_null_connection_id_def)
  note z = decode_cid_returns [OF zero cid_array_null]
  obtain r1 d where d: "decode_cid bytes picoquic_null_connection_id = Some (r1, d)" "cid_array d"
    "\<forall>rest. r1 = Some rest \<longrightarrow> length rest < length bytes" using z by blast
  show ?thesis
  proof (cases r1)
    case None
    then show ?thesis using d assms(4-6) by (simp add: parse_long_cids_def header_inside_def cid_array_null)
  next
    case (Some b1)
    obtain r2 e where e: "decode_cid b1 picoquic_null_connection_id = Some (r2, e)" "cid_array e"
      "\<forall>rest. r2 = Some rest \<longrightarrow> length rest < length b1" using z by blast
    show ?thesis
    proof (cases r2)
      case None
      then show ?thesis using d(1,2) e(1,2) Some assms(4-6) by (simp add: parse_long_cids_def header_inside_def)
    next
      case b2: (Some b2)
      have "length b2 \<le> length packet" using d(3) e(3) Some b2 assms(3) by auto
      then obtain ph' p where "parse_long_body quic packet addr flags b2 (ph\<lparr>dest_cnx_id := d, srce_cnx_id := e\<rparr>) pcnx = Some (ph', p)"
        "header_inside packet ph'"
        using parse_long_body_returns [OF assms(1,2), of "ph\<lparr>dest_cnx_id := d, srce_cnx_id := e\<rparr>" b2 addr flags pcnx] d(2) e(2) by auto
      then show ?thesis using d(1) e(1) Some b2 assms(5,6) by (simp add: parse_long_cids_def)
    qed
  qed
qed

lemma parse_long_returns:
  assumes "quic_ok quic" "length packet < 2 ^ 16"
  shows "\<exists>ret ph p. picoquic_parse_long_packet_header quic packet addr packet_header_zero pcnx = Some (ret, ph, p) \<and>
    header_inside packet ph"
proof -
  have zero: "header_inside packet packet_header_zero" by (simp add: header_inside_def packet_header_zero_def cid_array_null)
  show ?thesis
  proof (cases "picoquic_frames_uint8_decode packet")
    case None
    then show ?thesis using zero by (simp add: picoquic_parse_long_packet_header_def)
  next
    case (Some fb)
    obtain flags b1 where fb: "fb = (flags, b1)" by fastforce
    have b1: "length b1 \<le> length packet" using Some fb by (auto simp: picoquic_frames_uint8_decode_def split: list.splits)
    show ?thesis
    proof (cases "picoquic_frames_uint32_decode b1")
      case None
      then show ?thesis using Some fb zero by (simp add: picoquic_parse_long_packet_header_def)
    next
      case vb: (Some vb)
      obtain vn b2 where v: "vb = (vn, b2)" by fastforce
      have b2: "length b2 \<le> length packet" using vb v b1 by (auto simp: picoquic_frames_uint32_decode_def split: if_splits)
      have "header_inside packet (packet_header_zero\<lparr>ph_vn := vn, ph_version_index := i, ptype := picoquic_packet_error,
          ph_pc := picoquic_packet_context_application\<rparr>)" for i
        using zero by (simp add: header_inside_def)
      then show ?thesis using Some fb vb v
          parse_long_cids_returns [OF assms b2, of "packet_header_zero\<lparr>ph_vn := vn, ph_version_index := picoquic_get_version_index vn\<rparr>" addr flags pcnx]
          parse_long_cids_returns [OF assms b2, of "packet_header_zero\<lparr>ph_vn := vn\<rparr>" addr flags pcnx]
        by (auto simp: picoquic_parse_long_packet_header_def packet_header_zero_def Let_def)
    qed
  qed
qed

lemma parse_connection_id_array:
  assumes "cid_array c" "unat len \<le> length bytes"
  shows "\<exists>n c'. picoquic_parse_connection_id bytes len c = (n, c') \<and> cid_array c' \<and> unat n \<le> unat len"
  using assms by (auto simp: picoquic_parse_connection_id_def cid_array_def)

lemma parse_short_cid_returns:
  assumes "quic_ok quic" "cid_array (dest_cnx_id ph)" "cid_array (srce_cnx_id ph)"
  shows "\<exists>ph' p. parse_short_cid quic packet addr len ph pcnx = Some (ph', p) \<and>
    cid_array (dest_cnx_id ph') \<and> cid_array (srce_cnx_id ph') \<and> ph_offset ph' \<le> length packet"
proof (cases "length packet \<ge> 1 + unat len")
  case True
  then have "unat len \<le> length (tl packet)" by simp
  from parse_connection_id_array [OF assms(2) this] obtain n d where d: "picoquic_parse_connection_id (tl packet) len (dest_cnx_id ph) = (n, d)"
    "cid_array d" "unat n \<le> unat len" by blast
  show ?thesis using True d assms(3) cnx_by_id_returns [OF assms(1) d(2)] cnx_by_net_returns [OF assms(1), of addr]
    by (cases "pcnx = None"; cases "local_cnxid_length quic > 0") (auto simp: parse_short_cid_def)
next
  case False
  then show ?thesis using assms(2,3) by (auto simp: parse_short_cid_def)
qed

lemma parse_short_fields_inside:
  assumes "parse_short_fields cnx packet ph receiving = (ret, ph')" "cid_array (dest_cnx_id ph)" "cid_array (srce_cnx_id ph)"
    "ph_offset ph \<le> length packet" "length packet < 2 ^ 16"
  shows "header_inside packet ph'"
proof -
  have "take_bit 16 (length packet - ph_offset ph) = length packet - ph_offset ph"
    using assms(5) by (intro take_bit_small [of _ "length packet"]) simp_all
  then show ?thesis using assms(1-4) by (auto simp: parse_short_fields_def header_inside_def Let_def split: if_splits)
qed

lemma parse_short_returns:
  assumes "quic_ok quic" "length packet < 2 ^ 16"
  shows "\<exists>ret ph p. picoquic_parse_short_packet_header quic packet addr packet_header_zero pcnx receiving = Some (ret, ph, p) \<and>
    header_inside packet ph"
proof -
  let ?len = "case pcnx of Some c \<Rightarrow> if receiving then local_cnxid_length quic else cid_len (pc_remote_cnxid (connections quic c))
       | None \<Rightarrow> local_cnxid_length quic"
  let ?ph = "packet_header_zero\<lparr>ph_pc := picoquic_packet_context_application, pl_val := 0\<rparr>"
  have "cid_array (dest_cnx_id ?ph)" "cid_array (srce_cnx_id ?ph)" by (simp_all add: packet_header_zero_def cid_array_null)
  from parse_short_cid_returns [OF assms(1) this, of packet addr ?len pcnx] obtain ph p where
    ph: "parse_short_cid quic packet addr ?len ?ph pcnx = Some (ph, p)" "cid_array (dest_cnx_id ph)" "cid_array (srce_cnx_id ph)"
      "ph_offset ph \<le> length packet" by blast
  show ?thesis
  proof (cases p)
    case None
    have "take_bit 16 (length packet - ph_offset ph) = length packet - ph_offset ph"
      using assms(2) by (intro take_bit_small [of _ "length packet"]) simp_all
    then show ?thesis using None ph by (simp add: picoquic_parse_short_packet_header_def header_inside_def)
  next
    case (Some c)
    obtain ret ph' where f: "parse_short_fields (connections quic c) packet ph receiving = (ret, ph')" by fastforce
    then show ?thesis using Some ph(1) parse_short_fields_inside [OF f ph(2-4) assms(2)]
      by (simp add: picoquic_parse_short_packet_header_def)
  qed
qed

lemma parse_header_returns:
  assumes "quic_ok quic" "length packet < 2 ^ 16" "packet \<noteq> []"
  shows "\<exists>ret ph p. picoquic_parse_packet_header quic packet addr pcnx receiving = Some (ret, ph, p) \<and> header_inside packet ph"
  using parse_short_returns [OF assms(1,2)] parse_long_returns [OF assms(1,2)] assms(3) by (simp add: picoquic_parse_packet_header_def)

section \<open>Packet numbers\<close>

text \<open>The mask of a packet number of \<open>l\<close> bytes.\<close>

definition number_mask :: "nat \<Rightarrow> u64" where
  "number_mask l = push_bit (8 * l) UINT64_MAX"

lemma number_window:
  assumes "l \<in> {1, 2, 3, 4}"
  shows "NOT (number_mask l) + 1 = 2 ^ (8 * l)" "x AND number_mask l = x - take_bit (8 * l) x"
    "(x AND number_mask l) OR take_bit (8 * l) y = (x AND number_mask l) + take_bit (8 * l) y"
proof -
  have m: "number_mask l = NOT (mask (8 * l))"
  proof (rule bit_word_eqI)
    fix n assume n: "n < LENGTH(64)"
    have "UINT64_MAX = (-1 :: u64)" by simp
    then show "bit (number_mask l) n = bit (NOT (mask (8 * l)) :: u64) n"
      using n by (simp only: number_mask_def) (simp add: bit_simps)
  qed
  show "NOT (number_mask l) + 1 = 2 ^ (8 * l)" by (simp add: m mask_eq_exp_minus_1)
  have "(x AND NOT (mask (8 * l))) + take_bit (8 * l) x = (x AND NOT (mask (8 * l))) OR take_bit (8 * l) x"
    by (rule disjunctive_add) (auto simp: bit_simps)
  also have "\<dots> = x" by (rule bit_word_eqI) (auto simp: bit_simps)
  finally show "x AND number_mask l = x - take_bit (8 * l) x" unfolding m by (simp add: algebra_simps)
  show "(x AND number_mask l) OR take_bit (8 * l) y = (x AND number_mask l) + take_bit (8 * l) y"
    by (rule disjunctive_add [symmetric]) (auto simp: m bit_simps)
qed

text \<open>In numbers: the window has \<open>W\<close> values, \<open>e\<close> is expected and \<open>p\<close> are the low bits received.\<close>

lemma window_cases:
  fixes e n W :: nat
  assumes "0 < W" "even W" "e \<le> n + W div 2" "n < e + W div 2"
  defines "c \<equiv> e - e mod W + n mod W"
  shows "c < e \<Longrightarrow> n = (if W - (e - c) < e - c then c + W else c)"
    and "e \<le> c \<Longrightarrow> n = (if W - (c - e) \<le> c - e \<and> W \<le> c then c - W else c)"
proof -
  obtain q r where e: "e = q * W + r" "r < W" "e mod W = r" using assms(1) by (metis div_mult_mod_eq mod_less_divisor)
  obtain q' p where n: "n = q' * W + p" "p < W" "n mod W = p" using assms(1) by (metis div_mult_mod_eq mod_less_divisor)
  have c: "c = q * W + p" using e n by (simp add: c_def)
  obtain h where h: "W = 2 * h" using assms(2) by blast
  define A B where "A = q * W" and "B = q' * W"
  have near: "B + p < A + r + h" "A + r \<le> B + p + h" using assms(3,4) e(1) n(1) h by (simp_all add: A_def B_def)
  have "B < A + 2 * W" "A < B + 2 * W" using near e(2) n(2) h by linarith+
  then have "q' * W < (q + 2) * W" "q * W < (q' + 2) * W" by (simp_all only: A_def B_def add_mult_distrib)
  then have "q' < q + 2" "q < q' + 2" using assms(1) by (simp_all only: mult_less_cancel2)
  then consider "q' = q" | "q' = q + 1" | "q = q' + 1" by linarith
  then consider "B = A" | "B = A + W" | "A = B + W"
    by cases (simp_all add: A_def B_def add_mult_distrib)
  then have "(c < e \<longrightarrow> n = (if W - (e - c) < e - c then c + W else c)) \<and>
      (e \<le> c \<longrightarrow> n = (if W - (c - e) \<le> c - e \<and> W \<le> c then c - W else c))"
  proof cases
    case 1
    then have "n = A + p" "e = A + r" "c = A + p" using e(1) n(1) c by (simp_all add: A_def B_def)
    then show ?thesis using near 1 e(2) n(2) h by simp linarith
  next
    case 2
    then have "n = A + W + p" "e = A + r" "c = A + p" using e(1) n(1) c by (simp_all add: A_def B_def)
    then show ?thesis using near 2 e(2) n(2) h by simp
  next
    case 3
    then have "n = B + p" "e = B + W + r" "c = B + W + p" using e(1) n(1) c by (simp_all add: A_def B_def)
    then show ?thesis using near 3 e(2) n(2) h by simp
  qed
  then show "c < e \<Longrightarrow> n = (if W - (e - c) < e - c then c + W else c)"
    and "e \<le> c \<Longrightarrow> n = (if W - (c - e) \<le> c - e \<and> W \<le> c then c - W else c)" by blast+
qed

lemma packet_number_window:
  assumes "l \<in> {1, 2, 3, 4}"
    "unat (highest + 1) \<le> unat n + 2 ^ (8 * l) div 2" "unat n < unat (highest + 1) + 2 ^ (8 * l) div 2"
  shows "picoquic_get_packet_number64 highest (number_mask l) (ucast (take_bit (8 * l) n)) = n"
proof -
  define W :: nat where "W = 2 ^ (8 * l)"
  define x where "x = highest + 1"
  have l64: "8 * l < 64" "1 \<le> 8 * l" using assms(1) by auto
  have W: "0 < W" "even W" "W < 2 ^ 64" "W dvd 2 ^ 64"
  proof -
    have "(2 :: nat) ^ (8 * l) < 2 ^ 64" "(2 :: nat) ^ (8 * l) dvd 2 ^ 64"
      using l64(1) by (intro power_strict_increasing le_imp_power_dvd; simp)+
    then show "0 < W" "even W" "W < 2 ^ 64" "W dvd 2 ^ 64" using l64(2) by (simp_all only: W_def) simp_all
  qed
  define c where "c = (x AND number_mask l) OR take_bit (8 * l) n"
  have low: "ucast (ucast (take_bit (8 * l) n) :: u32) = take_bit (8 * l) n"
    using assms(1) by (intro bit_word_eqI) (auto simp: bit_simps)
  have tb: "unat (take_bit (8 * l) y) = unat y mod W" for y :: u64
  proof -
    have "unat (take_bit (8 * l) y) = take_bit (8 * l) (unat y)" by (rule unsigned_take_bit_eq)
    then show ?thesis by (simp only: take_bit_eq_mod W_def)
  qed
  have low_le: "take_bit (8 * l) y \<le> y" for y :: u64
    unfolding word_le_nat_alt tb by (rule mod_less_eq_dividend)
  have uc: "unat c = unat x - unat x mod W + unat n mod W"
  proof -
    have c: "c = x - take_bit (8 * l) x + take_bit (8 * l) n" 
      unfolding c_def by (subst number_window(3) [OF assms(1)]) (subst number_window(2) [OF assms(1)], rule refl)
    have s: "unat (x - take_bit (8 * l) x) = unat x - unat x mod W" using unat_sub [OF low_le] by (simp only: tb)
    have t: "unat (take_bit (8 * l) n) = unat n mod W" by (rule tb)
    have "unat x - unat x mod W + W \<le> 2 ^ 64"
    proof -
      obtain m where m: "2 ^ 64 = W * m" using W(4) by blast
      have "unat x < W * m" using unsigned_less [of x, where 'a = nat] m by simp
      then have "unat x div W < m" by (simp add: less_mult_imp_div_less mult.commute)
      then have "W * (unat x div W) + W \<le> W * m" by (metis Suc_leI add.commute mult_Suc_right mult_le_mono2)
      then show ?thesis using m by (simp add: minus_mod_eq_mult_div)
    qed
    moreover have "unat n mod W < W" using W(1) by simp
    ultimately have "unat (x - take_bit (8 * l) x) + unat (take_bit (8 * l) n) < 2 ^ LENGTH(64)" unfolding s t by simp
    then show ?thesis unfolding c by (simp add: unat_add_lem [THEN iffD1] s t)
  qed
  have near: "unat x \<le> unat n + W div 2" "unat n < unat x + W div 2" using assms(2,3) by (simp_all add: W_def x_def)
  note win = window_cases [OF W(1,2) near, folded uc]
  have "unat (of_nat W :: u64) = W" using W(3) by (intro of_nat_inverse) simp_all
  then have W2: "unat (2 ^ (8 * l) :: u64) = W" by (simp add: W_def)
  have close: "unat x - unat c < W" "unat c - unat x < W"
    using W(1) uc mod_less_divisor [OF W(1), of "unat x"] mod_less_divisor [OF W(1), of "unat n"] mod_less_eq_dividend [of "unat x" W]
    by linarith+
  have run: "picoquic_get_packet_number64 highest (number_mask l) (ucast (take_bit (8 * l) n)) =
    (if c < x then if 2 ^ (8 * l) - (x - c) < x - c then c + 2 ^ (8 * l) else c
     else if 2 ^ (8 * l) - (c - x) \<le> c - x \<and> c AND number_mask l > 0 then c - 2 ^ (8 * l) else c)"
    unfolding picoquic_get_packet_number64_def Let_def number_window(1) [OF assms(1)] x_def [symmetric] low c_def [symmetric] by (rule refl)
  show ?thesis
  proof (cases "c < x")
    case True
    then have lt: "unat c < unat x" by (simp add: word_less_nat_alt)
    have d: "unat (x - c) = unat x - unat c" using True by (simp add: unat_sub)
    then have "x - c \<le> 2 ^ (8 * l)" using close(1) W2 by (simp add: word_le_nat_alt)
    then have "unat (2 ^ (8 * l) - (x - c)) = W - (unat x - unat c)" using d W2 by (simp add: unat_sub)
    then have cond: "2 ^ (8 * l) - (x - c) < x - c \<longleftrightarrow> W - (unat x - unat c) < unat x - unat c" using d by (simp add: word_less_nat_alt)
    have n: "unat n = (if W - (unat x - unat c) < unat x - unat c then unat c + W else unat c)" by (rule win(1) [OF lt])
    have "unat (c + 2 ^ (8 * l)) = unat c + W" if "W - (unat x - unat c) < unat x - unat c"
    proof -
      have "unat n = unat c + W" unfolding n by (simp only: that if_True)
      then have "unat c + W < 2 ^ LENGTH(64)" using unsigned_less [of n, where 'a = nat] by simp
      then have "unat c + unat (2 ^ (8 * l) :: u64) < 2 ^ LENGTH(64)" unfolding W2 .
      then have "unat (c + 2 ^ (8 * l)) = unat c + unat (2 ^ (8 * l) :: u64)" by (rule unat_add_lem [THEN iffD1])
      then show ?thesis unfolding W2 .
    qed
    then show ?thesis unfolding run using True cond n by (auto intro!: word_unat_eq_iff [THEN iffD2])
  next
    case False
    then have le: "unat x \<le> unat c" by (simp add: word_le_nat_alt not_less)
    have d: "unat (c - x) = unat c - unat x" using le by (simp add: unat_sub word_le_nat_alt)
    then have "c - x \<le> 2 ^ (8 * l)" using close(2) W2 by (simp add: word_le_nat_alt)
    then have "unat (2 ^ (8 * l) - (c - x)) = W - (unat c - unat x)" using d W2 by (simp add: unat_sub)
    then have cond: "2 ^ (8 * l) - (c - x) \<le> c - x \<longleftrightarrow> W - (unat c - unat x) \<le> unat c - unat x" using d by (simp add: word_le_nat_alt)
    have high: "c AND number_mask l > 0 \<longleftrightarrow> W \<le> unat c"
    proof -
      have "unat (c AND number_mask l) = unat c - unat c mod W"
        unfolding number_window(2) [OF assms(1)] using unat_sub [OF low_le] by (simp only: tb)
      then have "c AND number_mask l > 0 \<longleftrightarrow> unat c mod W < unat c" by (simp add: word_less_nat_alt)
      also have "\<dots> \<longleftrightarrow> W \<le> unat c" using W(1) by (metis leI mod_less mod_less_divisor nat_less_le order.strict_trans2)
      finally show ?thesis .
    qed
    have n: "unat n = (if W - (unat c - unat x) \<le> unat c - unat x \<and> W \<le> unat c then unat c - W else unat c)" by (rule win(2) [OF le])
    have "unat (c - 2 ^ (8 * l)) = unat c - W" if "W \<le> unat c" using that W2 by (simp add: unat_sub word_le_nat_alt)
    then show ?thesis unfolding run using False cond high n by (auto intro!: word_unat_eq_iff [THEN iffD2])
  qed
qed

end
