(* ===== verification/PacketRoundtrip.thy ===== *)
theory PacketRoundtrip
  imports PacketFacts
begin

text \<open>
  The header that the sender writes is the header that the receiver parses, and protecting it against
  observers can be undone.
\<close>

section \<open>Fields\<close>

lemma varlen_decode_encoded:
  assumes "unat n < 2 ^ 62" "picoquic_encode_varint_length n \<le> m"
  shows "picoquic_frames_varlen_decode (picoquic_varint_encode m n @ rest) = Some (n, rest)"
proof -
  have "n < 2 ^ 62" using assms(1) by (simp add: word_less_nat_alt)
  then have "take_bit 62 n = n" by (rule word_less_take_bit)
  moreover have "length (picoquic_varint_encode m n) = picoquic_encode_varint_length n" using assms(2) by (simp add: length_varint_encode)
  moreover have "0 < picoquic_encode_varint_length n" by (simp add: picoquic_encode_varint_length_def)
  ultimately show ?thesis
    using varint_decode_encode [OF assms(2), of rest] by (simp add: picoquic_frames_varlen_decode_def frames_varint_decode_eq)
qed

lemma varlen_decode_16:
  assumes "n < 0x4000"
  shows "picoquic_frames_varlen_decode (picoquic_varint_encode_16 (of_nat n) @ rest) = Some (of_nat n, rest)"
proof -
  define N :: u64 where "N = of_nat n"
  have n: "N < 16384" using assms by (simp add: N_def word_less_nat_alt unsigned_of_nat take_bit_nat_eq_self)
  have m: "of_nat n = (ucast N :: u16)" using assms by (simp add: N_def unsigned_of_nat take_bit_nat_eq_self)
  have "(0x4000 :: u64) = 2 ^ 14" by simp
  then have t: "take_bit 14 N = N" using n by (intro word_less_take_bit) simp
  have bits: "bit N i \<Longrightarrow> i < 14" for i using t by (metis bit_take_bit_iff)
  have seven: "(0x7F :: u16) = mask 7" by (simp add: mask_eq_exp_minus_1)
  have d: "drop_bit 8 (ucast N :: u16) AND 0x7F = drop_bit 8 (ucast N)"
    unfolding seven by (rule bit_word_eqI) (auto simp: bit_simps dest: bits)
  have "((0x40 :: u16) AND 0x7F) = 0x40" by simp
  then have "(drop_bit 8 (ucast N :: u16) OR 0x40) AND 0x7F = drop_bit 8 (ucast N) OR 0x40"
    using d by (simp only: bit.conj_disj_distrib2)
  moreover have "(ucast (drop_bit 8 (ucast N :: u16)) :: u8) = ucast (drop_bit 8 N)"
    by (rule bit_word_eqI) (auto simp: bit_simps)
  ultimately have "(ucast ((drop_bit 8 (ucast N :: u16) OR 0x40) AND 0x7F) :: u8) = ucast (drop_bit 8 N) OR 0x40"
    by (simp add: unsigned_or_eq)
  moreover have "(ucast (ucast N :: u16) :: u8) = ucast N" by (rule bit_word_eqI) (auto simp: bit_simps)
  ultimately have e: "picoquic_varint_encode_16 (of_nat n) = [ucast (drop_bit 8 N) OR 0x40, ucast N]"
    unfolding m by (simp add: picoquic_varint_encode_16_def)
  have "picoquic_varint_decode ([ucast (drop_bit 8 N) OR 0x40, ucast N] @ rest) = (2, N)"
    using n varint_loop_bytes(3) [of N] high_byte [of N 8]
      prefix_value [of "ucast (drop_bit 8 N)" 1] prefix_tag [of "ucast (drop_bit 8 N)" 1]
    by (simp add: varint_decode_Cons picoquic_decode_varint_length_def unsigned_or_eq del: varint_loop.simps)
  then show ?thesis unfolding e N_def [symmetric] by (simp add: picoquic_frames_varlen_decode_def frames_varint_decode_eq)
qed

lemma decode_cid_encoded:
  assumes "cid_ok c"
  shows "decode_cid (cid_len c # cid_bytes c @ rest) d = Some (Some rest, c)"
proof -
  have l: "length (cid_bytes c) = unat (cid_len c)" by (rule cid_bytes_length [OF assms])
  have "unat (cid_len c) \<le> 20" using assms by (simp add: cid_ok_def)
  then have "picoquic_frames_cid_decode (cid_len c # cid_bytes c @ rest) d =
    Ok (Some rest, \<lparr>cid_id = cid_bytes c @ replicate (20 - unat (cid_len c)) 0, cid_len = cid_len c\<rparr>)"
    using l by (cases d) (simp add: picoquic_frames_cid_decode_def picoquic_frames_uint8_decode_def)
  then show ?thesis using cid_ok_cases [OF assms] l by (simp add: decode_cid_def)
qed

lemma format_cid: "cid_ok c \<Longrightarrow> 20 \<le> n \<Longrightarrow> picoquic_format_connection_id n c = (cid_len c, cid_bytes c)"
  by (auto simp: picoquic_format_connection_id_def cid_ok_def cid_bytes_def)

section \<open>Long headers\<close>

text \<open>What the first byte says, for the three kinds of packets with a payload.\<close>

definition protected_long :: "packet_type \<Rightarrow> bool" where
  "protected_long t \<longleftrightarrow> t = picoquic_packet_initial \<or> t = picoquic_packet_0rtt_protected \<or> t = picoquic_packet_handshake"

definition version_known :: "int \<Rightarrow> bool" where
  "version_known i \<longleftrightarrow> 0 \<le> i \<and> nat i < length picoquic_supported_versions"

lemma version_known_cases:
  assumes "version_known i"
  shows "packet_type_version i = PICOQUIC_V1_VERSION \<or> packet_type_version i = PICOQUIC_V2_VERSION"
    and "picoquic_get_version_index (fst (picoquic_supported_versions ! nat i)) = i"
    and "fst (picoquic_supported_versions ! nat i) \<noteq> 0"
proof -
  have "nat i < 12" using assms by (simp add: version_known_def picoquic_supported_versions_def)
  then have "nat i \<in> set [0..<12]" by simp
  moreover have "list_all (\<lambda>n. (packet_type_version (int n) = PICOQUIC_V1_VERSION \<or> packet_type_version (int n) = PICOQUIC_V2_VERSION) \<and>
    picoquic_get_version_index (fst (picoquic_supported_versions ! n)) = int n \<and> fst (picoquic_supported_versions ! n) \<noteq> 0) [0..<12]"
    by code_simp
  ultimately have "(packet_type_version (int (nat i)) = PICOQUIC_V1_VERSION \<or> packet_type_version (int (nat i)) = PICOQUIC_V2_VERSION) \<and>
    picoquic_get_version_index (fst (picoquic_supported_versions ! nat i)) = int (nat i) \<and> fst (picoquic_supported_versions ! nat i) \<noteq> 0"
    unfolding list_all_iff by blast
  moreover have "int (nat i) = i" using assms by (simp add: version_known_def)
  ultimately show "packet_type_version i = PICOQUIC_V1_VERSION \<or> packet_type_version i = PICOQUIC_V2_VERSION"
    "picoquic_get_version_index (fst (picoquic_supported_versions ! nat i)) = i" "fst (picoquic_supported_versions ! nat i) \<noteq> 0" by simp_all
qed

lemma long_type_roundtrip:
  assumes "version_known i" "protected_long t"
  shows "picoquic_parse_long_packet_type (picoquic_create_long_packet_type t i) i = t"
    "picoquic_create_long_packet_type t i AND 0x80 = 0x80" "picoquic_create_long_packet_type t i AND 0x40 \<noteq> 0"
    "picoquic_create_long_packet_type t i AND 3 = 3"
  using assms version_known_cases(1) [OF assms(1)]
  by (auto simp: protected_long_def picoquic_parse_long_packet_type_def picoquic_create_long_packet_type_def Let_def version_known_def)

end
