(* ===== verification/HeaderProtection.thy ===== *)
theory HeaderProtection
  imports PacketRoundtrip
begin

text \<open>
  Header protection: \<open>picoquic_protect_packet\<close> of \<open>picoquic/sender.c\<close> hides the low bits of the first
  byte and the packet number, \<open>picoquic_remove_header_protection\<close> of \<open>picoquic/packet.c\<close> uncovers them.

  The cipher is not under \<open>src/\<close>: the mask that \<open>picoquic_pn_encrypt\<close> makes of a sample is a parameter,
  a function from the sample to the bytes of the mask. What the two sides rely on is that they have
  the same function.
\<close>

section \<open>The two operations\<close>

text \<open>\<open>pn_cipher\<close>: the size of a sample and the mask of a sample.\<close>

record pn_cipher =
  picoquic_pn_iv_size :: nat
  pn_mask :: "u8 list \<Rightarrow> u8 list"

text \<open>
  \<open>picoquic_pn_encrypt\<close> on five zero bytes; it reads the sample where the pointer says.
\<close>

definition picoquic_pn_encrypt :: "pn_cipher \<Rightarrow> u8 list \<Rightarrow> u8 list" where
  "picoquic_pn_encrypt pn_enc iv = take 5 (pn_mask pn_enc (take (picoquic_pn_iv_size pn_enc) iv) @ replicate 5 0)"

text \<open>The last part of \<open>picoquic_protect_packet\<close>, on the buffer that is sent.\<close>

fun xor_bytes :: "u8 list \<Rightarrow> nat \<Rightarrow> u8 list \<Rightarrow> u8 list" where
  "xor_bytes buf pos [] = buf"
| "xor_bytes buf pos (m # ms) = xor_bytes (buf[pos := (buf ! pos) XOR m]) (Suc pos) ms"

definition protect_header :: "pn_cipher \<Rightarrow> u8 \<Rightarrow> u8 list \<Rightarrow> nat \<Rightarrow> u8 list" where
  "protect_header pn_enc first_mask send_buffer pn_pos =
     (let mask_bytes = picoquic_pn_encrypt pn_enc (drop (pn_pos + 4) send_buffer);
          pn_l = unat (send_buffer ! 0 AND 3) + 1;
          send_buffer = send_buffer[0 := (send_buffer ! 0) XOR (mask_bytes ! 0 AND first_mask)]
      in xor_bytes send_buffer pn_pos (take pn_l (drop 1 mask_bytes)))"

text \<open>
  \<open>picoquic_protect_packet\<close>. The encryption of the content is a parameter as well: it maps the content,
  the packet number and the header to the bytes that follow the header. \<open>bytes\<close> is the packet in clear
  with room for a header of \<open>header_length\<close>; \<open>fuzz\<close> is the hook \<open>fuzz_fn\<close> of the tests, if one is set.
\<close>

record aead_context =
  picoquic_aead_get_checksum_length :: nat
  picoquic_aead_encrypt_generic :: "u8 list \<Rightarrow> u64 \<Rightarrow> u8 list \<Rightarrow> u8 list"
  picoquic_aead_encrypt_mp :: "u8 list \<Rightarrow> u64 \<Rightarrow> u64 \<Rightarrow> u8 list \<Rightarrow> u8 list"

record protect_path =
  q_square :: u64
  nb_losses_found :: u64
  nb_losses_reported :: u64
  p_remote_sequence :: u64

abbreviation PICOQUIC_LOSS_BIT_Q_HALF_PERIOD :: u64 where "PICOQUIC_LOSS_BIT_Q_HALF_PERIOD \<equiv> 64"

text \<open>The loss bits, and which bits of the first byte are hidden.\<close>

definition set_loss_bits :: "packet_cnx \<Rightarrow> packet_type \<Rightarrow> u8 list \<Rightarrow> protect_path \<Rightarrow> u8 list \<times> u8 \<times> protect_path" where
  "set_loss_bits cnx pt buf path =
     (if pt = picoquic_packet_1rtt_protected then
        if is_loss_bit_enabled_outgoing cnx then
          let path = path\<lparr>q_square := q_square path + 1\<rparr>;
              buf = (if q_square path AND PICOQUIC_LOSS_BIT_Q_HALF_PERIOD \<noteq> 0 then buf[0 := (buf ! 0) OR 0x10] else buf)
          in if nb_losses_found path > nb_losses_reported path
             then (buf[0 := (buf ! 0) OR 0x08], 0x07, path\<lparr>nb_losses_reported := nb_losses_reported path + 1\<rparr>)
             else (buf, 0x07, path)
        else (buf, 0x1F, path)
      else (buf, 0x0F, path))"

definition picoquic_protect_packet ::
    "packet_cnx \<Rightarrow> packet_type \<Rightarrow> u8 list \<Rightarrow> u64 \<Rightarrow> nat \<Rightarrow> nat \<Rightarrow> nat \<Rightarrow> aead_context \<Rightarrow> pn_cipher \<Rightarrow> protect_path \<Rightarrow>
       bool \<Rightarrow> (u8 list \<Rightarrow> nat \<Rightarrow> nat \<Rightarrow> nat \<Rightarrow> u8 list \<times> nat) option \<Rightarrow> u64 \<Rightarrow> u64 \<Rightarrow>
       u8 list \<times> packet_cnx \<times> protect_path" where
  "picoquic_protect_packet cnx pt bytes sequence_number len header_length send_buffer_max aead pn_enc path multipath fuzz rnd1 rnd2 =
     (let checksum = picoquic_aead_get_checksum_length aead;
          (hdr, pn_offset, pn_length, cnx) = picoquic_create_packet_header cnx pt rnd1 rnd2 sequence_number header_length;
          h_length = length hdr;
          (hdr, first_mask, path) = set_loss_bits cnx pt hdr path;
          hdr = picoquic_update_payload_length hdr pn_offset (h_length - pn_length) (len + checksum);
          (bytes, len) = (case fuzz of
              None \<Rightarrow> (bytes, len)
            | Some f \<Rightarrow> f (if h_length = header_length then hdr @ drop header_length bytes else bytes)
                          (send_buffer_max - checksum) len header_length);
          hdr = (if fuzz \<noteq> None \<and> h_length = header_length then take header_length bytes else hdr);
          plain = take (len - header_length) (drop header_length bytes);
          sealed = (if multipath \<and> pt = picoquic_packet_1rtt_protected
                    then picoquic_aead_encrypt_mp aead plain (p_remote_sequence path) sequence_number hdr
                    else picoquic_aead_encrypt_generic aead plain sequence_number hdr)
      in (protect_header pn_enc first_mask (hdr @ sealed) pn_offset, cnx, path))"

text \<open>
  The part of the connection that the receiver consults: the ciphers of the epochs and the highest
  packet numbers received, of the context and of the path.
\<close>

record pn_context =
  pn_dec :: "epoch \<Rightarrow> pn_cipher option"
  is_multipath_enabled :: bool
  sack_list_last_pc :: "packet_context \<Rightarrow> u64"
  sack_list_last_l_cid :: u64

abbreviation PICOQUIC_ERROR_AEAD_NOT_READY :: int where "PICOQUIC_ERROR_AEAD_NOT_READY \<equiv> 0x429"

text \<open>The loop over the bytes of the packet number.\<close>

fun remove_pn_loop :: "u8 list \<Rightarrow> u8 list \<Rightarrow> u8 list \<times> packet_header \<times> u32 \<Rightarrow> u8 list \<times> packet_header \<times> u32" where
  "remove_pn_loop bytes [] s = s"
| "remove_pn_loop bytes (m # ms) (decrypted, ph, pn_val) =
     (let b = (bytes ! ph_offset ph) XOR m
      in remove_pn_loop bytes ms
           (decrypted[ph_offset ph := b],
            ph\<lparr>ph_offset := Suc (ph_offset ph), pnmask := push_bit 8 (pnmask ph)\<rparr>,
            push_bit 8 pn_val + ucast b))"

definition remove_fields :: "packet_cnx \<Rightarrow> pn_context \<Rightarrow> u8 \<Rightarrow> u32 \<Rightarrow> nat \<Rightarrow> packet_header \<Rightarrow> packet_header" where
  "remove_fields cnx ctx first_byte pn_val pn_l ph =
     (let one_rtt = (ptype ph = picoquic_packet_1rtt_protected);
          ph = ph\<lparr>ph_pn := pn_val, payload_length := payload_length ph - pn_l\<rparr>;
          ph = (if one_rtt then ph\<lparr>key_phase := bit first_byte 2\<rparr> else ph);
          highest = (if one_rtt \<and> is_multipath_enabled ctx then sack_list_last_l_cid ctx else sack_list_last_pc ctx (ph_pc ph));
          ph = ph\<lparr>pn64 := picoquic_get_packet_number64 highest (pnmask ph) (ph_pn ph)\<rparr>
      in ph\<lparr>has_reserved_bit_set :=
           (if first_byte AND 0x80 = 0 then \<not> is_loss_bit_enabled_incoming cnx \<and> first_byte AND 0x18 \<noteq> 0
            else first_byte AND 0x0C \<noteq> 0)\<rparr>)"

text \<open>The result, the decrypted bytes and the header.\<close>

definition picoquic_remove_header_protection ::
    "packet_cnx \<Rightarrow> pn_context \<Rightarrow> u8 list \<Rightarrow> u8 list \<Rightarrow> packet_header \<Rightarrow> int \<times> u8 list \<times> packet_header" where
  "picoquic_remove_header_protection cnx ctx bytes decrypted_bytes ph =
     (let len = ph_offset ph + payload_length ph;
          bad = ph\<lparr>ph_pn := 0xFFFFFFFF, pnmask := 0xFFFFFFFF00000000, ph_offset := pn_offset ph\<rparr>
      in case pn_dec ctx (ph_epoch ph) of
           None \<Rightarrow> (PICOQUIC_ERROR_AEAD_NOT_READY, decrypted_bytes, bad\<lparr>pn64 := UINT64_MAX\<rparr>)
         | Some pn_enc \<Rightarrow>
             let sample_offset = pn_offset ph + 4
             in if sample_offset + picoquic_pn_iv_size pn_enc > len then (0, decrypted_bytes, bad)
                else
                  let first_byte = bytes ! 0;
                      first_mask = (if first_byte AND 0x80 = 0x80 then 0x0F
                                    else if is_loss_bit_enabled_incoming cnx then 0x07 else 0x1F);
                      decrypted_bytes = take (pn_offset ph) bytes @ drop (pn_offset ph) decrypted_bytes;
                      mask_bytes = picoquic_pn_encrypt pn_enc (drop sample_offset bytes);
                      first_byte = first_byte XOR (mask_bytes ! 0 AND first_mask);
                      pn_l = unat (first_byte AND 3) + 1;
                      decrypted_bytes = decrypted_bytes[0 := first_byte];
                      (decrypted_bytes, ph, pn_val) =
                        remove_pn_loop bytes (take pn_l (drop 1 mask_bytes)) (decrypted_bytes, ph\<lparr>pnmask := UINT64_MAX\<rparr>, 0)
                  in (0, decrypted_bytes, remove_fields cnx ctx first_byte pn_val pn_l ph))"

section \<open>Uncovering what was hidden\<close>

lemma length_xor_bytes [simp]: "length (xor_bytes buf pos ms) = length buf"
  by (induction buf pos ms rule: xor_bytes.induct) simp_all

lemma nth_xor_bytes:
  "i < length buf \<Longrightarrow>
   xor_bytes buf pos ms ! i = (if pos \<le> i \<and> i < pos + length ms then (buf ! i) XOR (ms ! (i - pos)) else buf ! i)"
proof (induction buf pos ms rule: xor_bytes.induct)
  case (2 buf pos m ms)
  then show ?case by (cases "i = pos") (auto simp: nth_list_update nth_Cons' Suc_diff_Suc)
qed auto

lemma length_pn_encrypt [simp]: "length (picoquic_pn_encrypt c iv) = 5"
  by (simp add: picoquic_pn_encrypt_def)

text \<open>The value that the loop reads, and its state afterwards.\<close>

definition pn_value :: "u32 \<Rightarrow> u8 list \<Rightarrow> u32" where
  "pn_value = foldl (\<lambda>v b. push_bit 8 v + ucast b)"

lemma remove_pn_loop_run:
  assumes "ph_offset ph + length ms \<le> length bytes" "ph_offset ph + length ms \<le> length decrypted"
  shows "remove_pn_loop bytes ms (decrypted, ph, v) =
    (take (ph_offset ph) decrypted @ map2 (XOR) (drop (ph_offset ph) bytes) ms @ drop (ph_offset ph + length ms) decrypted,
     ph\<lparr>ph_offset := ph_offset ph + length ms, pnmask := push_bit (8 * length ms) (pnmask ph)\<rparr>,
     pn_value v (map2 (XOR) (drop (ph_offset ph) bytes) ms))"
  using assms
proof (induction ms arbitrary: decrypted ph v)
  case Nil
  then show ?case by (simp add: pn_value_def)
next
  case (Cons m ms)
  define b where "b = (bytes ! ph_offset ph) XOR m"
  have "drop (ph_offset ph) bytes = bytes ! ph_offset ph # drop (Suc (ph_offset ph)) bytes"
    using Cons.prems(1) by (simp add: Cons_nth_drop_Suc)
  then have bs: "map2 (XOR) (drop (ph_offset ph) bytes) (m # ms) = b # map2 (XOR) (drop (Suc (ph_offset ph)) bytes) ms"
    by (simp add: b_def)
  have "take (Suc (ph_offset ph)) (decrypted[ph_offset ph := b]) = take (ph_offset ph) decrypted @ [b]"
    using Cons.prems(2) by (simp add: take_Suc_conv_app_nth)
  moreover have "push_bit (8 * length ms) (push_bit 8 (pnmask ph)) = push_bit (8 + 8 * length ms) (pnmask ph)"
    by (simp add: push_bit_push_bit add.commute)
  ultimately show ?case
    using Cons.prems Cons.IH [of "ph\<lparr>ph_offset := Suc (ph_offset ph), pnmask := push_bit 8 (pnmask ph)\<rparr>" "decrypted[ph_offset ph := b]"
        "push_bit 8 v + ucast b"]
    unfolding bs by (simp add: b_def [symmetric] pn_value_def)
qed

lemma xor_cancel: "((a :: u8) XOR m) XOR m = a"
  by (rule bit_word_eqI) (auto simp: bit_simps)

text \<open>The first mask that the receiver chooses, which the hidden bits do not change.\<close>

definition receive_first_mask :: "packet_cnx \<Rightarrow> u8 \<Rightarrow> u8" where
  "receive_first_mask cnx first = (if first AND 0x80 = 0x80 then 0x0F else if is_loss_bit_enabled_incoming cnx then 0x07 else 0x1F)"

lemma masked_bits: "((f :: u8) XOR (m AND r)) AND k = (f AND k) XOR (m AND (r AND k))"
  by (rule bit_word_eqI) (auto simp: bit_simps)

lemma masked_top: "((f :: u8) XOR (m AND receive_first_mask cnx g)) AND 0x80 = f AND 0x80"
proof -
  have "receive_first_mask cnx g AND 0x80 = 0" by (simp add: receive_first_mask_def)
  then show ?thesis by (simp add: masked_bits)
qed

lemma masked_mask:
  "receive_first_mask cnx (f XOR (m AND receive_first_mask cnx f)) = receive_first_mask cnx f"
proof -
  have "a AND 0x80 = b AND 0x80 \<Longrightarrow> receive_first_mask cnx a = receive_first_mask cnx b" for a b
    by (simp add: receive_first_mask_def)
  then show ?thesis using masked_top [of f m cnx f] by blast
qed

lemma protect_remove:
  fixes buf :: "u8 list"
  defines "l \<equiv> unat (buf ! 0 AND 3) + 1"
  assumes c: "pn_dec ctx (ph_epoch ph) = Some c"
    and ph: "ph_offset ph = pn_offset ph" "0 < pn_offset ph"
    and len: "pn_offset ph + 4 + picoquic_pn_iv_size c \<le> length buf" "length buf \<le> pn_offset ph + payload_length ph" 
    and dec: "pn_offset ph + 4 \<le> length dec"
  shows "picoquic_remove_header_protection cnx ctx
      (protect_header c (receive_first_mask cnx (buf ! 0)) buf (pn_offset ph) @ trail) dec ph =
    (0, take (pn_offset ph + l) buf @ drop (pn_offset ph + l) dec,
     remove_fields cnx ctx (buf ! 0) (pn_value 0 (take l (drop (pn_offset ph) buf))) l
       (ph\<lparr>ph_offset := pn_offset ph + l, pnmask := number_mask l\<rparr>))"
proof -
  define k where "k = pn_offset ph"
  define fm where "fm = receive_first_mask cnx (buf ! 0)"
  define mask where "mask = picoquic_pn_encrypt c (drop (k + 4) buf)"
  define ms where "ms = take l (drop 1 mask)"
  define first where "first = (buf ! 0) XOR (mask ! 0 AND fm)"
  define bytes where "bytes = protect_header c fm buf k @ trail"
  have "unat (buf ! 0 AND 3) \<le> unat (3 :: u8)" using word_and_le1 [of "buf ! 0" 3] word_le_nat_alt by blast
  then have l: "1 \<le> l" "l \<le> 4" by (simp_all add: l_def)
  then have ms: "length ms = l" by (simp add: ms_def mask_def)
  have k: "0 < k" "k + 4 + picoquic_pn_iv_size c \<le> length buf" using ph len by (simp_all add: k_def)
  have bytes: "bytes = xor_bytes (buf[0 := first]) k ms @ trail"
    by (simp add: bytes_def protect_header_def Let_def mask_def ms_def first_def l_def)
  have lb: "length bytes = length buf + length trail" by (simp add: bytes)
  have "0 < length buf" using k by linarith
  then have b0: "bytes ! 0 = first" using k(1) by (simp add: bytes nth_append nth_xor_bytes)
  have sample: "drop (k + 4) bytes = drop (k + 4) buf @ trail"
  proof (rule nth_equalityI)
    show "length (drop (k + 4) bytes) = length (drop (k + 4) buf @ trail)" using k by (simp add: bytes)
    fix i assume "i < length (drop (k + 4) bytes)"
    then show "drop (k + 4) bytes ! i = (drop (k + 4) buf @ trail) ! i"
      using k l ms by (simp add: bytes nth_append nth_xor_bytes add.commute)
  qed
  have mask': "picoquic_pn_encrypt c (drop (k + 4) bytes) = mask"
    using k by (simp add: picoquic_pn_encrypt_def sample mask_def)
  have fm': "receive_first_mask cnx first = fm" unfolding first_def fm_def by (rule masked_mask)
  have plain: "map2 (XOR) (drop k bytes) ms = take l (drop k buf)"
  proof (rule nth_equalityI)
    show "length (map2 (XOR) (drop k bytes) ms) = length (take l (drop k buf))" using k l ms by (simp add: bytes)
    fix i assume i: "i < length (map2 (XOR) (drop k bytes) ms)"
    then have "i < l" "k + i < length buf" "i < length buf - k" using k l ms by auto
    then show "map2 (XOR) (drop k bytes) ms ! i = take l (drop k buf) ! i"
      using i k ms by (simp add: bytes nth_append nth_xor_bytes xor_cancel)
  qed
  have first': "first XOR (mask ! 0 AND fm) = buf ! 0" by (simp add: first_def xor_cancel)
  have head: "(take k bytes @ drop k dec)[0 := buf ! 0] = take k buf @ drop k dec"
  proof (rule nth_equalityI)
    show "length ((take k bytes @ drop k dec)[0 := buf ! 0]) = length (take k buf @ drop k dec)" using k by (simp add: bytes)
    fix i assume "i < length ((take k bytes @ drop k dec)[0 := buf ! 0])"
    then show "(take k bytes @ drop k dec)[0 := buf ! 0] ! i = (take k buf @ drop k dec) ! i"
      using k by (cases i) (simp_all add: bytes nth_append nth_xor_bytes)
  qed
  have loop: "remove_pn_loop bytes ms (take k buf @ drop k dec, ph\<lparr>pnmask := UINT64_MAX\<rparr>, 0) =
    (take (k + l) buf @ drop (k + l) dec, ph\<lparr>ph_offset := k + l, pnmask := number_mask l\<rparr>, pn_value 0 (take l (drop k buf)))"
    using remove_pn_loop_run [of "ph\<lparr>pnmask := UINT64_MAX\<rparr>" ms bytes "take k buf @ drop k dec" 0] k l ms dec ph
    by (simp add: plain k_def [symmetric] lb take_add number_mask_def add.commute)
  have "\<not> k + 4 + picoquic_pn_iv_size c > k + payload_length ph" using k len by (simp add: k_def)
  then show ?thesis unfolding k_def [symmetric] fm_def [symmetric] bytes_def [symmetric]
    unfolding picoquic_remove_header_protection_def Let_def c k_def [symmetric] ph(1) mask' option.case
      b0 receive_first_mask_def [symmetric] fm' first' l_def [symmetric] ms_def [symmetric] head loop
    by (simp only: split_conv if_False)
qed

end
