(* ===== verification/LongHeader.thy ===== *)
theory LongHeader
  imports HeaderProtection
begin

text \<open>
  A long header that \<open>picoquic_create_packet_header\<close> writes and \<open>picoquic_update_payload_length\<close>
  completes is parsed back, also when its first byte and its packet number are hidden.
\<close>

section \<open>Parsing what was written\<close>

lemma uint32_decode_format: "picoquic_frames_uint32_decode (picoformat_32 n @ rest) = Some (n, rest)"
  using picoparse_format_32 [of n rest] by (simp add: picoquic_frames_uint32_decode_def)

definition long_pc :: "packet_type \<Rightarrow> packet_context" where
  "long_pc t = (if t = picoquic_packet_initial then picoquic_packet_context_initial
     else if t = picoquic_packet_handshake then picoquic_packet_context_handshake else picoquic_packet_context_application)"

definition long_epoch :: "packet_type \<Rightarrow> epoch" where
  "long_epoch t = (if t = picoquic_packet_initial then picoquic_epoch_initial
     else if t = picoquic_packet_handshake then picoquic_epoch_handshake else picoquic_epoch_0rtt)"

text \<open>What the parser has to find.\<close>

definition parsed_long :: "packet_type \<Rightarrow> int \<Rightarrow> connection_id \<Rightarrow> connection_id \<Rightarrow> u8 list \<Rightarrow> nat \<Rightarrow> nat \<Rightarrow> packet_header \<Rightarrow> bool" where
  "parsed_long t vi dest srce tok off n ph \<longleftrightarrow>
     ptype ph = t \<and> ph_version_index ph = vi \<and> ph_vn ph = fst (picoquic_supported_versions ! nat vi) \<and>
     dest_cnx_id ph = dest \<and> srce_cnx_id ph = srce \<and>
     (t = picoquic_packet_initial \<longrightarrow> token_bytes ph = tok \<and> token_length ph = length tok) \<and>
     ph_offset ph = off \<and> pn_offset ph = off \<and> payload_length ph = n \<and> pl_val ph = n \<and>
     ph_epoch ph = long_epoch t \<and> ph_pc ph = long_pc t"

definition token_part :: "packet_type \<Rightarrow> nat \<Rightarrow> u8 list \<Rightarrow> u8 list" where
  "token_part t m tok = (if t = picoquic_packet_initial then picoquic_varint_encode m (of_nat (length tok)) @ tok else [])"

lemma long_header_type_written:
  assumes "protected_long t" "ptype ph = t" "length tok < 2 ^ 16" "8 \<le> m" 
    "ph_offset ph = length packet - length (token_part t m tok @ rest)"
  shows "\<exists>ph'. long_header_type packet (token_part t m tok @ rest) ph = (ph', Some rest) \<and> ptype ph' = t \<and>
    ph_version_index ph' = ph_version_index ph \<and> ph_vn ph' = ph_vn ph \<and> dest_cnx_id ph' = dest_cnx_id ph \<and>
    srce_cnx_id ph' = srce_cnx_id ph \<and> (t = picoquic_packet_initial \<longrightarrow> token_bytes ph' = tok \<and> token_length ph' = length tok) \<and>
    ph_offset ph' = length packet - length rest \<and> ph_epoch ph' = long_epoch t \<and> ph_pc ph' = long_pc t \<and>
    quic_bit_is_zero ph' = quic_bit_is_zero ph"
proof -
  have u: "unat (of_nat (length tok) :: u64) = length tok" using assms(3) by (intro of_nat_inverse) simp_all
  have "picoquic_encode_varint_length (of_nat (length tok)) \<le> m"
    using assms(4) by (simp add: picoquic_encode_varint_length_def)
  from varlen_decode_encoded [OF _ this, of "tok @ rest"] u assms(3)
  have d: "picoquic_frames_varlen_decode (picoquic_varint_encode m (of_nat (length tok)) @ tok @ rest) =
    Some (of_nat (length tok), tok @ rest)" by simp
  show ?thesis using assms(1,2,5) d u
    by (auto simp: protected_long_def token_part_def long_header_type_def long_epoch_def long_pc_def Let_def)
qed

lemma parse_long_payload_written:
  assumes "quic_ok quic" "version_known vi" "protected_long t" "length tok < 2 ^ 16" "8 \<le> m" "length rest < 0x4000"
    and ph: "ph_version_index ph = vi" "ph_vn ph = fst (picoquic_supported_versions ! nat vi)"
      "dest_cnx_id ph = dest" "cid_array dest" "srce_cnx_id ph = srce"
    and b: "bytes = token_part t m tok @ picoquic_varint_encode_16 (of_nat (length rest)) @ rest @ trail"
      "ph_offset ph = length packet - length bytes"
    and flags: "flags AND 0xF0 = picoquic_create_long_packet_type t vi AND 0xF0"
  shows "\<exists>ph' p. parse_long_payload quic packet addr flags bytes ph pcnx = Some (ph', p) \<and>
    parsed_long t vi dest srce tok (length packet - length (rest @ trail)) (length rest) ph'"
proof -
  have cut: "(f AND 0xF0) AND 0x40 = f AND 0x40" "drop_bit 4 (f AND 0xF0) AND 3 = drop_bit 4 f AND 3" for f :: u8
    by (simp_all add: drop_bit_and and.assoc)
  have t: "picoquic_parse_long_packet_type flags vi = t"
    using long_type_roundtrip(1) [OF assms(2,3)] arg_cong [OF flags, of "\<lambda>f. drop_bit 4 f AND 3"]
    unfolding cut by (simp add: picoquic_parse_long_packet_type_def)
  have q: "flags AND 0x40 \<noteq> 0"
    using long_type_roundtrip(3) [OF assms(2,3)] arg_cong [OF flags, of "\<lambda>f. f AND 0x40"] unfolding cut by simp
  define ph0 where "ph0 = ph\<lparr>ph_spin := False, has_spin_bit := False, quic_bit_is_zero := False, ptype := t\<rparr>"
  define b1 where "b1 = picoquic_varint_encode_16 (of_nat (length rest)) @ rest @ trail"
  obtain ph1 where ph1: "long_header_type packet bytes ph0 = (ph1, Some b1)" "ptype ph1 = t" "ph_version_index ph1 = vi"
      "ph_vn ph1 = fst (picoquic_supported_versions ! nat vi)" "dest_cnx_id ph1 = dest" "srce_cnx_id ph1 = srce"
      "t = picoquic_packet_initial \<longrightarrow> token_bytes ph1 = tok \<and> token_length ph1 = length tok"
      "ph_epoch ph1 = long_epoch t" "ph_pc ph1 = long_pc t" "\<not> quic_bit_is_zero ph1"
    using long_header_type_written [OF assms(3) _ assms(4,5), of ph0 packet b1] ph b by (auto simp: ph0_def b1_def)
  have t': "t \<noteq> picoquic_packet_retry" "t \<noteq> picoquic_packet_error" using assms(3) by (auto simp: protected_long_def)
  have u: "unat (of_nat (length rest) :: u64) = length rest" using assms(6) by (intro of_nat_inverse) simp_all
  have "picoquic_frames_varlen_decode b1 = Some (of_nat (length rest), rest @ trail)"
    unfolding b1_def by (rule varlen_decode_16 [OF assms(6)])
  then have l: "long_header_length packet (Some b1) ph1 = (ph1, Some (rest @ trail), length rest)"
    using t' u ph1(2,3) assms(2) by (simp add: long_header_length_def version_known_def)
  define ph2 where "ph2 = ph1\<lparr>pl_val := length rest, payload_length := length rest, ph_offset := length packet - length (rest @ trail),
    pn_offset := length packet - length (rest @ trail)\<rparr>"
  have "cid_array (dest_cnx_id ph2)" using ph1(5) ph(4) by (simp add: ph2_def)
  from find_cnx_returns [OF assms(1) this, of addr pcnx] obtain ph3 p where
    ph3: "find_cnx quic addr ph2 pcnx = Some (ph3, p)" "same_header ph2 ph3" by blast
  note f = same_header_fields [OF ph3(2)]
  have "cid_array (dest_cnx_id ph3)" using f(4) ph1(5) ph(4) by (simp add: ph2_def)
  from cnx_by_icid_returns [OF assms(1) this, of addr] obtain p' where
    p': "(if p = None \<and> local_cnxid_length quic \<noteq> 0 \<and> (ptype ph3 = picoquic_packet_initial \<or> ptype ph3 = picoquic_packet_0rtt_protected)
          then picoquic_cnx_by_icid quic (dest_cnx_id ph3) addr else Some p) = Some p'" by (metis (full_types))
  have n: "take_bit 16 (length rest) = length rest" using assms(6) by (simp add: take_bit_nat_eq_self)
  have "\<not> quic_bit_is_zero ph3" using f(7) ph1(10) by (simp add: ph2_def)
  then have "parse_long_payload quic packet addr flags bytes ph pcnx = Some (ph3, p')"
    using ph1(1,2) t' l ph3(1) p' n t q ph(1)
    by (simp add: parse_long_payload_def ph0_def [symmetric] ph2_def [symmetric, simplified] Let_def split: option.splits)
  moreover have "parsed_long t vi dest srce tok (length packet - length (rest @ trail)) (length rest) ph3"
    using f ph1 by (simp add: parsed_long_def ph2_def)
  ultimately show ?thesis by blast
qed

lemma parse_long_written:
  assumes "quic_ok quic" "version_known vi" "protected_long t" "length tok < 2 ^ 16" "8 \<le> m" "length rest < 0x4000"
    "cid_ok dest" "cid_ok srce"
    and flags: "flags AND 0xF0 = picoquic_create_long_packet_type t vi AND 0xF0"
    and packet: "packet = flags # picoformat_32 (fst (picoquic_supported_versions ! nat vi)) @ cid_len dest # cid_bytes dest @
      cid_len srce # cid_bytes srce @ token_part t m tok @ picoquic_varint_encode_16 (of_nat (length rest)) @ rest @ trail"
  shows "\<exists>ph p. picoquic_parse_packet_header quic packet addr pcnx receiving = Some (0, ph, p) \<and>
    parsed_long t vi dest srce tok (length packet - length (rest @ trail)) (length rest) ph"
proof -
  define vn where "vn = fst (picoquic_supported_versions ! nat vi)"
  define bytes where "bytes = token_part t m tok @ picoquic_varint_encode_16 (of_nat (length rest)) @ rest @ trail"
  define ph where "ph = packet_header_zero\<lparr>ph_vn := vn, ph_version_index := vi, dest_cnx_id := dest, srce_cnx_id := srce,
    ph_offset := length packet - length bytes\<rparr>"
  have v: "vn \<noteq> 0" "picoquic_get_version_index vn = vi" "\<not> vi < 0"
    using version_known_cases(2,3) [OF assms(2)] assms(2) by (simp_all add: vn_def version_known_def)
  have cut: "(f AND 0xF0) AND 0x80 = f AND 0x80" for f :: u8 by (simp add: and.assoc)
  have long: "hd packet AND 0x80 = 0x80"
    using long_type_roundtrip(2) [OF assms(2,3)] arg_cong [OF flags, of "\<lambda>f. f AND 0x80"] packet unfolding cut by simp
  have "cid_array dest" using assms(7) by (simp add: cid_ok_def cid_array_def)
  then obtain ph' p where r: "parse_long_payload quic packet addr flags bytes ph pcnx = Some (ph', p)"
      "parsed_long t vi dest srce tok (length packet - length (rest @ trail)) (length rest) ph'"
    using parse_long_payload_written [OF assms(1-6), where ph = ph and dest = dest and srce = srce and bytes = bytes and packet = packet
      and flags = flags and addr = addr and pcnx = pcnx and trail = trail] flags
    by (auto simp: ph_def bytes_def vn_def)
  have u8: "picoquic_frames_uint8_decode packet =
    Some (flags, picoformat_32 vn @ cid_len dest # cid_bytes dest @ cid_len srce # cid_bytes srce @ bytes)"
    by (simp add: packet picoquic_frames_uint8_decode_def vn_def bytes_def)
  have "parse_long_body quic packet addr flags bytes
      (packet_header_zero\<lparr>ph_vn := vn, ph_version_index := vi, dest_cnx_id := dest, srce_cnx_id := srce\<rparr>) pcnx = Some (ph', p)"
    using v r(1) by (simp add: parse_long_body_def ph_def)
  then have "picoquic_parse_packet_header quic packet addr pcnx receiving = Some (0, ph', p)"
    using long packet v u8
    by (simp add: picoquic_parse_packet_header_def picoquic_parse_long_packet_header_def uint32_decode_format
      parse_long_cids_def decode_cid_encoded [OF assms(7)] decode_cid_encoded [OF assms(8)])
  then show ?thesis using r(2) by blast
qed

end
