(* ===== verification/HeaderTransport.thy ===== *)
theory HeaderTransport
  imports LongHeader
begin

text \<open>
  From the sender to the receiver: the packets that \<open>picoquic_protect_packet\<close> makes, with long headers
  and with short headers, are parsed and uncovered to the same header and the same packet number.
\<close>

section \<open>Packet numbers in headers\<close>

lemma pn_value_1: "pn_value 0 [ucast n] = ucast (take_bit 8 (n :: u64))"
  unfolding pn_value_def by (simp, rule bit_word_eqI) (auto simp: bit_simps)

lemma push_plus: "push_bit 8 (v :: u32) + ucast (b :: u8) = push_bit 8 v OR ucast b"
  by (rule disjunctive_add) (auto simp: bit_simps dest: bit_imp_le_length)

lemma pn_value_bytes:
  "pn_value 0 [ucast (n :: u64)] = ucast (take_bit (8 * 1) n)"
  "pn_value 0 (picoformat_16 (ucast n)) = ucast (take_bit (8 * 2) n)"
  "pn_value 0 (picoformat_24 (ucast n)) = ucast (take_bit (8 * 3) n)"
  "pn_value 0 (picoformat_32 (ucast n)) = ucast (take_bit (8 * 4) n)"
  unfolding pn_value_def picoformat_16_def picoformat_24_def picoformat_32_def
  by (simp_all only: foldl.simps push_plus) (rule bit_word_eqI; force simp: bit_simps)+

section \<open>The shape of a long header\<close>

lemma create_long_bytes:
  fixes cnx t
  defines "dest \<equiv> header_dest_cnx_id cnx t" and "srce \<equiv> pc_local_cnxid cnx"
  defines "m \<equiv> PICOQUIC_MAX_PACKET_SIZE - (7 + unat (cid_len dest) + unat (cid_len srce))"
  assumes "protected_long t" "\<not> pc_do_grease_quic_bit cnx" "cid_ok dest" "cid_ok srce"
    "pc_init_state cnx \<longrightarrow> pc_proposed_version cnx = fst (picoquic_supported_versions ! nat (pc_version_index cnx))"
  shows "picoquic_create_packet_header cnx t r1 r2 n hl =
    (let pre = picoquic_create_long_packet_type t (pc_version_index cnx) #
       picoformat_32 (fst (picoquic_supported_versions ! nat (pc_version_index cnx))) @
       cid_len dest # cid_bytes dest @ cid_len srce # cid_bytes srce @ token_part t m (pc_retry_token cnx)
     in (pre @ [0, 0] @ picoformat_32 (ucast n), length pre + 2, 4, cnx))" and "8 \<le> m"
proof -
  have len: "unat (cid_len dest) \<le> 20" "unat (cid_len srce) \<le> 20" using assms(6,7) by (simp_all add: cid_ok_def)
  then show "8 \<le> m" by (simp add: m_def)
  have t: "t \<noteq> picoquic_packet_1rtt_protected" "t \<noteq> picoquic_packet_retry" using assms(4) by (auto simp: protected_long_def)
  have f1: "snd (picoquic_format_connection_id (PICOQUIC_MAX_PACKET_SIZE - 6) dest) = cid_bytes dest"
    by (simp add: format_cid [OF assms(6)])
  have f2: "snd (picoquic_format_connection_id (PICOQUIC_MAX_PACKET_SIZE - (7 + unat (cid_len dest))) srce) = cid_bytes srce"
    using len by (simp add: format_cid [OF assms(7)])
  show "picoquic_create_packet_header cnx t r1 r2 n hl =
    (let pre = picoquic_create_long_packet_type t (pc_version_index cnx) #
       picoformat_32 (fst (picoquic_supported_versions ! nat (pc_version_index cnx))) @
       cid_len dest # cid_bytes dest @ cid_len srce # cid_bytes srce @ token_part t m (pc_retry_token cnx)
     in (pre @ [0, 0] @ picoformat_32 (ucast n), length pre + 2, 4, cnx))"
    using t f1 f2 assms(5,8) cid_bytes_length [OF assms(6)] cid_bytes_length [OF assms(7)]
    by (auto simp: picoquic_create_packet_header_def long_header_def dest_def [symmetric] srce_def [symmetric]
      token_part_def m_def Let_def length_picoformat)
qed


lemma long_type_reserved:
  "version_known i \<Longrightarrow> protected_long t \<Longrightarrow> picoquic_create_long_packet_type t i AND 0x0C = 0"
  using version_known_cases(1) [of i]
  by (auto simp: protected_long_def picoquic_create_long_packet_type_def Let_def version_known_def)

section \<open>The length that was predicted\<close>

lemma varint_length_fits: "picoquic_encode_varint_length n \<le> 8"
  by (simp add: picoquic_encode_varint_length_def)

lemma predict_long:
  assumes "protected_long t" "\<not> pc_do_grease_quic_bit cnx" "cid_ok (header_dest_cnx_id cnx t)" "cid_ok (pc_local_cnxid cnx)"
    "pc_init_state cnx \<longrightarrow> pc_proposed_version cnx = fst (picoquic_supported_versions ! nat (pc_version_index cnx))"
  shows "length (fst (picoquic_create_packet_header cnx t r1 r2 n hl)) = picoquic_predict_packet_header_length cnx t n oldest"
proof -
  have t: "t \<noteq> picoquic_packet_1rtt_protected" using assms(1) by (auto simp: protected_long_def)
  have v: "length (picoquic_varint_encode m x) = picoquic_encode_varint_length x" if "8 \<le> m" for m x
    using that varint_length_fits [of x] by (simp add: length_varint_encode)
  have d: "header_dest_cnx_id cnx t = (if pc_client_mode cnx \<and> (t = picoquic_packet_initial \<or> t = picoquic_packet_0rtt_protected) \<and>
                       picoquic_is_connection_id_null (pc_remote_cnxid cnx)
                    then pc_initial_cnxid cnx else pc_remote_cnxid cnx)" by (simp add: header_dest_cnx_id_def)
  show ?thesis
    unfolding create_long_bytes(1) [OF assms, of r1 r2 n hl] picoquic_predict_packet_header_length_def d [symmetric]
    using t v [OF create_long_bytes(2) [OF assms]] cid_bytes_length [OF assms(3)] cid_bytes_length [OF assms(4)]
    by (cases "t = picoquic_packet_initial") (simp_all add: token_part_def Let_def v)
qed

lemma predict_short:
  fixes n :: u64 and oldest :: "u64 option"
  assumes "cid_ok (pc_remote_cnxid cnx)"
  defines "hl \<equiv> picoquic_predict_packet_header_length cnx picoquic_packet_1rtt_protected n oldest"
  shows "length (fst (picoquic_create_packet_header cnx picoquic_packet_1rtt_protected r1 r2 n hl)) = hl"
proof -
  have f: "picoquic_format_connection_id (PICOQUIC_MAX_PACKET_SIZE - 1) (pc_remote_cnxid cnx) =
    (cid_len (pc_remote_cnxid cnx), cid_bytes (pc_remote_cnxid cnx))" by (simp add: format_cid [OF assms(1)])
  define l :: nat where "l = (if sint (case oldest of None \<Rightarrow> n | Some o' \<Rightarrow> n - o') < 262144
    then if n < 1024 then if n < 16 then 1 else 2 else 3 else 4)"
  have l: "l \<in> {1, 2, 3, 4}" "hl = 1 + unat (cid_len (pc_remote_cnxid cnx)) + l"
    by (simp_all add: l_def hl_def picoquic_predict_packet_header_length_def Let_def)
  have "length (fst (short_header cnx r1 r2 n (1 + unat (cid_len (pc_remote_cnxid cnx)) + l))) = 1 + unat (cid_len (pc_remote_cnxid cnx)) + l"
    using l(1) f cid_bytes_length [OF assms(1)] by (auto simp: short_header_def Let_def)
  then show ?thesis unfolding l(2) by (simp add: picoquic_create_packet_header_def)
qed

section \<open>Long headers, from end to end\<close>

text \<open>What the completed header is, and what surrounds it.\<close>

lemma update_long:
  assumes "hd pre AND 0x80 = 0x80" "6 < length pre + 2" "length pre + 2 < len" "len < 0x4000"
  shows "picoquic_update_payload_length (pre @ [0, 0] @ pn) (length pre + 2) (length pre + 2) len =
    pre @ picoquic_varint_encode_16 (of_nat (len - (length pre + 2))) @ pn"
proof -
  have "pre \<noteq> []" using assms(2) by auto
  then show ?thesis using assms by (simp add: picoquic_update_payload_length_def)
qed

text \<open>The hidden first byte of a long header differs in its four low bits only.\<close>

lemma hidden_first: "((f :: u8) XOR (m AND 0x0F)) AND 0xF0 = f AND 0xF0"
  by (simp add: masked_bits)

lemma protect_header_shape:
  fixes buf :: "u8 list"
  defines "l \<equiv> unat (buf ! 0 AND 3) + 1"
  assumes "0 < pos" "pos + l \<le> length buf"
  shows "\<exists>pn'. length pn' = l \<and> protect_header c fm buf pos =
    ((buf ! 0) XOR (picoquic_pn_encrypt c (drop (pos + 4) buf) ! 0 AND fm)) # take (pos - 1) (tl buf) @ pn' @ drop (pos + l) buf"
proof -
  define first where "first = (buf ! 0) XOR (picoquic_pn_encrypt c (drop (pos + 4) buf) ! 0 AND fm)"
  define ms where "ms = take l (drop 1 (picoquic_pn_encrypt c (drop (pos + 4) buf)))"
  define out where "out = xor_bytes (buf[0 := first]) pos ms"
  have ms: "length ms \<le> l" by (simp add: ms_def)
  have len: "length out = length buf" by (simp add: out_def)
  have out: "protect_header c fm buf pos = out" by (simp add: protect_header_def out_def first_def ms_def l_def Let_def)
  have n: "out ! i = (if pos \<le> i \<and> i < pos + length ms then (buf[0 := first]) ! i XOR ms ! (i - pos) else (buf[0 := first]) ! i)"
    if "i < length buf" for i using that by (simp add: out_def nth_xor_bytes)
  have "buf \<noteq> []" using assms by auto
  have head: "take pos out = first # take (pos - 1) (tl buf)"
  proof (rule nth_equalityI)
    show "length (take pos out) = length (first # take (pos - 1) (tl buf))" using assms len by simp
    fix i assume "i < length (take pos out)"
    then show "take pos out ! i = (first # take (pos - 1) (tl buf)) ! i"
      using assms len n [of i] \<open>buf \<noteq> []\<close> by (cases i) (auto simp: nth_tl)
  qed
  have last: "drop (pos + l) out = drop (pos + l) buf"
    by (rule nth_equalityI) (use assms len n ms in simp_all)
  have "out = take pos out @ take l (drop pos out) @ drop (pos + l) out"
    by (metis append_take_drop_id drop_drop add.commute)
  then have "out = first # take (pos - 1) (tl buf) @ take l (drop pos out) @ drop (pos + l) buf" unfolding head last by simp
  moreover have "length (take l (drop pos out)) = l" using assms len by simp
  ultimately show ?thesis unfolding out first_def by blast
qed

lemma protect_header_drop:
  fixes buf :: "u8 list"
  defines "l \<equiv> unat (buf ! 0 AND 3) + 1"
  assumes "0 < pos" "pos + l \<le> length buf"
  shows "drop (pos + l) (protect_header c fm buf pos @ trail) = drop (pos + l) buf @ trail"
proof -
  obtain first pn' where p: "length pn' = l" "protect_header c fm buf pos = first # take (pos - 1) (tl buf) @ pn' @ drop (pos + l) buf"
    using protect_header_shape [OF assms(2) assms(3) [unfolded l_def]] unfolding l_def by blast
  have "length (first # take (pos - 1) (tl buf) @ pn') = pos + l" using p(1) assms by simp
  then have "drop (pos + l) ((first # take (pos - 1) (tl buf) @ pn') @ drop (pos + l) buf @ trail) = drop (pos + l) buf @ trail"
    by (metis append_eq_conv_conj)
  then show ?thesis by (simp add: p(2))
qed

text \<open>
  What the receiver is to get out of a packet: with the bytes that it uncovers as the header, the bytes
  behind them are the content, sealed under that header and that packet number.
\<close>

definition uncovered :: "packet_cnx \<Rightarrow> pn_context \<Rightarrow> u8 list \<Rightarrow> u8 list \<Rightarrow> packet_header \<Rightarrow>
    aead_context \<Rightarrow> u8 list \<Rightarrow> u64 \<Rightarrow> bool \<Rightarrow> bool" where
  "uncovered rcnx ctx packet dec ph aead content n key \<longleftrightarrow>
     (case picoquic_remove_header_protection rcnx ctx packet dec ph of (ret, dec', ph') \<Rightarrow>
        ret = 0 \<and> pn64 ph' = n \<and> \<not> has_reserved_bit_set ph' \<and>
        (ptype ph = picoquic_packet_1rtt_protected \<longrightarrow> key_phase ph' = key) \<and>
        take (payload_length ph') (drop (ph_offset ph') packet) =
          picoquic_aead_encrypt_generic aead content n (take (ph_offset ph') dec'))"

text \<open>Documented behaviour of the encryption: it adds the checksum.\<close>

definition aead_lengths :: "aead_context \<Rightarrow> bool" where
  "aead_lengths aead \<longleftrightarrow> (\<forall>p n h. length (picoquic_aead_encrypt_generic aead p n h) = length p + picoquic_aead_get_checksum_length aead)"

lemma header_uncovered:
  fixes buf :: "u8 list"
  assumes c: "pn_dec ctx (ph_epoch ph) = Some c"
    and ph: "ph_offset ph = off" "pn_offset ph = off" "payload_length ph = l + length sealed"
      "\<not> (ptype ph = picoquic_packet_1rtt_protected \<and> is_multipath_enabled ctx)"
    and key: "ptype ph = picoquic_packet_1rtt_protected \<longrightarrow> key = bit (hd pre) 2"
    and buf: "buf = pre @ pn @ sealed" "length pre = off" "0 < off" "length pn = l" "unat (hd pre AND 3) + 1 = l"
    and pnv: "pn_value 0 pn = ucast (take_bit (8 * l) n)"
    and reserved: "if hd pre AND 0x80 = 0 then is_loss_bit_enabled_incoming rcnx \<or> hd pre AND 0x18 = 0 else hd pre AND 0x0C = 0"
    and sealed: "sealed = picoquic_aead_encrypt_generic aead content n (pre @ pn)"
    and iv: "4 + picoquic_pn_iv_size c \<le> l + length sealed"
    and dec: "off + 4 \<le> length dec"
    and window: "unat (sack_list_last_pc ctx (ph_pc ph) + 1) \<le> unat n + 2 ^ (8 * l) div 2"
      "unat n < unat (sack_list_last_pc ctx (ph_pc ph) + 1) + 2 ^ (8 * l) div 2"
  shows "uncovered rcnx ctx (protect_header c (receive_first_mask rcnx (hd pre)) buf off @ trail) dec ph aead content n key"
proof -
  have "pre \<noteq> []" using buf by auto
  then have b0: "buf ! 0 = hd pre" using buf by (cases pre) simp_all
  have l: "unat (buf ! 0 AND 3) + 1 = l" unfolding b0 by (rule buf(5))
  have "unat (hd pre AND 3) \<le> unat (3 :: u8)" using word_and_le1 [of "hd pre" 3] word_le_nat_alt by blast
  then have l4: "l \<in> {1, 2, 3, 4}" using buf(5) by auto
  have off: "off + l \<le> length buf" using buf(1,2,4) by simp
  define packet where "packet = protect_header c (receive_first_mask rcnx (hd pre)) buf off @ trail"
  have parts: "take l (drop off buf) = pn" "take (off + l) buf = pre @ pn" using buf(1,2,4) by simp_all
  have run: "picoquic_remove_header_protection rcnx ctx packet dec ph =
    (0, pre @ pn @ drop (off + l) dec,
     remove_fields rcnx ctx (hd pre) (ucast (take_bit (8 * l) n)) l (ph\<lparr>ph_offset := off + l, pnmask := number_mask l\<rparr>))"
  proof -
    have "off + 4 + picoquic_pn_iv_size c \<le> length buf" "length buf \<le> off + payload_length ph" using ph(3) buf(1,2,4) iv by simp_all
    then show ?thesis using buf(3) dec
      protect_remove [OF c, of buf dec rcnx trail, unfolded l, unfolded ph(1,2) parts pnv b0, OF refl] by (simp add: packet_def)
  qed
  have "picoquic_get_packet_number64 (sack_list_last_pc ctx (ph_pc ph)) (number_mask l) (ucast (take_bit (8 * l) n)) = n"
    using l4 window by (rule packet_number_window)
  moreover have "take (length sealed) (drop (off + l) packet) = sealed"
    using protect_header_drop [OF buf(3) off [folded l]] unfolding packet_def l by (simp add: buf(1,2,4))
  moreover have "take (off + l) (pre @ pn @ drop (off + l) dec) = pre @ pn" using buf(2,4) by simp
  ultimately show ?thesis unfolding uncovered_def packet_def [symmetric] run
    using ph(3,4) buf(2,4) reserved sealed key by (auto simp: remove_fields_def Let_def)
qed

lemma long_header_transported:
  fixes content :: "u8 list" and n :: u64 and oldest :: "u64 option" and t :: packet_type and cnx :: packet_cnx
  defines "hl \<equiv> picoquic_predict_packet_header_length cnx t n oldest"
  assumes quic: "quic_ok quic" and known: "version_known (pc_version_index cnx)" and t: "protected_long t"
    and cnx: "\<not> pc_do_grease_quic_bit cnx" "cid_ok (header_dest_cnx_id cnx t)" "cid_ok (pc_local_cnxid cnx)"
      "pc_init_state cnx \<longrightarrow> pc_proposed_version cnx = fst (picoquic_supported_versions ! nat (pc_version_index cnx))"
    and tok: "length (pc_retry_token cnx) < 2 ^ 16"
    and aead: "aead_lengths aead"
    and len: "hl + length content + picoquic_aead_get_checksum_length aead < 0x4000"
    and room: "length room = hl"
    and c: "pn_dec ctx (long_epoch t) = Some c" "picoquic_pn_iv_size c \<le> length content + picoquic_aead_get_checksum_length aead"
    and window: "unat (sack_list_last_pc ctx (long_pc t) + 1) \<le> unat n + 2 ^ 31" "unat n < unat (sack_list_last_pc ctx (long_pc t) + 1) + 2 ^ 31"
    and dec: "hl \<le> length dec"
  shows "\<exists>sent cnx' path' ph p.
    picoquic_protect_packet cnx t (room @ content) n (hl + length content) hl buffer_max aead c path multipath None r1 r2 = (sent, cnx', path') \<and>
    picoquic_parse_packet_header quic (sent @ trail) addr pcnx receiving = Some (0, ph, p) \<and>
    parsed_long t (pc_version_index cnx) (header_dest_cnx_id cnx t) (pc_local_cnxid cnx) (pc_retry_token cnx) (hl - 4)
      (4 + length content + picoquic_aead_get_checksum_length aead) ph \<and>
    uncovered rcnx ctx (sent @ trail) dec ph aead content n key"
proof -
  define dest where "dest = header_dest_cnx_id cnx t"
  define srce where "srce = pc_local_cnxid cnx"
  define vi where "vi = pc_version_index cnx"
  define tok where "tok = pc_retry_token cnx"
  define m where "m = PICOQUIC_MAX_PACKET_SIZE - (7 + unat (cid_len dest) + unat (cid_len srce))"
  define first where "first = picoquic_create_long_packet_type t vi"
  define mid where "mid = picoformat_32 (fst (picoquic_supported_versions ! nat vi)) @ cid_len dest # cid_bytes dest @
    cid_len srce # cid_bytes srce @ token_part t m tok"
  define pre where "pre = (first # mid) @ picoquic_varint_encode_16 (of_nat (hl + length content + picoquic_aead_get_checksum_length aead - (hl - 4)))"
  have m: "8 \<le> m" unfolding m_def dest_def srce_def by (rule create_long_bytes(2) [OF t cnx])
  have create: "picoquic_create_packet_header cnx t r1 r2 n hl =
    ((first # mid) @ [0, 0] @ picoformat_32 (ucast n), length (first # mid) + 2, 4, cnx)"
    using create_long_bytes(1) [OF t cnx, of r1 r2 n hl]
    by (simp add: mid_def first_def vi_def dest_def srce_def tok_def m_def Let_def)
  have hl: "hl = length (first # mid) + 6"
    using predict_long [OF t cnx, of r1 r2 n hl oldest] create by (simp add: hl_def)
  have mid6: "6 \<le> length mid" by (simp add: mid_def)
  have type: "first AND 0x80 = 0x80" "first AND 3 = 3" "first AND 0x0C = 0"
    using long_type_roundtrip(2,4) [OF known t] long_type_reserved [OF known t] by (simp_all add: first_def vi_def)
  define sealed where "sealed = picoquic_aead_encrypt_generic aead content n (pre @ picoformat_32 (ucast n))"
  have ls: "length sealed = length content + picoquic_aead_get_checksum_length aead"
    using aead by (simp add: aead_lengths_def sealed_def)
  define rest where "rest = picoformat_32 (ucast n) @ sealed"
  have lr: "length rest = 4 + length content + picoquic_aead_get_checksum_length aead" by (simp add: rest_def ls)
  have pre: "pre = first # mid @ picoquic_varint_encode_16 (of_nat (length rest))" "length pre = hl - 4"
  proof -
    have "hl + length content + picoquic_aead_get_checksum_length aead - (hl - 4) = length rest" using hl lr by simp
    then show "pre = first # mid @ picoquic_varint_encode_16 (of_nat (length rest))" "length pre = hl - 4"
      using hl by (simp_all add: pre_def picoquic_varint_encode_16_def)
  qed
  have upd: "picoquic_update_payload_length ((first # mid) @ [0, 0] @ picoformat_32 (ucast n)) (length (first # mid) + 2)
      (length (first # mid) + 2) (hl + length content + picoquic_aead_get_checksum_length aead) = pre @ picoformat_32 (ucast n)"
    using update_long [of "first # mid"] type(1) mid6 len hl by (simp add: pre_def)
  have t': "t \<noteq> picoquic_packet_1rtt_protected" using t by (auto simp: protected_long_def)
  define sent where "sent = protect_header c 0x0F (pre @ rest) (length (first # mid) + 2)"
  have prot: "picoquic_protect_packet cnx t (room @ content) n (hl + length content) hl buffer_max aead c path multipath None r1 r2 =
    (sent, cnx, path)"
  proof -
    define hdr where "hdr = (first # mid) @ [0, 0] @ picoformat_32 (ucast n)"
    define off where "off = length (first # mid) + 2"
    have "length hdr - 4 = off" by (simp add: hdr_def off_def)
    then show ?thesis
      unfolding picoquic_protect_packet_def create hdr_def [symmetric] off_def [symmetric] Let_def split_conv set_loss_bits_def
      using t' room upd [folded hdr_def off_def] by (simp add: sent_def [folded off_def] rest_def sealed_def)
  qed
  have pos: "0 < hl - 4" "hl - 4 + 4 \<le> length (pre @ rest)" "length (first # mid) + 2 = hl - 4"
    using hl pre(2) by (simp_all add: rest_def)
  define lenf where "lenf = picoquic_varint_encode_16 (of_nat (length rest))"
  define mk where "mk = picoquic_pn_encrypt c sealed ! 0"
  have parts: "(pre @ rest) ! 0 = first" "take (hl - 4 - 1) (tl (pre @ rest)) = mid @ lenf" "unat ((pre @ rest) ! 0 AND 3) + 1 = 4"
    "drop (hl - 4 + 4) (pre @ rest) = sealed"
  proof -
    have p: "pre = first # mid @ lenf" using pre(1) by (simp add: lenf_def)
    then show f: "(pre @ rest) ! 0 = first" by simp
    show "unat ((pre @ rest) ! 0 AND 3) + 1 = 4" unfolding f type by simp
    have "hl - 4 - 1 = length (mid @ lenf)" using p pre(2) by simp
    then show "take (hl - 4 - 1) (tl (pre @ rest)) = mid @ lenf" unfolding p by simp
    show "drop (hl - 4 + 4) (pre @ rest) = sealed" using pre(2) by (simp add: rest_def)
  qed
  have "\<exists>pn'. length pn' = 4 \<and> sent = (first XOR (mk AND 0x0F)) # (mid @ lenf) @ pn' @ sealed"
    using protect_header_shape [OF pos(1), of "pre @ rest" c "0x0F"] pos(2) unfolding parts(3) unfolding parts(1,2,4) mk_def sent_def pos(3)
    by simp
  then obtain pn' where pn': "length pn' = 4" "sent = (first XOR (mk AND 0x0F)) # (mid @ lenf) @ pn' @ sealed" by blast
  have parsed: "\<exists>ph p. picoquic_parse_packet_header quic (sent @ trail) addr pcnx receiving = Some (0, ph, p) \<and>
    parsed_long t vi dest srce tok (length (sent @ trail) - length ((pn' @ sealed) @ trail)) (length (pn' @ sealed)) ph"
  proof (rule parse_long_written [OF quic known [folded vi_def] t _ m])
    show "length tok < 2 ^ 16" using tok by (simp add: tok_def)
    show "length (pn' @ sealed) < 0x4000" using len hl pn'(1) ls by simp
    show "cid_ok dest" "cid_ok srce" using cnx by (simp_all add: dest_def srce_def)
    show "(first XOR (mk AND 0x0F)) AND 0xF0 =
      picoquic_create_long_packet_type t vi AND 0xF0" by (simp only: hidden_first first_def)
  qed (simp add: pn' mid_def lenf_def rest_def)
  have "length lenf = 2" by (simp add: lenf_def picoquic_varint_encode_16_def)
  then have off: "length (sent @ trail) - length ((pn' @ sealed) @ trail) = hl - 4" and lp: "length (pn' @ sealed) = length rest"
    using pn' hl by (simp_all add: rest_def)
  obtain ph p where parse: "picoquic_parse_packet_header quic (sent @ trail) addr pcnx receiving = Some (0, ph, p)"
    and ph: "parsed_long t vi dest srce tok (hl - 4) (length rest) ph"
    using parsed unfolding off lp by blast
  note ph = ph [unfolded parsed_long_def]
  have e: "ph_epoch ph = long_epoch t" "ph_pc ph = long_pc t" using ph by simp_all
  have "pre \<noteq> []" "hd pre = first" by (simp_all add: pre(1))
  have fm: "receive_first_mask rcnx (hd pre) = 0x0F" by (simp add: \<open>hd pre = first\<close> receive_first_mask_def type)
  have "uncovered rcnx ctx (protect_header c (receive_first_mask rcnx (hd pre)) (pre @ rest) (hl - 4) @ trail) dec ph aead content n key"
  proof (rule header_uncovered [where pre = pre and pn = "picoformat_32 (ucast n)" and sealed = sealed and l = 4])
    show "pn_dec ctx (ph_epoch ph) = Some c" unfolding e by (rule c(1))
    show "ph_offset ph = hl - 4" "pn_offset ph = hl - 4" "payload_length ph = 4 + length sealed" "\<not> (ptype ph = picoquic_packet_1rtt_protected \<and> is_multipath_enabled ctx)"
      using ph t' by (simp_all add: rest_def)
    show "pre @ rest = pre @ picoformat_32 (ucast n) @ sealed" by (simp add: rest_def)
    show "ptype ph = picoquic_packet_1rtt_protected \<longrightarrow> key = bit (hd pre) 2" using ph t' by simp
    show "unat (hd pre AND 3) + 1 = 4" unfolding \<open>hd pre = first\<close> type by simp
    show "if hd pre AND 0x80 = 0 then is_loss_bit_enabled_incoming rcnx \<or> hd pre AND 0x18 = 0 else hd pre AND 0x0C = 0"
      unfolding \<open>hd pre = first\<close> type by simp
    show "pn_value 0 (picoformat_32 (ucast n)) = ucast (take_bit (8 * 4) n)" by (rule pn_value_bytes(4))
    show "hl - 4 + 4 \<le> length dec" using dec hl by simp
    show "unat (sack_list_last_pc ctx (ph_pc ph) + 1) \<le> unat n + 2 ^ (8 * 4) div 2"
      "unat n < unat (sack_list_last_pc ctx (ph_pc ph) + 1) + 2 ^ (8 * 4) div 2" unfolding e using window by simp_all
    show "4 + picoquic_pn_iv_size c \<le> 4 + length sealed" unfolding ls using c(2) by simp
  qed (rule pre(2) pos(1) sealed_def length_picoformat(3))+
  then have "uncovered rcnx ctx (sent @ trail) dec ph aead content n key" unfolding sent_def pos(3) fm .
  moreover have "parsed_long t vi dest srce tok (hl - 4) (4 + length content + picoquic_aead_get_checksum_length aead) ph"
    using ph lr by (simp add: parsed_long_def)
  ultimately show ?thesis using prot parse unfolding vi_def dest_def srce_def tok_def by blast
qed

end
