(* ===== verification/ShortTransport.thy ===== *)
theory ShortTransport
  imports HeaderTransport
begin

text \<open>
  The same for short headers, whose packet number has as many bytes as
  \<open>picoquic_predict_packet_header_length\<close> chooses; and the properties of packet headers.
\<close>

section \<open>The first byte\<close>

lemma and_single: "(x :: 'a :: len word) AND 2 ^ n = (if bit x n then 2 ^ n else 0)"
  by (rule bit_word_eqI) (auto simp: bit_simps)

lemma and_0x20: "(x :: u64) AND 0x20 = (if bit x 5 then 0x20 else 0)"
  using and_single [of x 5] by simp

lemma and_0x40: "(0x40 :: u8) AND x = (if bit x 6 then 0x40 else 0)"
  using and_single [of x 6] by (simp add: and.commute)

lemma spinbit_cases: "spinbit_outgoing cnx r \<in> {0, 0x20}"
  by (simp add: spinbit_outgoing_def picoquic_spinbit_basic_outgoing_def picoquic_spinbit_random_outgoing_def and_0x20)

text \<open>The first byte of a short header as its parts; \<open>loss\<close> are the loss bits.\<close>

definition short_first :: "bool \<Rightarrow> u8 \<Rightarrow> u8 \<Rightarrow> nat \<Rightarrow> u8 \<Rightarrow> u8" where
  "short_first key C spin l loss = (((if key then 0x04 else 0) OR C OR spin) OR of_nat (l - 1)) OR loss"

lemma short_first_fields:
  fixes key :: bool
  assumes "C \<in> {0, 0x40}" "spin \<in> {0, 0x20}" "l \<in> {1, 2, 3, 4}" "loss \<in> {0, 0x08, 0x10, 0x18}"
  defines "f \<equiv> short_first key C spin l loss"
  shows "f AND 0x80 = 0" "unat (f AND 3) + 1 = l" "f AND 0x40 = C" "f AND 0x20 = spin" "f AND 0x18 = loss" "bit f 2 = key"
proof -
  have b: "bit f 2 \<longleftrightarrow> f AND 4 \<noteq> 0"
    using and_single [of f 2] by auto
  have in_lists: "key \<in> set [True, False]" "C \<in> set [0, 0x40]" "spin \<in> set [0, 0x20]" "l \<in> set [1, 2, 3, 4]"
    "loss \<in> set [0, 0x08, 0x10, 0x18]" using assms(1-4) by auto
  have "list_all (\<lambda>key. list_all (\<lambda>C. list_all (\<lambda>spin. list_all (\<lambda>l. list_all (\<lambda>loss.
      short_first key C spin l loss AND 0x80 = 0 \<and> unat (short_first key C spin l loss AND 3) + 1 = l \<and>
      short_first key C spin l loss AND 0x40 = C \<and> short_first key C spin l loss AND 0x20 = spin \<and>
      short_first key C spin l loss AND 0x18 = loss \<and> (short_first key C spin l loss AND 4 \<noteq> 0) = key)
    [0, 0x08, 0x10, 0x18]) [1, 2, 3, 4]) [0, 0x20]) [0, 0x40]) [True, False]" by code_simp
  then have "f AND 0x80 = 0 \<and> unat (f AND 3) + 1 = l \<and> f AND 0x40 = C \<and> f AND 0x20 = spin \<and> f AND 0x18 = loss \<and> (f AND 4 \<noteq> 0) = key"
    using in_lists unfolding list_all_iff f_def by blast
  then show "f AND 0x80 = 0" "unat (f AND 3) + 1 = l" "f AND 0x40 = C" "f AND 0x20 = spin" "f AND 0x18 = loss" "bit f 2 = key"
    using b by blast+
qed

section \<open>The length of the packet number\<close>

text \<open>
  The predicted length suffices when the receiver expects a number between the oldest one that is not
  acknowledged and the one that is sent, or was overtaken by at most 128 packets.
\<close>

definition expected_near :: "u64 \<Rightarrow> u64 option \<Rightarrow> u64 \<Rightarrow> bool" where
  "expected_near n oldest e \<longleftrightarrow> unat n < 2 ^ 62 \<and> unat e \<le> unat n + 128 \<and> unat n < unat e + 2 ^ 31 \<and>
     (\<forall>o'. oldest = Some o' \<longrightarrow> o' \<le> e \<and> o' \<le> n)"

lemma predicted_number_length:
  assumes "expected_near n oldest e"
  shows "\<exists>l\<in>{1, 2, 3, 4}. picoquic_predict_packet_header_length cnx picoquic_packet_1rtt_protected n oldest =
      1 + unat (cid_len (pc_remote_cnxid cnx)) + l \<and>
    unat e \<le> unat n + 2 ^ (8 * l) div 2 \<and> unat n < unat e + 2 ^ (8 * l) div 2"
proof -
  define delta where "delta = (case oldest of None \<Rightarrow> n | Some o' \<Rightarrow> n - o')"
  define l :: nat where "l = (if sint delta < 262144 then if n < 1024 then if n < 16 then 1 else 2 else 3 else 4)"
  have near: "unat n < 2 ^ 62" "unat e \<le> unat n + 128" "unat n < unat e + 2 ^ 31" using assms by (simp_all add: expected_near_def)
  have d: "unat delta \<le> unat n" "unat n \<le> unat e + unat delta"
    using assms by (auto simp: delta_def expected_near_def unat_sub word_le_nat_alt split: option.splits)
  have "sint delta = int (unat delta)"
  proof -
    have "unat delta < 2 ^ 62" using d(1) near(1) by (rule le_less_trans)
    then have "int (unat delta) < 2 ^ 62" by (metis of_nat_less_iff of_nat_numeral of_nat_power)
    moreover have "uint delta = int (unat delta)" by simp
    moreover have "(2 :: int) ^ 62 < 2 ^ 63" by simp
    ultimately have "uint delta < 2 ^ 63" by (metis order.strict_trans)
    moreover have "- (2 ^ 63) \<le> uint delta" by (rule order_trans [OF _ uint_ge_0]) simp
    ultimately have "signed_take_bit 63 (uint delta) = uint delta" by (intro signed_take_bit_int_eq_self)
    then show ?thesis by (simp add: sint_uint)
  qed
  then have s: "sint delta < 262144 \<longleftrightarrow> unat delta < 262144" by (metis of_nat_less_iff of_nat_numeral)
  have k: "n < 1024 \<longleftrightarrow> unat n < 1024" "n < 16 \<longleftrightarrow> unat n < 16" by (simp_all add: word_less_nat_alt)
  have "picoquic_predict_packet_header_length cnx picoquic_packet_1rtt_protected n oldest = 1 + unat (cid_len (pc_remote_cnxid cnx)) + l"
    by (simp add: picoquic_predict_packet_header_length_def Let_def l_def delta_def)
  moreover have "unat e \<le> unat n + 2 ^ (8 * l) div 2 \<and> unat n < unat e + 2 ^ (8 * l) div 2"
    using near d unfolding l_def s k by simp
  moreover have "l \<in> {1, 2, 3, 4}" by (simp add: l_def)
  ultimately show ?thesis by blast
qed


section \<open>Short headers, from end to end\<close>

text \<open>The bits that the sender adds for the measurement of losses.\<close>

lemma set_loss_bits_short:
  assumes "buf \<noteq> []"
  shows "\<exists>loss path'. set_loss_bits cnx picoquic_packet_1rtt_protected buf path =
      ((hd buf OR loss) # tl buf, if is_loss_bit_enabled_outgoing cnx then 0x07 else 0x1F, path') \<and>
    loss \<in> {0, 0x08, 0x10, 0x18} \<and> (is_loss_bit_enabled_outgoing cnx \<or> loss = 0)"
proof -
  obtain f bs where b: "buf = f # bs" using assms by (cases buf) auto
  have "(f OR 0x10) OR 0x08 = f OR 0x18" by (simp add: or.assoc)
  then show ?thesis unfolding b set_loss_bits_def Let_def
    by (cases "is_loss_bit_enabled_outgoing cnx"; cases "(q_square path + 1) AND PICOQUIC_LOSS_BIT_Q_HALF_PERIOD \<noteq> 0";
        cases "nb_losses_found path > nb_losses_reported path") (auto intro: exI [of _ 0])
qed

lemma short_header_bytes:
  fixes r1 :: u64
  assumes "cid_ok (pc_remote_cnxid cnx)" "l \<in> {1, 2, 3, 4}"
  defines "C \<equiv> (if pc_do_grease_quic_bit cnx then 0x40 AND ucast r1 else 0x40)"
  shows "\<exists>pn cnx'. short_header cnx r1 r2 n (1 + unat (cid_len (pc_remote_cnxid cnx)) + l) =
      (short_first (pc_key_phase_enc cnx) C (spinbit_outgoing cnx r2) l 0 # cid_bytes (pc_remote_cnxid cnx) @ pn,
       1 + unat (cid_len (pc_remote_cnxid cnx)), l, cnx') \<and>
    length pn = l \<and> pn_value 0 pn = ucast (take_bit (8 * l) n) \<and>
    is_loss_bit_enabled_outgoing cnx' = is_loss_bit_enabled_outgoing cnx"
proof -
  define pn where "pn = (if l = 1 then [ucast n] else if l = 2 then picoformat_16 (ucast n)
    else if l = 3 then picoformat_24 (ucast n) else picoformat_32 (ucast n))"
  have "picoquic_format_connection_id (PICOQUIC_MAX_PACKET_SIZE - 1) (pc_remote_cnxid cnx) =
    (cid_len (pc_remote_cnxid cnx), cid_bytes (pc_remote_cnxid cnx))" by (simp add: format_cid [OF assms(1)])
  moreover have "spinbit_outgoing (cnx\<lparr>pc_quic_bit_greased := g\<rparr>) r2 = spinbit_outgoing cnx r2" for g
    by (simp add: spinbit_outgoing_def picoquic_spinbit_basic_outgoing_def)
  moreover have "length pn = l" "pn_value 0 pn = ucast (take_bit (8 * l) n)"
    using assms(2) pn_value_bytes [of n] by (auto simp: pn_def)
  ultimately show ?thesis using assms(2) cid_bytes_length [OF assms(1)]
    by (cases "pc_do_grease_quic_bit cnx") (auto simp: short_header_def Let_def short_first_def C_def pn_def)
qed

lemma parse_short_written:
  assumes cid: "cid_ok d" "cid_len d = local_cnxid_length quic" "cid_len d \<noteq> 0"
    and found: "picoquic_cnx_by_id quic d = Some (Some k, lc)"
    and bits: "f AND 0x80 = 0" "f AND 0x40 \<noteq> 0 \<or> local_do_grease_quic_bit (connections quic k)"
    and packet: "packet = f # cid_bytes d @ rest" "length packet < 2 ^ 16"
  shows "\<exists>ph. picoquic_parse_packet_header quic packet addr None True = Some (0, ph, Some k) \<and>
    ptype ph = picoquic_packet_1rtt_protected \<and> dest_cnx_id ph = d \<and> ph_l_cid ph = lc \<and> ph_spin ph = bit f 5 \<and>
    ph_offset ph = 1 + unat (cid_len d) \<and> pn_offset ph = 1 + unat (cid_len d) \<and> payload_length ph = length rest \<and>
    ph_epoch ph = picoquic_epoch_1rtt \<and> ph_pc ph = picoquic_packet_context_application"
proof -
  have l: "length (cid_bytes d) = unat (cid_len d)" by (rule cid_bytes_length [OF cid(1)])
  have "cid_id d = cid_bytes d @ replicate (20 - unat (cid_len d)) 0"
    using cid(1) append_take_drop_id [of "unat (cid_len d)" "cid_id d"] by (simp add: cid_ok_def cid_bytes_def)
  then have "picoquic_parse_connection_id (cid_bytes d @ rest) (cid_len d) picoquic_null_connection_id = (cid_len d, d)"
    using cid(1) l by (cases d) (simp add: picoquic_parse_connection_id_def picoquic_null_connection_id_def cid_ok_def)
  then have p: "parse_short_cid quic packet addr (cid_len d) (packet_header_zero\<lparr>ph_pc := picoquic_packet_context_application, pl_val := 0\<rparr>) None =
    Some (packet_header_zero\<lparr>ph_pc := picoquic_packet_context_application, pl_val := 0, dest_cnx_id := d,
      ph_offset := 1 + unat (cid_len d), ph_l_cid := lc\<rparr>, Some k)"
    using cid(3) found l packet(1) unfolding cid(2) [symmetric]
    by (simp add: parse_short_cid_def word_neq_0_conv packet_header_zero_def cid(2) [symmetric])
  have n: "take_bit 16 (length rest) = length rest" using packet by (intro take_bit_small [of _ "length packet"]) simp_all
  show ?thesis using bits p n l packet(1)
    by (auto simp: picoquic_parse_packet_header_def picoquic_parse_short_packet_header_def cid(2) [symmetric] parse_short_fields_def Let_def
      packet_header_zero_def)
qed


lemma short_header_transported:
  fixes content :: "u8 list" and n :: u64 and oldest :: "u64 option" and cnx :: packet_cnx
  defines "hl \<equiv> picoquic_predict_packet_header_length cnx picoquic_packet_1rtt_protected n oldest"
  assumes d: "cid_ok (pc_remote_cnxid cnx)" "cid_len (pc_remote_cnxid cnx) = local_cnxid_length quic" "cid_len (pc_remote_cnxid cnx) \<noteq> 0"
    and found: "picoquic_cnx_by_id quic (pc_remote_cnxid cnx) = Some (Some k, lc)"
    and grease: "pc_do_grease_quic_bit cnx \<longrightarrow> local_do_grease_quic_bit (connections quic k)"
    and loss: "is_loss_bit_enabled_incoming (connections quic k) = is_loss_bit_enabled_outgoing cnx"
    and aead: "aead_lengths aead"
    and len: "hl + length content + picoquic_aead_get_checksum_length aead < 2 ^ 16"
    and room: "length room = hl"
    and c: "pn_dec ctx picoquic_epoch_1rtt = Some c" "4 + picoquic_pn_iv_size c \<le> 1 + length content + picoquic_aead_get_checksum_length aead"
    and single: "\<not> is_multipath_enabled ctx"
    and near: "expected_near n oldest (sack_list_last_pc ctx picoquic_packet_context_application + 1)"
    and dec: "hl + 3 \<le> length dec"
  shows "\<exists>sent cnx' path' ph.
    picoquic_protect_packet cnx picoquic_packet_1rtt_protected (room @ content) n (hl + length content) hl buffer_max aead c path False None r1 r2 =
      (sent, cnx', path') \<and>
    picoquic_parse_packet_header quic sent addr None True = Some (0, ph, Some k) \<and>
    ptype ph = picoquic_packet_1rtt_protected \<and> dest_cnx_id ph = pc_remote_cnxid cnx \<and> ph_l_cid ph = lc \<and>
    ph_spin ph = (spinbit_outgoing cnx r2 \<noteq> 0) \<and>
    uncovered (connections quic k) ctx sent dec ph aead content n (pc_key_phase_enc cnx)"
proof -
  define dest where "dest = pc_remote_cnxid cnx"
  define off where "off = 1 + unat (cid_len dest)"
  define C :: u8 where "C = (if pc_do_grease_quic_bit cnx then 0x40 AND ucast r1 else 0x40)"
  obtain l where l: "l \<in> {1, 2, 3, 4}" "hl = off + l"
    "unat (sack_list_last_pc ctx picoquic_packet_context_application + 1) \<le> unat n + 2 ^ (8 * l) div 2"
    "unat n < unat (sack_list_last_pc ctx picoquic_packet_context_application + 1) + 2 ^ (8 * l) div 2"
    using predicted_number_length [OF near, of cnx] unfolding hl_def off_def dest_def by blast
  obtain pn cnx' where created: "short_header cnx r1 r2 n hl =
      (short_first (pc_key_phase_enc cnx) C (spinbit_outgoing cnx r2) l 0 # cid_bytes dest @ pn, off, l, cnx')"
    and pn: "length pn = l" "pn_value 0 pn = ucast (take_bit (8 * l) n)"
    and loss': "is_loss_bit_enabled_outgoing cnx' = is_loss_bit_enabled_outgoing cnx"
    using short_header_bytes [OF d(1) l(1), of r1 r2 n] unfolding l(2) off_def C_def dest_def by blast
  obtain loss_bits path' where bits: "set_loss_bits cnx' picoquic_packet_1rtt_protected
      (short_first (pc_key_phase_enc cnx) C (spinbit_outgoing cnx r2) l 0 # cid_bytes dest @ pn) path =
      (short_first (pc_key_phase_enc cnx) C (spinbit_outgoing cnx r2) l loss_bits # cid_bytes dest @ pn,
       if is_loss_bit_enabled_outgoing cnx then 0x07 else 0x1F, path')"
    and lb: "loss_bits \<in> {0, 0x08, 0x10, 0x18}" "is_loss_bit_enabled_outgoing cnx \<or> loss_bits = 0"
    using set_loss_bits_short [of "short_first (pc_key_phase_enc cnx) C (spinbit_outgoing cnx r2) l 0 # cid_bytes dest @ pn" cnx' path]
    by (auto simp: loss' short_first_def)
  define f where "f = short_first (pc_key_phase_enc cnx) C (spinbit_outgoing cnx r2) l loss_bits"
  have C: "C \<in> {0, 0x40}" by (simp add: C_def and_0x40)
  note first = short_first_fields [OF C spinbit_cases l(1) lb(1), of "pc_key_phase_enc cnx" cnx r2, folded f_def]
  define pre where "pre = f # cid_bytes dest"
  define sealed where "sealed = picoquic_aead_encrypt_generic aead content n (pre @ pn)"
  have ls: "length sealed = length content + picoquic_aead_get_checksum_length aead"
    using aead by (simp add: aead_lengths_def sealed_def)
  have lpre: "length pre = off" "0 < off" using cid_bytes_length [OF d(1)] by (simp_all add: pre_def off_def dest_def)
  define fm where "fm = (if is_loss_bit_enabled_outgoing cnx then 0x07 else 0x1F :: u8)"
  have fm: "receive_first_mask (connections quic k) (hd pre) = fm" by (simp add: pre_def receive_first_mask_def first(1) loss fm_def)
  define sent where "sent = protect_header c fm (pre @ pn @ sealed) off"
  have prot: "picoquic_protect_packet cnx picoquic_packet_1rtt_protected (room @ content) n (hl + length content) hl buffer_max aead c path False None r1 r2 =
    (sent, cnx', path')"
  proof -
    define hdr where "hdr = short_first (pc_key_phase_enc cnx) C (spinbit_outgoing cnx r2) l 0 # cid_bytes dest @ pn"
    have create: "picoquic_create_packet_header cnx picoquic_packet_1rtt_protected r1 r2 n hl = (hdr, off, l, cnx')"
      using created by (simp add: picoquic_create_packet_header_def hdr_def)
    have set: "set_loss_bits cnx' picoquic_packet_1rtt_protected hdr path = (pre @ pn, fm, path')"
      using bits by (simp add: hdr_def pre_def f_def fm_def)
    have upd: "picoquic_update_payload_length (pre @ pn) i j m = pre @ pn" for i j m
      using first(1) by (simp add: picoquic_update_payload_length_def pre_def)
    show ?thesis unfolding picoquic_protect_packet_def create Let_def split_conv set upd using room
      by (simp add: sent_def sealed_def)
  qed
  have b0: "(pre @ pn @ sealed) ! 0 = f" by (simp add: pre_def)
  have "off + (unat ((pre @ pn @ sealed) ! 0 AND 3) + 1) \<le> length (pre @ pn @ sealed)" unfolding b0 first(2) using lpre pn(1) by simp
  from protect_header_shape [OF lpre(2) this, of c fm] obtain pn' where
    sent: "length pn' = l" "sent = (f XOR (picoquic_pn_encrypt c (drop (off + 4) (pre @ pn @ sealed)) ! 0 AND fm)) # cid_bytes dest @ pn' @ sealed"
    using lpre(1) pn(1) unfolding b0 first(2) sent_def [symmetric] by (auto simp: pre_def)
  define g where "g = f XOR (picoquic_pn_encrypt c (drop (off + 4) (pre @ pn @ sealed)) ! 0 AND fm)"
  have g: "g AND 0x80 = 0" "g AND 0x40 = C" "g AND 0x20 = spinbit_outgoing cnx r2"
    using first(1,3,4) by (auto simp: g_def masked_bits fm_def)
  have quic_bit: "g AND 0x40 \<noteq> 0 \<or> local_do_grease_quic_bit (connections quic k)" unfolding g(2) using grease by (auto simp: C_def)
  have sent2: "sent = g # cid_bytes dest @ (pn' @ sealed)" using sent(2) unfolding g_def .
  have "length sent < 2 ^ 16" unfolding sent2 using sent(1) len l(2) ls cid_bytes_length [OF d(1)] by (simp add: off_def dest_def)
  from parse_short_written [OF d [folded dest_def] found [folded dest_def] g(1) quic_bit sent2 this, of addr, folded off_def]
  obtain ph where parse: "picoquic_parse_packet_header quic sent addr None True = Some (0, ph, Some k)"
    and ph: "ptype ph = picoquic_packet_1rtt_protected" "dest_cnx_id ph = dest" "ph_l_cid ph = lc" "ph_spin ph = bit g 5"
      "ph_offset ph = off" "pn_offset ph = off" "payload_length ph = length (pn' @ sealed)"
      "ph_epoch ph = picoquic_epoch_1rtt" "ph_pc ph = picoquic_packet_context_application" by blast
  have "ph_spin ph = (spinbit_outgoing cnx r2 \<noteq> 0)" using and_single [of g 5] g(3) ph(4) by (auto split: if_splits)
  moreover have "uncovered (connections quic k) ctx (protect_header c (receive_first_mask (connections quic k) (hd pre)) (pre @ pn @ sealed) off @ [])
      dec ph aead content n (pc_key_phase_enc cnx)"
  proof (rule header_uncovered [where pre = pre and pn = pn and sealed = sealed and l = l])
    show "payload_length ph = l + length sealed" using ph(7) sent(1) by simp
    show "pn_dec ctx (ph_epoch ph) = Some c" unfolding ph(8) by (rule c(1))
    show "\<not> (ptype ph = picoquic_packet_1rtt_protected \<and> is_multipath_enabled ctx)" using single by simp
    show "ptype ph = picoquic_packet_1rtt_protected \<longrightarrow> pc_key_phase_enc cnx = bit (hd pre) 2" by (simp add: pre_def first(6))
    show "unat (hd pre AND 3) + 1 = l" unfolding pre_def list.sel by (rule first(2))
    show "if hd pre AND 0x80 = 0 then is_loss_bit_enabled_incoming (connections quic k) \<or> hd pre AND 0x18 = 0 else hd pre AND 0x0C = 0"
      using lb(2) by (auto simp: pre_def first(1,5) loss)
    show "4 + picoquic_pn_iv_size c \<le> l + length sealed" using c(2) ls l(1) by auto
    show "off + 4 \<le> length dec" using dec l by auto
    show "unat (sack_list_last_pc ctx (ph_pc ph) + 1) \<le> unat n + 2 ^ (8 * l) div 2"
      "unat n < unat (sack_list_last_pc ctx (ph_pc ph) + 1) + 2 ^ (8 * l) div 2" unfolding ph(9) by (rule l)+
  qed (rule ph lpre pn sealed_def refl)+
  then have "uncovered (connections quic k) ctx sent dec ph aead content n (pc_key_phase_enc cnx)" unfolding fm sent_def [symmetric] by simp
  ultimately show ?thesis using prot parse ph(1-3) unfolding dest_def by blast
qed

end
