(* ===== verification/PacketProps.thy ===== *)
theory PacketProps
  imports ShortTransport
begin

text \<open>The properties of packet headers, each with a run on concrete values.\<close>

section \<open>Concrete values\<close>

definition no_item :: "'k \<Rightarrow> nat \<Rightarrow> 'k picohash_item" where
  "no_item k a = \<lparr>item_hash = 0, next_in_bin = None, item_key = k\<rparr>"

definition empty_table :: "'k \<Rightarrow> ('k \<Rightarrow> u64) \<Rightarrow> ('k \<Rightarrow> 'k \<Rightarrow> int) \<Rightarrow> 'k picohash_table" where
  "empty_table k h c = the (picohash_create True [Some 7] (no_item k) 32 h c)"

lemma empty_table_holds: "holds_items valid h c (empty_table k h c) {}"
proof (rule holds_items_create [of 32])
  show "picohash_create True [Some 7] (no_item k) 32 h c = Some (empty_table k h c)"
    by (simp add: empty_table_def picohash_create_def)
qed simp_all

definition example_peer :: packet_cnx where
  "example_peer = \<lparr>pc_client_mode = True, pc_version_index = 0, pc_proposed_version = PICOQUIC_V1_VERSION, pc_init_state = True,
     pc_initial_cnxid = example_cid, pc_remote_cnxid = example_cid, pc_local_cnxid = example_cid, pc_retry_token = [9, 9, 9],
     pc_key_phase_enc = False, pc_do_grease_quic_bit = False, pc_quic_bit_greased = False, local_do_grease_quic_bit = False,
     is_loss_bit_enabled_incoming = False, is_loss_bit_enabled_outgoing = False, pc_spin_policy = 0, current_spin = True\<rparr>"

definition example_quic :: "cnx_id_key picohash_table \<Rightarrow> quic_context" where
  "example_quic t = \<lparr>local_cnxid_length = 4, table_cnx_by_id = t,
     table_cnx_by_net = empty_table \<lparr>nk_saddr = sockaddr_zero, nk_cnx = 0, nk_path = 0\<rparr> picoquic_net_id_hash picoquic_net_id_compare,
     table_cnx_by_icid = empty_table \<lparr>ik_saddr = sockaddr_zero, ik_icid = example_cid, ik_cnx = 0\<rparr> picoquic_net_icid_hash picoquic_net_icid_compare,
     connections = (\<lambda>_. example_peer)\<rparr>"

definition example_keys :: "cnx_id_key picohash_table" where
  "example_keys = empty_table \<lparr>ck_cnx_id = example_cid, ck_cnx = 0, ck_l_cid = None\<rparr> picoquic_cnx_id_hash picoquic_cnx_id_compare"

lemma example_quic_ok:
  assumes "holds_items (\<lambda>k. cid_array (ck_cnx_id k)) picoquic_cnx_id_hash picoquic_cnx_id_compare t A"
  shows "quic_ok (example_quic t)"
  unfolding quic_ok_def example_quic_def quic_context.simps by (intro conjI exI) (rule assms empty_table_holds)+

text \<open>A table that holds the identifier of connection 5.\<close>

lemma example_registered:
  "\<exists>t. quic_ok (example_quic t) \<and> picoquic_cnx_by_id (example_quic t) example_cid = Some (Some 5, Some 3)"
proof -
  define key where "key = \<lparr>ck_cnx_id = example_cid, ck_cnx = 5, ck_l_cid = Some 3\<rparr>"
  note start = empty_table_holds [of "\<lambda>k. cid_array (ck_cnx_id k)" picoquic_cnx_id_hash picoquic_cnx_id_compare
      "\<lparr>ck_cnx_id = example_cid, ck_cnx = 0, ck_l_cid = None\<rparr>", folded example_keys_def]
  have valid: "cid_array example_cid" using example_cid_ok(1) by (rule cid_ok_array)
  have alloc: "next_alloc example_keys = Some 7"
    by (simp add: example_keys_def empty_table_def picohash_create_def next_alloc_def)
  obtain t where t: "holds_items (\<lambda>k. cid_array (ck_cnx_id k)) picoquic_cnx_id_hash picoquic_cnx_id_compare t {7}"
    "item_key (hash_mem t 7) = key"
    using cnx_id.table.add_law [OF start, of key] valid alloc by (auto simp: key_def)
  have same: "picoquic_cnx_id_compare \<lparr>ck_cnx_id = example_cid, ck_cnx = 0, ck_l_cid = None\<rparr> key = 0"
    using valid by (simp add: picoquic_cnx_id_compare_def key_def cid_compare_0_iff)
  have "picohash_retrieve t \<lparr>ck_cnx_id = example_cid, ck_cnx = 0, ck_l_cid = None\<rparr> = Some (Some 7)"
    using cnx_id.table.lookup_unique [OF t(1), of 7] t(2) same valid by (simp add: cnx_id.table.unique_def)
  then have "picoquic_cnx_by_id (example_quic t) example_cid = Some (Some 5, Some 3)"
    using t(2) by (simp add: picoquic_cnx_by_id_def example_quic_def key_def)
  then show ?thesis using example_quic_ok [OF t(1)] by blast
qed

definition example_aead :: aead_context where
  "example_aead = \<lparr>picoquic_aead_get_checksum_length = 16, picoquic_aead_encrypt_generic = (\<lambda>p n h. map (\<lambda>b. b XOR 0x55) p @ replicate 16 7),
     picoquic_aead_encrypt_mp = (\<lambda>p s n h. p @ replicate 16 8)\<rparr>"

definition example_pn :: pn_cipher where
  "example_pn = \<lparr>picoquic_pn_iv_size = 16, pn_mask = map (\<lambda>b. b + 0x31)\<rparr>"

definition example_context :: pn_context where
  "example_context = \<lparr>pn_dec = (\<lambda>_. Some example_pn), is_multipath_enabled = False, sack_list_last_pc = (\<lambda>_. 600), sack_list_last_l_cid = 0\<rparr>"

definition example_path :: protect_path where
  "example_path = \<lparr>q_square = 0, nb_losses_found = 0, nb_losses_reported = 0, p_remote_sequence = 0\<rparr>"

lemma example_aead_ok: "aead_lengths example_aead"
  by (simp add: aead_lengths_def example_aead_def)

section \<open>Parsing\<close>

text \<open>
  C10: the header parser is safe on every packet that is not empty and shorter than \<open>2 ^ 16\<close> bytes,
  whatever the bytes are and whatever the connection tables hold. It returns, the two connection
  identifiers of the header are well formed arrays, and unless the packet is marked as an error
  its payload, of the length the header gives, lies inside the packet.
\<close>

theorem packet_header_inside_packet:
  assumes "quic_ok quic" "length packet < 2 ^ 16" "packet \<noteq> []"
  shows "\<exists>ret ph p. picoquic_parse_packet_header quic packet addr pcnx receiving = Some (ret, ph, p) \<and>
    length (cid_id (dest_cnx_id ph)) = 20 \<and> length (cid_id (srce_cnx_id ph)) = 20 \<and>
    (ptype ph \<noteq> picoquic_packet_error \<longrightarrow> ph_offset ph + payload_length ph \<le> length packet)"
  using parse_header_returns [OF assms] by (simp add: header_inside_def cid_array_def)

theorem packet_header_inside_packet_witness:
  "\<exists>ret ph p. picoquic_parse_packet_header (example_quic example_keys) [0xC3, 0, 0, 0, 1, 30] sockaddr_zero None True = Some (ret, ph, p) \<and>
    length (cid_id (dest_cnx_id ph)) = 20 \<and> length (cid_id (srce_cnx_id ph)) = 20 \<and>
    (ptype ph \<noteq> picoquic_packet_error \<longrightarrow> ph_offset ph + payload_length ph \<le> length [0xC3, 0, 0, 0, 1, 30 :: u8])"
proof -
  have "quic_ok (example_quic example_keys)" unfolding example_keys_def by (rule example_quic_ok [OF empty_table_holds])
  then show ?thesis by (rule packet_header_inside_packet) simp_all
qed

section \<open>Packet numbers\<close>

text \<open>
  C12: a packet number of which the sender wrote the low 1, 2, 3 or 4 bytes is decoded correctly when
  it is less than half a window, \<open>2 ^ (8 * l - 1)\<close>, above the number expected next and at most half a
  window below it, up to and including both ends of the range of 64-bit numbers.
\<close>

theorem packet_number_decoded:
  assumes "l \<in> {1, 2, 3, 4}"
    "unat (highest + 1) \<le> unat n + 2 ^ (8 * l) div 2" "unat n < unat (highest + 1) + 2 ^ (8 * l) div 2"
  shows "picoquic_get_packet_number64 highest (number_mask l) (ucast (take_bit (8 * l) n)) = n"
  by (rule packet_number_window [OF assms])

theorem packet_number_decoded_witness:
  "picoquic_get_packet_number64 0xA82F30EA (number_mask 2) (ucast (take_bit (8 * 2) (0xA82F9B32 :: u64))) = 0xA82F9B32 \<and>
   (ucast (take_bit (8 * 2) (0xA82F9B32 :: u64)) :: u32) = 0x9B32"
  using packet_number_decoded [of 2 "0xA82F30EA" "0xA82F9B32"] by simp

section \<open>Lengths\<close>

text \<open>
  Also: the length that is predicted for a header, before the packet is filled, is the length of the
  header that is written, for packets with a short header and for Initial, 0-RTT and Handshake
  packets. The sender sets the content behind the predicted header, so a difference would lose bytes.
\<close>

theorem predicted_header_length:
  assumes "protected_long t \<or> t = picoquic_packet_1rtt_protected" "\<not> pc_do_grease_quic_bit cnx"
    "cid_ok (header_dest_cnx_id cnx t)" "cid_ok (pc_local_cnxid cnx)" "cid_ok (pc_remote_cnxid cnx)"
    "pc_init_state cnx \<longrightarrow> pc_proposed_version cnx = fst (picoquic_supported_versions ! nat (pc_version_index cnx))"
  shows "length (fst (picoquic_create_packet_header cnx t r1 r2 n (picoquic_predict_packet_header_length cnx t n oldest))) =
    picoquic_predict_packet_header_length cnx t n oldest"
  using assms(1)
proof
  assume "protected_long t"
  then show ?thesis using assms(2-4,6) by (rule predict_long)
next
  assume "t = picoquic_packet_1rtt_protected"
  then show ?thesis using predict_short [OF assms(5), of r1 r2 n oldest] by simp
qed

theorem predicted_header_length_witness:
  "length (fst (picoquic_create_packet_header example_peer picoquic_packet_initial 0 0 2 25)) = 25"
proof -
  have e: "picoquic_predict_packet_header_length example_peer picoquic_packet_initial 2 None = 25" by code_simp
  have "cid_ok (header_dest_cnx_id example_peer picoquic_packet_initial)"
    using example_cid_ok(1) by (simp add: header_dest_cnx_id_def example_peer_def)
  then show ?thesis
    using predicted_header_length [of picoquic_packet_initial example_peer 0 0 2 None] example_cid_ok(1)
    unfolding e by (simp add: protected_long_def example_peer_def picoquic_supported_versions_def)
qed


section \<open>From the sender to the receiver\<close>

text \<open>
  C8: an Initial, 0-RTT or Handshake packet that \<open>picoquic_protect_packet\<close> makes is understood by the
  receiver, alone or followed by other packets in the datagram. The parser finds the type, the
  version, both connection identifiers, the token, and the bounds of the packet; removing the header
  protection with the same cipher gives the packet number that was sent and the very header under
  which the content was sealed, so that the content can be opened. It holds for every mask that the
  cipher may give, for every encryption that adds its checksum, and as long as the packet number is
  within \<open>2 ^ 31\<close> of the one that is expected.
\<close>

theorem long_header_end_to_end:
  fixes content :: "u8 list"
  assumes "quic_ok quic" "version_known (pc_version_index cnx)" "protected_long t"
    "\<not> pc_do_grease_quic_bit cnx" "cid_ok (header_dest_cnx_id cnx t)" "cid_ok (pc_local_cnxid cnx)"
    "pc_init_state cnx \<longrightarrow> pc_proposed_version cnx = fst (picoquic_supported_versions ! nat (pc_version_index cnx))"
    "length (pc_retry_token cnx) < 2 ^ 16" "aead_lengths aead"
    "picoquic_predict_packet_header_length cnx t n oldest + length content + picoquic_aead_get_checksum_length aead < 0x4000"
    "length room = picoquic_predict_packet_header_length cnx t n oldest"
    "pn_dec ctx (long_epoch t) = Some c" "picoquic_pn_iv_size c \<le> length content + picoquic_aead_get_checksum_length aead"
    "unat (sack_list_last_pc ctx (long_pc t) + 1) \<le> unat n + 2 ^ 31" "unat n < unat (sack_list_last_pc ctx (long_pc t) + 1) + 2 ^ 31"
    "picoquic_predict_packet_header_length cnx t n oldest \<le> length dec"
  shows "\<exists>sent cnx' path' ph p.
    picoquic_protect_packet cnx t (room @ content) n (length room + length content) (length room) buffer_max aead c path multipath None r1 r2 =
      (sent, cnx', path') \<and>
    picoquic_parse_packet_header quic (sent @ trail) addr pcnx receiving = Some (0, ph, p) \<and>
    parsed_long t (pc_version_index cnx) (header_dest_cnx_id cnx t) (pc_local_cnxid cnx) (pc_retry_token cnx) (length room - 4)
      (4 + length content + picoquic_aead_get_checksum_length aead) ph \<and>
    uncovered rcnx ctx (sent @ trail) dec ph aead content n key"
  unfolding assms(11) by (rule long_header_transported [OF assms])

theorem long_header_end_to_end_witness:
  "\<exists>sent cnx' path' ph p.
    picoquic_protect_packet example_peer picoquic_packet_initial (replicate 25 0 @ replicate 40 1) 2 (length (replicate 25 (0 :: u8)) + 40)
      (length (replicate 25 (0 :: u8))) 1500 example_aead example_pn example_path False None 0 0 = (sent, cnx', path') \<and>
    picoquic_parse_packet_header (example_quic example_keys) (sent @ [1, 2, 3]) sockaddr_zero None True = Some (0, ph, p) \<and>
    ptype ph = picoquic_packet_initial \<and> token_bytes ph = [9, 9, 9] \<and>
    uncovered example_peer example_context (sent @ [1, 2, 3]) (replicate 1500 0) ph example_aead (replicate 40 1) 2 False"
proof -
  have q: "quic_ok (example_quic example_keys)" unfolding example_keys_def by (rule example_quic_ok [OF empty_table_holds])
  have e: "picoquic_predict_packet_header_length example_peer picoquic_packet_initial 2 None = 25" by code_simp
  have d: "cid_ok (header_dest_cnx_id example_peer picoquic_packet_initial)" "cid_ok (pc_local_cnxid example_peer)"
    using example_cid_ok(1) by (simp_all add: header_dest_cnx_id_def example_peer_def)
  have "\<exists>sent cnx' path' ph p.
    picoquic_protect_packet example_peer picoquic_packet_initial (replicate 25 0 @ replicate 40 1) 2
      (length (replicate 25 (0 :: u8)) + length (replicate 40 (1 :: u8)))
      (length (replicate 25 (0 :: u8))) 1500 example_aead example_pn example_path False None 0 0 = (sent, cnx', path') \<and>
    picoquic_parse_packet_header (example_quic example_keys) (sent @ [1, 2, 3]) sockaddr_zero None True = Some (0, ph, p) \<and>
    parsed_long picoquic_packet_initial (pc_version_index example_peer) (header_dest_cnx_id example_peer picoquic_packet_initial)
      (pc_local_cnxid example_peer) (pc_retry_token example_peer) (length (replicate 25 (0 :: u8)) - 4)
      (4 + length (replicate 40 (1 :: u8)) + picoquic_aead_get_checksum_length example_aead) ph \<and>
    uncovered example_peer example_context (sent @ [1, 2, 3]) (replicate 1500 0) ph example_aead (replicate 40 1) 2 False"
    by (rule long_header_end_to_end [OF q _ _ _ d _ _ example_aead_ok, where oldest = None])
      (simp_all add: e, simp_all add: example_peer_def example_aead_def example_pn_def example_context_def
        version_known_def protected_long_def picoquic_supported_versions_def)
  then show ?thesis by (simp add: parsed_long_def example_peer_def) blast
qed

text \<open>
  C9: a packet with a short header is understood by the receiver whose table of identifiers holds the
  one it is sent to: the parser finds the connection and its path identifier; removing the header
  protection gives the packet number, of which only as many bytes are written as
  \<open>picoquic_predict_packet_header_length\<close> finds sufficient, the phase of the key, and the header under
  which the content was sealed. The spin bit is readable on the way. The number is right whenever the
  receiver expects one between the oldest number that is not acknowledged and the one that is sent,
  and also when up to 128 packets overtook this one.
\<close>

theorem short_header_end_to_end:
  fixes content :: "u8 list"
  assumes "cid_ok (pc_remote_cnxid cnx)" "cid_len (pc_remote_cnxid cnx) = local_cnxid_length quic" "cid_len (pc_remote_cnxid cnx) \<noteq> 0"
    "picoquic_cnx_by_id quic (pc_remote_cnxid cnx) = Some (Some k, lc)"
    "pc_do_grease_quic_bit cnx \<longrightarrow> local_do_grease_quic_bit (connections quic k)"
    "is_loss_bit_enabled_incoming (connections quic k) = is_loss_bit_enabled_outgoing cnx" "aead_lengths aead"
    "picoquic_predict_packet_header_length cnx picoquic_packet_1rtt_protected n oldest + length content +
       picoquic_aead_get_checksum_length aead < 2 ^ 16"
    "length room = picoquic_predict_packet_header_length cnx picoquic_packet_1rtt_protected n oldest"
    "pn_dec ctx picoquic_epoch_1rtt = Some c" "4 + picoquic_pn_iv_size c \<le> 1 + length content + picoquic_aead_get_checksum_length aead"
    "\<not> is_multipath_enabled ctx"
    "expected_near n oldest (sack_list_last_pc ctx picoquic_packet_context_application + 1)"
    "picoquic_predict_packet_header_length cnx picoquic_packet_1rtt_protected n oldest + 3 \<le> length dec"
  shows "\<exists>sent cnx' path' ph.
    picoquic_protect_packet cnx picoquic_packet_1rtt_protected (room @ content) n (length room + length content) (length room) buffer_max
      aead c path False None r1 r2 = (sent, cnx', path') \<and>
    picoquic_parse_packet_header quic sent addr None True = Some (0, ph, Some k) \<and>
    ptype ph = picoquic_packet_1rtt_protected \<and> dest_cnx_id ph = pc_remote_cnxid cnx \<and> ph_l_cid ph = lc \<and>
    ph_spin ph = (spinbit_outgoing cnx r2 \<noteq> 0) \<and>
    uncovered (connections quic k) ctx sent dec ph aead content n (pc_key_phase_enc cnx)"
  unfolding assms(9) by (rule short_header_transported [OF assms])

theorem short_header_end_to_end_witness:
  "\<exists>t sent cnx' path' ph.
    picoquic_protect_packet example_peer picoquic_packet_1rtt_protected (replicate 7 0 @ replicate 40 1) 700 47
      7 1500 example_aead example_pn example_path False None 0 0 = (sent, cnx', path') \<and>
    picoquic_parse_packet_header (example_quic t) sent sockaddr_zero None True = Some (0, ph, Some 5) \<and>
    ph_l_cid ph = Some 3 \<and> ph_spin ph \<and>
    uncovered example_peer example_context sent (replicate 1500 0) ph example_aead (replicate 40 1) 700 False"
proof -
  obtain t where t: "quic_ok (example_quic t)" "picoquic_cnx_by_id (example_quic t) example_cid = Some (Some 5, Some 3)"
    using example_registered by blast
  have e: "picoquic_predict_packet_header_length example_peer picoquic_packet_1rtt_protected 700 (Some 590) = 7" by code_simp
  have r: "pc_remote_cnxid example_peer = example_cid" "connections (example_quic t) 5 = example_peer"
    by (simp_all add: example_peer_def example_quic_def)
  have "\<exists>sent cnx' path' ph.
    picoquic_protect_packet example_peer picoquic_packet_1rtt_protected (replicate 7 0 @ replicate 40 1) 700
      (length (replicate 7 (0 :: u8)) + length (replicate 40 (1 :: u8))) (length (replicate 7 (0 :: u8))) 1500
      example_aead example_pn example_path False None 0 0 = (sent, cnx', path') \<and>
    picoquic_parse_packet_header (example_quic t) sent sockaddr_zero None True = Some (0, ph, Some 5) \<and>
    ptype ph = picoquic_packet_1rtt_protected \<and> dest_cnx_id ph = pc_remote_cnxid example_peer \<and> ph_l_cid ph = Some 3 \<and>
    ph_spin ph = (spinbit_outgoing example_peer 0 \<noteq> 0) \<and>
    uncovered (connections (example_quic t) 5) example_context sent (replicate 1500 0) ph example_aead (replicate 40 1) 700
      (pc_key_phase_enc example_peer)"
    by (rule short_header_end_to_end [where oldest = "Some 590"])
      (simp_all add: e r t(2) example_cid_ok example_aead_ok, simp_all add: example_peer_def example_aead_def example_pn_def example_context_def
        example_quic_def example_cid_def expected_near_def)
  then show ?thesis
    unfolding r by (simp add: example_peer_def spinbit_outgoing_def picoquic_spinbit_basic_outgoing_def) blast
qed

end
