(* ===== verification/LocalCids.thy ===== *)
theory LocalCids
  imports PacketFacts
begin

text \<open>
  The connection identifiers that an endpoint issues: created, registered and deleted in
  \<open>picoquic/quicctx.c\<close>, announced in \<open>picoquic/sender.c\<close> and \<open>picoquic/frames.c\<close>, and retired by the peer.

  The list of a connection is the list of the addresses of its items, in their order; \<open>cnxid_mem\<close> gives the
  item at an address. The list of the keys that an item has in the table is a list as well.
\<close>

section \<open>State\<close>

record local_cnxid =
  first_cnx_id :: "cnx_id_key list"
  cnxid_sequence :: u64
  create_time :: u64
  lc_cnx_id :: connection_id

record cnxid_path =
  p_local_cnxid :: hash_ptr
  was_local_cnxid_retired :: bool

text \<open>
  \<open>cs_cnx\<close> is the connection. \<open>local_cnxids\<close> starts at \<open>local_cnxid_first\<close>. The acknowledgement contexts that
  the items contain have no influence on the identifiers and are left out.
\<close>

record cid_state =
  cs_quic :: quic_context
  cs_cnx :: nat
  local_cnxid_ttl :: u64
  cnxid_mem :: "nat \<Rightarrow> local_cnxid"
  local_cnxids :: "nat list"
  local_cnxid_sequence_next :: u64
  nb_local_cnxid :: int
  nb_local_cnxid_expired :: int
  local_cnxid_retire_before :: u64
  local_cnxid_oldest_created :: u64
  active_connection_id_limit :: int
  cs_paths :: "cnxid_path list"
  cs_next_wake_time :: u64
  cs_error :: "(u64 \<times> u64) option"

abbreviation PICOQUIC_NB_PATH_TARGET :: int where "PICOQUIC_NB_PATH_TARGET \<equiv> 8"
abbreviation PICOQUIC_RESET_SECRET_SIZE :: nat where "PICOQUIC_RESET_SECRET_SIZE \<equiv> 16"
abbreviation new_connection_id_frame_type :: u8 where "new_connection_id_frame_type \<equiv> 0x18"

text \<open>
  What a creation depends on beside the state: the result of \<open>malloc\<close>, whether the key can be allocated,
  and the identifier that the \<open>i\<close>-th attempt proposes: the suggested one, or a random one as the callback
  of the application left it.
\<close>

record create_env =
  l_cid_malloc :: hash_ptr
  key_malloc :: bool
  proposal :: "nat \<Rightarrow> connection_id"

section \<open>Registration\<close>

definition cnxid_key :: "cid_state \<Rightarrow> nat \<Rightarrow> cnx_id_key" where
  "cnxid_key s a = \<lparr>ck_cnx_id = lc_cnx_id (cnxid_mem s a), ck_cnx = cs_cnx s, ck_l_cid = Some a\<rparr>"

definition picoquic_register_cnx_id :: "cid_state \<Rightarrow> bool \<Rightarrow> nat \<Rightarrow> (int \<times> cid_state) option" where
  "picoquic_register_cnx_id s key_ok a =
     (if \<not> key_ok then Some (-1, s)
      else do {
        let key = cnxid_key s a;
        item \<leftarrow> picohash_retrieve (table_cnx_by_id (cs_quic s)) key;
        if item \<noteq> None then Some (-1, s)
        else do {
          (ret, t) \<leftarrow> picohash_insert (table_cnx_by_id (cs_quic s)) key;
          let s = s\<lparr>cs_quic := (cs_quic s)\<lparr>table_cnx_by_id := t\<rparr>\<rparr>;
          Some (ret, if ret = 0
            then s\<lparr>cnxid_mem := (cnxid_mem s)(a := (cnxid_mem s a)\<lparr>first_cnx_id := key # first_cnx_id (cnxid_mem s a)\<rparr>)\<rparr>
            else s)
        }
      })"

section \<open>Creation and deletion\<close>

text \<open>The loop that looks for an identifier that is not in use: \<open>n\<close> attempts are left.\<close>

fun unique_loop :: "quic_context \<Rightarrow> (nat \<Rightarrow> connection_id) \<Rightarrow> nat \<Rightarrow> nat \<Rightarrow> connection_id option option" where
  "unique_loop quic gen i 0 = Some None"
| "unique_loop quic gen i (Suc n) = do {
     (p, l_cid) \<leftarrow> picoquic_cnx_by_id quic (gen i);
     if p = None then Some (Some (gen i)) else unique_loop quic gen (Suc i) n
   }"

definition picoquic_create_local_cnxid :: "cid_state \<Rightarrow> create_env \<Rightarrow> u64 \<Rightarrow> (hash_ptr \<times> cid_state) option" where
  "picoquic_create_local_cnxid s env current_time =
     (case l_cid_malloc env of
        None \<Rightarrow> Some (None, s)
      | Some a \<Rightarrow> do {
          cid \<leftarrow> (if local_cnxid_length (cs_quic s) = 0 then Some (Some picoquic_null_connection_id)
                 else unique_loop (cs_quic s) (proposal env) 0 32);
          case cid of
            None \<Rightarrow> Some (None, s)
          | Some c \<Rightarrow> do {
              let s = s\<lparr>cnxid_mem := (cnxid_mem s)(a := \<lparr>first_cnx_id = [], cnxid_sequence = local_cnxid_sequence_next s,
                                                       create_time = current_time, lc_cnx_id = c\<rparr>),
                        local_cnxids := local_cnxids s @ [a],
                        local_cnxid_sequence_next := local_cnxid_sequence_next s + 1,
                        nb_local_cnxid := nb_local_cnxid s + 1\<rparr>;
              s \<leftarrow> (if local_cnxid_length (cs_quic s) > 0
                   then do { (ret, s) \<leftarrow> picoquic_register_cnx_id s (key_malloc env) a; Some s }
                   else Some s);
              Some (Some a, s)
            }
        })"

text \<open>The paths that use the item lose it; the item leaves the list, and the first of its keys the table.\<close>

definition forget_cnxid :: "nat \<Rightarrow> cnxid_path \<Rightarrow> cnxid_path" where
  "forget_cnxid a p = (if p_local_cnxid p = Some a then p\<lparr>p_local_cnxid := None, was_local_cnxid_retired := True\<rparr> else p)"

definition unregister_cnxid :: "cid_state \<Rightarrow> nat \<Rightarrow> cid_state option" where
  "unregister_cnxid s a =
     (if cid_len (lc_cnx_id (cnxid_mem s a)) > 0 then
        case first_cnx_id (cnxid_mem s a) of
          [] \<Rightarrow> Some s
        | key # keys \<Rightarrow> do {
            item \<leftarrow> picohash_retrieve (table_cnx_by_id (cs_quic s)) key;
            t \<leftarrow> (case item of
                None \<Rightarrow> Some (table_cnx_by_id (cs_quic s))
              | Some i \<Rightarrow> picohash_delete_item (table_cnx_by_id (cs_quic s)) i True);
            Some (s\<lparr>cs_quic := (cs_quic s)\<lparr>table_cnx_by_id := t\<rparr>,
                    cnxid_mem := (cnxid_mem s)(a := (cnxid_mem s a)\<lparr>first_cnx_id := []\<rparr>)\<rparr>)
          }
      else Some s)"

definition picoquic_delete_local_cnxid :: "cid_state \<Rightarrow> nat \<Rightarrow> cid_state option" where
  "picoquic_delete_local_cnxid s a = do {
     let s = s\<lparr>cs_paths := map (forget_cnxid a) (cs_paths s),
               nb_local_cnxid := (if a \<in> set (local_cnxids s) then nb_local_cnxid s - 1 else nb_local_cnxid s),
               local_cnxids := remove1 a (local_cnxids s)\<rparr>;
     s \<leftarrow> unregister_cnxid s a;
     Some (if cnxid_sequence (cnxid_mem s a) < local_cnxid_retire_before s \<and> nb_local_cnxid_expired s > 0
           then s\<lparr>nb_local_cnxid_expired := nb_local_cnxid_expired s - 1\<rparr> else s)
   }"

text \<open>The loops that look for an item stop at the first one that fits.\<close>

definition picoquic_find_local_cnxid_by_number :: "cid_state \<Rightarrow> u64 \<Rightarrow> hash_ptr" where
  "picoquic_find_local_cnxid_by_number s sequence = find (\<lambda>a. cnxid_sequence (cnxid_mem s a) = sequence) (local_cnxids s)"

definition picoquic_find_local_cnxid :: "cid_state \<Rightarrow> connection_id \<Rightarrow> hash_ptr" where
  "picoquic_find_local_cnxid s cnxid =
     find (\<lambda>a. picoquic_compare_connection_id (lc_cnx_id (cnxid_mem s a)) cnxid = 0) (local_cnxids s)"

definition picoquic_retire_local_cnxid :: "cid_state \<Rightarrow> u64 \<Rightarrow> cid_state option" where
  "picoquic_retire_local_cnxid s sequence =
     (case find (\<lambda>a. cnxid_sequence (cnxid_mem s a) = sequence) (local_cnxids s) of
        Some a \<Rightarrow> picoquic_delete_local_cnxid s a
      | None \<Rightarrow> Some s)"

text \<open>The loop over the list, with the fields that it updates.\<close>

definition ttl_step :: "u64 \<Rightarrow> cid_state \<Rightarrow> nat \<Rightarrow> cid_state" where
  "ttl_step current_time s a =
     (let l = cnxid_mem s a
      in if current_time - create_time l \<ge> local_cnxid_ttl s then
           let s = s\<lparr>nb_local_cnxid_expired := nb_local_cnxid_expired s + 1\<rparr>
           in if cnxid_sequence l \<ge> local_cnxid_retire_before s then s\<lparr>local_cnxid_retire_before := cnxid_sequence l + 1\<rparr> else s
         else if create_time l < local_cnxid_oldest_created s then s\<lparr>local_cnxid_oldest_created := create_time l\<rparr>
         else s)"

definition picoquic_check_local_cnxid_ttl :: "cid_state \<Rightarrow> u64 \<Rightarrow> u64 \<Rightarrow> cid_state \<times> u64" where
  "picoquic_check_local_cnxid_ttl s current_time next_wake_time =
     (if current_time - local_cnxid_oldest_created s \<ge> local_cnxid_ttl s then
        let s = s\<lparr>local_cnxid_oldest_created := current_time, nb_local_cnxid_expired := 0\<rparr>;
            s = foldl (ttl_step current_time) s (local_cnxids s)
        in (s\<lparr>cs_next_wake_time := current_time\<rparr>, next_wake_time)
      else if next_wake_time - local_cnxid_oldest_created s > local_cnxid_ttl s
      then (s, local_cnxid_oldest_created s + local_cnxid_ttl s)
      else (s, next_wake_time))"

section \<open>Frames\<close>

text \<open>
  \<open>room\<close> is the number of bytes up to \<open>bytes_max\<close>, the result the bytes that are written and
  \<open>more_data\<close>. \<open>make_secret\<close> stands for \<open>picoquic_create_cnxid_reset_secret\<close>, which writes 16 bytes.
\<close>

definition new_connection_id_fields :: "nat \<Rightarrow> u64 \<Rightarrow> local_cnxid \<Rightarrow> u8 list option" where
  "new_connection_id_fields room retire_before l = do {
     b1 \<leftarrow> picoquic_frames_uint8_encode room new_connection_id_frame_type;
     b2 \<leftarrow> picoquic_frames_varint_encode (room - length b1) (cnxid_sequence l);
     b3 \<leftarrow> picoquic_frames_varint_encode (room - length b1 - length b2) retire_before;
     b4 \<leftarrow> picoquic_frames_cid_encode (room - length b1 - length b2 - length b3) (lc_cnx_id l);
     let bs = b1 @ b2 @ b3 @ b4;
     if length bs + PICOQUIC_RESET_SECRET_SIZE > room then None else Some bs
   }"

definition picoquic_format_new_connection_id_frame ::
    "(connection_id \<Rightarrow> u8 list) \<Rightarrow> nat \<Rightarrow> u64 \<Rightarrow> local_cnxid \<Rightarrow> u8 list \<times> bool" where
  "picoquic_format_new_connection_id_frame make_secret room retire_before l =
     (if cnxid_sequence l \<noteq> 0 \<and> cid_len (lc_cnx_id l) > 0 then
        case new_connection_id_fields room retire_before l of
          None \<Rightarrow> ([], True)
        | Some bs \<Rightarrow> (bs @ make_secret (lc_cnx_id l), False)
      else ([], False))"

text \<open>The sequence number, the other one, the identifier, the reset secret and the bytes left.\<close>

definition picoquic_parse_new_connection_id_frame ::
    "u8 list \<Rightarrow> (u64 \<times> u64 \<times> u8 list \<times> u8 list \<times> u8 list) option" where
  "picoquic_parse_new_connection_id_frame bytes = do {
     (sequence, bytes) \<leftarrow> picoquic_frames_varint_decode (tl bytes);
     (retire_before, bytes) \<leftarrow> picoquic_frames_varint_decode bytes;
     (cid_length, bytes) \<leftarrow> picoquic_frames_uint8_decode bytes;
     rest \<leftarrow> picoquic_frames_fixed_skip bytes (ucast cid_length + of_nat PICOQUIC_RESET_SECRET_SIZE);
     Some (sequence, retire_before, take (unat cid_length) bytes,
           take PICOQUIC_RESET_SECRET_SIZE (drop (unat cid_length) bytes), rest)
   }"

text \<open>
  The loop that issues identifiers: \<open>envs\<close> are the environments of the creations to come. When a frame
  does not fit, the new identifier is deleted.
\<close>

partial_function (option) new_id_loop ::
    "(connection_id \<Rightarrow> u8 list) \<Rightarrow> cid_state \<Rightarrow> (nat \<Rightarrow> create_env) \<Rightarrow> nat \<Rightarrow> nat \<Rightarrow> u8 list \<Rightarrow> u64 \<Rightarrow> (u8 list \<times> cid_state) option" where
  "new_id_loop make_secret s envs i room bytes current_time =
     (if nb_local_cnxid s < active_connection_id_limit s + nb_local_cnxid_expired s \<and>
         nb_local_cnxid s \<le> PICOQUIC_NB_PATH_TARGET + nb_local_cnxid_expired s
      then do {
        (l_cid, s) \<leftarrow> picoquic_create_local_cnxid s (envs i) current_time;
        case l_cid of
          None \<Rightarrow> Some (bytes, s)
        | Some a \<Rightarrow>
            let (bs, more_data) = picoquic_format_new_connection_id_frame make_secret room (local_cnxid_retire_before s) (cnxid_mem s a)
            in if bs = [] then do {
                 s \<leftarrow> picoquic_delete_local_cnxid s a;
                 Some (bytes, s\<lparr>local_cnxid_sequence_next := local_cnxid_sequence_next s - 1,
                               nb_local_cnxid := nb_local_cnxid s - 1\<rparr>)
               }
               else new_id_loop make_secret s envs (Suc i) (room - length bs) (bytes @ bs) current_time
      }
      else Some (bytes, s))"

declare new_id_loop.simps [code]

definition picoquic_format_new_local_id_as_needed ::
    "(connection_id \<Rightarrow> u8 list) \<Rightarrow> cid_state \<Rightarrow> (nat \<Rightarrow> create_env) \<Rightarrow> nat \<Rightarrow> u64 \<Rightarrow> u64 \<Rightarrow> (u8 list \<times> cid_state \<times> u64) option" where
  "picoquic_format_new_local_id_as_needed make_secret s envs room current_time next_wake_time = do {
     let (s, wake) = picoquic_check_local_cnxid_ttl s current_time next_wake_time;
     (bytes, s) \<leftarrow> new_id_loop make_secret s envs 0 room [] current_time;
     Some (bytes, s, wake)
   }"

text \<open>
  The frame by which the peer retires an identifier, received on the path \<open>path_x\<close>; NULL is \<open>None\<close> and
  \<open>cs_error\<close> is what \<open>picoquic_connection_error\<close> was called with.
\<close>

definition picoquic_decode_retire_connection_id_frame ::
    "cid_state \<Rightarrow> u8 list \<Rightarrow> cnxid_path \<Rightarrow> (u8 list option \<times> cid_state) option" where
  "picoquic_decode_retire_connection_id_frame s bytes path_x =
     (case picoquic_frames_varint_decode (tl bytes) of
        None \<Rightarrow> Some (None, s\<lparr>cs_error := Some (0x7, 0x19)\<rparr>)
      | Some (sequence, rest) \<Rightarrow>
          if sequence \<ge> local_cnxid_sequence_next s then Some (None, s\<lparr>cs_error := Some (0xA, 0x19)\<rparr>)
          else if \<exists>a\<in>set_option (p_local_cnxid path_x). sequence = cnxid_sequence (cnxid_mem s a)
          then Some (None, s\<lparr>cs_error := Some (0xA, 0x19)\<rparr>)
          else do { s \<leftarrow> picoquic_retire_local_cnxid s sequence; Some (Some rest, s) })"


section \<open>The registered identifiers\<close>

abbreviation by_id :: "cid_state \<Rightarrow> cnx_id_key picohash_table" where
  "by_id s \<equiv> table_cnx_by_id (cs_quic s)"

abbreviation id_table :: "cnx_id_key picohash_table \<Rightarrow> nat set \<Rightarrow> bool" where
  "id_table \<equiv> holds_items (\<lambda>k. cid_array (ck_cnx_id k)) picoquic_cnx_id_hash picoquic_cnx_id_compare"

text \<open>
  The invariant: the keys of the connection in the table are exactly the keys of the items in its list;
  in particular no key points to an item that was deleted.
\<close>

definition listed_ok :: "cid_state \<Rightarrow> nat set \<Rightarrow> bool" where
  "listed_ok s A \<longleftrightarrow> distinct (local_cnxids s) \<and>
     (\<forall>a\<in>set (local_cnxids s). cid_ok (lc_cnx_id (cnxid_mem s a)) \<and> 0 < cid_len (lc_cnx_id (cnxid_mem s a)) \<and>
        (first_cnx_id (cnxid_mem s a) = [] \<or>
         first_cnx_id (cnxid_mem s a) = [cnxid_key s a] \<and> cnxid_key s a \<in> (\<lambda>i. item_key (hash_mem (by_id s) i)) ` A))"

definition keys_ok :: "cid_state \<Rightarrow> nat set \<Rightarrow> bool" where
  "keys_ok s A \<longleftrightarrow> (\<forall>i\<in>A. ck_cnx (item_key (hash_mem (by_id s) i)) = cs_cnx s \<longrightarrow>
     (\<exists>a\<in>set (local_cnxids s). item_key (hash_mem (by_id s) i) = cnxid_key s a \<and> first_cnx_id (cnxid_mem s a) = [cnxid_key s a]))"

definition cnxids_ok :: "cid_state \<Rightarrow> nat set \<Rightarrow> bool" where
  "cnxids_ok s A \<longleftrightarrow> id_table (by_id s) A \<and> cnx_id.table.unique (by_id s) A \<and> listed_ok s A \<and> keys_ok s A \<and>
     0 < local_cnxid_length (cs_quic s)"

lemma key_valid: "listed_ok s A \<Longrightarrow> a \<in> set (local_cnxids s) \<Longrightarrow> cid_array (ck_cnx_id (cnxid_key s a))"
  by (simp add: listed_ok_def cnxid_key_def cid_ok_array)

text \<open>Two items of the list that have the same identifier in the table are the same item.\<close>

lemma same_key_iff:
  "cid_array (ck_cnx_id k) \<Longrightarrow> cid_array (ck_cnx_id l) \<Longrightarrow>
   picoquic_cnx_id_compare k l = 0 \<longleftrightarrow> cid_len (ck_cnx_id k) = cid_len (ck_cnx_id l) \<and> cid_bytes (ck_cnx_id k) = cid_bytes (ck_cnx_id l)"
  by (simp add: picoquic_cnx_id_compare_def cid_compare_0_iff)

lemma lookup_cnx:
  assumes "cnxids_ok s A" "cid_array c"
  shows "\<exists>p l. picoquic_cnx_by_id (cs_quic s) c = Some (p, l) \<and>
    (case p of None \<Rightarrow> \<not> cnx_id.table.present (by_id s) A \<lparr>ck_cnx_id = c, ck_cnx = 0, ck_l_cid = None\<rparr>
     | Some x \<Rightarrow> \<exists>i\<in>A. ck_cnx (item_key (hash_mem (by_id s) i)) = x \<and> ck_l_cid (item_key (hash_mem (by_id s) i)) = l \<and>
         picoquic_cnx_id_compare \<lparr>ck_cnx_id = c, ck_cnx = 0, ck_l_cid = None\<rparr> (item_key (hash_mem (by_id s) i)) = 0)"
proof -
  let ?k = "\<lparr>ck_cnx_id = c, ck_cnx = 0, ck_l_cid = None\<rparr>"
  obtain p where p: "picohash_retrieve (by_id s) ?k = Some p"
    "case p of None \<Rightarrow> \<forall>a\<in>A. picoquic_cnx_id_compare ?k (item_key (hash_mem (by_id s) a)) \<noteq> 0
     | Some a \<Rightarrow> a \<in> A \<and> picoquic_cnx_id_compare ?k (item_key (hash_mem (by_id s) a)) = 0"
    using cnx_id.table.lookup_law [of "by_id s" A ?k] assms by (auto simp: cnxids_ok_def)
  then show ?thesis
    by (cases p) (auto simp: picoquic_cnx_by_id_def cnx_id.table.present_def Let_def)
qed

text \<open>What the connection of an identifier is given to a packet is an item of the list.\<close>

lemma lookup_listed:
  assumes "cnxids_ok s A" "cid_ok c" "picoquic_cnx_by_id (cs_quic s) c = Some (Some (cs_cnx s), l)"
  shows "\<exists>a\<in>set (local_cnxids s). l = Some a \<and> lc_cnx_id (cnxid_mem s a) = c"
proof -
  obtain i where i: "i \<in> A" "ck_cnx (item_key (hash_mem (by_id s) i)) = cs_cnx s" "ck_l_cid (item_key (hash_mem (by_id s) i)) = l"
    "picoquic_cnx_id_compare \<lparr>ck_cnx_id = c, ck_cnx = 0, ck_l_cid = None\<rparr> (item_key (hash_mem (by_id s) i)) = 0"
    using lookup_cnx [OF assms(1) cid_ok_array [OF assms(2)]] assms(3) by auto
  then obtain a where a: "a \<in> set (local_cnxids s)" "item_key (hash_mem (by_id s) i) = cnxid_key s a"
    using assms(1) unfolding cnxids_ok_def keys_ok_def by blast
  have ok: "cid_ok (lc_cnx_id (cnxid_mem s a))" using assms(1) a(1) by (simp add: cnxids_ok_def listed_ok_def)
  have "cid_bytes c = cid_bytes (lc_cnx_id (cnxid_mem s a))"
    using i(4) a(2) ok assms(2) by (simp add: same_key_iff cnxid_key_def cid_ok_array)
  then have "c = lc_cnx_id (cnxid_mem s a)" using cid_ok_cases [OF ok] cid_ok_cases [OF assms(2)] by metis
  moreover have "l = Some a" using i(3) a(2) by (simp add: cnxid_key_def)
  ultimately show ?thesis using a(1) by blast
qed


section \<open>Creation keeps the invariant\<close>

lemma unique_loop_free:
  assumes "cnxids_ok s A" "\<forall>i. cid_ok (gen i)"
  shows "\<exists>r. unique_loop (cs_quic s) gen i n = Some r \<and>
    (\<forall>c. r = Some c \<longrightarrow> (\<exists>j. c = gen j) \<and> \<not> cnx_id.table.present (by_id s) A \<lparr>ck_cnx_id = c, ck_cnx = 0, ck_l_cid = None\<rparr>)"
proof (induction n arbitrary: i)
  case (Suc n)
  have "cid_array (gen i)" using assms(2) by (simp add: cid_ok_array)
  from lookup_cnx [OF assms(1) this] obtain p l where p: "picoquic_cnx_by_id (cs_quic s) (gen i) = Some (p, l)"
    "p = None \<longrightarrow> \<not> cnx_id.table.present (by_id s) A \<lparr>ck_cnx_id = gen i, ck_cnx = 0, ck_l_cid = None\<rparr>" by (force split: option.splits)
  show ?case
  proof (cases "p = None")
    case True
    then show ?thesis using p by auto
  next
    case False
    then show ?thesis using p(1) Suc.IH [of "Suc i"] by auto
  qed
qed simp

text \<open>What registration does to a state with a new item \<open>a\<close> in its list.\<close>

lemma register_new:
  assumes s: "cnxids_ok s A" and c: "cid_ok c" "0 < cid_len c"
    "\<not> cnx_id.table.present (by_id s) A \<lparr>ck_cnx_id = c, ck_cnx = 0, ck_l_cid = None\<rparr>"
    and a: "a \<notin> set (local_cnxids s)" and alloc: "next_alloc (by_id s) \<notin> Some ` A"
    and new: "cs_quic s1 = cs_quic s" "cs_cnx s1 = cs_cnx s" "local_cnxids s1 = local_cnxids s @ [a]"
      "\<And>b. b \<noteq> a \<Longrightarrow> cnxid_mem s1 b = cnxid_mem s b" "lc_cnx_id (cnxid_mem s1 a) = c" "first_cnx_id (cnxid_mem s1 a) = []"
  shows "\<exists>ret s' A'. picoquic_register_cnx_id s1 key_ok a = Some (ret, s') \<and> cnxids_ok s' A' \<and>
    local_cnxids s' = local_cnxids s1 \<and> lc_cnx_id (cnxid_mem s' a) = c \<and> cs_cnx s' = cs_cnx s1 \<and>
    nb_local_cnxid s' = nb_local_cnxid s1 \<and> local_cnxid_sequence_next s' = local_cnxid_sequence_next s1 \<and>
    (\<forall>b. cnxid_sequence (cnxid_mem s' b) = cnxid_sequence (cnxid_mem s1 b)) \<and>
    (\<forall>b. lc_cnx_id (cnxid_mem s' b) = lc_cnx_id (cnxid_mem s1 b)) \<and>
    nb_local_cnxid_expired s' = nb_local_cnxid_expired s1 \<and> active_connection_id_limit s' = active_connection_id_limit s1 \<and>
    (key_ok \<and> next_alloc (by_id s) \<noteq> None \<longrightarrow> ret = 0 \<and> first_cnx_id (cnxid_mem s' a) = [cnxid_key s' a])"
proof -
  define key where "key = cnxid_key s1 a"
  have key: "ck_cnx_id key = c" "ck_cnx key = cs_cnx s" "ck_l_cid key = Some a" by (simp_all add: key_def cnxid_key_def new)
  have valid: "cid_array (ck_cnx_id key)" using c(1) key(1) by (simp add: cid_ok_array)
  have t: "id_table (by_id s) A" "cnx_id.table.unique (by_id s) A" "listed_ok s A" "keys_ok s A" using s by (simp_all add: cnxids_ok_def)
  have old: "cnxid_mem s1 b = cnxid_mem s b" if "b \<in> set (local_cnxids s)" for b using that a new(4) by metis
  then have keys_eq: "cnxid_key s1 b = cnxid_key s b" if "b \<in> set (local_cnxids s)" for b
    using that new(2) by (simp add: cnxid_key_def)
  have "cnx_id.table.present (by_id s) A key = cnx_id.table.present (by_id s) A \<lparr>ck_cnx_id = c, ck_cnx = 0, ck_l_cid = None\<rparr>"
    unfolding cnx_id.table.present_def using key(1) by (simp add: picoquic_cnx_id_compare_def)
  then have none: "picohash_retrieve (by_id s) key = Some None"
    using cnx_id.table.lookup_present [OF t(1), of key] valid c(3) by auto
  have s1_ok: "listed_ok s1 A" "keys_ok s1 A"
    using t(3,4) a c(1,2) new(1-3,5,6) keys_eq old unfolding listed_ok_def keys_ok_def by auto
  show ?thesis
  proof (cases "key_ok")
    case False
    have "cnxids_ok s1 A" using s s1_ok new(1) by (simp add: cnxids_ok_def)
    then show ?thesis using False new by (auto simp: picoquic_register_cnx_id_def)
  next
    case key_ok: True
    show ?thesis
    proof (cases "next_alloc (by_id s)")
      case None
      obtain ret t' where t': "picohash_insert (by_id s) key = Some (ret, t')" "ret = -1" "id_table t' A"
        "\<forall>b\<in>A. item_key (hash_mem t' b) = item_key (hash_mem (by_id s) b)"
        using cnx_id.table.add_law [OF t(1) valid alloc] None by auto
      define s' where "s' = s1\<lparr>cs_quic := (cs_quic s1)\<lparr>table_cnx_by_id := t'\<rparr>\<rparr>"
      have "picoquic_register_cnx_id s1 key_ok a = Some (-1, s')"
        using key_ok none t'(1,2) by (simp add: picoquic_register_cnx_id_def key_def [symmetric] new(1) s'_def)
      moreover have ck: "cnxid_key s' b = cnxid_key s1 b" for b by (simp add: s'_def cnxid_key_def)
      moreover have "listed_ok s' A" "keys_ok s' A"
        using s1_ok t'(4) new(1) unfolding listed_ok_def keys_ok_def ck by (auto simp: s'_def)
      moreover have "cnx_id.table.unique t' A" using t(2) t'(4) by (simp add: cnx_id.table.unique_def)
      ultimately show ?thesis using s t'(3) None new by (auto simp: cnxids_ok_def s'_def)
    next
      case (Some i)
      then have i: "i \<notin> A" using alloc by auto
      have same: "picoquic_cnx_id_compare key key = 0" using valid by (simp add: same_key_iff)
      obtain t' where t': "picohash_insert (by_id s) key = Some (0, t')" "id_table t' (insert i A)" "cnx_id.table.unique t' (insert i A)"
        "item_key (hash_mem t' i) = key" "\<forall>b\<in>A. item_key (hash_mem t' b) = item_key (hash_mem (by_id s) b)"
        using cnx_id.table.add_absent [OF t(1,2) valid none Some i same] by blast
      define s' where "s' = s1\<lparr>cs_quic := (cs_quic s1)\<lparr>table_cnx_by_id := t'\<rparr>,
        cnxid_mem := (cnxid_mem s1)(a := (cnxid_mem s1 a)\<lparr>first_cnx_id := [key]\<rparr>)\<rparr>"
      have run: "picoquic_register_cnx_id s1 key_ok a = Some (0, s')"
        using key_ok none t'(1) by (simp add: picoquic_register_cnx_id_def key_def [symmetric] new(1,6) s'_def)
      have ck: "cnxid_key s' b = cnxid_key s1 b" for b by (simp add: s'_def cnxid_key_def)
      have ba: "by_id s' = t'" "local_cnxids s' = local_cnxids s @ [a]" "cs_cnx s' = cs_cnx s"
        "\<And>b. b \<noteq> a \<Longrightarrow> cnxid_mem s' b = cnxid_mem s b" "lc_cnx_id (cnxid_mem s' a) = c" "first_cnx_id (cnxid_mem s' a) = [key]"
        using new by (simp_all add: s'_def)
      have old': "cnxid_mem s' b = cnxid_mem s1 b" if "b \<in> set (local_cnxids s)" for b using that a by (auto simp: s'_def)
      have in_t': "(\<lambda>i. item_key (hash_mem t' i)) ` insert i A = insert key ((\<lambda>i. item_key (hash_mem (by_id s) i)) ` A)"
        using t'(4,5) by (auto simp: image_iff)
      have "listed_ok s' (insert i A)"
        using s1_ok(1) a c(1,2) new(3) unfolding listed_ok_def ba ck in_t' new(1)
        by (auto simp: ba key_def new old')
      moreover have "keys_ok s' (insert i A)"
        unfolding keys_ok_def ba ck
      proof (intro ballI impI)
        fix j assume j: "j \<in> insert i A" "ck_cnx (item_key (hash_mem t' j)) = cs_cnx s"
        show "\<exists>b\<in>set (local_cnxids s @ [a]). item_key (hash_mem t' j) = cnxid_key s1 b \<and> first_cnx_id (cnxid_mem s' b) = [cnxid_key s1 b]"
        proof (cases "j = i")
          case True
          then show ?thesis using t'(4) ba(6) by (auto simp: key_def)
        next
          case False
          then have "j \<in> A" "item_key (hash_mem t' j) = item_key (hash_mem (by_id s) j)" using j t'(5) by auto
          then obtain b where "b \<in> set (local_cnxids s)" "item_key (hash_mem t' j) = cnxid_key s b" "first_cnx_id (cnxid_mem s b) = [cnxid_key s b]"
            using t(4) j(2) by (auto simp: keys_ok_def)
          then show ?thesis using old [of b] old' [of b] keys_eq [of b] by (intro bexI [of _ b]) auto
        qed
      qed
      ultimately have "cnxids_ok s' (insert i A)" using s t'(2,3) by (simp add: cnxids_ok_def ba) (simp add: s'_def new)
      then show ?thesis using run ba new by (auto simp: s'_def key_def cnxid_key_def)
    qed
  qed
qed


text \<open>What a creation needs: fresh addresses, and proposals that are identifiers.\<close>

definition env_ok :: "cid_state \<Rightarrow> nat set \<Rightarrow> create_env \<Rightarrow> bool" where
  "env_ok s A env \<longleftrightarrow> (\<forall>i. cid_ok (proposal env i) \<and> 0 < cid_len (proposal env i)) \<and>
     l_cid_malloc env \<notin> Some ` set (local_cnxids s) \<and> next_alloc (by_id s) \<notin> Some ` A"

lemma create_keeps:
  assumes "cnxids_ok s A" "env_ok s A env"
  shows "\<exists>r s' A'. picoquic_create_local_cnxid s env t = Some (r, s') \<and> cnxids_ok s' A' \<and> cs_cnx s' = cs_cnx s \<and>
    active_connection_id_limit s' = active_connection_id_limit s \<and> nb_local_cnxid_expired s' = nb_local_cnxid_expired s \<and>
    (case r of None \<Rightarrow> s' = s
     | Some a \<Rightarrow> l_cid_malloc env = Some a \<and> local_cnxids s' = local_cnxids s @ [a] \<and> nb_local_cnxid s' = nb_local_cnxid s + 1 \<and>
         cnxid_sequence (cnxid_mem s' a) = local_cnxid_sequence_next s \<and> local_cnxid_sequence_next s' = local_cnxid_sequence_next s + 1 \<and>
         (\<exists>i. lc_cnx_id (cnxid_mem s' a) = proposal env i) \<and>
         (\<forall>b\<in>set (local_cnxids s). cnxid_sequence (cnxid_mem s' b) = cnxid_sequence (cnxid_mem s b)) \<and>
         (key_malloc env \<and> next_alloc (by_id s) \<noteq> None \<longrightarrow> first_cnx_id (cnxid_mem s' a) = [cnxid_key s' a]))"
proof (cases "l_cid_malloc env")
  case None
  then show ?thesis using assms(1) by (auto simp: picoquic_create_local_cnxid_def)
next
  case (Some a)
  have env: "\<forall>i. cid_ok (proposal env i)" "\<And>i. 0 < cid_len (proposal env i)" "a \<notin> set (local_cnxids s)"
    "next_alloc (by_id s) \<notin> Some ` A" using assms(2) Some by (auto simp: env_ok_def)
  have pos: "0 < local_cnxid_length (cs_quic s)" using assms(1) by (simp add: cnxids_ok_def)
  then have nonzero: "local_cnxid_length (cs_quic s) \<noteq> 0" by auto
  obtain r where r: "unique_loop (cs_quic s) (proposal env) 0 32 = Some r"
    "\<And>c. r = Some c \<Longrightarrow> (\<exists>j. c = proposal env j) \<and> \<not> cnx_id.table.present (by_id s) A \<lparr>ck_cnx_id = c, ck_cnx = 0, ck_l_cid = None\<rparr>"
    using unique_loop_free [OF assms(1) env(1), of 0 32] by blast
  show ?thesis
  proof (cases r)
    case None
    then show ?thesis using r(1) Some pos assms(1) by (auto simp: picoquic_create_local_cnxid_def)
  next
    case c: (Some c)
    from r(2) [OF c] obtain j where j: "c = proposal env j"
      "\<not> cnx_id.table.present (by_id s) A \<lparr>ck_cnx_id = c, ck_cnx = 0, ck_l_cid = None\<rparr>" by blast
    have ok: "cid_ok c" "0 < cid_len c" using env(1,2) j(1) by auto
    define s1 where "s1 = s\<lparr>cnxid_mem := (cnxid_mem s)(a := \<lparr>first_cnx_id = [], cnxid_sequence = local_cnxid_sequence_next s,
                                                       create_time = t, lc_cnx_id = c\<rparr>),
                        local_cnxids := local_cnxids s @ [a],
                        local_cnxid_sequence_next := local_cnxid_sequence_next s + 1,
                        nb_local_cnxid := nb_local_cnxid s + 1\<rparr>"
    obtain ret s' A' where s': "picoquic_register_cnx_id s1 (key_malloc env) a = Some (ret, s')" "cnxids_ok s' A'"
        "local_cnxids s' = local_cnxids s1" "lc_cnx_id (cnxid_mem s' a) = c" "cs_cnx s' = cs_cnx s1"
        "nb_local_cnxid s' = nb_local_cnxid s1" "local_cnxid_sequence_next s' = local_cnxid_sequence_next s1"
        "\<And>b. cnxid_sequence (cnxid_mem s' b) = cnxid_sequence (cnxid_mem s1 b)"
        "nb_local_cnxid_expired s' = nb_local_cnxid_expired s1" "active_connection_id_limit s' = active_connection_id_limit s1"
        "key_malloc env \<and> next_alloc (by_id s) \<noteq> None \<longrightarrow> ret = 0 \<and> first_cnx_id (cnxid_mem s' a) = [cnxid_key s' a]"
      using register_new [OF assms(1) ok j(2) env(3,4), of s1 "key_malloc env"] by (auto simp: s1_def)
    have "picoquic_create_local_cnxid s env t = Some (Some a, s')"
      using Some r(1) c pos nonzero s'(1) by (simp add: picoquic_create_local_cnxid_def s1_def [symmetric])
    then show ?thesis using Some s' env(3) j(1) by (auto simp: s1_def)
  qed
qed

section \<open>Deletion keeps the invariant\<close>

lemma unregister_keeps:
  assumes s: "cnxids_ok s A" and a: "a \<in> set (local_cnxids s)"
    and new: "cs_quic s1 = cs_quic s" "cs_cnx s1 = cs_cnx s" "local_cnxids s1 = remove1 a (local_cnxids s)" "cnxid_mem s1 = cnxid_mem s"
  shows "\<exists>s' A'. unregister_cnxid s1 a = Some s' \<and> cnxids_ok s' A' \<and> local_cnxids s' = local_cnxids s1 \<and> cs_cnx s' = cs_cnx s1 \<and>
    nb_local_cnxid s' = nb_local_cnxid s1 \<and> (\<forall>b. cnxid_sequence (cnxid_mem s' b) = cnxid_sequence (cnxid_mem s b)) \<and>
    local_cnxid_sequence_next s' = local_cnxid_sequence_next s1 \<and> active_connection_id_limit s' = active_connection_id_limit s1 \<and>
    (first_cnx_id (cnxid_mem s a) \<noteq> [] \<longrightarrow> \<not> cnx_id.table.present (by_id s') A' (cnxid_key s a))"
proof -
  have t: "id_table (by_id s) A" "cnx_id.table.unique (by_id s) A" "listed_ok s A" "keys_ok s A" using s by (simp_all add: cnxids_ok_def)
  have ck: "cnxid_key s1 b = cnxid_key s b" for b by (simp add: cnxid_key_def new)
  have d: "distinct (local_cnxids s)" using t(3) by (simp add: listed_ok_def)
  have set: "set (local_cnxids s1) = set (local_cnxids s) - {a}" using d new(3) by simp
  have len: "0 < cid_len (lc_cnx_id (cnxid_mem s1 a))" using t(3) a new(4) by (simp add: listed_ok_def)
  consider "first_cnx_id (cnxid_mem s a) = []"
    | "first_cnx_id (cnxid_mem s a) = [cnxid_key s a]" "cnxid_key s a \<in> (\<lambda>i. item_key (hash_mem (by_id s) i)) ` A"
    using t(3) a by (auto simp: listed_ok_def)
  then show ?thesis
  proof cases
    case 1
    have "listed_ok s1 A" using t(3) d unfolding listed_ok_def ck set unfolding new by simp
    moreover have "keys_ok s1 A" using t(4) 1 unfolding keys_ok_def ck set unfolding new by fastforce
    ultimately have "cnxids_ok s1 A" using s new(1) by (simp add: cnxids_ok_def)
    then show ?thesis using 1 len new by (auto simp: unregister_cnxid_def)
  next
    case 2
    then obtain i where i: "i \<in> A" "item_key (hash_mem (by_id s) i) = cnxid_key s a" by auto
    have valid: "cid_array (ck_cnx_id (cnxid_key s a))" by (rule key_valid [OF t(3) a])
    have "picoquic_cnx_id_compare (cnxid_key s a) (item_key (hash_mem (by_id s) i)) = 0" using valid i(2) by (simp add: same_key_iff)
    then have found: "picohash_retrieve (by_id s) (cnxid_key s a) = Some (Some i)"
      using cnx_id.table.lookup_unique [OF t(1,2) i(1)] valid by blast
    obtain t' where t': "picohash_delete_item (by_id s) i True = Some t'" "id_table t' (A - {i})" "cnx_id.table.unique t' (A - {i})"
      "\<forall>b\<in>A. item_key (hash_mem t' b) = item_key (hash_mem (by_id s) b)"
      "\<not> cnx_id.table.present t' (A - {i}) (cnxid_key s a)"
      using cnx_id.table.remove_present [OF t(1,2) i(1)] valid i(2) by (force simp: same_key_iff)
    define s' where "s' = s1\<lparr>cs_quic := (cs_quic s1)\<lparr>table_cnx_by_id := t'\<rparr>,
                    cnxid_mem := (cnxid_mem s1)(a := (cnxid_mem s1 a)\<lparr>first_cnx_id := []\<rparr>)\<rparr>"
    have run: "unregister_cnxid s1 a = Some s'" using len 2(1) found t'(1) by (simp add: unregister_cnxid_def new s'_def)
    have ck': "cnxid_key s' b = cnxid_key s b" for b by (simp add: s'_def cnxid_key_def new)
    have ba: "by_id s' = t'" "local_cnxids s' = local_cnxids s1" "cs_cnx s' = cs_cnx s"
      "\<And>b. b \<noteq> a \<Longrightarrow> cnxid_mem s' b = cnxid_mem s b" by (simp_all add: s'_def new)
    have "listed_ok s' (A - {i})" unfolding listed_ok_def ba set
    proof (intro conjI ballI)
      show "distinct (local_cnxids s1)" using d new(3) by simp
      fix b assume b: "b \<in> set (local_cnxids s) - {a}"
      then have old: "cnxid_mem s' b = cnxid_mem s b" using ba(4) by simp
      have l: "cid_ok (lc_cnx_id (cnxid_mem s b))" "0 < cid_len (lc_cnx_id (cnxid_mem s b))"
        "first_cnx_id (cnxid_mem s b) = [] \<or> first_cnx_id (cnxid_mem s b) = [cnxid_key s b] \<and> cnxid_key s b \<in> (\<lambda>i. item_key (hash_mem (by_id s) i)) ` A"
        using t(3) b by (auto simp: listed_ok_def)
      show "cid_ok (lc_cnx_id (cnxid_mem s' b))" "0 < cid_len (lc_cnx_id (cnxid_mem s' b))" unfolding old by (rule l)+
      have "cnxid_key s b \<noteq> cnxid_key s a" using b by (auto simp: cnxid_key_def)
      then show "first_cnx_id (cnxid_mem s' b) = [] \<or> first_cnx_id (cnxid_mem s' b) = [cnxid_key s' b] \<and>
          cnxid_key s' b \<in> (\<lambda>i. item_key (hash_mem t' i)) ` (A - {i})"
        unfolding old ck' using l(3) i(2) t'(4) by (auto simp: image_iff)
    qed
    moreover have "keys_ok s' (A - {i})" unfolding keys_ok_def ba set ck'
    proof (intro ballI impI)
      fix j assume j: "j \<in> A - {i}" "ck_cnx (item_key (hash_mem t' j)) = cs_cnx s"
      then have kj: "item_key (hash_mem t' j) = item_key (hash_mem (by_id s) j)" "j \<in> A" "j \<noteq> i" using t'(4) by auto
      then obtain b where b: "b \<in> set (local_cnxids s)" "item_key (hash_mem (by_id s) j) = cnxid_key s b" "first_cnx_id (cnxid_mem s b) = [cnxid_key s b]"
        using t(4) j(2) by (auto simp: keys_ok_def)
      have "b \<noteq> a"
      proof
        assume "b = a"
        then have "picoquic_cnx_id_compare (item_key (hash_mem (by_id s) j)) (item_key (hash_mem (by_id s) i)) = 0"
          using b(2) i(2) valid by (simp add: same_key_iff)
        then show False using t(2) kj(2,3) i(1) by (auto simp: cnx_id.table.unique_def)
      qed
      then show "\<exists>b\<in>set (local_cnxids s) - {a}. item_key (hash_mem t' j) = cnxid_key s b \<and> first_cnx_id (cnxid_mem s' b) = [cnxid_key s b]"
        using b kj(1) ba(4) by (intro bexI [of _ b]) auto
    qed
    ultimately have "cnxids_ok s' (A - {i})" using s t'(2,3) by (simp add: cnxids_ok_def ba) (simp add: s'_def new)
    then show ?thesis using run t'(5) by (intro exI [of _ s'] exI [of _ "A - {i}"] conjI) (simp_all add: s'_def new)
  qed
qed

lemma delete_keeps:
  assumes "cnxids_ok s A" "a \<in> set (local_cnxids s)"
  shows "\<exists>s' A'. picoquic_delete_local_cnxid s a = Some s' \<and> cnxids_ok s' A' \<and> local_cnxids s' = remove1 a (local_cnxids s) \<and>
    cs_cnx s' = cs_cnx s \<and> nb_local_cnxid s' = nb_local_cnxid s - 1 \<and>
    (\<forall>b. cnxid_sequence (cnxid_mem s' b) = cnxid_sequence (cnxid_mem s b)) \<and>
    local_cnxid_sequence_next s' = local_cnxid_sequence_next s \<and> active_connection_id_limit s' = active_connection_id_limit s \<and>
    (first_cnx_id (cnxid_mem s a) \<noteq> [] \<longrightarrow> \<not> cnx_id.table.present (by_id s') A' (cnxid_key s a))"
proof -
  define s1 where "s1 = s\<lparr>cs_paths := map (forget_cnxid a) (cs_paths s), nb_local_cnxid := nb_local_cnxid s - 1,
               local_cnxids := remove1 a (local_cnxids s)\<rparr>"
  obtain s2 A' where s2: "unregister_cnxid s1 a = Some s2" "cnxids_ok s2 A'" "local_cnxids s2 = local_cnxids s1" "cs_cnx s2 = cs_cnx s1"
    "nb_local_cnxid s2 = nb_local_cnxid s1" "\<forall>b. cnxid_sequence (cnxid_mem s2 b) = cnxid_sequence (cnxid_mem s b)"
    "local_cnxid_sequence_next s2 = local_cnxid_sequence_next s1" "active_connection_id_limit s2 = active_connection_id_limit s1"
    "first_cnx_id (cnxid_mem s a) \<noteq> [] \<longrightarrow> \<not> cnx_id.table.present (by_id s2) A' (cnxid_key s a)"
    using unregister_keeps [OF assms, of s1] by (auto simp: s1_def)
  have frame: "cnxids_ok (s2\<lparr>nb_local_cnxid_expired := e\<rparr>) A'" for e
    using s2(2) by (simp add: cnxids_ok_def listed_ok_def keys_ok_def cnxid_key_def)
  define s3 where "s3 = (if cnxid_sequence (cnxid_mem s2 a) < local_cnxid_retire_before s2 \<and> nb_local_cnxid_expired s2 > 0
           then s2\<lparr>nb_local_cnxid_expired := nb_local_cnxid_expired s2 - 1\<rparr> else s2)"
  have "picoquic_delete_local_cnxid s a = Some s3"
    using s2(1) assms(2) by (simp add: picoquic_delete_local_cnxid_def s1_def [symmetric] s3_def Let_def)
  moreover have "cnxids_ok s3 A'" using frame s2(2) by (simp add: s3_def)
  ultimately show ?thesis using s2 by (intro exI [of _ s3] exI [of _ A'] conjI) (simp_all add: s3_def s1_def)
qed


section \<open>Runs\<close>

text \<open>The items of a table are determined by it.\<close>

lemma chain_unique: "chain m p as \<Longrightarrow> chain m p bs \<Longrightarrow> as = bs"
proof (induction as arbitrary: p bs)
  case Nil
  then show ?case by (cases bs) auto
next
  case (Cons a as)
  then show ?case by (cases bs) auto
qed

lemma holds_items_unique:
  assumes "holds_items v h c t A" "holds_items v h c t B"
  shows "A = B"
proof -
  obtain as bs where l: "table_ok t as" "items_of as = A" "table_ok t bs" "items_of bs = B"
    using assms by (auto simp: holds_items_def)
  have "as = bs"
  proof (rule nth_equalityI)
    show "length as = length bs" using l by (simp add: table_ok_def)
    fix i assume "i < length as"
    then show "as ! i = bs ! i" using l chain_unique by (auto simp: table_ok_def) blast
  qed
  then show ?thesis using l by simp
qed

text \<open>
  The operations of the connection, in any order. A creation gets addresses that are not in use; so does each of
  the creations in a row by which a packet with announcements is prepared.
\<close>

coinductive envs_ok :: "cid_state \<Rightarrow> (nat \<Rightarrow> create_env) \<Rightarrow> nat \<Rightarrow> u64 \<Rightarrow> bool" where
  "id_table (by_id s) A \<Longrightarrow> env_ok s A (envs i) \<Longrightarrow>
   (\<And>a s'. picoquic_create_local_cnxid s (envs i) t = Some (Some a, s') \<Longrightarrow> envs_ok s' envs (Suc i) t) \<Longrightarrow> envs_ok s envs i t"

inductive_cases envs_okE: "envs_ok s envs i t"

inductive cid_step :: "cid_state \<Rightarrow> cid_state \<Rightarrow> bool" where
  create: "id_table (by_id s) A \<Longrightarrow> env_ok s A env \<Longrightarrow> picoquic_create_local_cnxid s env t = Some (r, s') \<Longrightarrow> cid_step s s'"
| delete: "a \<in> set (local_cnxids s) \<Longrightarrow> picoquic_delete_local_cnxid s a = Some s' \<Longrightarrow> cid_step s s'"
| retire: "picoquic_decode_retire_connection_id_frame s bytes path_x = Some (r, s') \<Longrightarrow> cid_step s s'"
| expire: "picoquic_check_local_cnxid_ttl s t w = (s', w') \<Longrightarrow> cid_step s s'"

text \<open>
  \<open>cid_reach s0 k s\<close>: any sequence of these operations and of preparations of packets with
  announcements, of which there were \<open>k\<close>.
\<close>

inductive cid_reach :: "cid_state \<Rightarrow> nat \<Rightarrow> cid_state \<Rightarrow> bool" for s0 where
  start: "cid_reach s0 0 s0"
| step: "cid_reach s0 k s \<Longrightarrow> cid_step s s' \<Longrightarrow> cid_reach s0 k s'"
| announce: "cid_reach s0 k s \<Longrightarrow> envs_ok (fst (picoquic_check_local_cnxid_ttl s t w)) envs 0 t \<Longrightarrow>
    picoquic_format_new_local_id_as_needed make_secret s envs room t w = Some (bytes, s', w') \<Longrightarrow> cid_reach s0 (Suc k) s'"

text \<open>By how much the counter differs from the number of identifiers.\<close>

definition counts :: "nat \<Rightarrow> cid_state \<Rightarrow> bool" where
  "counts d s \<longleftrightarrow> nb_local_cnxid s + int d = int (length (local_cnxids s))"

lemma ttl_fold_fields:
  "local_cnxids (foldl (ttl_step t) s as) = local_cnxids s \<and> cnxid_mem (foldl (ttl_step t) s as) = cnxid_mem s \<and>
   cs_quic (foldl (ttl_step t) s as) = cs_quic s \<and> cs_cnx (foldl (ttl_step t) s as) = cs_cnx s \<and>
   nb_local_cnxid (foldl (ttl_step t) s as) = nb_local_cnxid s \<and>
   local_cnxid_ttl (foldl (ttl_step t) s as) = local_cnxid_ttl s \<and>
   local_cnxid_sequence_next (foldl (ttl_step t) s as) = local_cnxid_sequence_next s \<and>
   active_connection_id_limit (foldl (ttl_step t) s as) = active_connection_id_limit s"
  by (induction as arbitrary: s) (auto simp: ttl_step_def Let_def)

lemma cnxids_ok_cong:
  "cs_quic s' = cs_quic s \<Longrightarrow> cs_cnx s' = cs_cnx s \<Longrightarrow> local_cnxids s' = local_cnxids s \<Longrightarrow> cnxid_mem s' = cnxid_mem s \<Longrightarrow>
   cnxids_ok s' A = cnxids_ok s A"
  by (simp add: cnxids_ok_def listed_ok_def keys_ok_def cnxid_key_def)

lemma ttl_keeps:
  assumes "picoquic_check_local_cnxid_ttl s t w = (s', w')"
  shows "cnxids_ok s' A = cnxids_ok s A" "counts d s' = counts d s"
proof -
  have "cs_quic s' = cs_quic s \<and> cs_cnx s' = cs_cnx s \<and> local_cnxids s' = local_cnxids s \<and> cnxid_mem s' = cnxid_mem s \<and>
      nb_local_cnxid s' = nb_local_cnxid s"
    using assms by (auto simp: picoquic_check_local_cnxid_ttl_def ttl_fold_fields Let_def split: if_splits)
  then show "cnxids_ok s' A = cnxids_ok s A" "counts d s' = counts d s"
    using cnxids_ok_cong [of s' s] by (auto simp: counts_def)
qed

lemma delete_numbers:
  assumes "a \<in> set (local_cnxids s)" "counts d s" "nb_local_cnxid s' = nb_local_cnxid s - 1" "local_cnxids s' = remove1 a (local_cnxids s)"
  shows "counts d s'"
proof -
  have "0 < length (local_cnxids s)" using assms(1) by (auto intro: length_pos_if_in_set)
  then have "int (length (local_cnxids s) - 1) = int (length (local_cnxids s)) - 1" by linarith
  then show ?thesis using assms by (simp add: counts_def length_remove1)
qed

lemma retire_keeps:
  assumes "cnxids_ok s A" "counts d s"
  shows "\<exists>s' A'. picoquic_retire_local_cnxid s n = Some s' \<and> cnxids_ok s' A' \<and> counts d s'"
proof (cases "find (\<lambda>a. cnxid_sequence (cnxid_mem s a) = n) (local_cnxids s)")
  case None
  then show ?thesis using assms by (auto simp: picoquic_retire_local_cnxid_def)
next
  case (Some a)
  then have a: "a \<in> set (local_cnxids s)" by (auto simp: find_Some_iff)
  from delete_keeps [OF assms(1) this] show ?thesis
    using Some delete_numbers [OF a assms(2)] by (fastforce simp: picoquic_retire_local_cnxid_def)
qed

lemma decode_retire_keeps:
  assumes "cnxids_ok s A" "counts d s"
  shows "\<exists>r s' A'. picoquic_decode_retire_connection_id_frame s bytes path_x = Some (r, s') \<and> cnxids_ok s' A' \<and> counts d s'"
proof -
  have e: "cnxids_ok (s\<lparr>cs_error := e\<rparr>) A \<and> counts d (s\<lparr>cs_error := e\<rparr>)" for e
    using assms cnxids_ok_cong [of "s\<lparr>cs_error := e\<rparr>" s] by (simp add: counts_def)
  show ?thesis
  proof (cases "picoquic_frames_varint_decode (tl bytes)")
    case None
    then show ?thesis using e by (auto simp: picoquic_decode_retire_connection_id_frame_def)
  next
    case (Some p)
    obtain n rest where p: "p = (n, rest)" by fastforce
    obtain s' A' where s': "picoquic_retire_local_cnxid s n = Some s'" "cnxids_ok s' A'" "counts d s'"
      using retire_keeps [OF assms] by blast
    show ?thesis using Some p e s' unfolding picoquic_decode_retire_connection_id_frame_def
      by (cases "n \<ge> local_cnxid_sequence_next s"; cases "\<exists>a\<in>set_option (p_local_cnxid path_x). n = cnxid_sequence (cnxid_mem s a)") auto
  qed
qed

lemma cid_step_keeps:
  assumes "cid_step s s'" "cnxids_ok s A" "counts d s"
  shows "\<exists>A'. cnxids_ok s' A' \<and> counts d s'"
  using assms(1)
proof cases
  case (create B env t r)
  have "id_table (by_id s) A" using assms(2) by (simp add: cnxids_ok_def)
  with create(1) have "B = A" by (rule holds_items_unique)
  then obtain r' s'' A' where c: "picoquic_create_local_cnxid s env t = Some (r', s'')" "cnxids_ok s'' A'"
    "case r' of None \<Rightarrow> s'' = s | Some a \<Rightarrow> local_cnxids s'' = local_cnxids s @ [a] \<and> nb_local_cnxid s'' = nb_local_cnxid s + 1"
    using create_keeps [OF assms(2), of env t] create(2) by (fastforce split: option.splits)
  then show ?thesis using create(3) assms(3) by (auto simp: counts_def split: option.splits)
next
  case (delete a)
  then show ?thesis using delete_keeps [OF assms(2) delete(1)] delete_numbers [OF delete(1) assms(3)] by fastforce
next
  case (retire bytes path_x r)
  then show ?thesis using decode_retire_keeps [OF assms(2,3), of bytes path_x] by auto
next
  case (expire t w w')
  then show ?thesis using ttl_keeps [OF expire] assms(2,3) by blast
qed

lemma delete_sequence_next: "cnxids_ok (s\<lparr>local_cnxid_sequence_next := n, nb_local_cnxid := m\<rparr>) A = cnxids_ok s A"
  using cnxids_ok_cong [of "s\<lparr>local_cnxid_sequence_next := n, nb_local_cnxid := m\<rparr>" s] by simp

text \<open>
  One identifier is created and its frame does not fit: the list is as before, and the counter is one lower.
\<close>

lemma created_and_deleted:
  assumes "cnxids_ok s A" "env_ok s A env" "picoquic_create_local_cnxid s env t = Some (Some a, s1)"
  shows "\<exists>s2 A'. picoquic_delete_local_cnxid s1 a = Some s2 \<and> cnxids_ok s2 A' \<and> local_cnxids s2 = local_cnxids s \<and>
    nb_local_cnxid s2 = nb_local_cnxid s \<and> local_cnxid_sequence_next s2 = local_cnxid_sequence_next s + 1 \<and>
    active_connection_id_limit s2 = active_connection_id_limit s"
proof -
  obtain A1 where c: "cnxids_ok s1 A1" "active_connection_id_limit s1 = active_connection_id_limit s" "l_cid_malloc env = Some a"
    "local_cnxids s1 = local_cnxids s @ [a]" "nb_local_cnxid s1 = nb_local_cnxid s + 1"
    "local_cnxid_sequence_next s1 = local_cnxid_sequence_next s + 1"
    using create_keeps [OF assms(1,2), of t] assms(3) by auto
  have "a \<notin> set (local_cnxids s)" using assms(2) c(3) by (auto simp: env_ok_def)
  then have "remove1 a (local_cnxids s @ [a]) = local_cnxids s" by (simp add: remove1_append)
  then show ?thesis using delete_keeps [OF c(1), of a] c by auto
qed

text \<open>The loop ends, because the counter rises to the limit or a frame does not fit.\<close>

lemma new_id_loop_keeps:
  assumes "cnxids_ok s A" "counts d s" "envs_ok s envs i t"
  shows "\<exists>bs s' A' d'. new_id_loop make_secret s envs i room bytes t = Some (bs, s') \<and> cnxids_ok s' A' \<and> counts d' s' \<and>
    d \<le> d' \<and> d' \<le> d + 1"
  using assms
proof (induction "nat (active_connection_id_limit s + nb_local_cnxid_expired s - nb_local_cnxid s)"
    arbitrary: s A i room bytes rule: less_induct)
  case less
  show ?case
  proof (cases "nb_local_cnxid s < active_connection_id_limit s + nb_local_cnxid_expired s \<and>
         nb_local_cnxid s \<le> PICOQUIC_NB_PATH_TARGET + nb_local_cnxid_expired s")
    case False
    then have "new_id_loop make_secret s envs i room bytes t = Some (bytes, s)" by (subst new_id_loop.simps) (simp only: if_False)
    then show ?thesis using less.prems by fastforce
  next
    case True
    from less.prems(3) obtain B where B: "id_table (by_id s) B" "env_ok s B (envs i)"
      and next_ok: "\<And>a s'. picoquic_create_local_cnxid s (envs i) t = Some (Some a, s') \<Longrightarrow> envs_ok s' envs (Suc i) t"
      by (rule envs_okE) blast
    have "id_table (by_id s) A" using less.prems(1) by (simp add: cnxids_ok_def)
    with B(1) have "B = A" by (rule holds_items_unique)
    with B(2) have env: "env_ok s A (envs i)" by simp
    obtain r s1 A1 where c: "picoquic_create_local_cnxid s (envs i) t = Some (r, s1)" "cnxids_ok s1 A1"
      "active_connection_id_limit s1 = active_connection_id_limit s" "nb_local_cnxid_expired s1 = nb_local_cnxid_expired s"
      "case r of None \<Rightarrow> s1 = s | Some a \<Rightarrow> local_cnxids s1 = local_cnxids s @ [a] \<and> nb_local_cnxid s1 = nb_local_cnxid s + 1"
      using create_keeps [OF less.prems(1) env, of t] by (force split: option.splits)
    show ?thesis
    proof (cases r)
      case None
      then have "new_id_loop make_secret s envs i room bytes t = Some (bytes, s)"
        using True c(1,5) by (subst new_id_loop.simps) simp
      then show ?thesis using less.prems by fastforce
    next
      case (Some a)
      obtain bs md where f: "picoquic_format_new_connection_id_frame make_secret room (local_cnxid_retire_before s1) (cnxid_mem s1 a) = (bs, md)"
        by fastforce
      show ?thesis
      proof (cases "bs = []")
        case True': True
        obtain s2 A2 where s2: "picoquic_delete_local_cnxid s1 a = Some s2" "cnxids_ok s2 A2" "local_cnxids s2 = local_cnxids s"
          "nb_local_cnxid s2 = nb_local_cnxid s"
          using created_and_deleted [OF less.prems(1) env c(1) [unfolded Some]] by blast
        define s3 where "s3 = s2\<lparr>local_cnxid_sequence_next := local_cnxid_sequence_next s2 - 1, nb_local_cnxid := nb_local_cnxid s2 - 1\<rparr>"
        have "new_id_loop make_secret s envs i room bytes t = Some (bytes, s3)"
          using True c(1) Some f True' s2(1) by (subst new_id_loop.simps) (simp add: s3_def)
        moreover have "cnxids_ok s3 A2" using s2(2) by (simp add: s3_def delete_sequence_next)
        moreover have "counts (d + 1) s3" using less.prems(2) s2(3,4) by (simp add: s3_def counts_def)
        ultimately show ?thesis by fastforce
      next
        case False
        have "new_id_loop make_secret s envs i room bytes t = new_id_loop make_secret s1 envs (Suc i) (room - length bs) (bytes @ bs) t"
          using True c(1) Some f False by (subst new_id_loop.simps) simp
        moreover have "counts d s1" using less.prems(2) c(5) Some by (simp add: counts_def)
        moreover have "envs_ok s1 envs (Suc i) t" using next_ok c(1) Some by simp
        moreover have "nat (active_connection_id_limit s1 + nb_local_cnxid_expired s1 - nb_local_cnxid s1) <
            nat (active_connection_id_limit s + nb_local_cnxid_expired s - nb_local_cnxid s)"
          using True c(3-5) Some by simp
        ultimately show ?thesis using less.hyps [of s1 A1 "Suc i" "room - length bs" "bytes @ bs"] c(2) by simp
      qed
    qed
  qed
qed

lemma announce_keeps:
  assumes "cnxids_ok s A" "counts d s" "envs_ok (fst (picoquic_check_local_cnxid_ttl s t w)) envs 0 t"
  shows "\<exists>bs s' w' A' d'. picoquic_format_new_local_id_as_needed make_secret s envs room t w = Some (bs, s', w') \<and>
    cnxids_ok s' A' \<and> counts d' s' \<and> d \<le> d' \<and> d' \<le> d + 1"
proof -
  obtain s1 w1 where t: "picoquic_check_local_cnxid_ttl s t w = (s1, w1)" by fastforce
  then have "cnxids_ok s1 A" "counts d s1" "envs_ok s1 envs 0 t" using ttl_keeps [OF t] assms by simp_all
  from new_id_loop_keeps [OF this, of make_secret room "[]"] show ?thesis
    by (auto simp: picoquic_format_new_local_id_as_needed_def t)
qed

lemma cid_reach_keeps:
  assumes "cid_reach s0 k s" "cnxids_ok s0 A" "counts d s0"
  shows "\<exists>A' d'. cnxids_ok s A' \<and> counts d' s \<and> d \<le> d' \<and> d' \<le> d + k"
  using assms(1)
proof induction
  case start
  then show ?case using assms(2,3) by auto
next
  case (step k s s')
  then show ?case using cid_step_keeps by blast
next
  case (announce k s t w envs make_secret room bytes s' w')
  then obtain A1 d1 where "cnxids_ok s A1" "counts d1 s" "d \<le> d1" "d1 \<le> d + k" by blast
  with announce_keeps [OF this(1,2) announce.hyps(2), of make_secret room] announce.hyps(3) show ?case by fastforce
qed

section \<open>Frames that announce an identifier\<close>

lemma new_cid_fields_Some:
  assumes "new_connection_id_fields room retire l = Some bs"
  shows "\<exists>b1 b2 b3 b4. picoquic_frames_uint8_encode room new_connection_id_frame_type = Some b1 \<and>
    picoquic_frames_varint_encode (room - length b1) (cnxid_sequence l) = Some b2 \<and>
    picoquic_frames_varint_encode (room - length b1 - length b2) retire = Some b3 \<and>
    picoquic_frames_cid_encode (room - length b1 - length b2 - length b3) (lc_cnx_id l) = Some b4 \<and>
    length (b1 @ b2 @ b3 @ b4) + 16 \<le> room \<and> bs = b1 @ b2 @ b3 @ b4"
  using assms unfolding new_connection_id_fields_def bind_eq_Some_conv Let_def
  by (elim exE conjE) (metis not_less option.distinct(1) option.inject)

lemma new_cid_frame_parsed:
  assumes "picoquic_format_new_connection_id_frame make_secret room retire l = (bs, md)" "bs \<noteq> []"
    and l: "cid_ok (lc_cnx_id l)" "unat (cnxid_sequence l) < 2 ^ 62" "unat retire < 2 ^ 62" "length (make_secret (lc_cnx_id l)) = 16"
  shows "length bs \<le> room \<and> \<not> md \<and> picoquic_parse_new_connection_id_frame (bs @ rest) =
    Some (cnxid_sequence l, retire, cid_bytes (lc_cnx_id l), make_secret (lc_cnx_id l), rest)"
proof -
  define c where "c = lc_cnx_id l"
  obtain bs0 where bs0: "new_connection_id_fields room retire l = Some bs0" "bs = bs0 @ make_secret c" "\<not> md"
    using assms(1,2) by (auto simp: picoquic_format_new_connection_id_frame_def c_def split: if_splits option.splits)
  from new_cid_fields_Some [OF bs0(1)] bs0(2)
  obtain b1 b2 b3 b4 where b: "picoquic_frames_uint8_encode room new_connection_id_frame_type = Some b1"
    "picoquic_frames_varint_encode (room - length b1) (cnxid_sequence l) = Some b2"
    "picoquic_frames_varint_encode (room - length b1 - length b2) retire = Some b3"
    "picoquic_frames_cid_encode (room - length b1 - length b2 - length b3) c = Some b4"
    "length (b1 @ b2 @ b3 @ b4) + 16 \<le> room" "bs = b1 @ b2 @ b3 @ b4 @ make_secret c"
    unfolding c_def by auto
  have small: "take_bit 62 x = x" if "unat x < 2 ^ 62" for x :: u64
  proof -
    have "x < 2 ^ 62" using that by (simp add: word_less_nat_alt)
    then show ?thesis by (rule word_less_take_bit)
  qed
  have seq: "picoquic_frames_varint_decode (b2 @ r) = Some (cnxid_sequence l, r)" for r
    using frames_varint_roundtrip [OF b(2), of r] small [OF l(2)] by simp
  have ret: "picoquic_frames_varint_decode (b3 @ r) = Some (retire, r)" for r
    using frames_varint_roundtrip [OF b(3), of r] small [OF l(3)] by simp
  have n: "unat (cid_len c) \<le> 20" "length (cid_bytes c) = unat (cid_len c)"
    using l(1) cid_bytes_length [OF l(1)] by (simp_all add: cid_ok_def c_def)
  have "b4 = cid_len c # cid_bytes c"
  proof -
    have u: "unat (of_nat (unat (cid_len c)) :: u64) = unat (cid_len c)" using n by (intro of_nat_inverse) simp_all
    then have lt: "(of_nat (unat (cid_len c)) :: u64) < 64" using n by (simp add: word_less_nat_alt)
    have "(of_nat (unat (cid_len c)) :: u64) < 16384" using lt by (rule order.strict_trans) simp
    moreover have "(ucast (of_nat (unat (cid_len c)) :: u64) :: u8) = cid_len c"
      by (simp, rule bit_word_eqI) (auto simp: bit_simps)
    ultimately have "picoquic_frames_varlen_encode r (of_nat (unat (cid_len c))) = (if 1 \<le> r then Some [cid_len c] else None)" for r
      using lt by (simp only: picoquic_frames_varlen_encode_def picoquic_frames_varint_encode_def if_True)
    then show ?thesis
      using b(4) by (auto simp: picoquic_frames_cid_encode_def picoquic_frames_length_data_encode_def cid_bytes_def split: if_splits)
  qed
  moreover have "b1 = [new_connection_id_frame_type]" using b(1) by (auto simp: picoquic_frames_uint8_encode_def split: if_splits)
  moreover have "unat (ucast (cid_len c) + 16 :: u64) = unat (cid_len c) + 16" using n(1)
    by (simp add: unat_word_ariths unsigned_ucast_eq take_bit_nat_eq_self)
  ultimately show ?thesis
    using b(5,6) bs0(3) seq ret n l(4) unfolding c_def [symmetric]
    by (simp add: picoquic_parse_new_connection_id_frame_def picoquic_frames_uint8_decode_def picoquic_frames_fixed_skip_def)
qed

text \<open>A frame that announces an identifier takes at least twenty bytes.\<close>

lemma new_cid_frame_too_long:
  assumes "room < 20"
  shows "\<exists>md. picoquic_format_new_connection_id_frame make_secret room retire l = ([], md)"
proof -
  have "new_connection_id_fields room retire l = None" if "0 < cid_len (lc_cnx_id l)"
  proof (rule ccontr)
    assume "new_connection_id_fields room retire l \<noteq> None"
    then obtain bs where "new_connection_id_fields room retire l = Some bs" by blast
    from new_cid_fields_Some [OF this] obtain b1 b2 b3 b4 where b:
      "picoquic_frames_uint8_encode room new_connection_id_frame_type = Some b1"
      "picoquic_frames_varint_encode (room - length b1) (cnxid_sequence l) = Some b2"
      "picoquic_frames_varint_encode (room - length b1 - length b2) retire = Some b3"
      "picoquic_frames_cid_encode (room - length b1 - length b2 - length b3) (lc_cnx_id l) = Some b4"
      "length (b1 @ b2 @ b3 @ b4) + 16 \<le> room" by blast
    have "1 \<le> length b1" using b(1) by (auto simp: picoquic_frames_uint8_encode_def split: if_splits)
    moreover have "1 \<le> length b2" "1 \<le> length b3"
      using b(2,3) by (auto simp: picoquic_frames_varint_encode_def split: if_splits)
    moreover have "1 \<le> length b4" using b(4)
      by (auto simp: picoquic_frames_cid_encode_def picoquic_frames_length_data_encode_def picoquic_frames_varlen_encode_def
          picoquic_frames_varint_encode_def word_less_nat_alt split: if_splits option.splits)
    ultimately show False using b(5) assms by simp
  qed
  then show ?thesis by (auto simp: picoquic_format_new_connection_id_frame_def)
qed

text \<open>A packet with too little room for the frame.\<close>

lemma tight_packet:
  assumes "cnxids_ok s A" "picoquic_check_local_cnxid_ttl s t w = (s1, w1)" "env_ok s1 A (envs 0)"
    "picoquic_create_local_cnxid s1 (envs 0) t = Some (Some a, s2)" "room < 20"
    "nb_local_cnxid s1 < active_connection_id_limit s1 + nb_local_cnxid_expired s1"
    "nb_local_cnxid s1 \<le> PICOQUIC_NB_PATH_TARGET + nb_local_cnxid_expired s1"
  shows "\<exists>s' A'. picoquic_format_new_local_id_as_needed make_secret s envs room t w = Some ([], s', w1) \<and> cnxids_ok s' A' \<and>
    local_cnxids s' = local_cnxids s \<and> nb_local_cnxid s' = nb_local_cnxid s - 1 \<and>
    local_cnxid_sequence_next s' = local_cnxid_sequence_next s \<and> active_connection_id_limit s' = active_connection_id_limit s"
proof -
  have s1: "cnxids_ok s1 A" using ttl_keeps [OF assms(2)] assms(1) by simp
  have same: "local_cnxids s1 = local_cnxids s" "nb_local_cnxid s1 = nb_local_cnxid s"
    "local_cnxid_sequence_next s1 = local_cnxid_sequence_next s" "active_connection_id_limit s1 = active_connection_id_limit s"
    using assms(2) by (auto simp: picoquic_check_local_cnxid_ttl_def ttl_fold_fields Let_def split: if_splits)
  obtain s3 A' where s3: "picoquic_delete_local_cnxid s2 a = Some s3" "cnxids_ok s3 A'" "local_cnxids s3 = local_cnxids s1"
    "nb_local_cnxid s3 = nb_local_cnxid s1" "local_cnxid_sequence_next s3 = local_cnxid_sequence_next s1 + 1"
    "active_connection_id_limit s3 = active_connection_id_limit s1"
    using created_and_deleted [OF s1 assms(3,4)] by blast
  obtain md where f: "picoquic_format_new_connection_id_frame make_secret room (local_cnxid_retire_before s2) (cnxid_mem s2 a) = ([], md)"
    using new_cid_frame_too_long [OF assms(5)] by blast
  define s4 where "s4 = s3\<lparr>local_cnxid_sequence_next := local_cnxid_sequence_next s3 - 1, nb_local_cnxid := nb_local_cnxid s3 - 1\<rparr>"
  have "new_id_loop make_secret s1 envs 0 room [] t = Some ([], s4)"
    using assms(4,6,7) f s3(1) by (subst new_id_loop.simps) (simp add: s4_def)
  moreover have "cnxids_ok s4 A'" using s3(2) by (simp add: s4_def delete_sequence_next)
  ultimately show ?thesis using s3(3-6) same
    by (intro exI [of _ s4] exI [of _ A']) (simp add: picoquic_format_new_local_id_as_needed_def assms(2) s4_def)
qed

end
