(* ===== verification/LocalCidProps.thy ===== *)
theory LocalCidProps
  imports LocalCids PacketProps
begin

text \<open>The properties of the identifiers that an endpoint issues.\<close>

section \<open>Concrete values\<close>

definition example_ids :: "cnx_id_key picohash_table" where
  "example_ids = the (picohash_create True (map Some [100..<120]) (no_item \<lparr>ck_cnx_id = example_cid, ck_cnx = 0, ck_l_cid = None\<rparr>) 8
     picoquic_cnx_id_hash picoquic_cnx_id_compare)"

lemma example_ids_holds: "id_table example_ids {}"
proof (rule holds_items_create [of 8])
  show "picohash_create True (map Some [100..<120]) (no_item \<lparr>ck_cnx_id = example_cid, ck_cnx = 0, ck_l_cid = None\<rparr>) 8
     picoquic_cnx_id_hash picoquic_cnx_id_compare = Some example_ids"
    by (simp add: example_ids_def picohash_create_def)
qed simp_all

text \<open>A connection that has no identifier yet; its peer accepts two.\<close>

definition example_issuer :: cid_state where
  "example_issuer = \<lparr>cs_quic = example_quic example_ids, cs_cnx = 5, local_cnxid_ttl = 1000000,
     cnxid_mem = (\<lambda>_. \<lparr>first_cnx_id = [], cnxid_sequence = 0, create_time = 0, lc_cnx_id = example_cid\<rparr>),
     local_cnxids = [], local_cnxid_sequence_next = 0, nb_local_cnxid = 0, nb_local_cnxid_expired = 0,
     local_cnxid_retire_before = 0, local_cnxid_oldest_created = 0, active_connection_id_limit = 2, cs_paths = [],
     cs_next_wake_time = 0, cs_error = None\<rparr>"

definition numbered_cid :: "nat \<Rightarrow> connection_id" where
  "numbered_cid n = \<lparr>cid_id = [1, 2, 3, of_nat n] @ replicate 16 0, cid_len = 4\<rparr>"

definition example_env :: "nat \<Rightarrow> create_env" where
  "example_env n = \<lparr>l_cid_malloc = Some n, key_malloc = True, proposal = (\<lambda>i. numbered_cid n)\<rparr>"

lemma numbered_cid_ok: "cid_ok (numbered_cid n)" "0 < cid_len (numbered_cid n)"
  by (simp_all add: numbered_cid_def cid_ok_def)

lemma example_issuer_ok: "cnxids_ok example_issuer {}" "counts 0 example_issuer" "env_ok example_issuer {} (example_env n)"
  using example_ids_holds
  by (simp_all add: cnxids_ok_def listed_ok_def keys_ok_def counts_def env_ok_def cnx_id.table.unique_def example_issuer_def
      example_quic_def example_env_def numbered_cid_ok)

section \<open>Routing\<close>

text \<open>
  C11: whatever sequence of creations, deletions, retirements by the peer, expirations and preparations of packets with
  announcements a connection goes through, the table of identifiers and the connection agree. A packet that the
  table directs to this connection carries an identifier that is still in the list of the connection, and comes
  with the item of the list that holds it, never with an item that was freed. The counter of
  identifiers never exceeds the length of the list and lags behind it by at most one for each of the \<open>k\<close> packets with
  announcements; without any it is exact. (It lags when an announcement does not fit in its packet, as the property about
  the limit shows.) Memory that is allocated is not in use at that time.
\<close>

theorem packets_reach_listed_cnxid:
  assumes "cid_reach s0 k s" "cnxids_ok s0 A" "counts 0 s0" "cid_ok c"
  shows "nb_local_cnxid s \<le> int (length (local_cnxids s)) \<and> int (length (local_cnxids s)) \<le> nb_local_cnxid s + int k \<and>
    distinct (local_cnxids s) \<and>
    (\<exists>p l. picoquic_cnx_by_id (cs_quic s) c = Some (p, l) \<and>
      (p = Some (cs_cnx s) \<longrightarrow> (\<exists>a\<in>set (local_cnxids s). l = Some a \<and> lc_cnx_id (cnxid_mem s a) = c)))"
proof -
  obtain A' d where A': "cnxids_ok s A'" "counts d s" "d \<le> k" using cid_reach_keeps [OF assms(1-3)] by auto
  obtain p l where "picoquic_cnx_by_id (cs_quic s) c = Some (p, l)"
    using lookup_cnx [OF A'(1) cid_ok_array [OF assms(4)]] by blast
  then show ?thesis using A' lookup_listed [OF A'(1) assms(4)] by (auto simp: counts_def cnxids_ok_def listed_ok_def)
qed

text \<open>A packet with too little room is prepared; memory is given out for the item only.\<close>

definition tight_envs :: "nat \<Rightarrow> create_env" where
  "tight_envs i = \<lparr>l_cid_malloc = (if i = 0 then Some 2 else None), key_malloc = False, proposal = (\<lambda>i. numbered_cid 2)\<rparr>"

lemma create_without_key:
  assumes "picoquic_create_local_cnxid s env t = Some (Some a, s')" "\<not> key_malloc env"
  shows "cs_quic s' = cs_quic s"
  using assms by (auto simp: picoquic_create_local_cnxid_def picoquic_register_cnx_id_def Let_def
      split: Option.bind_splits option.splits if_splits)

lemma tight_envs_ok: "envs_ok (fst (picoquic_check_local_cnxid_ttl example_issuer 10 0)) tight_envs 0 10"
proof -
  have t: "fst (picoquic_check_local_cnxid_ttl example_issuer 10 0) = example_issuer"
    by (simp add: picoquic_check_local_cnxid_ttl_def example_issuer_def)
  have id: "id_table (by_id example_issuer) {}" using example_ids_holds by (simp add: example_issuer_def example_quic_def)
  have env: "env_ok s {} (tight_envs i)" if "local_cnxids s = [] \<or> 0 < i" for s i
    using that by (auto simp: env_ok_def tight_envs_def numbered_cid_ok)
  have "l_cid_malloc (tight_envs (Suc 0)) = None" by (simp add: tight_envs_def)
  then have stop: "picoquic_create_local_cnxid s (tight_envs (Suc 0)) 10 = Some (None, s)" for s by (simp add: picoquic_create_local_cnxid_def)
  have "envs_ok s tight_envs (Suc 0) 10" if "picoquic_create_local_cnxid example_issuer (tight_envs 0) 10 = Some (Some a, s)" for a s
  proof (rule envs_ok.intros [of _ "{}"])
    show "id_table (by_id s) {}" using create_without_key [OF that] id by (simp add: tight_envs_def)
    show "env_ok s {} (tight_envs (Suc 0))" by (rule env) simp
  qed (simp add: stop)
  note later = this
  have first: "env_ok example_issuer {} (tight_envs 0)" by (rule env) (simp add: example_issuer_def)
  have "envs_ok example_issuer tight_envs 0 10" by (rule envs_ok.intros [where envs = tight_envs and i = 0, OF id first]) (rule later)
  then show ?thesis unfolding t .
qed

theorem packets_reach_listed_cnxid_witness:
  "\<exists>s. cid_reach example_issuer 1 s \<and> nb_local_cnxid s \<le> int (length (local_cnxids s)) \<and>
    int (length (local_cnxids s)) \<le> nb_local_cnxid s + 1 \<and>
    (\<exists>p l. picoquic_cnx_by_id (cs_quic s) (numbered_cid 1) = Some (p, l) \<and>
      (p = Some (cs_cnx s) \<longrightarrow> (\<exists>a\<in>set (local_cnxids s). l = Some a \<and> lc_cnx_id (cnxid_mem s a) = numbered_cid 1)))"
proof -
  obtain bs s w where "picoquic_format_new_local_id_as_needed (\<lambda>_. replicate 16 7) example_issuer tight_envs 5 10 0 = Some (bs, s, w)"
    using announce_keeps [OF example_issuer_ok(1,2) tight_envs_ok, of "\<lambda>_. replicate 16 7" 5] by blast
  then have "cid_reach example_issuer (Suc 0) s" by (rule cid_reach.announce [OF cid_reach.start tight_envs_ok])
  from packets_reach_listed_cnxid [OF this example_issuer_ok(1,2) numbered_cid_ok(1), of 1] this show ?thesis by auto
qed

text \<open>
  C13: an identifier that was created and registered receives packets until it is deleted. Right after
  the creation the table directs packets with it to the connection and to the new item; after the
  deletion no connection is found for it.
\<close>

theorem cnxid_lifetime:
  assumes "cnxids_ok s A" "env_ok s A env" "key_malloc env" "next_alloc (by_id s) \<noteq> None"
    "picoquic_create_local_cnxid s env t = Some (Some a, s')"
  shows "picoquic_cnx_by_id (cs_quic s') (lc_cnx_id (cnxid_mem s' a)) = Some (Some (cs_cnx s), Some a) \<and>
    (\<exists>s''. picoquic_delete_local_cnxid s' a = Some s'' \<and>
       fst (the (picoquic_cnx_by_id (cs_quic s'') (lc_cnx_id (cnxid_mem s' a)))) = None)"
proof -
  obtain A' where s': "cnxids_ok s' A'" "local_cnxids s' = local_cnxids s @ [a]" "first_cnx_id (cnxid_mem s' a) = [cnxid_key s' a]"
    "cs_cnx s' = cs_cnx s"
    using create_keeps [OF assms(1,2), of t] assms(3-5) by auto
  have a: "a \<in> set (local_cnxids s')" using s'(2) by simp
  let ?c = "lc_cnx_id (cnxid_mem s' a)"
  have ok: "cid_ok ?c" "cid_array ?c" using s'(1) a by (auto simp: cnxids_ok_def listed_ok_def cid_ok_array)
  have t: "id_table (by_id s') A'" "cnx_id.table.unique (by_id s') A'" "listed_ok s' A'" using s'(1) by (simp_all add: cnxids_ok_def)
  then obtain i where i: "i \<in> A'" "item_key (hash_mem (by_id s') i) = cnxid_key s' a"
    using a s'(3) by (auto simp: listed_ok_def)
  have cmp: "picoquic_cnx_id_compare \<lparr>ck_cnx_id = ?c, ck_cnx = 0, ck_l_cid = None\<rparr> l = picoquic_cnx_id_compare (cnxid_key s' a) l" for l
    by (simp add: picoquic_cnx_id_compare_def cnxid_key_def)
  have same: "picoquic_cnx_id_compare (cnxid_key s' a) (cnxid_key s' a) = 0" using ok(2) by (simp add: same_key_iff cnxid_key_def)
  have "picohash_retrieve (by_id s') \<lparr>ck_cnx_id = ?c, ck_cnx = 0, ck_l_cid = None\<rparr> = Some (Some i)"
    using cnx_id.table.lookup_unique [OF t(1,2) i(1)] i(2) cmp same ok(2) by simp
  then have "picoquic_cnx_by_id (cs_quic s') ?c = Some (Some (cs_cnx s), Some a)"
    using i(2) s'(4) by (simp add: picoquic_cnx_by_id_def cnxid_key_def)
  moreover obtain s'' A'' where d: "picoquic_delete_local_cnxid s' a = Some s''" "cnxids_ok s'' A''"
    "\<not> cnx_id.table.present (by_id s'') A'' (cnxid_key s' a)"
    using delete_keeps [OF s'(1) a] s'(3) by auto
  moreover obtain p l where p: "picoquic_cnx_by_id (cs_quic s'') ?c = Some (p, l)"
    "p \<noteq> None \<longrightarrow> (\<exists>j\<in>A''. picoquic_cnx_id_compare (cnxid_key s' a) (item_key (hash_mem (by_id s'') j)) = 0)"
    using lookup_cnx [OF d(2) ok(2)] unfolding cmp by (force split: option.splits)
  moreover have "p = None" using p(2) d(3) by (auto simp: cnx_id.table.present_def)
  ultimately show ?thesis by simp
qed

theorem cnxid_lifetime_witness:
  "\<exists>s' s''. picoquic_create_local_cnxid example_issuer (example_env 1) 0 = Some (Some 1, s') \<and>
    picoquic_cnx_by_id (cs_quic s') (lc_cnx_id (cnxid_mem s' 1)) = Some (Some 5, Some 1) \<and>
    picoquic_delete_local_cnxid s' 1 = Some s''"
proof -
  have "map_option fst (picoquic_create_local_cnxid example_issuer (example_env 1) 0) = Some (Some 1)" by code_simp
  then obtain s' where c: "picoquic_create_local_cnxid example_issuer (example_env 1) 0 = Some (Some 1, s')" by auto
  have "key_malloc (example_env 1)" "next_alloc (by_id example_issuer) \<noteq> None" "cs_cnx example_issuer = 5"
    by (simp_all add: example_env_def example_issuer_def example_quic_def example_ids_def picohash_create_def next_alloc_def)
  then show ?thesis using c cnxid_lifetime [OF example_issuer_ok(1,3) _ _ c] by auto
qed

section \<open>Announcements\<close>

text \<open>
  C36: the frame that announces an identifier is read back by the receiver: the sequence number, the
  number before which identifiers are to be retired, the identifier, the reset secret and the bytes
  behind the frame. The frame never takes more room than there is.
\<close>

theorem new_connection_id_roundtrip:
  assumes "picoquic_format_new_connection_id_frame make_secret room retire l = (bs, md)" "bs \<noteq> []"
    "cid_ok (lc_cnx_id l)" "unat (cnxid_sequence l) < 2 ^ 62" "unat retire < 2 ^ 62" "length (make_secret (lc_cnx_id l)) = 16"
  shows "length bs \<le> room \<and> \<not> md \<and> picoquic_parse_new_connection_id_frame (bs @ rest) =
    Some (cnxid_sequence l, retire, cid_bytes (lc_cnx_id l), make_secret (lc_cnx_id l), rest)"
  by (rule new_cid_frame_parsed [OF assms])

theorem new_connection_id_roundtrip_witness:
  "picoquic_parse_new_connection_id_frame
    (([0x18, 0x40, 0x46, 1, 4, 1, 2, 3, 4] @ replicate 16 7) @ [5]) =
   Some (70, 1, [1, 2, 3, 4], replicate 16 7, [5])"
proof -
  define l where "l = \<lparr>first_cnx_id = [], cnxid_sequence = 70, create_time = 0, lc_cnx_id = example_cid\<rparr>"
  have f: "picoquic_format_new_connection_id_frame (\<lambda>_. replicate 16 7) 60 1 l =
    ([0x18, 0x40, 0x46, 1, 4, 1, 2, 3, 4] @ replicate 16 7, False)"
    by (simp add: l_def picoquic_format_new_connection_id_frame_def new_connection_id_fields_def picoquic_frames_uint8_encode_def
        picoquic_frames_varint_encode_def picoquic_frames_cid_encode_def picoquic_frames_length_data_encode_def
        picoquic_frames_varlen_encode_def example_cid_def)
  from new_connection_id_roundtrip [OF f, of "[5]"] show ?thesis
    by (simp add: l_def example_cid_ok)
qed

section \<open>The limit of the peer\<close>

text \<open>
  C37: an announcement that does not fit spoils the counter of identifiers. Whatever the state of a
  connection, when fewer identifiers are counted than the peer accepts and an identifier can be created, a packet with room for
  less than twenty bytes leaves the list of identifiers as it is, announces nothing and lowers the counter by one: the
  deletion of the identifier that could not be announced has already taken it off the counter, and the caller takes off another
  one. The state is again a good one, so that every further such packet lowers the counter once more, and the
  identifiers in use may exceed the limit by the number of these packets.
\<close>

theorem cnxid_counted_down_twice:
  assumes "cnxids_ok s A" "picoquic_check_local_cnxid_ttl s t w = (s1, w1)" "env_ok s1 A (envs 0)"
    "picoquic_create_local_cnxid s1 (envs 0) t = Some (Some a, s2)" "room < 20"
    "nb_local_cnxid s1 < active_connection_id_limit s1 + nb_local_cnxid_expired s1"
    "nb_local_cnxid s1 \<le> PICOQUIC_NB_PATH_TARGET + nb_local_cnxid_expired s1"
  shows "\<exists>s' A'. picoquic_format_new_local_id_as_needed make_secret s envs room t w = Some ([], s', w1) \<and> cnxids_ok s' A' \<and>
    local_cnxids s' = local_cnxids s \<and> nb_local_cnxid s' = nb_local_cnxid s - 1 \<and>
    local_cnxid_sequence_next s' = local_cnxid_sequence_next s \<and> active_connection_id_limit s' = active_connection_id_limit s"
  by (rule tight_packet) (fact assms)+

theorem cnxid_counted_down_twice_witness:
  "\<exists>s' w. picoquic_format_new_local_id_as_needed (\<lambda>_. replicate 16 7) example_issuer (\<lambda>_. example_env 2) 19 10 0 = Some ([], s', w) \<and>
     local_cnxids s' = [] \<and> nb_local_cnxid s' = -1"
proof -
  have t: "picoquic_check_local_cnxid_ttl example_issuer 10 0 = (example_issuer, snd (picoquic_check_local_cnxid_ttl example_issuer 10 0))"
    by (simp add: picoquic_check_local_cnxid_ttl_def example_issuer_def)
  have "map_option fst (picoquic_create_local_cnxid example_issuer (example_env 2) 10) = Some (Some 2)" by code_simp
  then obtain s2 where c: "picoquic_create_local_cnxid example_issuer (example_env 2) 10 = Some (Some 2, s2)" by auto
  have i: "nb_local_cnxid example_issuer = 0" "active_connection_id_limit example_issuer = 2" "nb_local_cnxid_expired example_issuer = 0"
    "local_cnxids example_issuer = []" by (simp_all add: example_issuer_def)
  from cnxid_counted_down_twice [where envs = "\<lambda>_. example_env 2" and room = 19 and make_secret = "\<lambda>_. replicate 16 7",
      OF example_issuer_ok(1) t example_issuer_ok(3) c] i
  show ?thesis by auto
qed

text \<open>
  A connection with one identifier, whose peer accepts two, that meets two packets with little room left, and then one with
  enough, ends up with four identifiers in use while it counts two.
\<close>

definition three_packets :: "(u8 list \<times> cid_state) option" where
  "three_packets = do {
     (r, s) \<leftarrow> picoquic_create_local_cnxid example_issuer (example_env 50) 0;
     (b1, s, w) \<leftarrow> picoquic_format_new_local_id_as_needed (\<lambda>_. replicate 16 7) s (\<lambda>i. example_env (60 + i)) 5 10 0;
     (b2, s, w) \<leftarrow> picoquic_format_new_local_id_as_needed (\<lambda>_. replicate 16 7) s (\<lambda>i. example_env (70 + i)) 5 20 0;
     (b3, s, w) \<leftarrow> picoquic_format_new_local_id_as_needed (\<lambda>_. replicate 16 7) s (\<lambda>i. example_env (80 + i)) 200 30 0;
     Some (b1 @ b2 @ b3, s)
   }"

lemma three_packets_exceed:
  "map_option (\<lambda>(bytes, s). (length bytes, length (local_cnxids s), nb_local_cnxid s, active_connection_id_limit s)) three_packets =
   Some (72, 4, 2, 2)"
  by code_simp

end
