(* ===== verification/Spec2Isabelle.thy ===== *)
theory Spec2Isabelle
  imports FrameSkip SackProps FairQueuing TonopahProps StreamTheorems CidSet IssuedTickets TokenReuse TestRandom PacketProps LocalCidProps
begin

text \<open>
  This library verifies a part of picoquic, a C implementation of QUIC, together with the two
  congestion controllers that this repository adds to it. All paths are relative to \<open>src\<close>.

  \<^bold>\<open>The program.\<close> An incoming UDP payload is split into packets by \<open>picoquic/packet.c\<close>: the header is parsed,
  the connection is looked up by its connection identifier in the hash tables of \<open>picoquic/quicctx.c\<close>, the
  header protection is removed, the packet number is completed from the numbers received so far
  (\<open>picoquic/sacks.c\<close>), and the frames of the packet are handed to \<open>picoquic/frames.c\<close>. STREAM frames go through
  flow control and reassembly, which keeps the chunks in a splay tree (\<open>picoquic/picosplay.c\<close>), to the
  application. In the other direction \<open>picoquic/sender.c\<close> asks the congestion controller of the path how much
  it may send and the pacer when, builds frames, predicts and writes the header, and protects the packet.
  Acknowledgements, losses and round trip times are notified to the congestion controller:
  \<open>picoquic/newreno.c\<close>, \<open>picoquic/tonopah.c\<close> or \<open>picoquic/new_tonopah.c\<close>. The last two send the same data
  over two paths with unequal windows and compare the rates at which the paths deliver; equal rates in spite of
  unequal windows mean that a queue on the way shares its capacity between flows, and the controller then
  shrinks the window.

  \<^bold>\<open>Conventions.\<close> A definition bears the name of the C function, type or macro that it translates; a loop or
  a block of a long function that got its own definition is named in the text before it. Integers are words of
  their C width, with wrap-around; \<open>int\<close> counters are unbounded integers. A \<open>struct\<close> is a record, an
  enumeration a datatype. Memory that is shared through pointers is a map from addresses to nodes. A C statement that has
  no meaning (NULL dereference, \<open>abort\<close>, a failed assertion, a read outside an object, a conversion of a double that does
  not fit) makes the result \<open>None\<close>, and the properties show that this cannot happen, or when it can. Allocation takes its
  result from the state or from an argument, so that failures of \<open>malloc\<close> are covered.

  \<^bold>\<open>Theories.\<close>

  \<^item> \<open>Prelude\<close>: words, faults, lists. \<open>IntFormat\<close> (\<open>intformat.c\<close>) and \<open>FrameCodec\<close> (\<open>util.c\<close>): integers of fixed and
    variable length, and the readers and writers of frame fields, with round trips and safety.

  \<^item> \<open>FrameSkip\<close> (\<open>frames.c\<close>): the functions that skip a frame of any type and the parsers without state. Every
    call on a non-empty packet advances and stays inside the packet.

  \<^item> \<open>Splay\<close>, \<open>SplayShape\<close>, \<open>SplayLaws\<close>, \<open>SortedStore\<close> (\<open>picosplay.c\<close>): rotations, splaying, insertion, deletion
    and iteration on a memory of nodes with parent links. The locale \<open>SortedStore\<close> states the contract of a sorted store;
    it is interpreted on the pointer program, and the clients below rest on it.

  \<^item> \<open>Sacks\<close>, \<open>SackFacts\<close>, \<open>SackUpdate\<close>, \<open>SackProps\<close> (\<open>sacks.c\<close>): the ranges of received packet numbers implement a set of
    numbers with a horizon; duplicates are recognised, the counters that choose the ranges of an ACK frame are exact.

  \<^item> \<open>Doubles\<close>, \<open>DoubleFacts\<close>, \<open>DoubleRange\<close>: IEEE binary64 with rounding to nearest, as rational numbers.
    \<open>CcCommon\<close> (\<open>cc_common.c\<close>): the filter of round trip times and the tests that end slow start. \<open>Pacing\<close>, \<open>PacingRate\<close>
    (\<open>sender.c\<close>): the leaky bucket. \<open>NewReno\<close>, \<open>NewRenoProps\<close> (\<open>newreno.c\<close>).

  \<^item> \<open>TwoPaths\<close>, \<open>NewTonopah\<close>, \<open>NewTonopahFacts\<close>, \<open>NewTonopahProps\<close>, \<open>FairQueuing\<close> (\<open>new_tonopah.c\<close>) and \<open>Tonopah\<close>,
    \<open>TonopahProps\<close> (\<open>tonopah.c\<close>): every notification the controllers handle, with the list of measurement intervals, the
    detection of fair queuing, the reaction to it and the split of the window. Safety is shown over all
    states that are reachable from the initialisation by any notifications in the ranges named there, up to the one
    division by an empty window that the code allows; the growth of the window is that of New Reno, where losses are
    not ignored.

  \<^item> \<open>StreamData\<close>, \<open>Streams\<close>, \<open>StreamInput\<close> with \<open>StreamFacts\<close>, \<open>StreamDelivery\<close>, \<open>StreamProps\<close>, \<open>StreamCredit\<close>,
    \<open>Reassembly\<close>, \<open>StreamTheorems\<close> (\<open>frames.c\<close>, \<open>quicctx.c\<close>): the streams of a connection, and every
    frame by which the peer acts on them. The abstract stream is a function from offsets to bytes; delivery in order, flow
    control and the identifiers are shown for any sequence of frames, the end of the stream for any sequence whose FIN bits agree.

  \<^item> \<open>Picohash\<close>, \<open>PicohashLaws\<close> (\<open>picohash.c\<close>): the locale for a table of keys, interpreted on the bins of linked items for
    each key type that the program uses. \<open>ConnectionIds\<close> (\<open>util.c\<close>, \<open>quicctx.c\<close>): identifiers, addresses, keys.
    \<open>DoublyLinked\<close>: lists with links in both directions. \<open>CidSet\<close> (\<open>loglib/cidset.c\<close>), \<open>IssuedTickets\<close> and \<open>TokenReuse\<close> (\<open>quicctx.c\<close>), \<open>TestRandom\<close> (\<open>util.c\<close>): clients of the
    table and of the splay tree, and the generator of the tests.

  \<^item> \<open>Packets\<close>, \<open>PacketFacts\<close>, \<open>PacketRoundtrip\<close>, \<open>HeaderProtection\<close>, \<open>LongHeader\<close>, \<open>HeaderTransport\<close>, \<open>ShortTransport\<close>,
    \<open>PacketProps\<close> (\<open>packet.c\<close>, \<open>sender.c\<close>, \<open>quicctx.c\<close>, \<open>spinbit.c\<close>): headers are written, predicted, protected, parsed,
    uncovered; what one endpoint sends, the other one reads.

  \<^item> \<open>LocalCids\<close>, \<open>LocalCidProps\<close> (\<open>quicctx.c\<close>, \<open>sender.c\<close>, \<open>frames.c\<close>): the identifiers that an endpoint issues, as a step
    relation over creation, deletion, retirement, expiry and announcement, with the invariant that ties the list of a connection to the hash
    table.

  \<^bold>\<open>Loops and bounds.\<close> Loops along pointers are \<open>partial_function (option)\<close>, so that a run that does not end is \<open>None\<close>; each
  is shown to return from every state that satisfies the invariant. Loops over arrays and counters are recursive functions
  on lists or natural numbers. The only bound that is not in a data structure is the 32 attempts of
  \<open>picoquic_create_local_cnxid\<close>, which are those of the code. The ranges of times, window sizes and packet sizes under which the
  congestion controllers are shown safe are stated with each property.

  \<^bold>\<open>Parameters.\<close> The authenticated encryption and the cipher of the header protection are fields of records, because they come
  from picotls; the properties assume only that a sealed text has the length of the plain text and a tag, and that the two
  sides compute the same mask. The reset secret, random numbers and callbacks of the application are arguments.

  \<^bold>\<open>Not modelled.\<close> The TLS interface (\<open>tls_api.c\<close>), sockets, logging, file input and output, HTTP and the tests; packet
  contents, retransmission and connection states in \<open>sender.c\<close>; the processing of packets behind the header in
  \<open>packet.c\<close>; sending on streams, path and multipath frames in \<open>frames.c\<close>; creation of connections, migration and the
  wake list in \<open>quicctx.c\<close>; the congestion controllers Cubic, BBR and FastCC of picoquic. They need the record of the whole connection
  with its TLS context, or only move data to the outside.
\<close>

end
